(* ===== verification/VBox_Prelude.thy ===== *)
theory VBox_Prelude
  imports Main "HOL-Library.Word" "HOL-Library.AList"
begin

text \<open>
  Shared vocabulary of the development: the machine integers and the byte, character and
  string types of the Rust sources, the arithmetic of the Rust standard library that the
  components use (checked, saturating and big-endian operations on words, \<open>chunks\<close> on
  slices), the generic lemmas on lists and runs of state machines, and the locale of
  state machines with an invariant.

  Rust's \<open>u8\<close> ... \<open>u64\<close> are words of that width, \<open>i32\<close> is a 32-bit word read with
  \<open>sint\<close>, \<open>usize\<close> is \<open>nat\<close> (a 64-bit target: no length in the program comes near
  \<open>2 ^ 64\<close>), a \<open>char\<close> is its Unicode scalar value and a \<open>String\<close> the list of its
  characters. \<open>ascii\<close> turns an Isabelle string literal into such a string and
  \<open>utf8_len\<close> is Rust's \<open>len\<close>, which counts UTF-8 bytes.
\<close>

unbundle bit_operations_syntax

section \<open>Types\<close>

type_synonym u8 = "8 word"
type_synonym u16 = "16 word"
type_synonym u32 = "32 word"
type_synonym u64 = "64 word"
type_synonym i32 = "32 word"
type_synonym uchar = nat
type_synonym ustring = "uchar list"

named_theorems word_nat "unsigned words read as natural numbers"
named_theorems step_inv "operations that keep a component's invariant"

section \<open>Characters and strings\<close>

definition ascii :: "string \<Rightarrow> ustring" where
  "ascii s = map of_char s"

definition is_scalar :: "nat \<Rightarrow> bool" where
  "is_scalar c \<longleftrightarrow> c < 0xD800 \<or> (0xE000 \<le> c \<and> c < 0x110000)"

definition utf8_width :: "uchar \<Rightarrow> nat" where
  "utf8_width c = (if c < 0x80 then 1 else if c < 0x800 then 2 else if c < 0x10000 then 3 else 4)"

definition utf8_len :: "ustring \<Rightarrow> nat" where
  "utf8_len s = sum_list (map utf8_width s)"

definition utf8_char :: "uchar \<Rightarrow> u8 list" where
  "utf8_char c =
     (if c < 0x80 then [of_nat c]
      else if c < 0x800 then [of_nat (0xC0 + c div 64), of_nat (0x80 + c mod 64)]
      else if c < 0x10000 then
        [of_nat (0xE0 + c div 4096), of_nat (0x80 + c div 64 mod 64), of_nat (0x80 + c mod 64)]
      else [of_nat (0xF0 + c div 262144), of_nat (0x80 + c div 4096 mod 64),
        of_nat (0x80 + c div 64 mod 64), of_nat (0x80 + c mod 64)])"

definition as_bytes :: "ustring \<Rightarrow> u8 list" where
  "as_bytes s = concat (map utf8_char s)"

definition to_ascii_lowercase :: "ustring \<Rightarrow> ustring" where
  "to_ascii_lowercase s = map (\<lambda>c. if 0x41 \<le> c \<and> c \<le> 0x5A then c + 32 else c) s"

lemma length_utf8_char: "length (utf8_char c) = utf8_width c"
  by (simp add: utf8_char_def utf8_width_def)

lemma length_as_bytes: "length (as_bytes s) = utf8_len s"
  by (simp add: as_bytes_def utf8_len_def length_concat comp_def length_utf8_char)

section \<open>Unsigned arithmetic of the standard library\<close>

definition saturating_add :: "'a::len word \<Rightarrow> 'a word \<Rightarrow> 'a word" where
  "saturating_add a b = (if unat a + unat b < 2 ^ LENGTH('a) then a + b else - 1)"

definition saturating_sub :: "'a::len word \<Rightarrow> 'a word \<Rightarrow> 'a word" where
  "saturating_sub a b = (if b \<le> a then a - b else 0)"

definition checked_mul :: "'a::len word \<Rightarrow> 'a word \<Rightarrow> 'a word option" where
  "checked_mul a b = (if unat a * unat b < 2 ^ LENGTH('a) then Some (a * b) else None)"

definition div_ceil :: "nat \<Rightarrow> nat \<Rightarrow> nat" where
  "div_ceil a b = (if a mod b = 0 then a div b else a div b + 1)"

definition u32_try_from :: "nat \<Rightarrow> u32 option" where
  "u32_try_from n = (if n < 2 ^ 32 then Some (of_nat n) else None)"

lemma unat_max [word_nat]: "unat (max a b) = max (unat a) (unat b)" for a b :: "'a::len word"
  by (simp add: max_def word_le_nat_alt)

lemma unat_min [word_nat]: "unat (min a b) = min (unat a) (unat b)" for a b :: "'a::len word"
  by (simp add: min_def word_le_nat_alt)

lemma unat_lt_len: "unat (a :: 'a::len word) < 2 ^ LENGTH('a)"
  by (rule unsigned_less)

lemma unat_minus_one_word: "unat (- 1 :: 'a::len word) = 2 ^ LENGTH('a) - 1"
  by (simp add: unsigned_minus_1_eq_mask mask_eq_exp_minus_1)

lemma unat_saturating_add [word_nat]:
  "unat (saturating_add a b) = min (unat a + unat b) (2 ^ LENGTH('a) - 1)"
  for a b :: "'a::len word"
  by (auto simp: saturating_add_def unat_minus_one_word unat_word_ariths)

lemma unat_saturating_sub [word_nat]:
  "unat (saturating_sub a b) = unat a - unat b" for a b :: "'a::len word"
  by (auto simp: saturating_sub_def unat_sub word_le_nat_alt)

lemma checked_mul_Some [word_nat]:
  "checked_mul a b = Some c \<longleftrightarrow> unat a * unat b < 2 ^ LENGTH('a) \<and> c = a * b"
  for a b c :: "'a::len word"
  by (auto simp: checked_mul_def)

lemma unat_mult_no_overflow:
  "unat a * unat b < 2 ^ LENGTH('a) \<Longrightarrow> unat (a * b) = unat a * unat b"
  for a b :: "'a::len word"
  by (simp add: unat_word_ariths)

lemma unat_add_no_overflow:
  "unat a + unat b < 2 ^ LENGTH('a) \<Longrightarrow> unat (a + b) = unat a + unat b"
  for a b :: "'a::len word"
  by (simp add: unat_word_ariths)

lemma u32_try_from_Some [word_nat]:
  "u32_try_from n = Some w \<longleftrightarrow> n < 2 ^ 32 \<and> w = of_nat n"
  by (auto simp: u32_try_from_def)

lemma u32_try_from_None [word_nat]: "u32_try_from n = None \<longleftrightarrow> 2 ^ 32 \<le> n"
  by (auto simp: u32_try_from_def)

lemma unat_of_nat32 [word_nat]: "n < 2 ^ 32 \<Longrightarrow> unat (of_nat n :: u32) = n"
  by (simp add: unat_of_nat take_bit_nat_eq_self)

section \<open>Signed arithmetic of the standard library\<close>

definition i32_max :: int where
  "i32_max = 2147483647"

definition i32_of :: "int \<Rightarrow> i32" where
  "i32_of k = word_of_int (max (- i32_max - 1) (min k i32_max))"

definition i32_saturating_add :: "i32 \<Rightarrow> i32 \<Rightarrow> i32" where
  "i32_saturating_add a b = i32_of (sint a + sint b)"

definition i32_saturating_neg :: "i32 \<Rightarrow> i32" where
  "i32_saturating_neg a = i32_of (- sint a)"

definition i32_clamp :: "i32 \<Rightarrow> i32 \<Rightarrow> i32 \<Rightarrow> i32" where
  "i32_clamp x lo hi = (if sint x < sint lo then lo else if sint x > sint hi then hi else x)"

definition u32_to_i32_saturating :: "u32 \<Rightarrow> i32" where
  "u32_to_i32_saturating value = min value 0x7FFFFFFF"

section \<open>Big-endian bytes\<close>

definition u16_to_be :: "u16 \<Rightarrow> u8 list" where
  "u16_to_be x = [ucast (drop_bit 8 x), ucast x]"

definition u16_from_be :: "u8 list \<Rightarrow> u16" where
  "u16_from_be bs = foldl (\<lambda>acc b. push_bit 8 acc OR ucast b) 0 bs"

definition u32_to_be :: "u32 \<Rightarrow> u8 list" where
  "u32_to_be x = [ucast (drop_bit 24 x), ucast (drop_bit 16 x), ucast (drop_bit 8 x), ucast x]"

definition u32_from_be :: "u8 list \<Rightarrow> u32" where
  "u32_from_be bs = foldl (\<lambda>acc b. push_bit 8 acc OR ucast b) 0 bs"

lemma length_u16_to_be [simp]: "length (u16_to_be x) = 2"
  by (simp add: u16_to_be_def)

lemma length_u32_to_be [simp]: "length (u32_to_be x) = 4"
  by (simp add: u32_to_be_def)

lemma u16_be_roundtrip [simp]: "u16_from_be (u16_to_be x) = x"
  by (rule bit_word_eqI) (auto simp: u16_to_be_def u16_from_be_def bit_simps)

lemma u32_be_roundtrip [simp]: "u32_from_be (u32_to_be x) = x"
proof (rule bit_word_eqI)
  fix n
  assume n: "n < LENGTH(32)"
  consider "n < 8" | "8 \<le> n" "n < 16" | "16 \<le> n" "n < 24" | "24 \<le> n"
    by linarith
  then show "bit (u32_from_be (u32_to_be x)) n = bit x n"
    using n by cases (auto simp: u32_to_be_def u32_from_be_def bit_simps)
qed

lemma u8_no_high_bit: "8 \<le> k \<Longrightarrow> \<not> bit (b :: u8) (k + n)"
  by (auto dest: bit_imp_le_length)

lemma u32_to_from_be: "length bs = 4 \<Longrightarrow> u32_to_be (u32_from_be bs) = bs"
proof -
  assume "length bs = 4"
  then obtain a b c d where bs: "bs = [a, b, c, d]"
    by (auto simp: numeral_eq_Suc length_Suc_conv)
  show ?thesis
    unfolding bs u32_to_be_def u32_from_be_def
    by (auto intro!: bit_word_eqI simp: bit_simps u8_no_high_bit)
qed

lemma u16_to_from_be: "length bs = 2 \<Longrightarrow> u16_to_be (u16_from_be bs) = bs"
proof -
  assume "length bs = 2"
  then obtain a b where bs: "bs = [a, b]"
    by (auto simp: numeral_eq_Suc length_Suc_conv)
  show ?thesis
    unfolding bs u16_to_be_def u16_from_be_def
    by (auto intro!: bit_word_eqI simp: bit_simps u8_no_high_bit)
qed


section \<open>Slices\<close>

function chunks :: "nat \<Rightarrow> 'a list \<Rightarrow> 'a list list" where
  "chunks k xs = (if xs = [] \<or> k = 0 then [] else take k xs # chunks k (drop k xs))"
  by pat_completeness auto
termination
  by (relation "measure (\<lambda>(k, xs). length xs)") auto

declare chunks.simps [simp del]

lemma chunks_Nil [simp]: "chunks k [] = []"
  by (simp add: chunks.simps)

lemma concat_chunks: "0 < k \<Longrightarrow> concat (chunks k xs) = xs"
proof (induction k xs rule: chunks.induct)
  case (1 k xs)
  then show ?case
    by (cases "xs = []") (simp_all add: chunks.simps [of k xs])
qed

lemma div_ceil_step:
  "0 < k \<Longrightarrow> 0 < n \<Longrightarrow> div_ceil n k = Suc (div_ceil (n - k) k)"
proof -
  assume k: "0 < k" and n: "0 < n"
  show ?thesis
  proof (cases "k \<le> n")
    case True
    then show ?thesis
      using k by (simp add: div_ceil_def le_mod_geq le_div_geq)
  next
    case False
    then show ?thesis
      using n by (simp add: div_ceil_def)
  qed
qed

lemma length_chunks: "0 < k \<Longrightarrow> length (chunks k xs) = div_ceil (length xs) k"
proof (induction k xs rule: chunks.induct)
  case (1 k xs)
  show ?case
  proof (cases "xs = []")
    case True
    then show ?thesis by (simp add: div_ceil_def)
  next
    case False
    with 1 have "length (chunks k (drop k xs)) = div_ceil (length xs - k) k"
      by simp
    with False 1 show ?thesis
      by (simp add: chunks.simps [of k xs] div_ceil_step)
  qed
qed

lemma chunks_length_le: "c \<in> set (chunks k xs) \<Longrightarrow> length c \<le> k \<and> 0 < length c"
proof (induction k xs rule: chunks.induct)
  case (1 k xs)
  then show ?case
    by (cases "xs = [] \<or> k = 0") (auto simp: chunks.simps [of k xs])
qed

section \<open>Runs of a state machine\<close>

text \<open>
  The components that keep state are step functions; a run folds the step over a list of
  events. The locale states the contract every one of them is shown to meet: a step keeps
  the invariant, hence so does every run, from every state that satisfies it.
\<close>

definition run :: "('s \<Rightarrow> 'e \<Rightarrow> 's) \<Rightarrow> 's \<Rightarrow> 'e list \<Rightarrow> 's" where
  "run step s es = foldl step s es"

lemma run_Nil [simp]: "run step s [] = s"
  by (simp add: run_def)

lemma run_Cons [simp]: "run step s (e # es) = run step (step s e) es"
  by (simp add: run_def)

lemma run_append: "run step s (es @ fs) = run step (run step s es) fs"
  by (simp add: run_def)

locale invariant_machine =
  fixes step :: "'s \<Rightarrow> 'e \<Rightarrow> 's"
    and inv :: "'s \<Rightarrow> bool"
  assumes step_keeps: "inv s \<Longrightarrow> inv (step s e)"
begin

lemma run_keeps: "inv s \<Longrightarrow> inv (run step s es)"
  by (induction es arbitrary: s) (auto intro: step_keeps)

lemma run_prefix_keeps: "inv s \<Longrightarrow> es = fs @ gs \<Longrightarrow> inv (run step s fs)"
  by (rule run_keeps)

end

section \<open>Association lists\<close>

text \<open>Hash maps whose size or iteration matters are association lists.\<close>

lemma set_update_snd:
  "snd ` set (AList.update k v p) \<subseteq> insert v (snd ` set p)"
  by (induction p) (auto split: if_splits)

lemma length_update:
  "length (AList.update k v p) = (if k \<in> fst ` set p then length p else Suc (length p))"
  by (induction p) auto

lemma length_delete_le: "length (AList.delete k p) \<le> length p"
  by (simp add: AList.delete_eq)

lemma update_fresh: "k \<notin> fst ` set p \<Longrightarrow> AList.update k v p = p @ [(k, v)]"
  by (induction p) auto

lemma delete_fresh: "k \<notin> fst ` set p \<Longrightarrow> AList.delete k p = p"
  by (induction p) auto

lemma delete_update_fresh: "k \<notin> fst ` set p \<Longrightarrow> AList.delete k (AList.update k v p) = p"
  by (induction p) auto

lemma set_delete_subset: "set (AList.delete k p) \<subseteq> set p"
  by (simp add: AList.delete_eq)

lemma update_last_entry:
  "k \<notin> fst ` set p \<Longrightarrow> AList.update k v (p @ [(k, w)]) = p @ [(k, v)]"
  by (induction p) auto

lemma delete_last_entry: "k \<notin> fst ` set p \<Longrightarrow> AList.delete k (p @ [(k, w)]) = p"
  by (induction p) auto

lemma map_of_last_entry: "k \<notin> fst ` set p \<Longrightarrow> map_of (p @ [(k, w)]) k = Some w"
  by (induction p) auto

lemma map_of_delete_other: "k \<noteq> j \<Longrightarrow> map_of (AList.delete j p) k = map_of p k"
  by (simp add: delete_conv')

lemma map_of_update_other: "k \<noteq> j \<Longrightarrow> map_of (AList.update j v p) k = map_of p k"
  by (simp add: update_conv')

lemma keys_delete: "map fst (AList.delete k p) = filter (\<lambda>x. x \<noteq> k) (map fst p)"
  by (induction p) auto

lemma fold_delete: "fold AList.delete ks p = filter (\<lambda>(k, _). k \<notin> set ks) p"
  by (induction ks arbitrary: p) (auto simp: AList.delete_eq intro!: filter_cong)

lemma map_update_same:
  "map_of p k = Some old \<Longrightarrow> f v = f old \<Longrightarrow>
     map (\<lambda>e. f (snd e)) (AList.update k v p) = map (\<lambda>e. f (snd e)) p"
  by (induction p) auto

lemma keys_update_same: "map_of p k = Some old \<Longrightarrow> map fst (AList.update k v p) = map fst p"
  by (induction p) auto

end
