(* ===== verification/Proto.thy ===== *)
theory Proto
  imports VBox_Prelude
begin

text \<open>
  The wire protocol, crate \<open>crates/proto\<close>: the message types of \<open>window.rs\<close>,
  \<open>input.rs\<close>, \<open>handshake.rs\<close>, \<open>data_plane.rs\<close>, \<open>rpc.rs\<close>, \<open>clipboard.rs\<close>,
  \<open>volume.rs\<close> and \<open>message.rs\<close>, and the frame codec of \<open>framing.rs\<close>.

  Structs are records, enums are datatypes with the source's constructors (the constructors
  of \<open>Kind\<close> and \<open>Message\<close> have the same names, so they are written \<open>Kind.Hello\<close> and
  \<open>Message.Hello\<close>, as in Rust). An \<open>f32\<close> is its IEEE bit pattern, since the protocol only
  carries it. The postcard serialiser is a third-party crate: its two functions are the
  parameters \<open>ser\<close> and \<open>de\<close> of the codec, and \<open>codec_ok\<close> is its documented round trip.

  A reader is a finite list of items, the bytes that arrive and the read timeouts in
  between; its end is the end of the connection. \<open>read_exact\<close> has the standard library's
  behaviour: bytes taken before a failure are gone.
\<close>

section \<open>Message types\<close>

datatype IpAddr = V4 "32 word" | V6 "128 word"

datatype SocketAddr = SocketAddrV4 "32 word" u16 | SocketAddrV6 "128 word" u16 u32 u32

record WindowGeometry =
  geom_x :: i32
  geom_y :: i32
  geom_w :: u32
  geom_h :: u32

datatype WindowEvent =
    Created u64 WindowGeometry ustring ustring
  | Configured u64 WindowGeometry
  | Destroyed u64
  | TitleChanged u64 ustring
  | Minimized u64
  | MoveRequested u64
  | FullscreenChanged u64 bool

datatype PixelEncoding = RawRgba | ZstdRgba

record FrameTile =
  tile_id :: u64
  tile_x :: u32
  tile_y :: u32
  tile_w :: u32
  tile_h :: u32
  tile_stride :: u32
  tile_encoding :: PixelEncoding
  tile_bytes :: "u8 list"

datatype InputButtonState = BtnPressed | BtnReleased

datatype InputKeyState = KeyPressed | KeyReleased

datatype InputEvent =
    PointerMotion u64 i32 i32
  | PointerButton u64 u32 InputButtonState
  | PointerScroll u64 i32 i32
  | Key u64 u32 InputKeyState
  | Text u64 ustring
  | Focus u64 bool
  | Resize u64 u32 u32
  | ToggleMaximize u64
  | SetFullscreen u64 bool
  | Close u64
  | Preedit u64 ustring i32 i32

record Hello =
  hello_version :: u16
  client_name :: ustring

record Welcome =
  welcome_version :: u16
  server_name :: ustring
  session_id :: u64

record Ping =
  ping_seq :: u64
  ping_stamp_ns :: u64

record Pong =
  pong_seq :: u64
  pong_stamp_ns :: u64

record ProtoError =
  err_code :: u16
  err_message :: ustring

record ViewRequest =
  socket_name :: ustring
  view_width :: u32
  view_height :: u32

datatype DataPlaneMode = TcpOnly | QuicOnly | Auto

record TransportCapabilities =
  reliable_streams :: bool
  datagrams :: bool
  multi_app_channels :: bool

definition capabilities_tcp :: TransportCapabilities where
  "capabilities_tcp = \<lparr>reliable_streams = True, datagrams = False, multi_app_channels = False\<rparr>"

definition capabilities_quic_phase1 :: TransportCapabilities where
  "capabilities_quic_phase1 =
     \<lparr>reliable_streams = True, datagrams = True, multi_app_channels = True\<rparr>"

record BootstrapBundle =
  tcp_addr :: SocketAddr
  quic_addr :: "SocketAddr option"
  session_token :: ustring
  quic_server_cert_sha256 :: "ustring option"
  capabilities :: TransportCapabilities

datatype DataPlaneChannelPurpose = WindowReliable

record DataPlaneChannel =
  dpc_channel_id :: u64
  dpc_purpose :: DataPlaneChannelPurpose

datatype RpcMethod =
    Authenticate ustring
  | Status
  | StartInstance ustring u16 bool "IpAddr option" "u16 option" "ustring option"
  | StopInstance ustring
  | LaunchApp ustring ustring "ustring list" u64
  | WaitSocket ustring u64
  | PrepareDataPlane "ustring option" SocketAddr "SocketAddr option" ustring

record InstanceSummary =
  sum_instance :: ustring
  sum_port :: u16
  sum_server_pid :: u32
  sum_app_pids :: "u32 list"

record StatusReply =
  daemon_pid :: u32
  instances_reply :: "InstanceSummary list"

datatype RpcOk =
    Authenticated
  | StatusOk StatusReply
  | InstanceStarted u32
  | InstanceStopped
  | AppLaunched u32
  | SocketReady
  | DataPlanePrepared BootstrapBundle

datatype RpcResult = RpcOk RpcOk | RpcErr ustring

record RpcRequest =
  req_id :: u64
  req_method :: RpcMethod

record RpcResponse =
  resp_id :: u64
  resp_result :: RpcResult

datatype ClipboardOrigin = Host | Guest

record Clipboard =
  clip_origin :: ClipboardOrigin
  clip_serial :: u64
  clip_text :: ustring

definition MAX_CLIPBOARD_TEXT_BYTES :: nat where
  "MAX_CLIPBOARD_TEXT_BYTES = 256 * 1024"

definition TEXT_MIME_TYPES :: "ustring list" where
  "TEXT_MIME_TYPES = [ascii ''text/plain;charset=utf-8'', ascii ''text/plain'',
     ascii ''UTF8_STRING'', ascii ''STRING'']"

definition starts_with :: "ustring \<Rightarrow> ustring \<Rightarrow> bool" where
  "starts_with s p \<longleftrightarrow> take (length p) s = p"

definition is_text_mime :: "ustring \<Rightarrow> bool" where
  "is_text_mime mime =
     (let lower = to_ascii_lowercase mime in
      if lower = ascii ''text/plain'' \<or> starts_with lower (ascii ''text/plain;'') then True
      else mime = ascii ''UTF8_STRING'' \<or> mime = ascii ''STRING'')"

record VolumeChange =
  vol_level :: u32
  vol_muted :: bool

section \<open>Messages and their kinds\<close>

datatype Kind =
    Hello | Welcome | Goodbye | ViewRequest | Ping | Pong | Error | DataPlaneAuth
  | DataPlaneChannel | WindowEvent | FrameTile | InputEvent | ImeEvent | RpcRequest
  | RpcResponse | Clipboard | VolumeChange

datatype Message =
    Hello Hello
  | Welcome Welcome
  | Goodbye (reason: ustring)
  | Ping Ping
  | Pong Pong
  | Error ProtoError
  | DataPlaneAuth (auth_token: ustring)
  | DataPlaneChannel DataPlaneChannel
  | ViewRequest ViewRequest
  | WindowEvent WindowEvent
  | FrameTile FrameTile
  | InputEvent InputEvent
  | RpcRequest RpcRequest
  | RpcResponse RpcResponse
  | Clipboard Clipboard
  | VolumeChange VolumeChange

fun kind :: "Message \<Rightarrow> Kind" where
  "kind (Message.Hello _) = Kind.Hello"
| "kind (Message.Welcome _) = Kind.Welcome"
| "kind (Message.Goodbye _) = Kind.Goodbye"
| "kind (Message.ViewRequest _) = Kind.ViewRequest"
| "kind (Message.Ping _) = Kind.Ping"
| "kind (Message.Pong _) = Kind.Pong"
| "kind (Message.Error _) = Kind.Error"
| "kind (Message.DataPlaneAuth _) = Kind.DataPlaneAuth"
| "kind (Message.DataPlaneChannel _) = Kind.DataPlaneChannel"
| "kind (Message.WindowEvent _) = Kind.WindowEvent"
| "kind (Message.FrameTile _) = Kind.FrameTile"
| "kind (Message.InputEvent _) = Kind.InputEvent"
| "kind (Message.RpcRequest _) = Kind.RpcRequest"
| "kind (Message.RpcResponse _) = Kind.RpcResponse"
| "kind (Message.Clipboard _) = Kind.Clipboard"
| "kind (Message.VolumeChange _) = Kind.VolumeChange"

fun kind_as_u32 :: "Kind \<Rightarrow> u32" where
  "kind_as_u32 Kind.Hello = 1"
| "kind_as_u32 Kind.Welcome = 2"
| "kind_as_u32 Kind.Goodbye = 3"
| "kind_as_u32 Kind.ViewRequest = 20"
| "kind_as_u32 Kind.Ping = 10"
| "kind_as_u32 Kind.Pong = 11"
| "kind_as_u32 Kind.Error = 90"
| "kind_as_u32 Kind.DataPlaneAuth = 91"
| "kind_as_u32 Kind.DataPlaneChannel = 92"
| "kind_as_u32 Kind.WindowEvent = 100"
| "kind_as_u32 Kind.FrameTile = 101"
| "kind_as_u32 Kind.InputEvent = 200"
| "kind_as_u32 Kind.ImeEvent = 201"
| "kind_as_u32 Kind.RpcRequest = 300"
| "kind_as_u32 Kind.RpcResponse = 301"
| "kind_as_u32 Kind.Clipboard = 400"
| "kind_as_u32 Kind.VolumeChange = 410"

definition kind_from_u32 :: "u32 \<Rightarrow> Kind option" where
  "kind_from_u32 n =
     (if n = 1 then Some Kind.Hello
      else if n = 2 then Some Kind.Welcome
      else if n = 3 then Some Kind.Goodbye
      else if n = 10 then Some Kind.Ping
      else if n = 11 then Some Kind.Pong
      else if n = 20 then Some Kind.ViewRequest
      else if n = 90 then Some Kind.Error
      else if n = 91 then Some Kind.DataPlaneAuth
      else if n = 92 then Some Kind.DataPlaneChannel
      else if n = 100 then Some Kind.WindowEvent
      else if n = 101 then Some Kind.FrameTile
      else if n = 200 then Some Kind.InputEvent
      else if n = 201 then Some Kind.ImeEvent
      else if n = 300 then Some Kind.RpcRequest
      else if n = 301 then Some Kind.RpcResponse
      else if n = 400 then Some Kind.Clipboard
      else if n = 410 then Some Kind.VolumeChange
      else None)"

section \<open>Byte streams\<close>

datatype io_error = WouldBlock | UnexpectedEof

datatype io_item = Byte u8 | Block

type_synonym io_stream = "io_item list"

fun read_exact :: "nat \<Rightarrow> io_stream \<Rightarrow> (io_error + u8 list) \<times> io_stream" where
  "read_exact 0 s = (Inr [], s)"
| "read_exact (Suc n) [] = (Inl UnexpectedEof, [])"
| "read_exact (Suc n) (Block # s) = (Inl WouldBlock, s)"
| "read_exact (Suc n) (Byte b # s) =
     (case read_exact n s of
        (Inr bs, s') \<Rightarrow> (Inr (b # bs), s')
      | (Inl e, s') \<Rightarrow> (Inl e, s'))"

datatype proto_error =
    Io io_error
  | BadMagic "u8 list"
  | VersionMismatch u16
  | SerializeError
  | FrameTooSmall u32
  | FrameTooBig nat
  | UnknownKind u32
  | DeserializeError
  | KindMismatch Kind Kind

section \<open>Framing\<close>

definition MAGIC :: "u8 list" where
  "MAGIC = [0x56, 0x42, 0x4F, 0x58]"

definition PROTOCOL_VERSION :: u16 where
  "PROTOCOL_VERSION = 15"

definition MAX_FRAME_BYTES :: u32 where
  "MAX_FRAME_BYTES = 64 * 1024 * 1024"

definition write_prelude :: "u8 list" where
  "write_prelude = MAGIC @ u16_to_be PROTOCOL_VERSION"

definition read_prelude :: "io_stream \<Rightarrow> (proto_error + u16) \<times> io_stream" where
  "read_prelude s0 =
     (case read_exact 4 s0 of
        (Inl e, s1) \<Rightarrow> (Inl (Io e), s1)
      | (Inr magic, s1) \<Rightarrow>
          if magic \<noteq> MAGIC then (Inl (BadMagic magic), s1)
          else
            (case read_exact 2 s1 of
               (Inl e, s2) \<Rightarrow> (Inl (Io e), s2)
             | (Inr ver_buf, s2) \<Rightarrow>
                 let ver = u16_from_be ver_buf in
                 if ver \<noteq> PROTOCOL_VERSION then (Inl (VersionMismatch ver), s2)
                 else (Inr ver, s2)))"

definition encode_frame :: "(Message \<Rightarrow> u8 list option) \<Rightarrow> Message \<Rightarrow> proto_error + u8 list" where
  "encode_frame ser msg =
     (case ser msg of
        None \<Rightarrow> Inl SerializeError
      | Some payload \<Rightarrow>
          let frame_len = length payload + 4 in
          if frame_len > unat MAX_FRAME_BYTES then Inl (FrameTooBig frame_len)
          else Inr (u32_to_be (of_nat frame_len) @ u32_to_be (kind_as_u32 (kind msg)) @ payload))"

definition decode_frame_payload ::
  "(u8 list \<Rightarrow> Message option) \<Rightarrow> Kind \<Rightarrow> u8 list \<Rightarrow> proto_error + Message" where
  "decode_frame_payload de k payload =
     (case de payload of
        None \<Rightarrow> Inl DeserializeError
      | Some msg \<Rightarrow> if kind msg \<noteq> k then Inl (KindMismatch k (kind msg)) else Inr msg)"

definition read_frame ::
  "(u8 list \<Rightarrow> Message option) \<Rightarrow> io_stream \<Rightarrow> (proto_error + Message) \<times> io_stream" where
  "read_frame de s0 =
     (case read_exact 4 s0 of
        (Inl e, s1) \<Rightarrow> (Inl (Io e), s1)
      | (Inr len_buf, s1) \<Rightarrow>
          let frame_len = u32_from_be len_buf in
          if frame_len < 4 then (Inl (FrameTooSmall frame_len), s1)
          else if frame_len > MAX_FRAME_BYTES then (Inl (FrameTooBig (unat frame_len)), s1)
          else
            (case read_exact 4 s1 of
               (Inl e, s2) \<Rightarrow> (Inl (Io e), s2)
             | (Inr kind_buf, s2) \<Rightarrow>
                 let kind_raw = u32_from_be kind_buf in
                 (case kind_from_u32 kind_raw of
                    None \<Rightarrow> (Inl (UnknownKind kind_raw), s2)
                  | Some k \<Rightarrow>
                      (case read_exact (unat (frame_len - 4)) s2 of
                         (Inl e, s3) \<Rightarrow> (Inl (Io e), s3)
                       | (Inr payload, s3) \<Rightarrow> (decode_frame_payload de k payload, s3)))))"

definition write_frame ::
  "(Message \<Rightarrow> u8 list option) \<Rightarrow> u8 list \<Rightarrow> Message \<Rightarrow> proto_error + u8 list" where
  "write_frame ser w msg =
     (case encode_frame ser msg of Inl e \<Rightarrow> Inl e | Inr bytes \<Rightarrow> Inr (w @ bytes))"

definition codec_ok :: "('a \<Rightarrow> u8 list option) \<Rightarrow> (u8 list \<Rightarrow> 'a option) \<Rightarrow> bool" where
  "codec_ok ser de \<longleftrightarrow> (\<forall>x bs. ser x = Some bs \<longrightarrow> de bs = Some x)"

text \<open>Messages written one after the other, and a reader that takes \<open>n\<close> frames.\<close>

fun write_frames ::
  "(Message \<Rightarrow> u8 list option) \<Rightarrow> Message list \<Rightarrow> proto_error + u8 list" where
  "write_frames ser [] = Inr []"
| "write_frames ser (m # ms) =
     (case encode_frame ser m of
        Inl e \<Rightarrow> Inl e
      | Inr bs \<Rightarrow> (case write_frames ser ms of Inl e \<Rightarrow> Inl e | Inr rest \<Rightarrow> Inr (bs @ rest)))"

fun read_frames ::
  "(u8 list \<Rightarrow> Message option) \<Rightarrow> nat \<Rightarrow> io_stream \<Rightarrow> (proto_error + Message list) \<times> io_stream"
where
  "read_frames de 0 s = (Inr [], s)"
| "read_frames de (Suc n) s =
     (case read_frame de s of
        (Inl e, s') \<Rightarrow> (Inl e, s')
      | (Inr m, s') \<Rightarrow>
          (case read_frames de n s' of
             (Inl e, s'') \<Rightarrow> (Inl e, s'')
           | (Inr ms, s'') \<Rightarrow> (Inr (m # ms), s'')))"

section \<open>Lemmas on streams\<close>

lemma read_exact_bytes [simp]:
  "read_exact (length bs) (map Byte bs @ s) = (Inr bs, s)"
  by (induction bs) auto

lemma read_exact_bytes_n: "length bs = n \<Longrightarrow> read_exact n (map Byte bs @ s) = (Inr bs, s)"
  by (metis read_exact_bytes)

lemma read_exact_Inr:
  "read_exact n s = (Inr bs, s') \<Longrightarrow> s = map Byte bs @ s' \<and> length bs = n"
  by (induction n s arbitrary: bs rule: read_exact.induct) (auto split: prod.splits sum.splits)

lemma read_exact_Inl_shorter:
  "read_exact n s = (Inl WouldBlock, s') \<Longrightarrow> length s' < length s"
  by (induction n s rule: read_exact.induct) (auto split: prod.splits sum.splits)

lemma read_exact_block:
  "length bs < n \<Longrightarrow> read_exact n (map Byte bs @ Block # s) = (Inl WouldBlock, s)"
proof (induction bs arbitrary: n)
  case Nil
  then show ?case by (cases n) auto
next
  case (Cons b bs)
  then show ?case by (cases n) auto
qed

lemma read_exact_short:
  "length bs < n \<Longrightarrow> read_exact n (map Byte bs) = (Inl UnexpectedEof, [])"
proof (induction bs arbitrary: n)
  case Nil
  then show ?case by (cases n) auto
next
  case (Cons b bs)
  then show ?case by (cases n) auto
qed

section \<open>Lemmas on kinds and frames\<close>

lemma kind_from_u32_iff: "kind_from_u32 n = Some k \<longleftrightarrow> n = kind_as_u32 k"
  by (cases k) (auto simp: kind_from_u32_def)

lemma kind_from_as [simp]: "kind_from_u32 (kind_as_u32 k) = Some k"
  by (simp add: kind_from_u32_iff)

lemma unat_MAX_FRAME_BYTES: "unat MAX_FRAME_BYTES = 67108864"
  by (simp add: MAX_FRAME_BYTES_def)

text \<open>A frame with a length the reader accepts: header, then the payload.\<close>

definition frame_bytes :: "Kind \<Rightarrow> u8 list \<Rightarrow> u8 list" where
  "frame_bytes k payload =
     u32_to_be (of_nat (length payload + 4)) @ u32_to_be (kind_as_u32 k) @ payload"

lemma encode_frame_Inr:
  "encode_frame ser m = Inr bs \<longleftrightarrow>
     (\<exists>payload. ser m = Some payload \<and> length payload + 4 \<le> unat MAX_FRAME_BYTES
        \<and> bs = frame_bytes (kind m) payload)"
  by (auto simp: encode_frame_def frame_bytes_def Let_def split: option.splits)

lemma frame_len_word:
  assumes "length payload + 4 \<le> unat MAX_FRAME_BYTES"
  shows "unat (of_nat (length payload + 4) :: u32) = length payload + 4"
    and "\<not> (of_nat (length payload + 4) :: u32) < 4"
    and "\<not> MAX_FRAME_BYTES < (of_nat (length payload + 4) :: u32)"
    and "unat ((of_nat (length payload + 4) :: u32) - 4) = length payload"
proof -
  let ?w = "of_nat (length payload + 4) :: u32"
  have len: "length payload + 4 < 2 ^ 32"
    using assms by (simp add: unat_MAX_FRAME_BYTES)
  then show eq: "unat ?w = length payload + 4"
    by (rule unat_of_nat32)
  then show small: "\<not> ?w < 4"
    by (simp only: word_less_nat_alt) simp
  show "\<not> MAX_FRAME_BYTES < ?w"
    using eq assms by (simp only: word_less_nat_alt)
  from small have "unat (?w - 4) = unat ?w - unat (4 :: u32)"
    by (intro unat_sub) simp
  then show "unat (?w - 4) = length payload"
    by (simp only: eq) simp
qed

lemma read_frame_frame_bytes:
  assumes "length payload + 4 \<le> unat MAX_FRAME_BYTES"
  shows "read_frame de (map Byte (frame_bytes k payload) @ s)
       = (decode_frame_payload de k payload, s)"
proof -
  have *: "read_exact 4 (map Byte (u32_to_be w) @ t) = (Inr (u32_to_be w), t)" for w t
    by (rule read_exact_bytes_n) simp
  show ?thesis
    unfolding read_frame_def frame_bytes_def
    by (simp only: map_append append_assoc * frame_len_word [OF assms] read_exact_bytes
        u32_be_roundtrip kind_from_as prod.case sum.case option.case Let_def if_False)
qed

lemma decode_frame_payload_Inr:
  "decode_frame_payload de k payload = Inr m \<longleftrightarrow> de payload = Some m \<and> kind m = k"
  by (auto simp: decode_frame_payload_def split: option.splits)

lemma read_frame_encoded:
  assumes "codec_ok ser de" and "encode_frame ser m = Inr bs"
  shows "read_frame de (map Byte bs @ s) = (Inr m, s)"
proof -
  from assms(2) obtain payload where p: "ser m = Some payload"
      "length payload + 4 \<le> unat MAX_FRAME_BYTES" "bs = frame_bytes (kind m) payload"
    by (auto simp: encode_frame_Inr)
  from assms(1) p(1) have "decode_frame_payload de (kind m) payload = Inr m"
    by (simp add: decode_frame_payload_Inr codec_ok_def)
  with p show ?thesis by (simp add: read_frame_frame_bytes)
qed

lemma read_frame_Inr:
  assumes "read_frame de s = (Inr m, s')"
  shows "\<exists>payload. s = map Byte (frame_bytes (kind m) payload) @ s'
     \<and> de payload = Some m \<and> length payload + 4 \<le> unat MAX_FRAME_BYTES"
proof -
  from assms obtain len_buf s1 kind_buf s2 payload where
      r1: "read_exact 4 s = (Inr len_buf, s1)"
    and lo: "\<not> u32_from_be len_buf < 4" and hi: "\<not> MAX_FRAME_BYTES < u32_from_be len_buf"
    and r2: "read_exact 4 s1 = (Inr kind_buf, s2)"
    and k: "kind_from_u32 (u32_from_be kind_buf) = Some (kind m)"
    and r3: "read_exact (unat (u32_from_be len_buf - 4)) s2 = (Inr payload, s')"
    and d: "de payload = Some m"
    by (auto simp: read_frame_def Let_def decode_frame_payload_Inr
        split: prod.splits sum.splits if_splits option.splits)
  have "unat (u32_from_be len_buf - 4) = unat (u32_from_be len_buf) - unat (4 :: u32)"
    using lo by (intro unat_sub) simp
  with r3 lo have len: "length payload + 4 = unat (u32_from_be len_buf)"
    by (auto dest!: read_exact_Inr simp: word_less_nat_alt)
  then have "u32_to_be (of_nat (length payload + 4)) = len_buf"
    using r1 by (simp only: of_nat_unat ucast_id) (auto dest!: read_exact_Inr simp: u32_to_from_be)
  moreover from k r2 have "u32_to_be (kind_as_u32 (kind m)) = kind_buf"
    by (metis kind_from_u32_iff read_exact_Inr u32_to_from_be)
  ultimately have "s = map Byte (frame_bytes (kind m) payload) @ s'"
    using r1 r2 r3 unfolding frame_bytes_def by (auto dest!: read_exact_Inr simp del: of_nat_add)
  with d len hi show ?thesis
    by (auto simp: word_less_nat_alt not_less)
qed

lemma read_frame_shorter: "read_frame de s = (Inr m, s') \<Longrightarrow> length s' < length s"
  by (drule read_frame_Inr) (auto simp: frame_bytes_def)

lemma read_frame_block_shorter:
  "read_frame de s = (Inl (Io WouldBlock), s') \<Longrightarrow> length s' < length s"
  by (auto simp: read_frame_def Let_def decode_frame_payload_def dest!: read_exact_Inl_shorter read_exact_Inr
      split: prod.splits sum.splits if_splits option.splits)

text \<open>The messages a reader can take from a stream before the first failure.\<close>

function frames_of :: "(u8 list \<Rightarrow> Message option) \<Rightarrow> io_stream \<Rightarrow> Message list" where
  "frames_of de s =
     (case read_frame de s of (Inl _, _) \<Rightarrow> [] | (Inr m, s') \<Rightarrow> m # frames_of de s')"
  by pat_completeness auto
termination
  by (relation "measure (\<lambda>(_, s). length s)") (auto dest: read_frame_shorter [OF sym])

declare frames_of.simps [simp del]

lemma frames_of_written:
  assumes "codec_ok ser de"
  shows "write_frames ser ms = Inr bs \<Longrightarrow> frames_of de (map Byte bs @ s) = ms @ frames_of de s"
proof (induction ms arbitrary: bs)
  case Nil
  then show ?case by simp
next
  case (Cons m ms)
  from Cons.prems obtain b1 b2 where enc: "encode_frame ser m = Inr b1"
      "write_frames ser ms = Inr b2" "bs = b1 @ b2"
    by (auto split: sum.splits)
  with Cons.IH show ?case
    by (subst frames_of.simps) (simp add: read_frame_encoded [OF assms enc(1)])
qed

lemma read_frames_written:
  assumes "codec_ok ser de"
  shows "write_frames ser ms = Inr bs \<Longrightarrow> read_frames de (length ms) (map Byte bs @ s) = (Inr ms, s)"
proof (induction ms arbitrary: bs)
  case Nil
  then show ?case by simp
next
  case (Cons m ms)
  from Cons.prems obtain b1 b2 where enc: "encode_frame ser m = Inr b1"
      "write_frames ser ms = Inr b2" "bs = b1 @ b2"
    by (auto split: sum.splits)
  with Cons.IH show ?case
    by (simp add: read_frame_encoded [OF assms enc(1)])
qed

text \<open>A reader that finds only the first part of a frame, then a timeout or the end.\<close>

lemma read_exact_prefix_block:
  assumes "length bs = n" and "bs = xs @ ys" and "ys \<noteq> []"
  shows "read_exact n (map Byte xs @ Block # t) = (Inl WouldBlock, t)"
  using assms by (intro read_exact_block) auto

lemma prefix_split3:
  assumes "xs @ ys = a @ b @ c" and "ys \<noteq> []"
  shows "(\<exists>zs. a = xs @ zs \<and> zs \<noteq> [])
    \<or> (\<exists>us zs. xs = a @ us \<and> b = us @ zs \<and> zs \<noteq> [])
    \<or> (\<exists>us. xs = a @ b @ us \<and> c = us @ ys)"
proof -
  consider zs where "a = xs @ zs" "zs \<noteq> []" | us where "xs = a @ us" "us @ ys = b @ c"
    using assms(1) by (metis append_Nil2 append_eq_append_conv2)
  then show ?thesis
  proof cases
    case 1
    then show ?thesis by blast
  next
    case 2
    from 2(2) consider zs where "b = us @ zs" "zs \<noteq> []" | vs where "us = b @ vs" "vs @ ys = c"
      by (metis append_Nil2 append_eq_append_conv2)
    then show ?thesis using 2(1) by cases auto
  qed
qed

lemma read_frame_prefix_block:
  assumes "length payload + 4 \<le> unat MAX_FRAME_BYTES"
    and "frame_bytes k payload = xs @ ys" and "ys \<noteq> []"
  shows "read_frame de (map Byte xs @ Block # t) = (Inl (Io WouldBlock), t)"
proof -
  let ?l = "u32_to_be (of_nat (length payload + 4))" and ?k = "u32_to_be (kind_as_u32 k)"
  have eq: "xs @ ys = ?l @ ?k @ payload"
    using assms(2) by (simp add: frame_bytes_def)
  consider zs where "?l = xs @ zs" "zs \<noteq> []"
    | us zs where "xs = ?l @ us" "?k = us @ zs" "zs \<noteq> []"
    | us where "xs = ?l @ ?k @ us" "payload = us @ ys"
    using prefix_split3 [OF eq assms(3)] by metis
  then show ?thesis
  proof cases
    case 1
    have "read_exact 4 (map Byte xs @ Block # t) = (Inl WouldBlock, t)"
      by (rule read_exact_prefix_block [OF _ 1]) simp
    then show ?thesis by (simp add: read_frame_def)
  next
    case 2
    have "read_exact 4 (map Byte ?l @ map Byte us @ Block # t) = (Inr ?l, map Byte us @ Block # t)"
      by (rule read_exact_bytes_n) simp
    moreover have "read_exact 4 (map Byte us @ Block # t) = (Inl WouldBlock, t)"
      by (rule read_exact_prefix_block [OF _ 2(2,3)]) simp
    ultimately show ?thesis
      unfolding read_frame_def 2(1)
      by (simp only: map_append append_assoc frame_len_word [OF assms(1)] u32_be_roundtrip
          prod.case sum.case Let_def if_False)
  next
    case 3
    have 4: "read_exact 4 (map Byte (u32_to_be w) @ z) = (Inr (u32_to_be w), z)" for w z
      by (rule read_exact_bytes_n) simp
    have "read_exact (length payload) (map Byte us @ Block # t) = (Inl WouldBlock, t)"
      by (rule read_exact_prefix_block [OF refl 3(2) assms(3)])
    then show ?thesis
      unfolding read_frame_def 3(1)
      by (simp only: map_append append_assoc 4 frame_len_word [OF assms(1)] u32_be_roundtrip
          kind_from_as option.case prod.case sum.case Let_def if_False)
  qed
qed

lemma read_prelude_write: "read_prelude (map Byte write_prelude @ s) = (Inr PROTOCOL_VERSION, s)"
proof -
  have "read_exact 4 (map Byte MAGIC @ z) = (Inr MAGIC, z)" for z
    by (rule read_exact_bytes_n) (simp add: MAGIC_def)
  moreover have "read_exact 2 (map Byte (u16_to_be w) @ z) = (Inr (u16_to_be w), z)" for w z
    by (rule read_exact_bytes_n) simp
  ultimately show ?thesis by (simp add: read_prelude_def write_prelude_def)
qed

lemma read_prelude_Inr:
  assumes "read_prelude s = (Inr v, s')"
  shows "v = PROTOCOL_VERSION \<and> s = map Byte write_prelude @ s'"
proof -
  from assms obtain s1 vb where r: "read_exact 4 s = (Inr MAGIC, s1)" "read_exact 2 s1 = (Inr vb, s')"
      and v: "v = PROTOCOL_VERSION" "u16_from_be vb = v"
    by (auto simp: read_prelude_def Let_def split: prod.splits sum.splits if_splits)
  then have "vb = u16_to_be PROTOCOL_VERSION"
    by (metis read_exact_Inr u16_to_from_be)
  with r v show ?thesis by (auto dest!: read_exact_Inr simp: write_prelude_def)
qed

section \<open>Properties\<close>

text \<open>
  C5: for every serialiser whose decoder inverts it, the frames written for any list of
  messages are read back as exactly that list, and the reader stops at the byte after the
  last frame, whatever follows in the stream.
\<close>
theorem frames_roundtrip:
  assumes "codec_ok ser de" and "write_frames ser ms = Inr bs"
  shows "read_frames de (length ms) (map Byte bs @ rest) = (Inr ms, rest)"
  using assms by (rule read_frames_written)

definition demo_ser :: "Message \<Rightarrow> u8 list option" where
  "demo_ser m = (if m = Message.Goodbye [] then Some [7]
     else if m = Message.Ping \<lparr>ping_seq = 1, ping_stamp_ns = 2\<rparr> then Some [8, 9] else None)"

definition demo_de :: "u8 list \<Rightarrow> Message option" where
  "demo_de bs = (if bs = [7] then Some (Message.Goodbye [])
     else if bs = [8, 9] then Some (Message.Ping \<lparr>ping_seq = 1, ping_stamp_ns = 2\<rparr>) else None)"

lemma demo_codec_ok: "codec_ok demo_ser demo_de"
  by (simp add: codec_ok_def demo_ser_def demo_de_def)

lemma demo_frames:
  "write_frames demo_ser [Message.Goodbye [], Message.Ping \<lparr>ping_seq = 1, ping_stamp_ns = 2\<rparr>]
     = Inr [0, 0, 0, 5, 0, 0, 0, 3, 7, 0, 0, 0, 6, 0, 0, 0, 10, 8, 9]"
  by (simp add: demo_ser_def encode_frame_def u32_to_be_def unat_MAX_FRAME_BYTES Let_def)

theorem frames_roundtrip_witness:
  "read_frames demo_de 2 (map Byte [0, 0, 0, 5, 0, 0, 0, 3, 7, 0, 0, 0, 6, 0, 0, 0, 10, 8, 9] @ [Block])
     = (Inr [Message.Goodbye [], Message.Ping \<lparr>ping_seq = 1, ping_stamp_ns = 2\<rparr>], [Block])"
  using frames_roundtrip [OF demo_codec_ok demo_frames, of "[Block]"] by (simp add: numeral_2_eq_2)

text \<open>
  C26: the reader accepts nothing but a well-formed frame. Whenever \<open>read_frame\<close> returns a
  message, the bytes it consumed are exactly the encoding of a payload that decodes to this
  message under the message's own kind, and the frame is within \<open>MAX_FRAME_BYTES\<close>.
\<close>
theorem read_frame_sound:
  assumes "read_frame de s = (Inr m, s')"
  shows "\<exists>payload. s = map Byte (frame_bytes (kind m) payload) @ s'
     \<and> de payload = Some m \<and> length payload + 4 \<le> 64 * 1024 * 1024"
  using read_frame_Inr [OF assms] by (simp add: unat_MAX_FRAME_BYTES)

theorem read_frame_sound_witness:
  "\<exists>payload. map Byte [0, 0, 0, 5, 0, 0, 0, 3, 7] @ [Block]
      = map Byte (frame_bytes Kind.Goodbye payload) @ [Block]
     \<and> demo_de payload = Some (Message.Goodbye []) \<and> length payload + 4 \<le> 64 * 1024 * 1024"
proof -
  have "encode_frame demo_ser (Message.Goodbye []) = Inr [0, 0, 0, 5, 0, 0, 0, 3, 7]"
    by (simp add: demo_ser_def encode_frame_def u32_to_be_def unat_MAX_FRAME_BYTES Let_def)
  from read_frame_encoded [OF demo_codec_ok this, of "[Block]"]
  show ?thesis by (rule read_frame_sound [where m = "Message.Goodbye []", simplified kind.simps])
qed

text \<open>
  \<open>read_prelude\<close> accepts exactly the six bytes \<open>write_prelude\<close> writes, that is the magic
  and the current protocol version, and consumes no more.
\<close>
theorem read_prelude_accepts:
  "read_prelude s = (Inr v, s') \<longleftrightarrow> v = PROTOCOL_VERSION \<and> s = map Byte write_prelude @ s'"
  using read_prelude_Inr read_prelude_write by blast

text \<open>
  \<open>encode_frame\<close> fails exactly when the serialiser fails or the frame would exceed
  \<open>MAX_FRAME_BYTES\<close>, and every frame it emits is accepted by the reader's two length
  checks: its declared length is the number of bytes that follow the length field.
\<close>
theorem encode_frame_total:
  "case encode_frame ser m of
     Inl e \<Rightarrow> (ser m = None \<and> e = SerializeError)
       \<or> (\<exists>p. ser m = Some p \<and> 64 * 1024 * 1024 < length p + 4 \<and> e = FrameTooBig (length p + 4))
   | Inr bs \<Rightarrow> 8 \<le> length bs \<and> length bs \<le> 4 + 64 * 1024 * 1024
       \<and> unat (u32_from_be (take 4 bs)) = length bs - 4
       \<and> kind_from_u32 (u32_from_be (take 4 (drop 4 bs))) = Some (kind m)"
proof (cases "encode_frame ser m")
  case (Inl e)
  then show ?thesis
    by (auto simp: encode_frame_def Let_def unat_MAX_FRAME_BYTES split: option.splits if_splits)
next
  case (Inr bs)
  then obtain p where p: "length p + 4 \<le> unat MAX_FRAME_BYTES" "bs = frame_bytes (kind m) p"
    by (auto simp: encode_frame_Inr)
  have "unat (u32_from_be (take 4 bs)) = length p + 4"
    using p frame_len_word(1) [OF p(1)] by (simp add: frame_bytes_def del: of_nat_add)
  with Inr p show ?thesis
    by (simp add: frame_bytes_def unat_MAX_FRAME_BYTES del: of_nat_add)
qed

text \<open>
  C29: a read timeout inside a frame loses the part already read. If the bytes of a frame
  arrive in two parts with a timeout between them, \<open>read_frame\<close> returns
  \<open>WouldBlock\<close> and leaves the reader at the second part: a caller that retries starts to
  parse in the middle of the frame.
\<close>
theorem read_frame_timeout_loses_prefix:
  assumes "encode_frame ser m = Inr (xs @ ys)" and "ys \<noteq> []"
  shows "read_frame de (map Byte xs @ Block # map Byte ys @ s)
       = (Inl (Io WouldBlock), map Byte ys @ s)"
proof -
  from assms(1) obtain payload where
      "length payload + 4 \<le> unat MAX_FRAME_BYTES" "frame_bytes (kind m) payload = xs @ ys"
    by (auto simp: encode_frame_Inr)
  then show ?thesis by (rule read_frame_prefix_block) (rule assms(2))
qed

theorem read_frame_timeout_loses_prefix_witness:
  "read_frame demo_de (map Byte [0, 0, 0, 5, 0, 0] @ Block # map Byte [0, 3, 7] @ [])
     = (Inl (Io WouldBlock), map Byte [0, 3, 7] @ [])"
  by (rule read_frame_timeout_loses_prefix [of demo_ser "Message.Goodbye []"])
    (simp_all add: demo_ser_def encode_frame_def u32_to_be_def unat_MAX_FRAME_BYTES Let_def)

end
