(* ===== verification/Datagram.thy ===== *)
theory Datagram
  imports Proto "HOL-Library.Multiset"
begin

text \<open>
  Frame tiles over QUIC datagrams: the sender's splitter \<open>frame_tile_datagrams\<close> of
  \<open>crates/proto/src/data_plane.rs\<close>, and the client's \<open>FrameTileDatagramAssembler\<close> and the
  datagram reader task of \<open>crates/client/src/data_plane/quic.rs\<close>.

  The assembler's hash map is an association list with distinct keys (part of the
  invariant), so that \<open>len\<close> is computable. Postcard's encoder and decoder of datagrams are
  the parameters \<open>enc\<close> and \<open>de\<close>. A \<open>usize\<close> addition that is checked in the source is
  checked against \<open>2 ^ 64\<close>.
\<close>

section \<open>Data\<close>

record FrameTileHeader =
  hdr_id :: u64
  hdr_x :: u32
  hdr_y :: u32
  hdr_w :: u32
  hdr_h :: u32
  hdr_stride :: u32
  hdr_encoding :: PixelEncoding

record FrameTileChunk =
  chunk_channel_id :: u64
  frame_seq :: u64
  chunk_index :: u32
  chunk_count :: u32
  chunk_total_len :: u32
  chunk_header :: FrameTileHeader
  chunk_bytes :: "u8 list"

datatype DataPlaneDatagram = FrameTileChunk FrameTileChunk

definition header_from_tile :: "FrameTile \<Rightarrow> FrameTileHeader" where
  "header_from_tile tile = \<lparr>hdr_id = tile_id tile, hdr_x = tile_x tile, hdr_y = tile_y tile,
     hdr_w = tile_w tile, hdr_h = tile_h tile, hdr_stride = tile_stride tile,
     hdr_encoding = tile_encoding tile\<rparr>"

definition into_tile :: "FrameTileHeader \<Rightarrow> u8 list \<Rightarrow> FrameTile" where
  "into_tile h bytes = \<lparr>tile_id = hdr_id h, tile_x = hdr_x h, tile_y = hdr_y h,
     tile_w = hdr_w h, tile_h = hdr_h h, tile_stride = hdr_stride h,
     tile_encoding = hdr_encoding h, tile_bytes = bytes\<rparr>"

section \<open>The sender\<close>

datatype datagram_error =
    DatagramSizeTooSmall nat
  | ChunkCountExceedsU32
  | TileTooLarge
  | ChunkIndexExceedsU32
  | DatagramSerializeError
  | DatagramTooLarge nat nat

definition payload_limit :: "nat \<Rightarrow> nat" where
  "payload_limit max_datagram_size = max (min max_datagram_size 1200 - 256) 256"

definition encode_checked ::
  "(DataPlaneDatagram \<Rightarrow> u8 list option) \<Rightarrow> nat \<Rightarrow> FrameTileChunk \<Rightarrow> datagram_error + u8 list"
where
  "encode_checked enc max_datagram_size c =
     (case enc (FrameTileChunk c) of
        None \<Rightarrow> Inl DatagramSerializeError
      | Some encoded \<Rightarrow>
          if length encoded > max_datagram_size
          then Inl (DatagramTooLarge (length encoded) max_datagram_size) else Inr encoded)"

fun encode_chunks ::
  "(DataPlaneDatagram \<Rightarrow> u8 list option) \<Rightarrow> nat \<Rightarrow> (u32 \<Rightarrow> u8 list \<Rightarrow> FrameTileChunk) \<Rightarrow> nat
     \<Rightarrow> u8 list list \<Rightarrow> datagram_error + u8 list list" where
  "encode_chunks enc mx mk index [] = Inr []"
| "encode_chunks enc mx mk index (c # cs) =
     (case u32_try_from index of
        None \<Rightarrow> Inl ChunkIndexExceedsU32
      | Some chunk_index_u32 \<Rightarrow>
          (case encode_checked enc mx (mk chunk_index_u32 c) of
             Inl e \<Rightarrow> Inl e
           | Inr d \<Rightarrow>
               (case encode_chunks enc mx mk (Suc index) cs of
                  Inl e \<Rightarrow> Inl e
                | Inr ds \<Rightarrow> Inr (d # ds))))"

definition make_chunk ::
  "FrameTile \<Rightarrow> u64 \<Rightarrow> u64 \<Rightarrow> u32 \<Rightarrow> u32 \<Rightarrow> u32 \<Rightarrow> u8 list \<Rightarrow> FrameTileChunk" where
  "make_chunk tile channel_id seq n total_len index bytes =
     \<lparr>chunk_channel_id = channel_id, frame_seq = seq, chunk_index = index, chunk_count = n,
      chunk_total_len = total_len, chunk_header = header_from_tile tile, chunk_bytes = bytes\<rparr>"

definition frame_tile_datagrams ::
  "(DataPlaneDatagram \<Rightarrow> u8 list option) \<Rightarrow> FrameTile \<Rightarrow> u64 \<Rightarrow> u64 \<Rightarrow> nat
     \<Rightarrow> datagram_error + u8 list list" where
  "frame_tile_datagrams enc tile channel_id seq max_datagram_size =
     (if max_datagram_size < 512 then Inl (DatagramSizeTooSmall max_datagram_size)
      else
        let limit = payload_limit max_datagram_size;
            n_chunks = div_ceil (length (tile_bytes tile)) limit
        in case u32_try_from n_chunks of
             None \<Rightarrow> Inl ChunkCountExceedsU32
           | Some chunk_count_u32 \<Rightarrow>
               (case u32_try_from (length (tile_bytes tile)) of
                  None \<Rightarrow> Inl TileTooLarge
                | Some total_len_u32 \<Rightarrow>
                    if tile_bytes tile = [] then
                      (case encode_checked enc max_datagram_size
                              (make_chunk tile channel_id seq 1 0 0 []) of
                         Inl e \<Rightarrow> Inl e
                       | Inr encoded \<Rightarrow> Inr [encoded])
                    else encode_chunks enc max_datagram_size
                           (make_chunk tile channel_id seq chunk_count_u32 total_len_u32) 0
                           (chunks limit (tile_bytes tile))))"

section \<open>The assembler\<close>

definition MAX_PENDING_FRAMES :: nat where
  "MAX_PENDING_FRAMES = 32"

definition MAX_CHUNKS_PER_FRAME :: u32 where
  "MAX_CHUNKS_PER_FRAME = 16384"

record PendingFrameTile =
  pend_header :: FrameTileHeader
  pend_total_len :: nat
  pend_chunks :: "u8 list option list"
  pend_received :: nat

type_synonym assembler = "((u64 \<times> u64) \<times> PendingFrameTile) list"

definition fresh_slot :: "FrameTileChunk \<Rightarrow> PendingFrameTile" where
  "fresh_slot c = \<lparr>pend_header = chunk_header c, pend_total_len = unat (chunk_total_len c),
     pend_chunks = replicate (unat (chunk_count c)) None, pend_received = 0\<rparr>"

definition chunk_key :: "FrameTileChunk \<Rightarrow> u64 \<times> u64" where
  "chunk_key c = (chunk_channel_id c, frame_seq c)"

definition asm_entry :: "assembler \<Rightarrow> FrameTileChunk \<Rightarrow> assembler \<times> PendingFrameTile" where
  "asm_entry pending c =
     (let key = chunk_key c;
          pending = (if map_of pending key = None \<and> length pending \<ge> MAX_PENDING_FRAMES
                     then [] else pending)
      in case map_of pending key of
           Some slot \<Rightarrow> (pending, slot)
         | None \<Rightarrow> (AList.update key (fresh_slot c) pending, fresh_slot c))"

definition push :: "assembler \<Rightarrow> FrameTileChunk \<Rightarrow> FrameTile option \<times> assembler" where
  "push pending0 c =
     (if chunk_count c = 0 \<or> chunk_count c > MAX_CHUNKS_PER_FRAME \<or> chunk_index c \<ge> chunk_count c
      then (None, pending0)
      else if unat (chunk_total_len c) > unat MAX_FRAME_BYTES then (None, pending0)
      else
        let key = chunk_key c;
            (pending, slot) = asm_entry pending0 c;
            index = unat (chunk_index c);
            received = pend_received slot + length (chunk_bytes c)
        in
        if pend_total_len slot \<noteq> unat (chunk_total_len c) \<or> pend_header slot \<noteq> chunk_header c
           \<or> length (pend_chunks slot) \<noteq> unat (chunk_count c)
        then (None, AList.delete key pending)
        else if pend_chunks slot ! index \<noteq> None then (None, pending)
        else if received \<ge> 2 ^ 64 then (None, pending)
        else if received > pend_total_len slot then (None, AList.delete key pending)
        else
          let slot = slot\<lparr>pend_received := received,
                          pend_chunks := (pend_chunks slot)[index := Some (chunk_bytes c)]\<rparr>
          in
          if None \<in> set (pend_chunks slot) then (None, AList.update key slot pending)
          else
            let bytes = concat (map the (pend_chunks slot)) in
            (if length bytes \<noteq> pend_total_len slot then None
             else Some (into_tile (pend_header slot) bytes),
             AList.delete key pending))"

section \<open>The datagram reader task\<close>

record datagram_reader =
  dr_assembler :: assembler
  dr_frames :: u64
  dr_chunks :: u64
  dr_payload_bytes :: u64
  dr_delivered :: "FrameTile list"
  dr_stopped :: bool

definition reader_start :: datagram_reader where
  "reader_start = \<lparr>dr_assembler = [], dr_frames = 0, dr_chunks = 0, dr_payload_bytes = 0,
     dr_delivered = [], dr_stopped = False\<rparr>"

text \<open>
  One turn of the loop: a datagram, with whether the viewer still takes events, or a failed
  read. \<open>dr_delivered\<close> lists the tiles handed to the viewer.
\<close>

datatype reader_event = DatagramIn "u8 list" bool | ReadDatagramFailed

fun datagram_reader_step ::
  "(u8 list \<Rightarrow> DataPlaneDatagram option) \<Rightarrow> datagram_reader \<Rightarrow> reader_event \<Rightarrow> datagram_reader"
where
  "datagram_reader_step de r ReadDatagramFailed = r\<lparr>dr_stopped := True\<rparr>"
| "datagram_reader_step de r (DatagramIn bytes viewer_open) =
     (if dr_stopped r then r
      else (case de bytes of
        None \<Rightarrow> r
      | Some (FrameTileChunk c) \<Rightarrow>
          let r = r\<lparr>dr_chunks := saturating_add (dr_chunks r) 1,
                    dr_payload_bytes :=
                      saturating_add (dr_payload_bytes r) (of_nat (length (chunk_bytes c)))\<rparr>
          in case push (dr_assembler r) c of
               (None, a) \<Rightarrow> r\<lparr>dr_assembler := a\<rparr>
             | (Some tile, a) \<Rightarrow>
                 let r = r\<lparr>dr_assembler := a, dr_frames := saturating_add (dr_frames r) 1\<rparr>
                 in if viewer_open then r\<lparr>dr_delivered := dr_delivered r @ [tile]\<rparr>
                    else r\<lparr>dr_stopped := True\<rparr>))"

section \<open>The assembler's invariant\<close>

definition chunk_opt_len :: "u8 list option \<Rightarrow> nat" where
  "chunk_opt_len v = (case v of None \<Rightarrow> 0 | Some bs \<Rightarrow> length bs)"

definition slot_ok :: "PendingFrameTile \<Rightarrow> bool" where
  "slot_ok s \<longleftrightarrow> length (pend_chunks s) \<le> unat MAX_CHUNKS_PER_FRAME
     \<and> None \<in> set (pend_chunks s)
     \<and> pend_received s = sum_list (map chunk_opt_len (pend_chunks s))
     \<and> pend_received s \<le> pend_total_len s
     \<and> pend_total_len s \<le> unat MAX_FRAME_BYTES"

definition asm_inv :: "assembler \<Rightarrow> bool" where
  "asm_inv p \<longleftrightarrow> distinct (map fst p) \<and> length p \<le> MAX_PENDING_FRAMES
     \<and> (\<forall>s \<in> snd ` set p. slot_ok s)"

lemma asm_inv_Nil [simp]: "asm_inv []"
  by (simp add: asm_inv_def MAX_PENDING_FRAMES_def)

lemma asm_inv_delete: "asm_inv p \<Longrightarrow> asm_inv (AList.delete k p)"
  using length_delete_le [of k p] distinct_delete [of p k] set_delete_subset [of k p]
  by (auto simp: asm_inv_def)

lemma asm_inv_update:
  assumes "asm_inv p" and "slot_ok s" and "k \<in> fst ` set p \<or> length p < MAX_PENDING_FRAMES"
  shows "asm_inv (AList.update k s p)"
proof -
  have "\<forall>t \<in> snd ` set (AList.update k s p). slot_ok t"
    using assms(1,2) set_update_snd [of k s p] unfolding asm_inv_def by blast
  then show ?thesis
    using assms(1,3) by (auto simp: asm_inv_def distinct_update length_update)
qed

lemma asm_inv_slot: "asm_inv p \<Longrightarrow> map_of p k = Some s \<Longrightarrow> slot_ok s"
  by (force simp: asm_inv_def dest: map_of_SomeD)

lemma fresh_slot_ok:
  assumes "chunk_count c \<noteq> 0" and "chunk_count c \<le> MAX_CHUNKS_PER_FRAME"
    and "unat (chunk_total_len c) \<le> unat MAX_FRAME_BYTES"
  shows "slot_ok (fresh_slot c)"
  using assms
  by (auto simp: slot_ok_def fresh_slot_def chunk_opt_len_def word_le_nat_alt sum_list_replicate
      map_replicate unat_eq_0)

lemma asm_entry_inv:
  assumes "asm_inv p" and "slot_ok (fresh_slot c)" and "asm_entry p c = (p', s)"
  shows "asm_inv p' \<and> map_of p' (chunk_key c) = Some s"
proof -
  define q where
    "q = (if map_of p (chunk_key c) = None \<and> length p \<ge> MAX_PENDING_FRAMES then [] else p)"
  have q: "asm_inv q" "map_of q (chunk_key c) = None \<Longrightarrow> length q < MAX_PENDING_FRAMES"
    using assms(1) by (auto simp: q_def MAX_PENDING_FRAMES_def)
  show ?thesis
  proof (cases "map_of q (chunk_key c)")
    case None
    then have "p' = AList.update (chunk_key c) (fresh_slot c) q" "s = fresh_slot c"
      using assms(3) by (auto simp: asm_entry_def Let_def simp flip: q_def)
    then show ?thesis
      using asm_inv_update [OF q(1) assms(2)] q(2) [OF None] by (simp add: update_conv')
  next
    case (Some t)
    then have "p' = q" "s = t"
      using assms(3) by (simp_all add: asm_entry_def Let_def flip: q_def)
    then show ?thesis using q(1) Some by simp
  qed
qed

lemma sum_list_opt_update:
  "i < length xs \<Longrightarrow> xs ! i = None \<Longrightarrow>
     sum_list (map chunk_opt_len (xs[i := Some bs])) = sum_list (map chunk_opt_len xs) + length bs"
proof (induction xs arbitrary: i)
  case Nil
  then show ?case by simp
next
  case (Cons x xs)
  then show ?case by (cases i) (auto simp: chunk_opt_len_def)
qed

lemma push_keeps_inv [step_inv]:
  assumes "asm_inv p"
  shows "asm_inv (snd (push p c))"
proof (cases "chunk_count c = 0 \<or> chunk_count c > MAX_CHUNKS_PER_FRAME
    \<or> chunk_index c \<ge> chunk_count c \<or> unat (chunk_total_len c) > unat MAX_FRAME_BYTES")
  case True
  with assms show ?thesis by (auto simp: push_def)
next
  case False
  obtain p' s where e: "asm_entry p c = (p', s)" by fastforce
  have "slot_ok (fresh_slot c)"
    using False by (intro fresh_slot_ok) auto
  from asm_entry_inv [OF assms this e]
  have inv: "asm_inv p'" and s: "map_of p' (chunk_key c) = Some s" by auto
  have ok: "slot_ok s" using asm_inv_slot [OF inv s] .
  have mem: "chunk_key c \<in> fst ` set p'"
    using s by (metis map_of_eq_None_iff option.distinct(1))
  have idx: "length (pend_chunks s) = unat (chunk_count c) \<Longrightarrow>
      unat (chunk_index c) < length (pend_chunks s)"
    using False by (auto simp: word_less_nat_alt not_le)
  have upd: "slot_ok (s\<lparr>pend_received := pend_received s + length (chunk_bytes c),
      pend_chunks := (pend_chunks s)[unat (chunk_index c) := Some (chunk_bytes c)]\<rparr>)"
    if "length (pend_chunks s) = unat (chunk_count c)"
      "pend_chunks s ! unat (chunk_index c) = None"
      "pend_received s + length (chunk_bytes c) \<le> pend_total_len s"
      "None \<in> set ((pend_chunks s)[unat (chunk_index c) := Some (chunk_bytes c)])"
    using that ok idx by (auto simp: slot_ok_def sum_list_opt_update)
  show ?thesis
    using False inv mem
    by (auto simp: push_def Let_def e intro!: asm_inv_delete asm_inv_update upd)
qed

interpretation asm: invariant_machine "\<lambda>p c. snd (push p c)" asm_inv
  by unfold_locales (rule push_keeps_inv)

section \<open>What the sender emits\<close>

text \<open>
  The blocks a tile is cut into (an empty tile is one empty block) and the chunk that
  carries the block with a given index.
\<close>

definition tile_blocks :: "nat \<Rightarrow> u8 list \<Rightarrow> u8 list list" where
  "tile_blocks mx bytes = (if bytes = [] then [[]] else chunks (payload_limit mx) bytes)"

definition tile_chunk :: "nat \<Rightarrow> FrameTile \<Rightarrow> u64 \<Rightarrow> u64 \<Rightarrow> nat \<Rightarrow> FrameTileChunk" where
  "tile_chunk mx tile ch seq i =
     make_chunk tile ch seq (of_nat (length (tile_blocks mx (tile_bytes tile))))
       (of_nat (length (tile_bytes tile))) (of_nat i) (tile_blocks mx (tile_bytes tile) ! i)"

lemma payload_limit_bounds: "256 \<le> payload_limit mx \<and> payload_limit mx \<le> 944"
  by (auto simp: payload_limit_def)

lemma concat_tile_blocks: "concat (tile_blocks mx bytes) = bytes"
  using payload_limit_bounds [of mx] by (simp add: tile_blocks_def concat_chunks)

lemma length_tile_blocks:
  "length (tile_blocks mx bytes) = (if bytes = [] then 1 else div_ceil (length bytes) (payload_limit mx))"
  using payload_limit_bounds [of mx] by (simp add: tile_blocks_def length_chunks)

lemma encode_checked_Inr:
  "encode_checked enc mx c = Inr d \<longleftrightarrow> enc (FrameTileChunk c) = Some d \<and> length d \<le> mx"
  by (auto simp: encode_checked_def split: option.splits)

lemma encode_chunks_Inr:
  "encode_chunks enc mx mk k cs = Inr ds \<Longrightarrow>
     length ds = length cs \<and> (\<forall>i < length cs.
       enc (FrameTileChunk (mk (of_nat (k + i)) (cs ! i))) = Some (ds ! i) \<and> length (ds ! i) \<le> mx)"
proof (induction cs arbitrary: k ds)
  case Nil
  then show ?case by simp
next
  case (Cons c cs)
  from Cons.prems obtain d ds' where
      d: "encode_checked enc mx (mk (of_nat k) c) = Inr d"
    and rest: "encode_chunks enc mx mk (Suc k) cs = Inr ds'" and ds: "ds = d # ds'"
    by (auto simp: u32_try_from_Some split: option.splits sum.splits)
  from Cons.IH [OF rest] show ?case
    using d ds by (auto simp: encode_checked_Inr nth_Cons add_ac split: nat.splits)
qed

lemma frame_tile_datagrams_Inr:
  assumes "frame_tile_datagrams enc tile ch seq mx = Inr ds"
  shows "512 \<le> mx \<and> length (tile_bytes tile) < 2 ^ 32
    \<and> length (tile_blocks mx (tile_bytes tile)) < 2 ^ 32
    \<and> length ds = length (tile_blocks mx (tile_bytes tile))
    \<and> (\<forall>i < length ds. enc (FrameTileChunk (tile_chunk mx tile ch seq i)) = Some (ds ! i)
         \<and> length (ds ! i) \<le> mx)"
proof (cases "tile_bytes tile = []")
  case True
  with assms show ?thesis
    by (auto simp: frame_tile_datagrams_def Let_def tile_chunk_def tile_blocks_def encode_checked_Inr
        split: if_splits option.splits sum.splits)
next
  case False
  with assms have "encode_chunks enc mx
      (make_chunk tile ch seq (of_nat (div_ceil (length (tile_bytes tile)) (payload_limit mx)))
        (of_nat (length (tile_bytes tile)))) 0 (chunks (payload_limit mx) (tile_bytes tile)) = Inr ds"
    and b: "512 \<le> mx" "length (tile_bytes tile) < 2 ^ 32"
      "div_ceil (length (tile_bytes tile)) (payload_limit mx) < 2 ^ 32"
    by (auto simp: frame_tile_datagrams_def Let_def word_nat split: if_splits option.splits)
  from encode_chunks_Inr [OF this(1)] show ?thesis
    using False b payload_limit_bounds [of mx]
    by (simp add: tile_chunk_def tile_blocks_def length_chunks)
qed

section \<open>Reassembly\<close>

text \<open>
  \<open>slot_of\<close> is the slot that holds the blocks with index in \<open>S\<close>, and \<open>pending_with\<close> the
  table that adds it to \<open>p\<close>, or \<open>p\<close> itself before the first chunk arrives.
\<close>

definition slot_of :: "FrameTileHeader \<Rightarrow> u8 list list \<Rightarrow> nat set \<Rightarrow> PendingFrameTile" where
  "slot_of h blocks S = \<lparr>pend_header = h, pend_total_len = length (concat blocks),
     pend_chunks = map (\<lambda>i. if i \<in> S then Some (blocks ! i) else None) [0..<length blocks],
     pend_received = (\<Sum>i \<in> S. length (blocks ! i))\<rparr>"

definition pending_with ::
  "assembler \<Rightarrow> u64 \<times> u64 \<Rightarrow> FrameTileHeader \<Rightarrow> u8 list list \<Rightarrow> nat set \<Rightarrow> assembler" where
  "pending_with p k h blocks S = (if S = {} then p else p @ [(k, slot_of h blocks S)])"

lemma slot_of_bound:
  assumes "S \<subseteq> {0..<length blocks}"
  shows "(\<Sum>i \<in> S. length (blocks ! i)) \<le> length (concat blocks)"
proof -
  have "length (concat blocks) = (\<Sum>i \<in> {0..<length blocks}. length (blocks ! i))"
    by (simp add: length_concat sum_list_sum_nth)
  then show ?thesis using assms by (simp add: sum_mono2)
qed

lemma slot_of_chunks_update:
  "i < length blocks \<Longrightarrow> (pend_chunks (slot_of h blocks S))[i := Some (blocks ! i)]
     = pend_chunks (slot_of h blocks (insert i S))"
  by (rule nth_equalityI) (auto simp: slot_of_def nth_list_update)

lemma slot_of_complete:
  "None \<notin> set (pend_chunks (slot_of h blocks S)) \<longleftrightarrow> {0..<length blocks} \<subseteq> S"
  by (auto simp: slot_of_def image_iff)

lemma slot_of_full_bytes:
  "{0..<length blocks} \<subseteq> S \<Longrightarrow> concat (map the (pend_chunks (slot_of h blocks S))) = concat blocks"
proof -
  assume "{0..<length blocks} \<subseteq> S"
  then have "map the (pend_chunks (slot_of h blocks S)) = map (\<lambda>i. blocks ! i) [0..<length blocks]"
    by (auto simp: slot_of_def)
  then show ?thesis by (simp add: map_nth)
qed

lemma asm_entry_pending_with:
  assumes "k = chunk_key c" and "k \<notin> fst ` set p" and "length p < MAX_PENDING_FRAMES"
    and "fresh_slot c = slot_of h blocks {}"
  shows "asm_entry (pending_with p k h blocks S) c = (p @ [(k, slot_of h blocks S)], slot_of h blocks S)"
proof (cases "S = {}")
  case True
  have "map_of p k = None" using assms(2) by (simp add: map_of_eq_None_iff)
  then show ?thesis
    using True assms by (simp add: asm_entry_def pending_with_def Let_def update_fresh)
next
  case False
  then show ?thesis
    using assms map_of_last_entry [OF assms(2), of "slot_of h blocks S"]
    by (simp add: asm_entry_def pending_with_def Let_def)
qed

lemma push_pending_with:
  assumes key: "k = chunk_key c" "k \<notin> fst ` set p" "length p < MAX_PENDING_FRAMES"
    and n: "0 < length blocks" "length blocks \<le> unat MAX_CHUNKS_PER_FRAME"
    and len: "length (concat blocks) \<le> unat MAX_FRAME_BYTES"
    and i: "i < length blocks" "i \<notin> S" "S \<subseteq> {0..<length blocks}"
    and c: "unat (chunk_count c) = length blocks" "unat (chunk_index c) = i"
      "unat (chunk_total_len c) = length (concat blocks)" "chunk_header c = h"
      "chunk_bytes c = blocks ! i"
  shows "push (pending_with p k h blocks S) c =
    (if {0..<length blocks} \<subseteq> insert i S then (Some (into_tile h (concat blocks)), p)
     else (None, pending_with p k h blocks (insert i S)))"
proof -
  have fresh: "fresh_slot c = slot_of h blocks {}"
    using c by (simp add: fresh_slot_def slot_of_def map_replicate_const)
  note entry = asm_entry_pending_with [OF key fresh, of S]
  have guards: "chunk_count c \<noteq> 0" "\<not> chunk_count c > MAX_CHUNKS_PER_FRAME"
      "\<not> chunk_index c \<ge> chunk_count c"
    using n i c by (auto simp: word_less_nat_alt word_le_nat_alt)
  have fin: "finite S" using i(3) finite_subset by blast
  have recv: "pend_received (slot_of h blocks S) + length (blocks ! i)
      = pend_received (slot_of h blocks (insert i S))"
    using i fin by (simp add: slot_of_def)
  have le: "pend_received (slot_of h blocks (insert i S)) \<le> length (concat blocks)"
    using slot_of_bound [of "insert i S" blocks] i by (simp add: slot_of_def)
  have slot: "(slot_of h blocks S)\<lparr>pend_received := pend_received (slot_of h blocks (insert i S)),
      pend_chunks := pend_chunks (slot_of h blocks (insert i S))\<rparr> = slot_of h blocks (insert i S)"
    by (simp add: slot_of_def)
  have nth: "pend_chunks (slot_of h blocks S) ! i = None"
    using i by (simp add: slot_of_def)
  have fields: "length (pend_chunks (slot_of h blocks S)) = length blocks"
      "pend_total_len (slot_of h blocks S) = length (concat blocks)"
      "pend_header (slot_of h blocks S) = h" for S
    by (simp_all add: slot_of_def)
  have big: "\<not> pend_received (slot_of h blocks (insert i S)) \<ge> 2 ^ 64"
    using le len by (simp add: unat_MAX_FRAME_BYTES)
  have new: "(pend_chunks (slot_of h blocks S))[i := Some (blocks ! i)]
      = pend_chunks (slot_of h blocks (insert i S))"
    using i by (simp add: slot_of_chunks_update)
  have "push (pending_with p k h blocks S) c =
      (if None \<in> set (pend_chunks (slot_of h blocks (insert i S)))
       then (None, p @ [(k, slot_of h blocks (insert i S))])
       else (Some (into_tile h (concat (map the (pend_chunks (slot_of h blocks (insert i S)))))), p))"
    if "None \<notin> set (pend_chunks (slot_of h blocks (insert i S))) \<Longrightarrow>
      concat (map the (pend_chunks (slot_of h blocks (insert i S)))) = concat blocks"
    using that guards le len big
    unfolding push_def entry key(1) [symmetric]
    by (simp add: Let_def c nth fields recv new slot update_last_entry delete_last_entry key(2))
  then show ?thesis
    using slot_of_complete [of h blocks "insert i S"] slot_of_full_bytes [of blocks "insert i S" h]
    by (auto simp: pending_with_def)
qed

text \<open>The same chunks in any order: a permutation of the indices.\<close>

lemma mset_map_permuted:
  "mset ys = mset (map f xs) \<Longrightarrow> \<exists>zs. ys = map f zs \<and> mset zs = mset xs"
proof (induction ys arbitrary: xs)
  case Nil
  then show ?case by auto
next
  case (Cons y ys)
  then have "y \<in> set (map f xs)"
    by (metis list.set_intros(1) set_mset_mset)
  then obtain a x b where xs: "xs = a @ x # b" and y: "y = f x"
    by (auto dest: split_list)
  with Cons.prems have "mset ys = mset (map f (a @ b))" by simp
  from Cons.IH [OF this] obtain zs where "ys = map f zs" "mset zs = mset (a @ b)" by auto
  then have "y # ys = map f (x # zs) \<and> mset (x # zs) = mset xs"
    using xs y by simp
  then show ?case by (intro exI)
qed

definition reader_shows ::
  "datagram_reader \<Rightarrow> datagram_reader \<Rightarrow> assembler \<Rightarrow> FrameTile list \<Rightarrow> bool" where
  "reader_shows r r' a tiles \<longleftrightarrow>
     \<not> dr_stopped r' \<and> dr_assembler r' = a \<and> dr_delivered r' = dr_delivered r @ tiles"

lemma reader_step_push:
  assumes "\<not> dr_stopped r" and "de d = Some (FrameTileChunk c)" and "push (dr_assembler r) c = (t, a)"
  shows "reader_shows r (datagram_reader_step de r (DatagramIn d True)) a (case t of None \<Rightarrow> [] | Some t \<Rightarrow> [t])"
  using assms by (auto simp: reader_shows_def Let_def split: option.splits)

lemma reader_shows_trans:
  "reader_shows r r' a ts \<Longrightarrow> reader_shows r' r'' b us \<Longrightarrow> reader_shows r r'' b (ts @ us)"
  by (simp add: reader_shows_def)

lemma reader_run_pending:
  assumes key: "(ch, seq) \<notin> fst ` set p" "length p < MAX_PENDING_FRAMES"
    and blocks: "blocks = tile_blocks mx (tile_bytes tile)"
    and n: "length blocks \<le> unat MAX_CHUNKS_PER_FRAME"
    and len: "length (tile_bytes tile) \<le> unat MAX_FRAME_BYTES"
    and de: "\<And>i. i < length blocks \<Longrightarrow> de (ds ! i) = Some (FrameTileChunk (tile_chunk mx tile ch seq i))"
  shows "distinct zs \<Longrightarrow> set zs \<union> S = {0..<length blocks} \<Longrightarrow> set zs \<inter> S = {} \<Longrightarrow> zs \<noteq> [] \<Longrightarrow>
    \<not> dr_stopped r \<Longrightarrow> dr_assembler r = pending_with p (ch, seq) (header_from_tile tile) blocks S \<Longrightarrow>
    reader_shows r (run (datagram_reader_step de) r (map (\<lambda>i. DatagramIn (ds ! i) True) zs)) p [tile]"
proof (induction zs arbitrary: S r)
  case Nil
  then show ?case by simp
next
  case (Cons i zs)
  let ?h = "header_from_tile tile" and ?c = "tile_chunk mx tile ch seq i"
  have conc: "concat blocks = tile_bytes tile"
    by (simp add: blocks concat_tile_blocks)
  have i: "i < length blocks" "i \<notin> S" "S \<subseteq> {0..<length blocks}"
    using Cons.prems by auto
  have small: "length blocks < 2 ^ 32" "length (tile_bytes tile) < 2 ^ 32"
    using n len by (simp_all add: MAX_CHUNKS_PER_FRAME_def unat_MAX_FRAME_BYTES)
  have push: "push (dr_assembler r) ?c =
    (if {0..<length blocks} \<subseteq> insert i S then (Some (into_tile ?h (concat blocks)), p)
     else (None, pending_with p (ch, seq) ?h blocks (insert i S)))"
    unfolding Cons.prems(6)
  proof (rule push_pending_with)
    show "0 < length blocks" using i by auto
  qed (use key i n len small conc in \<open>auto simp: tile_chunk_def make_chunk_def chunk_key_def
      unat_of_nat32 blocks [symmetric]\<close>)
  have tile: "into_tile ?h (concat blocks) = tile"
    by (simp add: conc into_tile_def header_from_tile_def)
  show ?case
  proof (cases "zs = []")
    case True
    then have "{0..<length blocks} \<subseteq> insert i S" using Cons.prems(2) by auto
    with push tile have "push (dr_assembler r) ?c = (Some tile, p)" by simp
    from reader_step_push [of r de "ds ! i", OF Cons.prems(5) de [OF i(1)] this] True show ?thesis by simp
  next
    case False
    then obtain j where "j \<in> set zs" by (cases zs) auto
    then have "j \<in> {0..<length blocks}" "j \<notin> insert i S" using Cons.prems by auto
    then have "\<not> {0..<length blocks} \<subseteq> insert i S" by blast
    with push have "push (dr_assembler r) ?c = (None, pending_with p (ch, seq) ?h blocks (insert i S))"
      by simp
    from reader_step_push [of r de "ds ! i", OF Cons.prems(5) de [OF i(1)] this]
    have step: "reader_shows r (datagram_reader_step de r (DatagramIn (ds ! i) True))
        (pending_with p (ch, seq) ?h blocks (insert i S)) []" by simp
    have "reader_shows (datagram_reader_step de r (DatagramIn (ds ! i) True))
        (run (datagram_reader_step de) (datagram_reader_step de r (DatagramIn (ds ! i) True))
          (map (\<lambda>i. DatagramIn (ds ! i) True) zs)) p [tile]"
      using Cons.prems step False by (intro Cons.IH [of "insert i S"]) (auto simp: reader_shows_def)
    from reader_shows_trans [OF step this] show ?thesis by simp
  qed
qed

lemma asm_entry_other:
  assumes "k \<noteq> chunk_key c"
    and "length p < MAX_PENDING_FRAMES \<or> map_of p (chunk_key c) \<noteq> None"
    and "asm_entry p c = (p', s)"
  shows "map_of p' k = map_of p k"
proof -
  have "\<not> (map_of p (chunk_key c) = None \<and> length p \<ge> MAX_PENDING_FRAMES)"
    using assms(2) by auto
  then show ?thesis
    using assms(1,3)
    by (auto simp: asm_entry_def Let_def map_of_update_other split: option.splits if_splits)
qed

lemma le_div_ceil_mult: "0 < k \<Longrightarrow> n \<le> div_ceil n k * k"
proof -
  assume k: "0 < k"
  have "n = n div k * k + n mod k" "n mod k < k" using k by simp_all
  then have "n \<le> k + n div k * k" by linarith
  then show ?thesis by (auto simp: div_ceil_def)
qed

section \<open>Properties\<close>

text \<open>
  C2: frame tiles survive datagram transport in any order. If the sender splits a tile into
  datagrams, at most 16384 of them and at most 64 MiB, and the client's reader receives
  exactly these datagrams in an arbitrary order while the frame is not already pending and
  the table has room, then the viewer is handed exactly this tile, once, and the assembler
  is left as it was.
\<close>
theorem tile_reassembly:
  assumes "codec_ok enc de"
    and "frame_tile_datagrams enc tile ch seq mx = Inr ds"
    and "mset ds' = mset ds"
    and "length ds \<le> 16384" and "length (tile_bytes tile) \<le> 64 * 1024 * 1024"
    and "\<not> dr_stopped r"
    and "(ch, seq) \<notin> fst ` set (dr_assembler r)" and "length (dr_assembler r) < 32"
  defines "r' \<equiv> run (datagram_reader_step de) r (map (\<lambda>d. DatagramIn d True) ds')"
  shows "dr_delivered r' = dr_delivered r @ [tile] \<and> dr_assembler r' = dr_assembler r
     \<and> \<not> dr_stopped r'"
proof -
  let ?blocks = "tile_blocks mx (tile_bytes tile)"
  note sent = frame_tile_datagrams_Inr [OF assms(2)]
  have "mset ds' = mset (map (\<lambda>i. ds ! i) [0..<length ds])"
    using assms(3) by (simp add: map_nth)
  from mset_map_permuted [OF this] obtain zs where
      ds': "ds' = map (\<lambda>i. ds ! i) zs" and zs: "mset zs = mset [0..<length ds]" by blast
  have n: "0 < length ds"
    using sent payload_limit_bounds [of mx] div_ceil_step [of "payload_limit mx" "length (tile_bytes tile)"]
    by (auto simp: length_tile_blocks)
  have set: "set zs = {0..<length ds}" "distinct zs"
    using zs by (metis set_upt set_mset_mset, metis distinct_upt mset_eq_imp_distinct_iff)
  have "reader_shows r (run (datagram_reader_step de) r (map (\<lambda>i. DatagramIn (ds ! i) True) zs))
      (dr_assembler r) [tile]"
  proof (rule reader_run_pending [where S = "{}" and blocks = ?blocks and mx = mx])
    show "de (ds ! i) = Some (FrameTileChunk (tile_chunk mx tile ch seq i))"
      if "i < length ?blocks" for i
      using that sent assms(1) by (simp add: codec_ok_def)
    show "zs \<noteq> []" using set n by auto
  qed (use assms sent set in \<open>auto simp: MAX_PENDING_FRAMES_def MAX_CHUNKS_PER_FRAME_def
      unat_MAX_FRAME_BYTES pending_with_def\<close>)
  then show ?thesis
    by (simp add: r'_def ds' reader_shows_def comp_def)
qed

definition demo_tile :: FrameTile where
  "demo_tile = \<lparr>tile_id = 5, tile_x = 0, tile_y = 0, tile_w = 10, tile_h = 7, tile_stride = 40,
     tile_encoding = RawRgba, tile_bytes = replicate 280 3\<rparr>"

definition demo_chunk :: "u32 \<Rightarrow> nat \<Rightarrow> FrameTileChunk" where
  "demo_chunk i n = make_chunk demo_tile 5 1 2 280 i (replicate n 3)"

definition demo_enc :: "DataPlaneDatagram \<Rightarrow> u8 list option" where
  "demo_enc d = (if d = FrameTileChunk (demo_chunk 0 256) then Some [0]
     else if d = FrameTileChunk (demo_chunk 1 24) then Some [1] else None)"

definition demo_dec :: "u8 list \<Rightarrow> DataPlaneDatagram option" where
  "demo_dec bs = (if bs = [0] then Some (FrameTileChunk (demo_chunk 0 256))
     else if bs = [1] then Some (FrameTileChunk (demo_chunk 1 24)) else None)"

lemma demo_enc_ok: "codec_ok demo_enc demo_dec"
  by (simp add: codec_ok_def demo_enc_def demo_dec_def)

lemma demo_datagrams: "frame_tile_datagrams demo_enc demo_tile 5 1 512 = Inr [[0], [1]]"
proof -
  have "demo_chunk 1 24 \<noteq> demo_chunk 0 256"
    by (simp add: demo_chunk_def make_chunk_def)
  moreover have "chunks 256 (replicate 280 (3 :: u8)) = [replicate 256 3, replicate 24 3]"
    by (simp add: chunks.simps)
  ultimately show ?thesis
    by (simp add: frame_tile_datagrams_def Let_def payload_limit_def div_ceil_def u32_try_from_def
        encode_checked_def demo_enc_def demo_chunk_def demo_tile_def)
qed

theorem tile_reassembly_witness:
  "dr_delivered (run (datagram_reader_step demo_dec) reader_start
     [DatagramIn [1] True, DatagramIn [0] True]) = [demo_tile]"
  using tile_reassembly [OF demo_enc_ok demo_datagrams, of "[[1], [0]]" reader_start]
  by (simp add: reader_start_def demo_tile_def add_mset_commute del: datagram_reader_step.simps)

text \<open>
  C27: the assembler's memory is bounded whatever the peer sends. After any sequence of
  chunks at most 32 frames are pending, their table has distinct keys, no frame has more than 16384 chunk slots, the
  bytes kept for a frame are what its counter says and never exceed its declared length nor
  64 MiB, and a frame whose chunks are all present is never kept.
\<close>
theorem assembler_bounded:
  "let p = run (\<lambda>p c. snd (push p c)) [] cs in
     length p \<le> 32 \<and> distinct (map fst p)
     \<and> list_all (\<lambda>(k, s). length (pend_chunks s) \<le> 16384 \<and> None \<in> set (pend_chunks s)
          \<and> sum_list (map chunk_opt_len (pend_chunks s)) = pend_received s
          \<and> pend_received s \<le> pend_total_len s \<and> pend_total_len s \<le> 64 * 1024 * 1024) p"
proof -
  define p where "p = run (\<lambda>p c. snd (push p c)) [] cs"
  have "asm_inv p"
    unfolding p_def by (rule asm.run_keeps) simp
  then show ?thesis
    unfolding p_def [symmetric] Let_def
    by (fastforce simp: asm_inv_def slot_ok_def list_all_iff MAX_PENDING_FRAMES_def
        MAX_CHUNKS_PER_FRAME_def unat_MAX_FRAME_BYTES)
qed

text \<open>
  chunks of one frame do not disturb another: as long as the table is not full, or the
  chunk's own frame is already in it, pushing a chunk leaves every other pending frame as it
  was. (When a chunk of a new frame meets a full table, the whole table is cleared.)
\<close>
theorem push_other_frames:
  assumes "k \<noteq> chunk_key c"
    and "length p < 32 \<or> map_of p (chunk_key c) \<noteq> None"
  shows "map_of (snd (push p c)) k = map_of p k"
proof -
  obtain p' s where e: "asm_entry p c = (p', s)" by fastforce
  have "map_of p' k = map_of p k"
    using asm_entry_other [OF assms(1) _ e] assms(2) by (simp add: MAX_PENDING_FRAMES_def)
  then show ?thesis
    using assms(1) by (simp add: push_def e Let_def map_of_delete_other map_of_update_other)
qed

theorem push_other_frames_witness:
  "map_of (snd (push [((9, 9), fresh_slot (demo_chunk 0 256))] (demo_chunk 0 256))) (9, 9)
     = map_of [((9, 9) :: u64 \<times> u64, fresh_slot (demo_chunk 0 256))] (9, 9)"
  by (rule push_other_frames) (simp_all add: chunk_key_def demo_chunk_def make_chunk_def)

text \<open>
  a tile that needs more than 16384 datagrams is lost. The sender accepts it (the
  splitter succeeds, so the caller does not use its stream fallback), and every datagram it
  produces encodes a chunk that the assembler drops, in every state.
\<close>
theorem oversized_tile_dropped:
  assumes "frame_tile_datagrams enc tile ch seq mx = Inr ds"
    and "16384 * 944 < length (tile_bytes tile)"
  shows "\<forall>d \<in> set ds. \<exists>c. enc (FrameTileChunk c) = Some d \<and> (\<forall>p. push p c = (None, p))"
proof
  fix d
  assume "d \<in> set ds"
  then obtain i where i: "i < length ds" "ds ! i = d" by (auto simp: in_set_conv_nth)
  note sent = frame_tile_datagrams_Inr [OF assms(1)]
  let ?n = "length (tile_blocks mx (tile_bytes tile))"
  have "length (tile_bytes tile) \<le> ?n * payload_limit mx"
  proof -
    have "0 < payload_limit mx" using payload_limit_bounds [of mx] by simp
    then have "length (tile_bytes tile) \<le> div_ceil (length (tile_bytes tile)) (payload_limit mx) * payload_limit mx"
      by (rule le_div_ceil_mult)
    moreover have "tile_bytes tile \<noteq> []" using assms(2) by auto
    ultimately show ?thesis by (simp add: length_tile_blocks)
  qed
  also have "\<dots> \<le> ?n * 944" using payload_limit_bounds [of mx] by simp
  finally have n: "16384 < ?n" using assms(2) by simp
  let ?c = "tile_chunk mx tile ch seq i"
  have "unat (chunk_count ?c) = ?n"
    using sent by (simp add: tile_chunk_def make_chunk_def unat_of_nat32)
  with n have "chunk_count ?c > MAX_CHUNKS_PER_FRAME"
    by (simp add: word_less_nat_alt MAX_CHUNKS_PER_FRAME_def)
  then have "\<forall>p. push p ?c = (None, p)" by (simp add: push_def)
  with sent i show "\<exists>c. enc (FrameTileChunk c) = Some d \<and> (\<forall>p. push p c = (None, p))" by auto
qed

lemma encode_chunks_const:
  assumes "k + length cs \<le> 2 ^ 32"
  shows "encode_chunks (\<lambda>_. Some []) mx mk k cs = Inr (replicate (length cs) [])"
  using assms
proof (induction cs arbitrary: k)
  case Nil
  then show ?case by simp
next
  case (Cons c cs)
  from Cons.IH [of "Suc k"] Cons.prems show ?case
    by (simp add: u32_try_from_def encode_checked_def)
qed

definition huge_tile :: FrameTile where
  "huge_tile = demo_tile\<lparr>tile_bytes := replicate 33177600 0\<rparr>"

lemma huge_datagrams:
  "frame_tile_datagrams (\<lambda>_. Some []) huge_tile 5 1 1200 = Inr (replicate 35146 [])"
proof -
  have "length (chunks 944 (replicate 33177600 (0 :: u8))) = 35146"
    by (subst length_chunks) (simp_all add: div_ceil_def)
  then have "encode_chunks (\<lambda>_. Some []) 1200 mk 0 (chunks 944 (replicate 33177600 (0 :: u8)))
      = Inr (replicate 35146 [])" for mk
    by (subst encode_chunks_const) simp_all
  then show ?thesis
    by (simp add: frame_tile_datagrams_def Let_def payload_limit_def div_ceil_def u32_try_from_def
        huge_tile_def)
qed

theorem oversized_tile_dropped_witness:
  "\<exists>c. (\<lambda>_. Some []) (FrameTileChunk c) = Some ([] :: u8 list) \<and> (\<forall>p. push p c = (None, p))"
  by (rule bspec [OF oversized_tile_dropped [OF huge_datagrams]]) (simp_all add: huge_tile_def)

end
