(* ===== verification/Ime_Core.thy ===== *)
theory Ime_Core
  imports VBox_Prelude
begin

text \<open>
  What the input composers of \<open>crates/client/src/viewer/ime\<close> share: the actions they emit
  (\<open>ComposerAction\<close> of \<open>mod.rs\<close>), the view a host has of them (\<open>committed\<close>, \<open>shown\<close>), the
  expansion of composed text into the keys it is made of (the specification of losslessness),
  and the locale \<open>composer\<close>, the contract every backend and the dispatcher meet.

  \<open>expand_char\<close> takes a Hangul syllable apart into its compatibility jamo (compound vowels
  and finals into their two keys), a voiced kana into its base and a combining mark, and
  maps the spacing marks to the combining ones. It is the specification only; the composers'
  own tables are in their theories.
\<close>

section \<open>Actions\<close>

datatype ComposerAction = Commit ustring | Preedit "ustring option"

fun committed :: "ComposerAction list \<Rightarrow> ustring" where
  "committed [] = []"
| "committed (Commit t # as) = t @ committed as"
| "committed (Preedit _ # as) = committed as"

fun shown :: "ustring option \<Rightarrow> ComposerAction list \<Rightarrow> ustring option" where
  "shown p [] = p"
| "shown p (Commit _ # as) = shown p as"
| "shown p (Preedit q # as) = shown q as"

definition pend :: "ustring option \<Rightarrow> ustring" where
  "pend p = (case p of None \<Rightarrow> [] | Some t \<Rightarrow> t)"

lemma pend_simps [simp]: "pend None = []" "pend (Some t) = t"
  by (simp_all add: pend_def)

lemma committed_append [simp]: "committed (as @ bs) = committed as @ committed bs"
  by (induction as rule: committed.induct) auto

lemma shown_append [simp]: "shown p (as @ bs) = shown (shown p as) bs"
  by (induction p as rule: shown.induct) auto

section \<open>Expansion\<close>

definition JAMO_L :: "uchar list" where
  "JAMO_L = [
     0x3131, 0x3132, 0x3134, 0x3137, 0x3138, 0x3139, 0x3141, 0x3142, 0x3143, 0x3145, 0x3146,
     0x3147, 0x3148, 0x3149, 0x314A, 0x314B, 0x314C, 0x314D, 0x314E]"

definition JAMO_V :: "ustring list" where
  "JAMO_V = [
     [0x314F], [0x3150], [0x3151], [0x3152], [0x3153], [0x3154], [0x3155], [0x3156], [0x3157],
     [0x3157, 0x314F], [0x3157, 0x3150], [0x3157, 0x3163], [0x315B], [0x315C],
     [0x315C, 0x3153], [0x315C, 0x3154], [0x315C, 0x3163], [0x3160], [0x3161],
     [0x3161, 0x3163], [0x3163]]"

definition JAMO_T :: "ustring list" where
  "JAMO_T = [
     [], [0x3131], [0x3132], [0x3131, 0x3145], [0x3134], [0x3134, 0x3148], [0x3134, 0x314E],
     [0x3137], [0x3139], [0x3139, 0x3131], [0x3139, 0x3141], [0x3139, 0x3142],
     [0x3139, 0x3145], [0x3139, 0x314C], [0x3139, 0x314D], [0x3139, 0x314E], [0x3141],
     [0x3142], [0x3142, 0x3145], [0x3145], [0x3146], [0x3147], [0x3148], [0x314A], [0x314B],
     [0x314C], [0x314D], [0x314E]]"

definition KANA_PARTS :: "(uchar \<times> ustring) list" where
  "KANA_PARTS = [
     (0x3094, [0x3046, 0x3099]), (0x304C, [0x304B, 0x3099]), (0x304E, [0x304D, 0x3099]),
     (0x3050, [0x304F, 0x3099]), (0x3052, [0x3051, 0x3099]), (0x3054, [0x3053, 0x3099]),
     (0x3056, [0x3055, 0x3099]), (0x3058, [0x3057, 0x3099]), (0x305A, [0x3059, 0x3099]),
     (0x305C, [0x305B, 0x3099]), (0x305E, [0x305D, 0x3099]), (0x3060, [0x305F, 0x3099]),
     (0x3062, [0x3061, 0x3099]), (0x3065, [0x3064, 0x3099]), (0x3067, [0x3066, 0x3099]),
     (0x3069, [0x3068, 0x3099]), (0x3070, [0x306F, 0x3099]), (0x3071, [0x306F, 0x309A]),
     (0x3073, [0x3072, 0x3099]), (0x3074, [0x3072, 0x309A]), (0x3076, [0x3075, 0x3099]),
     (0x3077, [0x3075, 0x309A]), (0x3079, [0x3078, 0x3099]), (0x307A, [0x3078, 0x309A]),
     (0x307C, [0x307B, 0x3099]), (0x307D, [0x307B, 0x309A]), (0x30F4, [0x30A6, 0x3099]),
     (0x30AC, [0x30AB, 0x3099]), (0x30AE, [0x30AD, 0x3099]), (0x30B0, [0x30AF, 0x3099]),
     (0x30B2, [0x30B1, 0x3099]), (0x30B4, [0x30B3, 0x3099]), (0x30B6, [0x30B5, 0x3099]),
     (0x30B8, [0x30B7, 0x3099]), (0x30BA, [0x30B9, 0x3099]), (0x30BC, [0x30BB, 0x3099]),
     (0x30BE, [0x30BD, 0x3099]), (0x30C0, [0x30BF, 0x3099]), (0x30C2, [0x30C1, 0x3099]),
     (0x30C5, [0x30C4, 0x3099]), (0x30C7, [0x30C6, 0x3099]), (0x30C9, [0x30C8, 0x3099]),
     (0x30D0, [0x30CF, 0x3099]), (0x30D1, [0x30CF, 0x309A]), (0x30D3, [0x30D2, 0x3099]),
     (0x30D4, [0x30D2, 0x309A]), (0x30D6, [0x30D5, 0x3099]), (0x30D7, [0x30D5, 0x309A]),
     (0x30D9, [0x30D8, 0x3099]), (0x30DA, [0x30D8, 0x309A]), (0x30DC, [0x30DB, 0x3099]),
     (0x30DD, [0x30DB, 0x309A]), (0x30F7, [0x30EF, 0x3099]), (0x30F8, [0x30F0, 0x3099]),
     (0x30F9, [0x30F1, 0x3099]), (0x30FA, [0x30F2, 0x3099]), (0x309B, [0x3099]),
     (0x309C, [0x309A])]"

definition expand_char :: "uchar \<Rightarrow> ustring" where
  "expand_char c =
     (if 0xAC00 \<le> c \<and> c < 0xAC00 + 19 * 21 * 28 then
        let n = c - 0xAC00 in
        JAMO_L ! (n div 588) # JAMO_V ! (n mod 588 div 28) @ JAMO_T ! (n mod 28)
      else if 0x314F \<le> c \<and> c \<le> 0x3163 then JAMO_V ! (c - 0x314F)
      else (case map_of KANA_PARTS c of Some ps \<Rightarrow> ps | None \<Rightarrow> [c]))"

definition expand :: "ustring \<Rightarrow> ustring" where
  "expand t = concat (map expand_char t)"

lemma expand_simps [simp]:
  "expand [] = []" "expand (c # t) = expand_char c @ expand t" "expand (s @ t) = expand s @ expand t"
  by (simp_all add: expand_def)

section \<open>The contract of a composer\<close>

datatype composer_op = Push ustring | Flush | Backspace

fun typed :: "composer_op list \<Rightarrow> ustring" where
  "typed [] = []"
| "typed (Push t # ops) = t @ typed ops"
| "typed (_ # ops) = typed ops"

text \<open>Driving a composer, given by its three operations, with a list of host events.\<close>

fun apply_op ::
  "('s \<Rightarrow> ustring \<Rightarrow> 's \<times> ComposerAction list) \<Rightarrow> ('s \<Rightarrow> 's \<times> ComposerAction list)
     \<Rightarrow> ('s \<Rightarrow> 's \<times> ComposerAction list) \<Rightarrow> 's \<Rightarrow> composer_op \<Rightarrow> 's \<times> ComposerAction list" where
  "apply_op push flush bsp s (Push t) = push s t"
| "apply_op push flush bsp s Flush = flush s"
| "apply_op push flush bsp s Backspace = bsp s"

fun drive ::
  "('s \<Rightarrow> ustring \<Rightarrow> 's \<times> ComposerAction list) \<Rightarrow> ('s \<Rightarrow> 's \<times> ComposerAction list)
     \<Rightarrow> ('s \<Rightarrow> 's \<times> ComposerAction list) \<Rightarrow> 's \<Rightarrow> composer_op list \<Rightarrow> 's \<times> ComposerAction list"
where
  "drive push flush bsp s [] = (s, [])"
| "drive push flush bsp s (op # ops) =
     (let (s1, as) = apply_op push flush bsp s op;
          (s2, bs) = drive push flush bsp s1 ops
      in (s2, as @ bs))"

lemma drive_Cons:
  "fst (drive push flush bsp s (op # ops))
     = fst (drive push flush bsp (fst (apply_op push flush bsp s op)) ops)"
  "snd (drive push flush bsp s (op # ops))
     = snd (apply_op push flush bsp s op)
         @ snd (drive push flush bsp (fst (apply_op push flush bsp s op)) ops)"
  by (simp_all add: split_beta)

locale composer =
  fixes preedit :: "'s \<Rightarrow> ustring option"
    and is_empty :: "'s \<Rightarrow> bool"
    and push_text :: "'s \<Rightarrow> ustring \<Rightarrow> 's \<times> ComposerAction list"
    and flush :: "'s \<Rightarrow> 's \<times> ComposerAction list"
    and backspace :: "'s \<Rightarrow> 's \<times> ComposerAction list"
    and inv :: "'s \<Rightarrow> bool"
  assumes is_empty_iff: "inv s \<Longrightarrow> is_empty s \<longleftrightarrow> preedit s = None"
    and push_inv: "inv s \<Longrightarrow> inv (fst (push_text s t))"
    and flush_inv: "inv s \<Longrightarrow> inv (fst (flush s))"
    and backspace_inv: "inv s \<Longrightarrow> inv (fst (backspace s))"
    and push_shown: "inv s \<Longrightarrow> shown (preedit s) (snd (push_text s t)) = preedit (fst (push_text s t))"
    and push_lossless: "inv s \<Longrightarrow>
      expand (committed (snd (push_text s t)) @ pend (preedit (fst (push_text s t))))
        = expand (pend (preedit s) @ t)"
    and flush_empty: "inv s \<Longrightarrow> preedit (fst (flush s)) = None"
    and flush_shown: "inv s \<Longrightarrow> shown (preedit s) (snd (flush s)) = None"
    and flush_commits: "inv s \<Longrightarrow> committed (snd (flush s)) = pend (preedit s)"
    and backspace_shown: "inv s \<Longrightarrow> shown (preedit s) (snd (backspace s)) = preedit (fst (backspace s))"
    and backspace_commits: "inv s \<Longrightarrow> committed (snd (backspace s)) = []"
    and backspace_drops: "inv s \<Longrightarrow> preedit s \<noteq> None \<Longrightarrow>
      \<exists>d. d \<noteq> [] \<and> expand (pend (preedit s)) = expand (pend (preedit (fst (backspace s)))) @ d"
    and backspace_idle: "inv s \<Longrightarrow> preedit s = None \<Longrightarrow> backspace s = (s, [])"
begin

lemma apply_op_inv: "inv s \<Longrightarrow> inv (fst (apply_op push_text flush backspace s op))"
  by (cases op) (auto intro: push_inv flush_inv backspace_inv)

lemma apply_op_shown: "inv s \<Longrightarrow> shown (preedit s) (snd (apply_op push_text flush backspace s op)) = preedit (fst (apply_op push_text flush backspace s op))"
  by (cases op) (auto simp: push_shown flush_shown flush_empty backspace_shown)

lemma drive_inv: "inv s \<Longrightarrow> inv (fst (drive push_text flush backspace s ops))"
  by (induction ops arbitrary: s) (auto simp: drive_Cons apply_op_inv simp del: drive.simps(2))

lemma drive_shown:
  "inv s \<Longrightarrow> shown (preedit s) (snd (drive push_text flush backspace s ops)) = preedit (fst (drive push_text flush backspace s ops))"
  by (induction ops arbitrary: s)
    (auto simp: drive_Cons apply_op_inv apply_op_shown simp del: drive.simps(2))

lemma drive_lossless:
  "inv s \<Longrightarrow> Backspace \<notin> set ops \<Longrightarrow>
     expand (committed (snd (drive push_text flush backspace s ops)) @ pend (preedit (fst (drive push_text flush backspace s ops))))
       = expand (pend (preedit s) @ typed ops)"
proof (induction ops arbitrary: s)
  case Nil
  then show ?case by simp
next
  case (Cons op ops)
  let ?s = "fst (apply_op push_text flush backspace s op)"
  have op: "expand (committed (snd (apply_op push_text flush backspace s op)) @ pend (preedit ?s))
      = expand (pend (preedit s) @ typed [op])"
    using Cons.prems
    by (cases op) (use push_lossless [of s] in \<open>auto simp: flush_commits flush_empty\<close>)
  have "expand (committed (snd (drive push_text flush backspace ?s ops)) @ pend (preedit (fst (drive push_text flush backspace ?s ops))))
      = expand (pend (preedit ?s) @ typed ops)"
    using Cons.prems by (intro Cons.IH apply_op_inv) auto
  moreover have "typed (op # ops) = typed [op] @ typed ops"
    by (cases op) auto
  ultimately show ?case
    using op by (simp add: drive_Cons del: drive.simps(2) typed.simps)
qed

lemma drive_flush_lossless:
  assumes "inv s" and "Backspace \<notin> set ops"
  shows "expand (committed (snd (drive push_text flush backspace s ops) @ snd (flush (fst (drive push_text flush backspace s ops)))))
       = expand (pend (preedit s) @ typed ops)"
  using drive_lossless [OF assms] flush_commits [OF drive_inv [OF assms(1)]] by simp

end

end
