(* ===== verification/Ime_Hangul.thy ===== *)
theory Ime_Hangul
  imports Ime_Core
begin

text \<open>
  The Hangul composer, \<open>crates/client/src/viewer/ime/hangul.rs\<close>: a state machine that
  assembles compatibility jamo into syllables. The struct has the one field \<open>pending\<close>, which
  is the state here. The arrays of \<open>initial_char\<close> and \<open>vowel_char\<close> are indexed with values
  that \<open>hangul_inv\<close> bounds, so the indexing never panics in a reachable state.
\<close>

section \<open>Tables\<close>

datatype Pending =
    PendNone
  | Initial nat
  | Vowel nat
  | Syllable nat nat nat

definition is_compat_jamo :: "uchar \<Rightarrow> bool" where
  "is_compat_jamo ch \<longleftrightarrow> 0x3130 \<le> ch \<and> ch \<le> 0x318F"

definition initial_index :: "uchar \<Rightarrow> nat option" where
  "initial_index = map_of [
     (0x3131, 0), (0x3132, 1), (0x3134, 2), (0x3137, 3), (0x3138, 4), (0x3139, 5), (0x3141, 6),
     (0x3142, 7), (0x3143, 8), (0x3145, 9), (0x3146, 10), (0x3147, 11), (0x3148, 12),
     (0x3149, 13), (0x314A, 14), (0x314B, 15), (0x314C, 16), (0x314D, 17), (0x314E, 18)]"

definition initial_char :: "nat \<Rightarrow> uchar" where
  "initial_char l = [
     0x3131, 0x3132, 0x3134, 0x3137, 0x3138, 0x3139, 0x3141, 0x3142, 0x3143, 0x3145, 0x3146,
     0x3147, 0x3148, 0x3149, 0x314A, 0x314B, 0x314C, 0x314D, 0x314E] ! l"

definition vowel_index :: "uchar \<Rightarrow> nat option" where
  "vowel_index = map_of [
     (0x314F, 0), (0x3150, 1), (0x3151, 2), (0x3152, 3), (0x3153, 4), (0x3154, 5), (0x3155, 6),
     (0x3156, 7), (0x3157, 8), (0x3158, 9), (0x3159, 10), (0x315A, 11), (0x315B, 12),
     (0x315C, 13), (0x315D, 14), (0x315E, 15), (0x315F, 16), (0x3160, 17), (0x3161, 18),
     (0x3162, 19), (0x3163, 20)]"

definition vowel_char :: "nat \<Rightarrow> uchar" where
  "vowel_char v = [
     0x314F, 0x3150, 0x3151, 0x3152, 0x3153, 0x3154, 0x3155, 0x3156, 0x3157, 0x3158, 0x3159,
     0x315A, 0x315B, 0x315C, 0x315D, 0x315E, 0x315F, 0x3160, 0x3161, 0x3162, 0x3163] ! v"

definition final_index :: "uchar \<Rightarrow> nat option" where
  "final_index = map_of [
     (0x3131, 1), (0x3132, 2), (0x3133, 3), (0x3134, 4), (0x3135, 5), (0x3136, 6), (0x3137, 7),
     (0x3139, 8), (0x313A, 9), (0x313B, 10), (0x313C, 11), (0x313D, 12), (0x313E, 13),
     (0x313F, 14), (0x3140, 15), (0x3141, 16), (0x3142, 17), (0x3144, 18), (0x3145, 19),
     (0x3146, 20), (0x3147, 21), (0x3148, 22), (0x314A, 23), (0x314B, 24), (0x314C, 25),
     (0x314D, 26), (0x314E, 27)]"

definition compose_syllable :: "nat \<Rightarrow> nat \<Rightarrow> nat \<Rightarrow> ustring" where
  "compose_syllable l v t =
     (let code = 0xAC00 + ((l * 21 + v) * 28 + t) in
      [if is_scalar code then code else 0xFFFD])"

definition combine_vowel :: "nat \<Rightarrow> nat \<Rightarrow> nat option" where
  "combine_vowel left right = map_of [((8, 0), 9), ((8, 1), 10), ((8, 20), 11), ((13, 4), 14),
     ((13, 5), 15), ((13, 20), 16), ((18, 20), 19)] (left, right)"

definition combine_final :: "nat \<Rightarrow> nat \<Rightarrow> nat option" where
  "combine_final left right = map_of [((1, 19), 3), ((4, 22), 5), ((4, 27), 6), ((8, 1), 9),
     ((8, 16), 10), ((8, 17), 11), ((8, 19), 12), ((8, 25), 13), ((8, 26), 14), ((8, 27), 15),
     ((17, 19), 18)] (left, right)"

definition final_to_initial :: "nat \<Rightarrow> nat" where
  "final_to_initial t =
     (case map_of [(1, 0), (2, 1), (4, 2), (7, 3), (8, 5), (16, 6), (17, 7), (19, 9), (20, 10),
        (21, 11), (22, 12), (23, 14), (24, 15), (25, 16), (26, 17), (27, 18)] t of
        Some l \<Rightarrow> l | None \<Rightarrow> 11)"

definition split_final :: "nat \<Rightarrow> nat \<times> nat" where
  "split_final t =
     (case map_of [(3, (1, 9)), (5, (4, 12)), (6, (4, 18)), (9, (8, 0)), (10, (8, 6)),
        (11, (8, 7)), (12, (8, 9)), (13, (8, 16)), (14, (8, 17)), (15, (8, 18)), (18, (17, 9))] t of
        Some p \<Rightarrow> p | None \<Rightarrow> (0, final_to_initial t))"

section \<open>Operations\<close>

fun hangul_is_empty :: "Pending \<Rightarrow> bool" where
  "hangul_is_empty PendNone = True"
| "hangul_is_empty _ = False"

definition hangul_can_compose :: "ustring \<Rightarrow> bool" where
  "hangul_can_compose text \<longleftrightarrow> text \<noteq> [] \<and> list_all is_compat_jamo text"

fun pending_text :: "Pending \<Rightarrow> ustring option" where
  "pending_text PendNone = None"
| "pending_text (Initial l) = Some [initial_char l]"
| "pending_text (Vowel v) = Some [vowel_char v]"
| "pending_text (Syllable l v t) = Some (compose_syllable l v t)"

definition take_pending_text :: "Pending \<Rightarrow> Pending \<times> ustring option" where
  "take_pending_text p = (PendNone, pending_text p)"

text \<open>The commit of whatever was pending, as the callers of \<open>take_pending_text\<close> push it.\<close>

definition commit_taken :: "Pending \<Rightarrow> ComposerAction list" where
  "commit_taken p =
     (case snd (take_pending_text p) of Some text \<Rightarrow> [Commit text] | None \<Rightarrow> [])"

definition push_consonant :: "Pending \<Rightarrow> uchar \<Rightarrow> nat \<Rightarrow> Pending \<times> ComposerAction list" where
  "push_consonant p ch l_new =
     (case p of
        PendNone \<Rightarrow> (Initial l_new, [])
      | Initial _ \<Rightarrow> (Initial l_new, commit_taken p)
      | Vowel _ \<Rightarrow> (Initial l_new, commit_taken p)
      | Syllable l v t \<Rightarrow>
          if t = 0 then
            (case final_index ch of
               Some t_new \<Rightarrow> (Syllable l v t_new, [])
             | None \<Rightarrow> (Initial l_new, commit_taken p))
          else
            (case Option.bind (final_index ch) (combine_final t) of
               Some t_new \<Rightarrow> (Syllable l v t_new, [])
             | None \<Rightarrow> (Initial l_new, commit_taken p)))"

definition push_vowel :: "Pending \<Rightarrow> nat \<Rightarrow> Pending \<times> ComposerAction list" where
  "push_vowel p v_new =
     (case p of
        PendNone \<Rightarrow> (Vowel v_new, [])
      | Initial l \<Rightarrow> (Syllable l v_new 0, [])
      | Vowel v \<Rightarrow>
          (case combine_vowel v v_new of
             Some v' \<Rightarrow> (Vowel v', [])
           | None \<Rightarrow> (Vowel v_new, commit_taken p))
      | Syllable l v t \<Rightarrow>
          if t = 0 then
            (case combine_vowel v v_new of
               Some v' \<Rightarrow> (Syllable l v' 0, [])
             | None \<Rightarrow> (Vowel v_new, commit_taken p))
          else
            (case split_final t of
               (remaining_t, moved_l) \<Rightarrow>
                 (Syllable moved_l v_new 0, [Commit (compose_syllable l v remaining_t)])))"

definition hangul_push_char :: "Pending \<Rightarrow> uchar \<Rightarrow> Pending \<times> ComposerAction list" where
  "hangul_push_char p ch =
     (let (p', actions) =
        (case initial_index ch of
           Some l \<Rightarrow> push_consonant p ch l
         | None \<Rightarrow>
             (case vowel_index ch of
                Some v \<Rightarrow> push_vowel p v
              | None \<Rightarrow> (fst (take_pending_text p), commit_taken p @ [Commit [ch]])))
      in (p', actions @ [Preedit (pending_text p')]))"

fun hangul_push_text :: "Pending \<Rightarrow> ustring \<Rightarrow> Pending \<times> ComposerAction list" where
  "hangul_push_text p [] = (p, [])"
| "hangul_push_text p (ch # text) =
     (let (p1, as) = hangul_push_char p ch; (p2, bs) = hangul_push_text p1 text in (p2, as @ bs))"

definition hangul_flush :: "Pending \<Rightarrow> Pending \<times> ComposerAction list" where
  "hangul_flush p =
     (case take_pending_text p of
        (p', Some text) \<Rightarrow> (p', [Commit text, Preedit None])
      | (p', None) \<Rightarrow> (p', []))"

fun hangul_backspace :: "Pending \<Rightarrow> Pending \<times> ComposerAction list" where
  "hangul_backspace PendNone = (PendNone, [])"
| "hangul_backspace (Initial _) = (PendNone, [Preedit None])"
| "hangul_backspace (Vowel _) = (PendNone, [Preedit None])"
| "hangul_backspace (Syllable l v t) =
     (let p = (if t \<noteq> 0 then Syllable l v 0 else Initial l) in (p, [Preedit (pending_text p)]))"

section \<open>Lemmas on the tables\<close>

fun hangul_inv :: "Pending \<Rightarrow> bool" where
  "hangul_inv PendNone = True"
| "hangul_inv (Initial l) = (l < 19)"
| "hangul_inv (Vowel v) = (v < 21)"
| "hangul_inv (Syllable l v t) = (l < 19 \<and> v < 21 \<and> t < 28)"

lemma all_less_numeral:
  "(\<forall>i < numeral k. P i) \<longleftrightarrow> P (pred_numeral k) \<and> (\<forall>i < pred_numeral k. P i)"
  by (auto simp: numeral_eq_Suc less_Suc_eq)

lemma initial_index_Some:
  "initial_index ch = Some l \<Longrightarrow> l < 19 \<and> initial_char l = ch"
  by (auto simp: initial_index_def initial_char_def split: if_splits)

lemma initial_char_expand:
  assumes "l < 19"
  shows "expand_char (initial_char l) = [initial_char l] \<and> JAMO_L ! l = initial_char l"
proof -
  have "\<forall>l < 19. expand_char (initial_char l) = [initial_char l] \<and> JAMO_L ! l = initial_char l"
    by (simp add: all_less_numeral initial_char_def JAMO_L_def expand_char_def KANA_PARTS_def)
  with assms show ?thesis by blast
qed

lemma vowel_index_Some:
  "vowel_index ch = Some v \<Longrightarrow> v < 21 \<and> vowel_char v = ch"
  by (auto simp: vowel_index_def vowel_char_def split: if_splits)

lemma vowel_char_expand:
  assumes "v < 21"
  shows "expand_char (vowel_char v) = JAMO_V ! v \<and> JAMO_V ! v \<noteq> []"
proof -
  have "\<forall>v < 21. vowel_char v = 0x314F + v \<and> JAMO_V ! v \<noteq> []"
    by (simp add: all_less_numeral vowel_char_def JAMO_V_def)
  with assms show ?thesis by (simp add: expand_char_def)
qed

lemma final_index_Some:
  "final_index ch = Some t \<Longrightarrow> initial_index ch = Some l \<Longrightarrow> 0 < t \<and> t < 28 \<and> JAMO_T ! t = [ch]"
  by (auto simp: final_index_def initial_index_def JAMO_T_def split: if_splits)

lemma combine_vowel_Some:
  "combine_vowel v w = Some u \<Longrightarrow> u < 21 \<and> JAMO_V ! u = JAMO_V ! v @ JAMO_V ! w"
  by (auto simp: combine_vowel_def JAMO_V_def split: if_splits)

lemma combine_final_Some:
  "combine_final t n = Some u \<Longrightarrow> u < 28 \<and> JAMO_T ! u = JAMO_T ! t @ JAMO_T ! n"
  by (auto simp: combine_final_def JAMO_T_def split: if_splits)

lemma split_final_parts:
  assumes "split_final t = (r, m)" and "0 < t" and "t < 28"
  shows "r < 28 \<and> m < 19 \<and> JAMO_T ! t = JAMO_T ! r @ [initial_char m]"
proof -
  have "\<forall>t < 28. 0 < t \<longrightarrow> fst (split_final t) < 28 \<and> snd (split_final t) < 19
      \<and> JAMO_T ! t = JAMO_T ! fst (split_final t) @ [initial_char (snd (split_final t))]"
    by (simp add: all_less_numeral split_final_def final_to_initial_def initial_char_def JAMO_T_def)
  with assms show ?thesis by auto
qed

lemma JAMO_T_0 [simp]: "JAMO_T ! 0 = []"
  by (simp add: JAMO_T_def)

lemma compose_syllable_code:
  assumes "l < 19" and "v < 21" and "t < 28"
  shows "compose_syllable l v t = [0xAC00 + (l * 588 + v * 28 + t)]"
    and "l * 588 + v * 28 + t < 11172"
proof -
  show "l * 588 + v * 28 + t < 11172" using assms by linarith
  then show "compose_syllable l v t = [0xAC00 + (l * 588 + v * 28 + t)]"
    by (simp add: compose_syllable_def is_scalar_def Let_def algebra_simps)
qed

lemma expand_syllable:
  assumes "l < 19" and "v < 21" and "t < 28"
  shows "expand (compose_syllable l v t) = initial_char l # JAMO_V ! v @ JAMO_T ! t"
proof -
  let ?n = "l * 588 + v * 28 + t"
  have "?n div 588 = l" "?n mod 588 = v * 28 + t"
    using assms by (simp_all add: div_nat_eqI mod_nat_eqI)
  moreover have "(v * 28 + t) div 28 = v" "?n mod 28 = t"
    using assms by (simp_all add: div_nat_eqI mod_nat_eqI)
  ultimately show ?thesis
    using compose_syllable_code [OF assms] initial_char_expand [OF assms(1)]
    by (simp add: expand_char_def Let_def)
qed

section \<open>Each operation\<close>

definition pend_keys :: "Pending \<Rightarrow> ustring" where
  "pend_keys p = expand (pend (pending_text p))"

lemma pend_keys_simps:
  "pend_keys PendNone = []"
  "l < 19 \<Longrightarrow> pend_keys (Initial l) = [initial_char l]"
  "v < 21 \<Longrightarrow> pend_keys (Vowel v) = JAMO_V ! v"
  "l < 19 \<Longrightarrow> v < 21 \<Longrightarrow> t < 28 \<Longrightarrow>
     pend_keys (Syllable l v t) = initial_char l # JAMO_V ! v @ JAMO_T ! t"
  by (simp_all add: pend_keys_def initial_char_expand vowel_char_expand expand_syllable)

lemma commit_taken_keys: "expand (committed (commit_taken p)) = pend_keys p"
  by (cases p) (simp_all add: commit_taken_def take_pending_text_def pend_keys_def)

lemma push_consonant_ok:
  assumes "hangul_inv p" and "initial_index ch = Some l" and "push_consonant p ch l = (p', as)"
  shows "hangul_inv p' \<and> expand (committed as) @ pend_keys p' = pend_keys p @ [ch]"
proof -
  note ch = initial_index_Some [OF assms(2)]
  show ?thesis
  proof (cases p)
    case PendNone
    then show ?thesis using assms ch by (auto simp: push_consonant_def pend_keys_simps)
  next
    case (Initial k)
    then show ?thesis
      using assms ch by (auto simp: push_consonant_def commit_taken_keys pend_keys_simps)
  next
    case (Vowel v)
    then show ?thesis
      using assms ch by (auto simp: push_consonant_def commit_taken_keys pend_keys_simps)
  next
    case (Syllable k v t)
    show ?thesis
    proof (cases "if t = 0 then final_index ch else Option.bind (final_index ch) (combine_final t)")
      case None
      then have "p' = Initial l" "as = commit_taken p"
        using assms(3) Syllable by (auto simp: push_consonant_def split: if_splits option.splits)
      then show ?thesis using ch by (simp add: commit_taken_keys pend_keys_simps)
    next
      case (Some u)
      then have p': "p' = Syllable k v u" "as = []"
        using assms(3) Syllable by (auto simp: push_consonant_def split: if_splits)
      have "u < 28 \<and> JAMO_T ! u = JAMO_T ! t @ [ch]"
        using Some assms(2) final_index_Some [of ch _ l] combine_final_Some [of t]
        by (fastforce split: if_splits simp: bind_eq_Some_conv)
      then show ?thesis using p' Syllable assms(1) by (simp add: pend_keys_simps)
    qed
  qed
qed

lemma push_vowel_ok:
  assumes "hangul_inv p" and "vn < 21" and "push_vowel p vn = (p', as)"
  shows "hangul_inv p' \<and> expand (committed as) @ pend_keys p' = pend_keys p @ JAMO_V ! vn"
proof (cases p)
  case PendNone
  then show ?thesis using assms by (auto simp: push_vowel_def pend_keys_simps)
next
  case (Initial k)
  then show ?thesis using assms by (auto simp: push_vowel_def pend_keys_simps)
next
  case (Vowel v)
  then show ?thesis
    using assms combine_vowel_Some [of v vn]
    by (auto simp: push_vowel_def commit_taken_keys pend_keys_simps split: option.splits)
next
  case (Syllable l v t)
  show ?thesis
  proof (cases "t = 0")
    case True
    then show ?thesis
      using Syllable assms combine_vowel_Some [of v vn]
      by (auto simp: push_vowel_def commit_taken_keys pend_keys_simps split: option.splits)
  next
    case False
    obtain r m where rm: "split_final t = (r, m)" by fastforce
    with False Syllable assms(1) have "r < 28 \<and> m < 19 \<and> JAMO_T ! t = JAMO_T ! r @ [initial_char m]"
      using split_final_parts by auto
    with rm False Syllable assms show ?thesis
      by (auto simp: push_vowel_def pend_keys_simps expand_syllable)
  qed
qed

lemma hangul_push_char_ok:
  assumes "hangul_inv p" and "hangul_push_char p ch = (p', as)"
  shows "hangul_inv p' \<and> expand (committed as) @ pend_keys p' = pend_keys p @ expand_char ch
    \<and> shown q as = pending_text p'"
proof (cases "initial_index ch")
  case (Some l)
  then obtain as' where "push_consonant p ch l = (p', as')" "as = as' @ [Preedit (pending_text p')]"
    using assms(2) by (auto simp: hangul_push_char_def Let_def split: prod.splits)
  with push_consonant_ok [OF assms(1) Some] initial_index_Some [OF Some] initial_char_expand [of l]
  show ?thesis by auto
next
  case None
  show ?thesis
  proof (cases "vowel_index ch")
    case (Some v)
    then obtain as' where "push_vowel p v = (p', as')" "as = as' @ [Preedit (pending_text p')]"
      using assms(2) None by (auto simp: hangul_push_char_def Let_def split: prod.splits)
    with push_vowel_ok [OF assms(1)] vowel_index_Some [OF Some] vowel_char_expand [of v]
    show ?thesis by auto
  next
    case None': None
    then show ?thesis
      using None assms by (auto simp: hangul_push_char_def take_pending_text_def Let_def
          commit_taken_keys pend_keys_simps)
  qed
qed

lemma hangul_push_text_ok:
  "hangul_inv p \<Longrightarrow> hangul_push_text p chs = (p', as) \<Longrightarrow>
     hangul_inv p' \<and> expand (committed as) @ pend_keys p' = pend_keys p @ expand chs
     \<and> shown (pending_text p) as = pending_text p'"
proof (induction chs arbitrary: p as)
  case Nil
  then show ?case by simp
next
  case (Cons ch chs)
  obtain p1 as1 where 1: "hangul_push_char p ch = (p1, as1)" by fastforce
  obtain as2 where 2: "hangul_push_text p1 chs = (p', as2)" "as = as1 @ as2"
    using Cons.prems 1 by (auto split: prod.splits)
  note c = hangul_push_char_ok [OF Cons.prems(1) 1, of "pending_text p"]
  with Cons.IH [OF _ 2(1)] 2(2) show ?case by auto
qed

lemma hangul_backspace_drops:
  assumes "hangul_inv p" and "p \<noteq> PendNone"
  shows "\<exists>d. d \<noteq> [] \<and> pend_keys p = pend_keys (fst (hangul_backspace p)) @ d"
proof (cases p)
  case (Syllable l v t)
  show ?thesis
  proof (cases "t = 0")
    case True
    then show ?thesis
      using Syllable assms(1) vowel_char_expand [of v] by (auto simp: Let_def pend_keys_simps)
  next
    case False
    obtain r m where "split_final t = (r, m)" by fastforce
    then have "JAMO_T ! t \<noteq> []" using split_final_parts [of t] False Syllable assms(1) by auto
    then show ?thesis
      using Syllable False assms(1) by (auto simp: Let_def pend_keys_simps)
  qed
qed (use assms vowel_char_expand in \<open>auto simp: pend_keys_simps\<close>)

interpretation hangul: composer pending_text hangul_is_empty hangul_push_text hangul_flush
    hangul_backspace hangul_inv
proof
  fix s :: Pending and t :: ustring
  assume inv: "hangul_inv s"
  obtain s' as where push: "hangul_push_text s t = (s', as)" by fastforce
  note ok = hangul_push_text_ok [OF inv push]
  show "hangul_inv (fst (hangul_push_text s t))"
    and "shown (pending_text s) (snd (hangul_push_text s t)) = pending_text (fst (hangul_push_text s t))"
    and "expand (committed (snd (hangul_push_text s t)) @ pend (pending_text (fst (hangul_push_text s t))))
      = expand (pend (pending_text s) @ t)"
    using ok push by (simp_all add: pend_keys_def)
  show "hangul_is_empty s = (pending_text s = None)"
    and "hangul_inv (fst (hangul_flush s))"
    and "pending_text (fst (hangul_flush s)) = None"
    and "shown (pending_text s) (snd (hangul_flush s)) = None"
    and "committed (snd (hangul_flush s)) = pend (pending_text s)"
    by (cases s; simp add: hangul_flush_def take_pending_text_def)+
  show "hangul_inv (fst (hangul_backspace s))"
    and "shown (pending_text s) (snd (hangul_backspace s)) = pending_text (fst (hangul_backspace s))"
    and "committed (snd (hangul_backspace s)) = []"
    using inv by (cases s; simp add: Let_def)+
  show "\<exists>d. d \<noteq> [] \<and> expand (pend (pending_text s))
      = expand (pend (pending_text (fst (hangul_backspace s)))) @ d" if "pending_text s \<noteq> None"
    using hangul_backspace_drops [OF inv] that by (cases s) (auto simp: pend_keys_def)
  show "hangul_backspace s = (s, [])" if "pending_text s = None"
    using that by (cases s) auto
qed

section \<open>Typing whole syllables\<close>

definition types :: "Pending \<Rightarrow> ustring \<Rightarrow> Pending \<Rightarrow> ustring \<Rightarrow> bool" where
  "types p keys p' out \<longleftrightarrow> (\<exists>as. hangul_push_text p keys = (p', as) \<and> committed as = out)"

lemma types_Nil [simp]: "types p [] p' out \<longleftrightarrow> p' = p \<and> out = []"
  by (auto simp: types_def)

lemma hangul_push_text_append:
  "hangul_push_text p (xs @ ys) =
     (let (p1, as) = hangul_push_text p xs; (p2, bs) = hangul_push_text p1 ys in (p2, as @ bs))"
  by (induction xs arbitrary: p) (auto simp: Let_def split: prod.splits)

lemma types_append: "types p xs q a \<Longrightarrow> types q ys r b \<Longrightarrow> types p (xs @ ys) r (a @ b)"
  by (auto simp: types_def hangul_push_text_append)

lemma types_consonant:
  "initial_index ch = Some l \<Longrightarrow> push_consonant p ch l = (q, as) \<Longrightarrow> types p [ch] q (committed as)"
  by (simp add: types_def hangul_push_char_def)

lemma types_vowel:
  "initial_index ch = None \<Longrightarrow> vowel_index ch = Some v \<Longrightarrow> push_vowel p v = (q, as) \<Longrightarrow>
     types p [ch] q (committed as)"
  by (simp add: types_def hangul_push_char_def)

lemma initial_char_index: "l < 19 \<Longrightarrow> initial_index (initial_char l) = Some l"
proof -
  have "\<forall>l < 19. initial_index (initial_char l) = Some l"
    by (simp add: all_less_numeral initial_index_def initial_char_def)
  then show "l < 19 \<Longrightarrow> initial_index (initial_char l) = Some l" by blast
qed

lemma vowel_char_index:
  "v < 21 \<Longrightarrow> initial_index (vowel_char v) = None \<and> vowel_index (vowel_char v) = Some v"
proof -
  have "\<forall>v < 21. initial_index (vowel_char v) = None \<and> vowel_index (vowel_char v) = Some v"
    by (simp add: all_less_numeral initial_index_def vowel_index_def vowel_char_def)
  then show "v < 21 \<Longrightarrow> ?thesis" by blast
qed

lemma final_index_split:
  "final_index ch = Some t \<Longrightarrow> initial_index ch = Some l \<Longrightarrow> split_final t = (0, l)"
  by (auto simp: final_index_def initial_index_def split_final_def final_to_initial_def
      split: if_splits)

lemma combine_final_split:
  "combine_final t n = Some u \<Longrightarrow> final_index ch = Some n \<Longrightarrow> initial_index ch = Some l \<Longrightarrow>
     0 < u \<and> split_final u = (t, l)"
  by (auto simp: combine_final_def split: if_splits)
    (auto simp: final_index_def initial_index_def split_final_def split: if_splits)

text \<open>An initial and a vowel always start a new syllable and commit the one before.\<close>

lemma types_initial_vowel:
  assumes "p = PendNone \<or> (\<exists>l v t. p = Syllable l v t)" and "k < 19" and "u < 21"
  shows "types p [initial_char k, vowel_char u] (Syllable k u 0) (pend (pending_text p))"
proof -
  note ch = initial_char_index [OF assms(2)] and vo = vowel_char_index [OF assms(3)]
  let ?c = "initial_char k"
  obtain q as where pc: "push_consonant p ?c k = (q, as)" by fastforce
  obtain r bs where pv: "push_vowel q u = (r, bs)" by fastforce
  have "r = Syllable k u 0 \<and> committed as @ committed bs = pend (pending_text p)"
    using assms(1)
  proof
    assume "p = PendNone"
    then show ?thesis using pc pv by (auto simp: push_consonant_def push_vowel_def)
  next
    assume "\<exists>l v t. p = Syllable l v t"
    then obtain l v t where p: "p = Syllable l v t" by blast
    show ?thesis
    proof (cases "if t = 0 then final_index ?c else Option.bind (final_index ?c) (combine_final t)")
      case None
      then show ?thesis
        using p pc pv by (auto simp: push_consonant_def push_vowel_def commit_taken_def
            take_pending_text_def split: if_splits option.splits)
    next
      case (Some w)
      then have q: "q = Syllable l v w" "as = []"
        using p pc by (auto simp: push_consonant_def split: if_splits)
      have "0 < w \<and> split_final w = (t, k)"
        using Some ch final_index_split [of ?c _ k] final_index_Some [of ?c _ k]
          combine_final_split [of t _ w ?c k]
        by (auto split: if_splits simp: bind_eq_Some_conv)
      then show ?thesis using q p pv by (auto simp: push_vowel_def)
    qed
  qed
  with types_append [OF types_consonant [OF ch pc] types_vowel [of "vowel_char u" u, OF _ _ pv]] vo
  show ?thesis by simp
qed

lemma JAMO_V_keys:
  assumes "v < 21"
  shows "JAMO_V ! v = [vowel_char v]
    \<or> (\<exists>a b. a < 21 \<and> b < 21 \<and> JAMO_V ! v = [vowel_char a, vowel_char b] \<and> combine_vowel a b = Some v)"
proof -
  have "\<forall>v < 21. v \<notin> {9, 10, 11, 14, 15, 16, 19} \<longrightarrow> JAMO_V ! v = [vowel_char v]"
    by (simp add: all_less_numeral JAMO_V_def vowel_char_def)
  moreover have "\<forall>((a, b), v) \<in> {((8, 0), 9), ((8, 1), 10), ((8, 20), 11), ((13, 4), 14),
     ((13, 5), 15), ((13, 20), 16), ((18, 20), 19)}.
      JAMO_V ! v = [vowel_char a, vowel_char b] \<and> combine_vowel a b = Some v \<and> a < 21 \<and> b < 21"
    by (simp add: JAMO_V_def vowel_char_def combine_vowel_def)
  ultimately show ?thesis using assms by fastforce
qed

lemma types_vowels:
  assumes "p = PendNone \<or> (\<exists>l v t. p = Syllable l v t)" and "k < 19" and "v < 21"
  shows "types p (initial_char k # JAMO_V ! v) (Syllable k v 0) (pend (pending_text p))"
  using JAMO_V_keys [OF assms(3)]
proof
  assume "JAMO_V ! v = [vowel_char v]"
  then show ?thesis using types_initial_vowel [OF assms] by simp
next
  assume "\<exists>a b. a < 21 \<and> b < 21 \<and> JAMO_V ! v = [vowel_char a, vowel_char b] \<and> combine_vowel a b = Some v"
  then obtain a b where ab: "a < 21" "b < 21" "JAMO_V ! v = [vowel_char a, vowel_char b]"
      "combine_vowel a b = Some v" by blast
  have "types (Syllable k a 0) [vowel_char b] (Syllable k v 0) (committed [])"
    by (rule types_vowel [of _ b]) (use ab vowel_char_index in \<open>auto simp: push_vowel_def\<close>)
  from types_append [OF types_initial_vowel [OF assms(1,2) ab(1)] this] ab(3)
  show ?thesis by simp
qed

definition simple_final :: "nat \<Rightarrow> uchar \<Rightarrow> nat \<Rightarrow> bool" where
  "simple_final t c l \<longleftrightarrow> JAMO_T ! t = [c] \<and> initial_index c = Some l \<and> final_index c = Some t"

lemma simple_finals:
  assumes "t < 28" and "0 < t" and "t \<notin> {3, 5, 6, 9, 10, 11, 12, 13, 14, 15, 18}"
  shows "\<exists>c l. simple_final t c l"
proof -
  have "list_all (\<lambda>(t, c, l). simple_final t c l) [
    (1, 0x3131, 0), (2, 0x3132, 1), (4, 0x3134, 2), (7, 0x3137, 3), (8, 0x3139, 5),
    (16, 0x3141, 6), (17, 0x3142, 7), (19, 0x3145, 9), (20, 0x3146, 10), (21, 0x3147, 11),
    (22, 0x3148, 12), (23, 0x314A, 14), (24, 0x314B, 15), (25, 0x314C, 16), (26, 0x314D, 17),
    (27, 0x314E, 18)]"
    by (simp add: simple_final_def JAMO_T_def initial_index_def final_index_def)
  then have all: "\<forall>t \<in> {1, 2, 4, 7, 8, 16, 17, 19, 20, 21, 22, 23, 24, 25, 26, 27}.
      \<exists>c l. simple_final t c l"
    by auto
  have "\<forall>t < 28 :: nat. 0 < t \<longrightarrow> t \<notin> {3, 5, 6, 9, 10, 11, 12, 13, 14, 15, 18} \<longrightarrow>
      t \<in> {1, 2, 4, 7, 8, 16, 17, 19, 20, 21, 22, 23, 24, 25, 26, 27}"
    by (simp add: all_less_numeral)
  with assms all show ?thesis by blast
qed

lemma compound_finals:
  assumes "t \<in> {3, 5, 6, 9, 10, 11, 12, 13, 14, 15, 18}"
  shows "\<exists>a b. combine_final a b = Some t \<and> a \<in> {1, 4, 8, 17} \<and> b \<in> {1, 16, 17, 19, 22, 25, 26, 27}"
proof -
  define ab :: "nat \<times> nat" where "ab = the (map_of [(3, (1, 19)), (5, (4, 22)), (6, (4, 27)), (9, (8, 1)),
    (10, (8, 16)), (11, (8, 17)), (12, (8, 19)), (13, (8, 25)), (14, (8, 26)), (15, (8, 27)),
    (18, (17, 19))] t)"
  have "combine_final (fst ab) (snd ab) = Some t \<and> fst ab \<in> {1, 4, 8, 17}
      \<and> snd ab \<in> {1, 16, 17, 19, 22, 25, 26, 27}"
    using assms by (auto simp: ab_def combine_final_def)
  then show ?thesis by blast
qed

lemma types_simple_final:
  "simple_final t c l \<Longrightarrow> types (Syllable k v 0) [c] (Syllable k v t) []"
  using types_consonant [of c l "Syllable k v 0" "Syllable k v t" "[]"]
  by (simp add: push_consonant_def simple_final_def)

lemma types_finals:
  assumes "t < 28"
  shows "types (Syllable k v 0) (JAMO_T ! t) (Syllable k v t) []"
proof (cases "t \<in> {3, 5, 6, 9, 10, 11, 12, 13, 14, 15, 18}")
  case True
  then obtain a b where ab: "combine_final a b = Some t" "a \<in> {1, 4, 8, 17}"
      "b \<in> {1, 16, 17, 19, 22, 25, 26, 27}"
    using compound_finals by blast
  obtain c l where c: "simple_final a c l" using simple_finals [of a] ab(2) by auto
  obtain d m where d: "simple_final b d m" using simple_finals [of b] ab(3) by auto
  have "0 < a" using ab(2) by auto
  then have "types (Syllable k v a) [d] (Syllable k v t) (committed [])"
    using d ab(1) by (intro types_consonant [of _ m]) (auto simp: push_consonant_def simple_final_def)
  from types_append [OF types_simple_final [OF c] this] show ?thesis
    using c d combine_final_Some [OF ab(1)] by (simp add: simple_final_def)
next
  case False
  show ?thesis
  proof (cases "t = 0")
    case True
    then show ?thesis by simp
  next
    case t: False
    then obtain c l where "simple_final t c l" using simple_finals [of t] assms False by auto
    then show ?thesis using types_simple_final by (metis simple_final_def)
  qed
qed

definition is_syllable :: "uchar \<Rightarrow> bool" where
  "is_syllable c \<longleftrightarrow> 0xAC00 \<le> c \<and> c \<le> 0xD7A3"

lemma types_syllable:
  assumes "p = PendNone \<or> (\<exists>l v t. p = Syllable l v t)" and "is_syllable c"
  shows "\<exists>l v t. types p (expand_char c) (Syllable l v t) (pend (pending_text p))
     \<and> compose_syllable l v t = [c]"
proof -
  define n where "n = c - 0xAC00"
  define l v t where lvt: "l = n div 588" "v = n mod 588 div 28" "t = n mod 28"
  have c: "c = 0xAC00 + n" and n: "n < 11172"
    using assms(2) by (auto simp: n_def is_syllable_def)
  have l: "l < 19" "v < 21" "t < 28" using n by (auto simp: lvt less_mult_imp_div_less)
  have "n mod 588 mod 28 = n mod 28" by (simp add: mod_mod_cancel)
  then have "n = l * 588 + v * 28 + t" unfolding lvt by (metis div_mult_mod_eq add.assoc)
  then have comp: "compose_syllable l v t = [c]"
    using compose_syllable_code(1) [OF l] c by simp
  then have keys: "expand_char c = (initial_char l # JAMO_V ! v) @ JAMO_T ! t"
    using expand_syllable [OF l] by simp
  have "types p (expand_char c) (Syllable l v t) (pend (pending_text p) @ [])"
    unfolding keys by (rule types_append [OF types_vowels [OF assms(1) l(1,2)] types_finals [OF l(3)]])
  with comp show ?thesis by auto
qed

lemma types_word:
  "p = PendNone \<or> (\<exists>l v t. p = Syllable l v t) \<Longrightarrow> list_all is_syllable w \<Longrightarrow>
     \<exists>p' out. types p (expand w) p' out \<and> out @ pend (pending_text p') = pend (pending_text p) @ w"
proof (induction w arbitrary: p)
  case Nil
  then show ?case by auto
next
  case (Cons c w)
  obtain l v t where 1: "types p (expand_char c) (Syllable l v t) (pend (pending_text p))"
      "compose_syllable l v t = [c]"
    using types_syllable [OF Cons.prems(1), of c] Cons.prems(2) by (auto simp only: list.pred_inject)
  obtain p' out where 2: "types (Syllable l v t) (expand w) p' out"
      "out @ pend (pending_text p') = [c] @ w"
    using Cons.IH [of "Syllable l v t"] Cons.prems(2) 1(2) by auto
  have "types p (expand (c # w)) p' (pend (pending_text p) @ out)"
    using types_append [OF 1(1) 2(1)] by simp
  with 2(2) show ?case by force
qed

section \<open>Properties\<close>

text \<open>
  C9: the composer writes Korean. For every word of Hangul syllables, pushing the jamo keys
  of its syllables one after the other and flushing commits exactly the word: finals that
  turn out to be the next syllable's initial are moved, compound vowels and finals are
  joined.
\<close>
theorem hangul_typing_roundtrip:
  assumes "list_all is_syllable w"
  shows "committed (snd (drive hangul_push_text hangul_flush hangul_backspace PendNone
           [Push (expand w), Flush])) = w"
proof -
  obtain p' as where p': "hangul_push_text PendNone (expand w) = (p', as)"
      "committed as @ pend (pending_text p') = w"
    using types_word [of PendNone w] assms by (auto simp: types_def)
  have "hangul_inv p'"
    using hangul_push_text_ok [OF _ p'(1)] by simp
  from hangul.flush_commits [OF this] p' show ?thesis by (simp add: split_beta)
qed

theorem hangul_typing_roundtrip_witness:
  "committed (snd (drive hangul_push_text hangul_flush hangul_backspace PendNone
     [Push (expand [0xB2ED, 0xC774]), Flush])) = [0xB2ED, 0xC774]"
  by (rule hangul_typing_roundtrip) (simp add: is_syllable_def)

end
