(* ===== verification/Ime_Kana.thy ===== *)
theory Ime_Kana
  imports Ime_Core
begin

text \<open>
  The kana voicing composer, \<open>crates/client/src/viewer/ime/kana.rs\<close>: it holds at most one
  base character (the struct's field \<open>pending\<close>, which is the state) and joins it with a
  voicing mark that follows.
\<close>

section \<open>Tables\<close>

definition is_voicing_mark :: "uchar \<Rightarrow> bool" where
  "is_voicing_mark ch \<longleftrightarrow> ch \<in> {0x3099, 0x309A, 0x309B, 0x309C}"

definition is_kana_base :: "uchar \<Rightarrow> bool" where
  "is_kana_base ch \<longleftrightarrow>
     (0x3040 \<le> ch \<and> ch \<le> 0x309F \<or> 0x30A0 \<le> ch \<and> ch \<le> 0x30FF \<or> 0x31F0 \<le> ch \<and> ch \<le> 0x31FF)
     \<and> \<not> is_voicing_mark ch"

definition is_kana_or_mark :: "uchar \<Rightarrow> bool" where
  "is_kana_or_mark ch \<longleftrightarrow> is_kana_base ch \<or> is_voicing_mark ch"

definition VOICING_TABLE :: "(uchar \<times> uchar option \<times> uchar option) list" where
  "VOICING_TABLE = [
     (0x3046, Some 0x3094, None), (0x304B, Some 0x304C, None), (0x304D, Some 0x304E, None),
     (0x304F, Some 0x3050, None), (0x3051, Some 0x3052, None), (0x3053, Some 0x3054, None),
     (0x3055, Some 0x3056, None), (0x3057, Some 0x3058, None), (0x3059, Some 0x305A, None),
     (0x305B, Some 0x305C, None), (0x305D, Some 0x305E, None), (0x305F, Some 0x3060, None),
     (0x3061, Some 0x3062, None), (0x3064, Some 0x3065, None), (0x3066, Some 0x3067, None),
     (0x3068, Some 0x3069, None), (0x306F, Some 0x3070, Some 0x3071),
     (0x3072, Some 0x3073, Some 0x3074), (0x3075, Some 0x3076, Some 0x3077),
     (0x3078, Some 0x3079, Some 0x307A), (0x307B, Some 0x307C, Some 0x307D),
     (0x30A6, Some 0x30F4, None), (0x30AB, Some 0x30AC, None), (0x30AD, Some 0x30AE, None),
     (0x30AF, Some 0x30B0, None), (0x30B1, Some 0x30B2, None), (0x30B3, Some 0x30B4, None),
     (0x30B5, Some 0x30B6, None), (0x30B7, Some 0x30B8, None), (0x30B9, Some 0x30BA, None),
     (0x30BB, Some 0x30BC, None), (0x30BD, Some 0x30BE, None), (0x30BF, Some 0x30C0, None),
     (0x30C1, Some 0x30C2, None), (0x30C4, Some 0x30C5, None), (0x30C6, Some 0x30C7, None),
     (0x30C8, Some 0x30C9, None), (0x30CF, Some 0x30D0, Some 0x30D1),
     (0x30D2, Some 0x30D3, Some 0x30D4), (0x30D5, Some 0x30D6, Some 0x30D7),
     (0x30D8, Some 0x30D9, Some 0x30DA), (0x30DB, Some 0x30DC, Some 0x30DD),
     (0x30EF, Some 0x30F7, None), (0x30F0, Some 0x30F8, None), (0x30F1, Some 0x30F9, None),
     (0x30F2, Some 0x30FA, None)]"

definition apply_mark :: "uchar \<Rightarrow> uchar \<Rightarrow> uchar option" where
  "apply_mark base mark =
     (let want_semi = mark = 0x309A \<or> mark = 0x309C in
      case find (\<lambda>(b, _, _). b = base) VOICING_TABLE of
        None \<Rightarrow> None
      | Some (_, voiced, semi) \<Rightarrow> if want_semi then semi else voiced)"

section \<open>Operations\<close>

type_synonym KanaComposer = "uchar option"

definition kana_is_empty :: "KanaComposer \<Rightarrow> bool" where
  "kana_is_empty p \<longleftrightarrow> p = None"

fun kana_scan :: "bool \<Rightarrow> ustring \<Rightarrow> bool" where
  "kana_scan has_mark [] = has_mark"
| "kana_scan has_mark (ch # text) =
     (if \<not> is_kana_or_mark ch then False
      else kana_scan (if is_voicing_mark ch then True else has_mark) text)"

definition kana_can_compose :: "ustring \<Rightarrow> bool" where
  "kana_can_compose text = (if text = [] then False else kana_scan False text)"

definition kana_preedit_text :: "KanaComposer \<Rightarrow> ustring option" where
  "kana_preedit_text p = map_option (\<lambda>c. [c]) p"

definition kana_push_char :: "KanaComposer \<Rightarrow> uchar \<Rightarrow> KanaComposer \<times> ComposerAction list" where
  "kana_push_char p ch =
     (if is_voicing_mark ch then
        (None,
         case p of
           Some base \<Rightarrow>
             (case apply_mark base ch of
                Some out \<Rightarrow> [Commit [out]]
              | None \<Rightarrow> [Commit [base], Commit [ch]])
         | None \<Rightarrow> [Commit [ch]])
      else
        let actions = (case p of Some base \<Rightarrow> [Commit [base]] | None \<Rightarrow> []) in
        if is_kana_base ch then (Some ch, actions)
        else (None, actions @ [Commit [ch]]))"

fun kana_push_chars :: "KanaComposer \<Rightarrow> ustring \<Rightarrow> KanaComposer \<times> ComposerAction list" where
  "kana_push_chars p [] = (p, [])"
| "kana_push_chars p (ch # text) =
     (let (p1, as) = kana_push_char p ch; (p2, bs) = kana_push_chars p1 text in (p2, as @ bs))"

definition kana_push_text :: "KanaComposer \<Rightarrow> ustring \<Rightarrow> KanaComposer \<times> ComposerAction list" where
  "kana_push_text p text =
     (let (p', actions) = kana_push_chars p text in (p', actions @ [Preedit (kana_preedit_text p')]))"

definition kana_flush :: "KanaComposer \<Rightarrow> KanaComposer \<times> ComposerAction list" where
  "kana_flush p = (None, case p of Some ch \<Rightarrow> [Commit [ch], Preedit None] | None \<Rightarrow> [])"

definition kana_backspace :: "KanaComposer \<Rightarrow> KanaComposer \<times> ComposerAction list" where
  "kana_backspace p = (None, if p \<noteq> None then [Preedit None] else [])"

section \<open>Each operation\<close>

lemma find_Some_set: "find P xs = Some x \<Longrightarrow> P x \<and> x \<in> set xs"
  by (auto simp: find_Some_iff)

lemma find_distinct_key:
  "distinct (map fst xs) \<Longrightarrow> (k, y) \<in> set xs \<Longrightarrow> find (\<lambda>(b, _, _). b = k) xs = Some (k, y)"
proof (induction xs)
  case Nil
  then show ?case by simp
next
  case (Cons x xs)
  show ?case
  proof (cases "x = (k, y)")
    case True
    then show ?thesis by (cases y) simp
  next
    case False
    with Cons.prems have "(k, y) \<in> set xs" by simp
    moreover from this Cons.prems have "fst x \<noteq> k"
      by (metis distinct.simps(2) fst_conv image_eqI list.map(2) list.set_map)
    ultimately show ?thesis using Cons by (cases x) auto
  qed
qed

definition voiced_parts :: "uchar \<times> uchar option \<times> uchar option \<Rightarrow> (uchar \<times> ustring) list" where
  "voiced_parts e = (case e of (b, v, s) \<Rightarrow>
     (case v of None \<Rightarrow> [] | Some c \<Rightarrow> [(c, [b, 0x3099])])
     @ (case s of None \<Rightarrow> [] | Some c \<Rightarrow> [(c, [b, 0x309A])]))"

lemma KANA_PARTS_voicing:
  "KANA_PARTS = concat (map voiced_parts VOICING_TABLE) @ [(0x309B, [0x3099]), (0x309C, [0x309A])]"
  by (simp add: KANA_PARTS_def VOICING_TABLE_def voiced_parts_def)

lemma KANA_PARTS_distinct: "distinct (map fst KANA_PARTS)"
  by (simp add: KANA_PARTS_def)

lemma KANA_PARTS_range: "list_all (\<lambda>c. 0x3040 \<le> c \<and> c \<le> 0x30FF) (map fst KANA_PARTS)"
  by (simp add: KANA_PARTS_def)

lemma VOICING_base:
  "list_all (\<lambda>b. 0x3040 \<le> b \<and> b \<le> 0x30FF \<and> \<not> is_voicing_mark b) (map fst VOICING_TABLE)"
  by (simp add: VOICING_TABLE_def is_voicing_mark_def)

lemma VOICING_base_no_part: "list_all (\<lambda>b. b \<notin> set (map fst KANA_PARTS)) (map fst VOICING_TABLE)"
  by (simp add: VOICING_TABLE_def KANA_PARTS_def)

lemma expand_char_kana:
  "0x3040 \<le> c \<Longrightarrow> c \<le> 0x30FF \<Longrightarrow>
     expand_char c = (case map_of KANA_PARTS c of Some ps \<Rightarrow> ps | None \<Rightarrow> [c])"
  by (simp add: expand_char_def)

lemma expand_char_part: "(c, ps) \<in> set KANA_PARTS \<Longrightarrow> expand_char c = ps"
proof -
  assume c: "(c, ps) \<in> set KANA_PARTS"
  then have "0x3040 \<le> c" "c \<le> 0x30FF"
    using KANA_PARTS_range by (force simp: list_all_iff)+
  then show ?thesis
    using map_of_is_SomeI [OF KANA_PARTS_distinct c] by (simp add: expand_char_kana)
qed

lemma voicing_expand:
  assumes "(b, v, s) \<in> set VOICING_TABLE"
  shows "expand_char b = [b]"
    and "v = Some c \<Longrightarrow> expand_char c = [b, 0x3099]"
    and "s = Some c \<Longrightarrow> expand_char c = [b, 0x309A]"
proof -
  have b: "b \<in> set (map fst VOICING_TABLE)" using assms by force
  then have "0x3040 \<le> b" "b \<le> 0x30FF" "b \<notin> set (map fst KANA_PARTS)"
    using VOICING_base VOICING_base_no_part by (auto simp only: list_all_iff)
  then show "expand_char b = [b]"
    by (simp add: expand_char_kana map_of_eq_None_iff option.case_eq_if)
  have parts: "set (voiced_parts (b, v, s)) \<subseteq> set KANA_PARTS"
    unfolding KANA_PARTS_voicing using assms by auto
  show "v = Some c \<Longrightarrow> expand_char c = [b, 0x3099]" "s = Some c \<Longrightarrow> expand_char c = [b, 0x309A]"
    using parts by (auto simp: voiced_parts_def intro!: expand_char_part split: option.splits)
qed

lemma mark_expand:
  "is_voicing_mark m \<Longrightarrow> expand_char m = [if m = 0x309A \<or> m = 0x309C then 0x309A else 0x3099]"
  by (auto simp: is_voicing_mark_def expand_char_def KANA_PARTS_def)

lemma apply_mark_expand:
  assumes "apply_mark base mark = Some out" and "is_voicing_mark mark"
  shows "expand_char out = expand_char base @ expand_char mark"
proof -
  from assms(1) obtain v s where
      "find (\<lambda>(b, _, _). b = base) VOICING_TABLE = Some (base, v, s)"
    and out: "(if mark = 0x309A \<or> mark = 0x309C then s else v) = Some out"
    by (auto simp: apply_mark_def Let_def split: option.splits dest!: find_Some_set)
  then have "(base, v, s) \<in> set VOICING_TABLE"
    by (auto dest: find_Some_set)
  note e = voicing_expand [OF this]
  show ?thesis
    using out e(2,3) [of out] by (auto simp: e(1) mark_expand [OF assms(2)] split: if_splits)
qed

lemma kana_push_char_ok:
  assumes "kana_push_char p ch = (p', as)"
  shows "expand (committed as) @ expand (pend (kana_preedit_text p'))
    = expand (pend (kana_preedit_text p)) @ expand_char ch"
  using assms
  by (cases p) (auto simp: kana_push_char_def kana_preedit_text_def apply_mark_expand Let_def
      split: if_splits option.splits)

lemma kana_push_chars_ok:
  "kana_push_chars p chs = (p', as) \<Longrightarrow>
     expand (committed as) @ expand (pend (kana_preedit_text p'))
       = expand (pend (kana_preedit_text p)) @ expand chs"
proof (induction chs arbitrary: p as)
  case Nil
  then show ?case by simp
next
  case (Cons ch chs)
  obtain p1 as1 where 1: "kana_push_char p ch = (p1, as1)" by fastforce
  obtain as2 where 2: "kana_push_chars p1 chs = (p', as2)" "as = as1 @ as2"
    using Cons.prems 1 by (auto split: prod.splits)
  from kana_push_char_ok [OF 1] Cons.IH [OF 2(1)] 2(2) show ?case by simp
qed

text \<open>The character held back is always a kana base.\<close>

definition kana_inv :: "KanaComposer \<Rightarrow> bool" where
  "kana_inv p \<longleftrightarrow> (case p of None \<Rightarrow> True | Some c \<Rightarrow> is_kana_base c)"

lemma kana_push_char_inv: "kana_inv (fst (kana_push_char p ch))"
  by (simp add: kana_push_char_def kana_inv_def Let_def)

lemma kana_push_chars_inv: "kana_inv p \<Longrightarrow> kana_inv (fst (kana_push_chars p chs))"
proof (induction chs arbitrary: p)
  case (Cons ch chs)
  then show ?case
    using kana_push_char_inv [of p ch] by (auto split: prod.splits) (metis fst_conv)
qed simp

lemma kana_base_expand: "is_kana_base c \<Longrightarrow> expand_char c \<noteq> []"
proof -
  have "list_all (\<lambda>(c, ps). ps \<noteq> []) KANA_PARTS"
    by (simp add: KANA_PARTS_def)
  then have "map_of KANA_PARTS c = Some ps \<Longrightarrow> ps \<noteq> []" for c ps
    by (auto simp: list_all_iff dest: map_of_SomeD)
  then show "is_kana_base c \<Longrightarrow> expand_char c \<noteq> []"
    by (auto simp: expand_char_def is_kana_base_def split: option.splits)
qed

interpretation kana: composer kana_preedit_text kana_is_empty kana_push_text kana_flush
    kana_backspace kana_inv
proof
  fix s :: KanaComposer and t :: ustring
  assume inv: "kana_inv s"
  obtain s' as where push: "kana_push_chars s t = (s', as)" by fastforce
  show "kana_inv (fst (kana_push_text s t))"
    using kana_push_chars_inv [OF inv, of t] by (simp add: kana_push_text_def split_beta)
  show "shown (kana_preedit_text s) (snd (kana_push_text s t)) = kana_preedit_text (fst (kana_push_text s t))"
    by (simp add: kana_push_text_def split_beta)
  show "expand (committed (snd (kana_push_text s t)) @ pend (kana_preedit_text (fst (kana_push_text s t))))
      = expand (pend (kana_preedit_text s) @ t)"
    using kana_push_chars_ok [OF push] by (simp add: kana_push_text_def push)
  show "kana_is_empty s = (kana_preedit_text s = None)"
    and "kana_inv (fst (kana_flush s))"
    and "kana_preedit_text (fst (kana_flush s)) = None"
    and "shown (kana_preedit_text s) (snd (kana_flush s)) = None"
    and "committed (snd (kana_flush s)) = pend (kana_preedit_text s)"
    and "kana_inv (fst (kana_backspace s))"
    and "shown (kana_preedit_text s) (snd (kana_backspace s)) = kana_preedit_text (fst (kana_backspace s))"
    and "committed (snd (kana_backspace s)) = []"
    by (cases s; simp add: kana_is_empty_def kana_preedit_text_def kana_flush_def kana_backspace_def
        kana_inv_def)+
  show "\<exists>d. d \<noteq> [] \<and> expand (pend (kana_preedit_text s))
      = expand (pend (kana_preedit_text (fst (kana_backspace s)))) @ d" if "kana_preedit_text s \<noteq> None"
    using that inv kana_base_expand
    by (cases s) (auto simp: kana_preedit_text_def kana_backspace_def kana_inv_def)
  show "kana_backspace s = (s, [])" if "kana_preedit_text s = None"
    using that by (cases s) (auto simp: kana_preedit_text_def kana_backspace_def)
qed

section \<open>Properties\<close>

text \<open>
  the kana dispatcher predicate accepts a text exactly when every character is a kana or
  a voicing mark and at least one is a mark (an empty text is refused).
\<close>
lemma kana_can_compose_iff:
  "kana_can_compose s \<longleftrightarrow> list_all is_kana_or_mark s \<and> list_ex is_voicing_mark s"
proof -
  have "kana_scan m s \<longleftrightarrow> list_all is_kana_or_mark s \<and> (m \<or> list_ex is_voicing_mark s)" for m
    by (induction s arbitrary: m) (auto simp: is_kana_or_mark_def)
  then show ?thesis by (auto simp: kana_can_compose_def)
qed

text \<open>
  the guest sees pre-composed glyphs. A base character that has a voiced (or
  semi-voiced) form, followed by a combining or spacing mark in the same or in a later
  chunk, is committed as that one form, and nothing stays pending.
\<close>
theorem kana_voicing:
  assumes "(base, voiced, semi) \<in> set VOICING_TABLE"
    and "(if mark = 0x309A \<or> mark = 0x309C then semi else voiced) = Some out"
    and "is_voicing_mark mark"
  shows "drive kana_push_text kana_flush kana_backspace None [Push [base], Push [mark]]
     = (None, [Preedit (Some [base]), Commit [out], Preedit None])"
proof -
  have "distinct (map fst VOICING_TABLE)" by (simp add: VOICING_TABLE_def)
  then have "find (\<lambda>(b, _, _). b = base) VOICING_TABLE = Some (base, voiced, semi)"
    using assms(1) by (rule find_distinct_key)
  then have "apply_mark base mark = Some out"
    using assms(2) by (simp add: apply_mark_def Let_def)
  moreover have "is_kana_base base" "\<not> is_voicing_mark base"
    using VOICING_base assms(1) by (force simp: list_all_iff is_kana_base_def)+
  ultimately show ?thesis
    using assms(3) by (simp add: kana_push_text_def kana_push_char_def kana_preedit_text_def)
qed

theorem kana_voicing_witness:
  "drive kana_push_text kana_flush kana_backspace None [Push [0x306F], Push [0x309A]]
     = (None, [Preedit (Some [0x306F]), Commit [0x3071], Preedit None])"
  by (rule kana_voicing [of _ "Some 0x3070" "Some 0x3071"])
    (simp_all add: VOICING_TABLE_def is_voicing_mark_def)

end
