(* ===== verification/Ime.thy ===== *)
theory Ime
  imports Ime_Hangul Ime_Kana
begin

text \<open>
  The dispatcher \<open>InputComposer\<close> of \<open>crates/client/src/viewer/ime/mod.rs\<close>, which picks a
  backend from the script of each chunk, and the emoji splitter of \<open>ime/emoji.rs\<close>.
\<close>

section \<open>The dispatcher\<close>

datatype Backend = Idle | HangulBackend Pending | KanaBackend KanaComposer

datatype Target = TargetNone | TargetHangul | TargetKana

definition can_compose :: "ustring \<Rightarrow> bool" where
  "can_compose s \<longleftrightarrow> hangul_can_compose s \<or> kana_can_compose s"

definition detect :: "ustring \<Rightarrow> Target" where
  "detect s = (if hangul_can_compose s then TargetHangul
     else if kana_can_compose s then TargetKana else TargetNone)"

fun backend_matches :: "Backend \<Rightarrow> Target \<Rightarrow> bool" where
  "backend_matches Idle TargetNone = True"
| "backend_matches (HangulBackend _) TargetHangul = True"
| "backend_matches (KanaBackend _) TargetKana = True"
| "backend_matches _ _ = False"

fun input_is_empty :: "Backend \<Rightarrow> bool" where
  "input_is_empty Idle = True"
| "input_is_empty (HangulBackend c) = hangul_is_empty c"
| "input_is_empty (KanaBackend c) = kana_is_empty c"

fun input_flush :: "Backend \<Rightarrow> Backend \<times> ComposerAction list" where
  "input_flush Idle = (Idle, [])"
| "input_flush (HangulBackend c) = (Idle, snd (hangul_flush c))"
| "input_flush (KanaBackend c) = (Idle, snd (kana_flush c))"

fun input_backspace :: "Backend \<Rightarrow> Backend \<times> ComposerAction list" where
  "input_backspace Idle = (Idle, [])"
| "input_backspace (HangulBackend c) = (case hangul_backspace c of (c', as) \<Rightarrow> (HangulBackend c', as))"
| "input_backspace (KanaBackend c) = (case kana_backspace c of (c', as) \<Rightarrow> (KanaBackend c', as))"

definition switch_for :: "Backend \<Rightarrow> ustring \<Rightarrow> Backend \<times> ComposerAction list" where
  "switch_for b s =
     (let target = detect s in
      if backend_matches b target then (b, [])
      else
        let actions = snd (input_flush b) in
        (case target of
           TargetNone \<Rightarrow> Idle
         | TargetHangul \<Rightarrow> HangulBackend PendNone
         | TargetKana \<Rightarrow> KanaBackend None,
         actions))"

definition input_push_text :: "Backend \<Rightarrow> ustring \<Rightarrow> Backend \<times> ComposerAction list" where
  "input_push_text b s =
     (if s = [] then (b, [])
      else
        let (b1, actions) = switch_for b s in
        (case b1 of
           HangulBackend c \<Rightarrow>
             (case hangul_push_text c s of (c', as) \<Rightarrow> (HangulBackend c', actions @ as))
         | KanaBackend c \<Rightarrow>
             (case kana_push_text c s of (c', as) \<Rightarrow> (KanaBackend c', actions @ as))
         | Idle \<Rightarrow> (Idle, actions @ [Commit s])))"

text \<open>What the dispatcher displays: the preedit of its backend.\<close>

fun input_preedit :: "Backend \<Rightarrow> ustring option" where
  "input_preedit Idle = None"
| "input_preedit (HangulBackend c) = pending_text c"
| "input_preedit (KanaBackend c) = kana_preedit_text c"

fun input_inv :: "Backend \<Rightarrow> bool" where
  "input_inv Idle = True"
| "input_inv (HangulBackend c) = hangul_inv c"
| "input_inv (KanaBackend c) = kana_inv c"

section \<open>The emoji splitter\<close>

definition is_emoji :: "uchar \<Rightarrow> bool" where
  "is_emoji c \<longleftrightarrow> 0x1F000 \<le> c \<and> c \<le> 0x1FFFF \<or> 0x2300 \<le> c \<and> c \<le> 0x23FF
     \<or> 0x2500 \<le> c \<and> c \<le> 0x27BF \<or> 0x2900 \<le> c \<and> c \<le> 0x29FF \<or> 0x2B00 \<le> c \<and> c \<le> 0x2BFF
     \<or> c = 0x200D \<or> 0xFE0E \<le> c \<and> c \<le> 0xFE0F"

definition contains_emoji :: "ustring \<Rightarrow> bool" where
  "contains_emoji s = list_ex is_emoji s"

definition is_zwj :: "uchar \<Rightarrow> bool" where
  "is_zwj c \<longleftrightarrow> c = 0x200D"

definition is_variation_selector :: "uchar \<Rightarrow> bool" where
  "is_variation_selector c \<longleftrightarrow> 0xFE0E \<le> c \<and> c \<le> 0xFE0F"

definition is_skin_tone :: "uchar \<Rightarrow> bool" where
  "is_skin_tone c \<longleftrightarrow> 0x1F3FB \<le> c \<and> c \<le> 0x1F3FF"

definition is_regional_indicator :: "uchar \<Rightarrow> bool" where
  "is_regional_indicator c \<longleftrightarrow> 0x1F1E6 \<le> c \<and> c \<le> 0x1F1FF"

definition is_continuation :: "uchar \<Rightarrow> bool" where
  "is_continuation c \<longleftrightarrow> is_zwj c \<or> is_variation_selector c \<or> is_skin_tone c"

fun cluster_flag_open :: "ustring \<Rightarrow> bool" where
  "cluster_flag_open [] = False"
| "cluster_flag_open (first # rest) = (is_regional_indicator first \<and> rest = [])"

text \<open>The loop of \<open>split_clusters\<close>, with its three local variables.\<close>

fun split_loop :: "ustring list \<Rightarrow> ustring \<Rightarrow> bool \<Rightarrow> ustring \<Rightarrow> ustring list" where
  "split_loop clusters current expecting [] =
     (if current \<noteq> [] then clusters @ [current] else clusters)"
| "split_loop clusters current expecting (ch # chs) =
     (if is_continuation ch then
        if current = [] then split_loop (clusters @ [[ch]]) current expecting chs
        else split_loop clusters (current @ [ch]) (is_zwj ch) chs
      else if expecting then split_loop clusters (current @ [ch]) False chs
      else if current \<noteq> [] \<and> is_regional_indicator (last current) \<and> is_regional_indicator ch
              \<and> cluster_flag_open current
      then split_loop clusters (current @ [ch]) expecting chs
      else split_loop (if current \<noteq> [] then clusters @ [current] else clusters) [ch] expecting chs)"

definition split_clusters :: "ustring \<Rightarrow> ustring list" where
  "split_clusters s = split_loop [] [] False s"

definition hex_digit :: "nat \<Rightarrow> uchar" where
  "hex_digit d = (if d < 10 then 0x30 + d else 0x41 + (d - 10))"

function hex_upper :: "nat \<Rightarrow> nat \<Rightarrow> ustring" where
  "hex_upper width n =
     (if width \<le> 1 \<and> n < 16 then [hex_digit n]
      else hex_upper (width - 1) (n div 16) @ [hex_digit (n mod 16)])"
  by pat_completeness auto
termination
proof (relation "measure (\<lambda>(width, n). width + n)")
  fix width n :: nat
  assume "\<not> (width \<le> 1 \<and> n < 16)"
  then have "width - 1 + n div 16 < width + n"
    using div_le_dividend [of n 16] div_less_dividend [of 16 n] by linarith
  then show "((width - 1, n div 16), width, n) \<in> measure (\<lambda>(width, n). width + n)"
    by simp
qed simp

declare hex_upper.simps [simp del]

definition codepoint_dump :: "ustring \<Rightarrow> ustring" where
  "codepoint_dump s = concat (map (\<lambda>(i, ch).
     (if i \<noteq> 0 then ascii '' '' else []) @ ascii ''U+'' @ hex_upper 4 ch) (enumerate 0 s))"

section \<open>The dispatcher meets the contract\<close>

lemma input_flush_ok:
  assumes "input_inv b"
  shows "input_preedit (fst (input_flush b)) = None" and "input_inv (fst (input_flush b))"
    and "shown (input_preedit b) (snd (input_flush b)) = None"
    and "committed (snd (input_flush b)) = pend (input_preedit b)"
  using assms
  by (cases b; simp add: hangul.flush_shown hangul.flush_commits kana.flush_shown kana.flush_commits)+

lemma switch_for_ok:
  assumes "input_inv b" and "switch_for b s = (b1, as)"
  shows "input_inv b1 \<and> backend_matches b1 (detect s)
    \<and> shown (input_preedit b) as = input_preedit b1
    \<and> committed as @ pend (input_preedit b1) = pend (input_preedit b)"
proof (cases "backend_matches b (detect s)")
  case True
  then show ?thesis using assms by (simp add: switch_for_def)
next
  case False
  then have "as = snd (input_flush b)" and "b1 = (case detect s of
      TargetNone \<Rightarrow> Idle | TargetHangul \<Rightarrow> HangulBackend PendNone | TargetKana \<Rightarrow> KanaBackend None)"
    using assms(2) by (auto simp: switch_for_def Let_def)
  moreover from this(2) have "input_inv b1 \<and> backend_matches b1 (detect s) \<and> input_preedit b1 = None"
    by (cases "detect s") (simp_all add: kana_inv_def kana_preedit_text_def)
  ultimately show ?thesis using input_flush_ok [OF assms(1)] by simp
qed

lemma input_push_ok:
  assumes "input_inv b" and "input_push_text b s = (b', as)"
  shows "input_inv b' \<and> shown (input_preedit b) as = input_preedit b'
    \<and> expand (committed as @ pend (input_preedit b')) = expand (pend (input_preedit b) @ s)"
proof (cases "s = []")
  case True
  then show ?thesis using assms by (simp add: input_push_text_def)
next
  case False
  obtain b1 as1 where sw: "switch_for b s = (b1, as1)" by fastforce
  note 1 = switch_for_ok [OF assms(1) sw]
  have "expand (pend (input_preedit b)) = expand (committed as1) @ expand (pend (input_preedit b1))"
    using 1 by (metis expand_simps(3))
  note keys = this
  show ?thesis
  proof (cases b1)
    case Idle
    then show ?thesis using 1 keys False assms(2) sw by (auto simp: input_push_text_def)
  next
    case (HangulBackend c)
    with 1 have c: "hangul_inv c" by simp
    from HangulBackend show ?thesis
      using 1 keys False assms(2) sw hangul.push_inv [OF c, of s] hangul.push_shown [OF c, of s]
        hangul.push_lossless [OF c, of s]
      by (auto simp: input_push_text_def split_beta)
  next
    case (KanaBackend c)
    with 1 have c: "kana_inv c" by simp
    from KanaBackend show ?thesis
      using 1 keys False assms(2) sw kana.push_inv [OF c, of s] kana.push_shown [OF c, of s]
        kana.push_lossless [OF c, of s]
      by (auto simp: input_push_text_def split_beta)
  qed
qed

lemma input_backspace_ok:
  assumes "input_inv b"
  shows "input_inv (fst (input_backspace b))"
    and "shown (input_preedit b) (snd (input_backspace b)) = input_preedit (fst (input_backspace b))"
    and "committed (snd (input_backspace b)) = []"
  using assms hangul.backspace_inv hangul.backspace_shown hangul.backspace_commits
    kana.backspace_inv kana.backspace_shown kana.backspace_commits
  by (cases b; simp add: split_beta)+

interpretation dispatcher: composer input_preedit input_is_empty input_push_text input_flush
    input_backspace input_inv
proof
  fix s :: Backend and t :: ustring
  assume inv: "input_inv s"
  obtain s' as where push: "input_push_text s t = (s', as)" by fastforce
  note ok = input_push_ok [OF inv push]
  show "input_inv (fst (input_push_text s t))"
    and "shown (input_preedit s) (snd (input_push_text s t)) = input_preedit (fst (input_push_text s t))"
    and "expand (committed (snd (input_push_text s t)) @ pend (input_preedit (fst (input_push_text s t))))
      = expand (pend (input_preedit s) @ t)"
    using ok push by simp_all
  show "input_is_empty s = (input_preedit s = None)"
    using inv hangul.is_empty_iff kana.is_empty_iff by (cases s) auto
  show "\<exists>d. d \<noteq> [] \<and> expand (pend (input_preedit s))
      = expand (pend (input_preedit (fst (input_backspace s)))) @ d" if "input_preedit s \<noteq> None"
    using that inv hangul.backspace_drops kana.backspace_drops by (cases s) (auto simp: split_beta)
  show "input_backspace s = (s, [])" if "input_preedit s = None"
    using that inv hangul.backspace_idle kana.backspace_idle by (cases s) auto
qed (simp_all add: input_flush_ok input_backspace_ok)

lemma drive_flush_last:
  "input_preedit (fst (drive input_push_text input_flush input_backspace b (ops @ [Flush]))) = None"
proof (induction ops arbitrary: b)
  case Nil
  then show ?case by (cases b) simp_all
next
  case (Cons op ops)
  then show ?case by (simp only: append_Cons drive_Cons)
qed

section \<open>Lemmas on the splitter\<close>

lemma split_loop_concat:
  "concat (split_loop clusters current e chs) = concat clusters @ current @ chs"
  by (induction clusters current e chs rule: split_loop.induct) auto

lemma split_loop_nonempty:
  "[] \<notin> set clusters \<Longrightarrow> [] \<notin> set (split_loop clusters current e chs)"
  by (induction clusters current e chs rule: split_loop.induct) auto

text \<open>
  Clusters are well formed once the first character is not a continuation: none starts with
  one, and none that is closed ends with a joiner.
\<close>

definition cluster_ok :: "ustring \<Rightarrow> bool" where
  "cluster_ok c \<longleftrightarrow> c \<noteq> [] \<and> \<not> is_continuation (hd c) \<and> \<not> is_zwj (last c)"

lemma split_loop_clusters:
  "list_all cluster_ok clusters \<Longrightarrow> current \<noteq> [] \<Longrightarrow> \<not> is_continuation (hd current) \<Longrightarrow>
     e = is_zwj (last current) \<Longrightarrow>
     \<exists>cs c. split_loop clusters current e chs = cs @ [c] \<and> list_all cluster_ok cs
       \<and> c \<noteq> [] \<and> \<not> is_continuation (hd c)"
proof (induction chs arbitrary: clusters current e)
  case Nil
  then show ?case by auto
next
  case (Cons ch chs)
  have zwj: "is_zwj ch \<Longrightarrow> is_continuation ch" by (simp add: is_continuation_def)
  show ?case
  proof (cases "is_continuation ch \<or> e \<or> is_regional_indicator (last current)
      \<and> is_regional_indicator ch \<and> cluster_flag_open current")
    case True
    have "is_regional_indicator ch \<Longrightarrow> \<not> is_zwj ch"
      by (simp add: is_regional_indicator_def is_zwj_def)
    with True have "split_loop clusters current e (ch # chs)
        = split_loop clusters (current @ [ch]) (is_zwj ch) chs"
      using Cons.prems zwj by (cases "is_zwj ch") auto
    with Cons.IH [of clusters "current @ [ch]" "is_zwj ch"] Cons.prems show ?thesis by simp
  next
    case False
    then have "split_loop clusters current e (ch # chs) = split_loop (clusters @ [current]) [ch] e chs"
      using Cons.prems(2) by auto
    moreover have "list_all cluster_ok (clusters @ [current])"
      using Cons.prems False cluster_ok_def [of current] by simp
    then have "\<exists>cs c. split_loop (clusters @ [current]) [ch] e chs = cs @ [c] \<and> list_all cluster_ok cs
       \<and> c \<noteq> [] \<and> \<not> is_continuation (hd c)"
      by (rule Cons.IH) (use False zwj in auto)
    ultimately show ?thesis by (simp only:)
  qed
qed

lemma split_loop_flags:
  "length flags mod 2 = 0 \<Longrightarrow> list_all is_regional_indicator flags \<Longrightarrow>
     current = [] \<or> length current = 2 \<Longrightarrow>
     split_loop clusters current False flags
       = (if current \<noteq> [] then clusters @ [current] else clusters) @ chunks 2 flags"
proof (induction flags arbitrary: clusters current rule: induct_list012)
  case 1
  then show ?case by simp
next
  case (2 x)
  then show ?case by simp
next
  case (3 a b flags)
  have ri: "is_regional_indicator c \<Longrightarrow> \<not> is_continuation c" for c
    by (auto simp: is_regional_indicator_def is_continuation_def is_zwj_def
        is_variation_selector_def is_skin_tone_def)
  have open2: "length current = 2 \<Longrightarrow> \<not> cluster_flag_open current"
    by (cases current) auto
  have "split_loop clusters current False (a # b # flags)
      = split_loop (if current \<noteq> [] then clusters @ [current] else clusters) [a, b] False flags"
    using 3(3-5) ri [of a] ri [of b] open2 by auto
  also have "\<dots> = (if current \<noteq> [] then clusters @ [current] else clusters) @ [[a, b]] @ chunks 2 flags"
    using 3(1) [of "[a, b]" "if current \<noteq> [] then clusters @ [current] else clusters"] 3(3-5) by simp
  finally show ?case by (simp add: chunks.simps [of 2 "a # b # flags"] del: split_loop.simps)
qed

section \<open>Properties\<close>

text \<open>
  composing loses nothing. For any host session of pushed chunks and flushes, in any
  mixture of scripts, everything committed to the guest followed by the text still
  pending is, taken apart into keys, exactly what was typed, in order; a final flush leaves
  nothing pending.
\<close>
theorem composer_lossless:
  assumes "Backspace \<notin> set ops"
  shows "expand (committed (snd (drive input_push_text input_flush input_backspace Idle (ops @ [Flush]))))
       = expand (typed ops)"
proof -
  let ?ops = "ops @ [Flush]"
  let ?r = "drive input_push_text input_flush input_backspace Idle ?ops"
  have "Backspace \<notin> set ?ops" using assms by simp
  then have "expand (committed (snd ?r) @ pend (input_preedit (fst ?r))) = expand (typed ?ops)"
    using dispatcher.drive_lossless [of Idle ?ops] by simp
  moreover have "input_preedit (fst ?r) = None"
    by (rule drive_flush_last)
  moreover have "typed ?ops = typed ops"
    by (induction ops rule: typed.induct) auto
  ultimately show ?thesis by simp
qed

theorem composer_lossless_witness:
  "expand (committed (snd (drive input_push_text input_flush input_backspace Idle
     ([Push [0x3131, 0x314F], Push [0x61], Push [0x304B, 0x3099]] @ [Flush]))))
   = expand [0x3131, 0x314F, 0x61, 0x304B, 0x3099]"
  using composer_lossless [of "[Push [0x3131, 0x314F], Push [0x61], Push [0x304B, 0x3099]]"] by simp

text \<open>
  C28: the preedit on the host's screen is always the composer's. After any sequence of
  pushes, flushes and backspaces, the last preedit action emitted (or nothing, when there was
  none) is exactly the text the composer holds back, and the composer reports itself empty
  exactly when no preedit is shown.
\<close>
theorem composer_preedit_in_sync:
  "let (b, as) = drive input_push_text input_flush input_backspace Idle ops in
     shown None as = input_preedit b \<and> (input_is_empty b \<longleftrightarrow> shown None as = None)"
proof -
  have "input_inv Idle" by simp
  from dispatcher.drive_shown [OF this, of ops] dispatcher.is_empty_iff [OF dispatcher.drive_inv [OF this, of ops]]
  show ?thesis by (simp add: split_beta)
qed

text \<open>
  the emoji splitter only cuts: the clusters concatenate to the text, none is empty,
  and if the text does not start with a continuation then no cluster starts with a variation
  selector, skin tone or joiner, and only the last one can end with a joiner.
\<close>
theorem split_clusters_wellformed:
  "concat (split_clusters s) = s \<and> [] \<notin> set (split_clusters s)
   \<and> (s \<noteq> [] \<longrightarrow> \<not> is_continuation (hd s) \<longrightarrow>
        list_all cluster_ok (butlast (split_clusters s))
        \<and> \<not> is_continuation (hd (last (split_clusters s))))"
proof (intro conjI impI)
  show "concat (split_clusters s) = s" "[] \<notin> set (split_clusters s)"
    by (simp_all add: split_clusters_def split_loop_concat split_loop_nonempty)
next
  assume s: "s \<noteq> []" "\<not> is_continuation (hd s)"
  then obtain ch chs where ch: "s = ch # chs" "\<not> is_continuation ch" by (cases s) auto
  then have "\<not> is_zwj ch" by (auto simp: is_continuation_def)
  with ch obtain cs c where "split_clusters s = cs @ [c]" "list_all cluster_ok cs"
      "\<not> is_continuation (hd c)"
    using split_loop_clusters [of "[]" "[ch]" False chs] by (auto simp: split_clusters_def)
  then show "list_all cluster_ok (butlast (split_clusters s))"
    and "\<not> is_continuation (hd (last (split_clusters s)))" by simp_all
qed

theorem split_clusters_wellformed_witness:
  "concat (split_clusters [0x1F44B, 0x1F3FB, 0x61]) = [0x1F44B, 0x1F3FB, 0x61]
   \<and> list_all cluster_ok (butlast (split_clusters [0x1F44B, 0x1F3FB, 0x61]))"
  using split_clusters_wellformed [of "[0x1F44B, 0x1F3FB, 0x61]"]
  by (simp add: is_continuation_def is_zwj_def is_variation_selector_def is_skin_tone_def)

text \<open>
  flags stay whole: a text of an even number of regional indicators is cut into the
  consecutive pairs.
\<close>
theorem split_clusters_flags:
  assumes "even (length flags)" and "list_all is_regional_indicator flags"
  shows "split_clusters flags = chunks 2 flags"
  using assms split_loop_flags [of flags "[]" "[]"] by (simp add: split_clusters_def even_iff_mod_2_eq_zero)

theorem split_clusters_flags_witness:
  "split_clusters [0x1F1F0, 0x1F1F7, 0x1F1FA, 0x1F1F8]
     = chunks 2 [0x1F1F0, 0x1F1F7, 0x1F1FA, 0x1F1F8]"
  by (rule split_clusters_flags) (simp_all add: is_regional_indicator_def)

end
