(* ===== verification/Control_Daemon.thy ===== *)
theory Control_Daemon
  imports Proto
begin

text \<open>
  The state of the control daemon, \<open>crates/controld/src/state.rs\<close>, with the snapshot reader
  of \<open>snapshot.rs\<close> and the polling wait of \<open>socket_wait.rs\<close>.

  \<open>DaemonState\<close> is a record: the hash map of instances is an association list, \<open>state.bin\<close>
  and its temporary file are the two files the daemon writes, and \<open>signals\<close> logs the signals
  sent. What the operating system answers during one call (process table, results of file
  operations, of spawning, the status of a child after some milliseconds) is the record
  \<open>os\<close>, an argument of every operation; the serialiser of snapshots is the pair \<open>ser\<close>,
  \<open>de\<close>. An operation returns an error or a value, and the new state: everything the source
  did to the state before an early return is kept.
\<close>

section \<open>Data\<close>

datatype signal = SIGTERM | SIGKILL

datatype disk_file = FMissing | FUnreadable | FBytes "u8 list"

record InstanceSnapshot =
  snap_instance :: ustring
  snap_port :: u16
  snap_server_pid :: u32
  snap_app_pids :: "u32 list"

type_synonym Snapshot = "InstanceSnapshot list"

text \<open>\<open>server_child\<close> says whether the daemon holds the \<open>Child\<close> handle of the server.\<close>

record Instance =
  inst_port :: u16
  server_pid :: u32
  server_child :: bool
  app_pids :: "u32 list"

record QuicInstanceConfig =
  quic_bind :: IpAddr
  quic_port :: "u16 option"
  quic_token :: ustring

record DaemonState =
  server_bin :: ustring
  work_dir :: ustring
  instances :: "(ustring \<times> Instance) list"
  state_bin :: disk_file
  state_tmp :: disk_file
  signals :: "(u32 \<times> signal) list"

text \<open>A process to be spawned: program, arguments, environment set and removed.\<close>

record Command =
  cmd_program :: ustring
  cmd_args :: "ustring list"
  cmd_env :: "(ustring \<times> ustring) list"
  cmd_env_remove :: "ustring list"

text \<open>
  The answers of the operating system during one call. \<open>os_alive_at t\<close> is the process table
  \<open>t\<close> milliseconds after the first signal of \<open>terminate\<close>, \<open>os_exit t\<close> the status
  \<open>try_wait\<close> reports for the child just spawned \<open>t\<close> milliseconds after the spawn. A failed
  file operation reports the text of its error chain.
\<close>

record os =
  os_alive :: "u32 \<Rightarrow> bool"
  os_running :: "u32 \<Rightarrow> bool"
  os_alive_at :: "nat \<Rightarrow> u32 \<Rightarrow> bool"
  os_write_tmp :: bool
  os_torn :: "u8 list"
  os_rename :: bool
  os_open_log :: "ustring \<Rightarrow> ustring list option"
  os_cert :: "ustring \<Rightarrow> ustring list + (ustring \<times> ustring)"
  os_spawn :: "Command \<Rightarrow> ustring list + u32"
  os_exit :: "nat \<Rightarrow> ustring option"
  os_runtime_dir :: "ustring list + ustring"
  os_exists :: "ustring \<Rightarrow> bool"
  os_exists_at :: "nat \<Rightarrow> ustring \<Rightarrow> bool"
  os_dbus_run_session :: bool
  os_env :: "ustring \<Rightarrow> ustring option"
  os_show_ip :: "IpAddr \<Rightarrow> ustring"

datatype daemon_error =
    PortInUse u16 ustring u32
  | EmptyQuicToken
  | ServerFailedToStart ustring
  | NoSuchInstance ustring
  | EmptyArgv
  | SocketNotFound ustring
  | AppExitedImmediately ustring ustring
  | AppExitedWaiting ustring nat ustring
  | MissingSocket ustring
  | SnapshotUnreadable
  | SnapshotUndecodable
  | Os "ustring list"

section \<open>Text and paths\<close>

fun show_nat :: "nat \<Rightarrow> ustring" where
  "show_nat n = (if n < 10 then [0x30 + n] else show_nat (n div 10) @ [0x30 + n mod 10])"

declare show_nat.simps [simp del]

definition path_join :: "ustring \<Rightarrow> ustring \<Rightarrow> ustring" where
  "path_join p q =
     (if starts_with q (ascii ''/'') then q
      else if p = [] \<or> last p = 0x2F then p @ q
      else p @ ascii ''/'' @ q)"

definition is_ascii_alphanumeric :: "uchar \<Rightarrow> bool" where
  "is_ascii_alphanumeric c \<longleftrightarrow>
     0x30 \<le> c \<and> c \<le> 0x39 \<or> 0x41 \<le> c \<and> c \<le> 0x5A \<or> 0x61 \<le> c \<and> c \<le> 0x7A"

definition safe_instance_component :: "ustring \<Rightarrow> ustring" where
  "safe_instance_component s =
     map (\<lambda>ch. if is_ascii_alphanumeric ch \<or> ch \<in> {0x2D, 0x5F, 0x2E} then ch else 0x5F) s"

definition quic_cert_dir :: "ustring \<Rightarrow> ustring \<Rightarrow> ustring" where
  "quic_cert_dir work inst = path_join (path_join work (ascii ''quic-certs'')) (safe_instance_component inst)"

text \<open>The pin of a certificate, two lower-case hexadecimal digits for each byte of its digest.\<close>

definition hex_lower :: "nat \<Rightarrow> uchar" where
  "hex_lower d = (if d < 10 then 0x30 + d else 0x61 + (d - 10))"

definition sha256_hex :: "u8 list \<Rightarrow> ustring" where
  "sha256_hex digest = concat (map (\<lambda>b. [hex_lower (unat b div 16), hex_lower (unat b mod 16)]) digest)"

definition instance_log_dir :: "ustring \<Rightarrow> ustring \<Rightarrow> ustring" where
  "instance_log_dir work inst = path_join (path_join work (ascii ''logs'')) inst"

section \<open>Snapshots on disk\<close>

definition snapshot_of :: "(ustring \<times> Instance) list \<Rightarrow> Snapshot" where
  "snapshot_of insts = map (\<lambda>(name, inst). \<lparr>snap_instance = name, snap_port = inst_port inst,
     snap_server_pid = server_pid inst, snap_app_pids = app_pids inst\<rparr>) insts"

text \<open>
  \<open>flush\<close>: encode, write the temporary file, rename it over \<open>state.bin\<close>. A failed write
  leaves the temporary file with some content; \<open>rename\<close> replaces the target or fails.
\<close>

definition flush :: "(Snapshot \<Rightarrow> u8 list option) \<Rightarrow> os \<Rightarrow> DaemonState \<Rightarrow> bool \<times> DaemonState" where
  "flush ser os d =
     (case ser (snapshot_of (instances d)) of
        None \<Rightarrow> (False, d)
      | Some bytes \<Rightarrow>
          if \<not> os_write_tmp os then (False, d\<lparr>state_tmp := FBytes (os_torn os)\<rparr>)
          else if \<not> os_rename os then (False, d\<lparr>state_tmp := FBytes bytes\<rparr>)
          else (True, d\<lparr>state_tmp := FMissing, state_bin := FBytes bytes\<rparr>))"

definition load_snapshot ::
  "(u8 list \<Rightarrow> Snapshot option) \<Rightarrow> disk_file \<Rightarrow> daemon_error + Snapshot option" where
  "load_snapshot de f =
     (case f of
        FMissing \<Rightarrow> Inr None
      | FUnreadable \<Rightarrow> Inl SnapshotUnreadable
      | FBytes bytes \<Rightarrow>
          if bytes = [] then Inr None
          else (case de bytes of None \<Rightarrow> Inl SnapshotUndecodable | Some snap \<Rightarrow> Inr (Some snap)))"

section \<open>Reconciliation\<close>

datatype ReconcileOutcome = Drop | Recover "u32 list"

definition decide_reconcile :: "InstanceSnapshot \<Rightarrow> (u32 \<Rightarrow> bool) \<Rightarrow> ReconcileOutcome" where
  "decide_reconcile snap alive =
     (if \<not> alive (snap_server_pid snap) then Drop
      else Recover (filter alive (snap_app_pids snap)))"

fun recover_all ::
  "(u32 \<Rightarrow> bool) \<Rightarrow> (ustring \<times> Instance) list \<Rightarrow> Snapshot \<Rightarrow> (ustring \<times> Instance) list" where
  "recover_all alive insts [] = insts"
| "recover_all alive insts (snap # snaps) =
     (case decide_reconcile snap alive of
        Drop \<Rightarrow> recover_all alive insts snaps
      | Recover pids \<Rightarrow>
          recover_all alive (AList.update (snap_instance snap)
            \<lparr>inst_port = snap_port snap, server_pid = snap_server_pid snap, server_child = False,
             app_pids = pids\<rparr> insts) snaps)"

definition reconcile_on_startup ::
  "(Snapshot \<Rightarrow> u8 list option) \<Rightarrow> (u8 list \<Rightarrow> Snapshot option) \<Rightarrow> os \<Rightarrow> DaemonState
     \<Rightarrow> (daemon_error + unit) \<times> DaemonState" where
  "reconcile_on_startup ser de os d =
     (case load_snapshot de (state_bin d) of
        Inl e \<Rightarrow> (Inl e, d)
      | Inr None \<Rightarrow> (Inr (), d)
      | Inr (Some snap) \<Rightarrow>
          (Inr (), snd (flush ser os (d\<lparr>instances := recover_all (os_alive os) (instances d) snap\<rparr>))))"

text \<open>\<open>DaemonState::new\<close>, with the two files found on disk (the D-Bus assets are not state).\<close>

definition daemon_new ::
  "(Snapshot \<Rightarrow> u8 list option) \<Rightarrow> (u8 list \<Rightarrow> Snapshot option) \<Rightarrow> os \<Rightarrow> ustring \<Rightarrow> ustring
     \<Rightarrow> disk_file \<Rightarrow> disk_file \<Rightarrow> (daemon_error + unit) \<times> DaemonState" where
  "daemon_new ser de os bin work bin_file tmp_file =
     reconcile_on_startup ser de os \<lparr>server_bin = bin, work_dir = work, instances = [],
       state_bin = bin_file, state_tmp = tmp_file, signals = []\<rparr>"

section \<open>Reaping and summaries\<close>

definition retain_live_app_pids :: "(u32 \<Rightarrow> bool) \<Rightarrow> u32 list \<Rightarrow> u32 list \<times> bool" where
  "retain_live_app_pids alive pids =
     (let kept = filter alive pids in (kept, length kept \<noteq> length pids))"

definition instance_alive :: "os \<Rightarrow> Instance \<Rightarrow> bool" where
  "instance_alive os inst =
     (if server_child inst then os_running os (server_pid inst) else os_alive os (server_pid inst))"

definition reap_dead_instances ::
  "os \<Rightarrow> (ustring \<times> Instance) list \<Rightarrow> (ustring \<times> Instance) list \<times> bool" where
  "reap_dead_instances os insts =
     (let dead = map fst (filter (\<lambda>(_, inst). \<not> instance_alive os inst) insts) in
      (fold AList.delete dead insts, dead \<noteq> []))"

definition summaries ::
  "(Snapshot \<Rightarrow> u8 list option) \<Rightarrow> os \<Rightarrow> DaemonState \<Rightarrow> InstanceSummary list \<times> DaemonState" where
  "summaries ser os d =
     (let (insts, reaped) = reap_dead_instances os (instances d);
          retained = map (\<lambda>(name, inst). (name, retain_live_app_pids (os_alive os) (app_pids inst))) insts;
          need_flush = (reaped \<or> list_ex (\<lambda>(_, _, changed). changed) retained);
          insts = map (\<lambda>(name, inst).
            (name, inst\<lparr>app_pids := fst (retain_live_app_pids (os_alive os) (app_pids inst))\<rparr>)) insts;
          out = map (\<lambda>(name, inst). \<lparr>sum_instance = name, sum_port = inst_port inst,
            sum_server_pid = server_pid inst, sum_app_pids = app_pids inst\<rparr>) insts;
          d = d\<lparr>instances := insts\<rparr>
      in (out, if need_flush then snd (flush ser os d) else d))"

section \<open>Terminating an instance\<close>

definition pids_to_terminate :: "Instance \<Rightarrow> u32 list" where
  "pids_to_terminate inst = app_pids inst @ [server_pid inst]"

text \<open>The wait between the two rounds of signals: 50 ms steps, at most one second.\<close>

function terminate_wait :: "(nat \<Rightarrow> u32 \<Rightarrow> bool) \<Rightarrow> u32 list \<Rightarrow> nat \<Rightarrow> nat" where
  "terminate_wait alive_at pids t =
     (if t < 1000 \<and> list_ex (alive_at t) pids then terminate_wait alive_at pids (t + 50) else t)"
  by pat_completeness auto
termination
  by (relation "measure (\<lambda>(_, _, t). 1000 - t)") auto

declare terminate_wait.simps [simp del]

definition terminate_signals :: "os \<Rightarrow> Instance \<Rightarrow> (u32 \<times> signal) list" where
  "terminate_signals os inst =
     (let pids = pids_to_terminate inst;
          t = terminate_wait (os_alive_at os) pids 0
      in map (\<lambda>p. (p, SIGTERM)) pids @ map (\<lambda>p. (p, SIGKILL)) (filter (os_alive_at os t) pids))"

definition terminate :: "os \<Rightarrow> Instance \<Rightarrow> DaemonState \<Rightarrow> DaemonState" where
  "terminate os inst d = d\<lparr>signals := signals d @ terminate_signals os inst\<rparr>"

section \<open>Starting and stopping\<close>

definition port_conflict_owner ::
  "(ustring \<times> Instance) list \<Rightarrow> ustring \<Rightarrow> u16 \<Rightarrow> (ustring \<times> u32) option" where
  "port_conflict_owner insts name port =
     map_option (\<lambda>(n, inst). (n, server_pid inst))
       (find (\<lambda>(n, inst). n \<noteq> name \<and> inst_port inst = port) insts)"

definition server_spawn_env :: "bool \<Rightarrow> (ustring \<times> ustring) list" where
  "server_spawn_env debug =
     (if debug then [(ascii ''VBOX_DEBUG'', ascii ''1'')] else []) @ [(ascii ''RUST_BACKTRACE'', ascii ''1'')]"

definition server_args ::
  "os \<Rightarrow> u16 \<Rightarrow> (QuicInstanceConfig \<times> ustring \<times> ustring) option \<Rightarrow> ustring list" where
  "server_args os port quic =
     [ascii ''--port'', show_nat (unat port)] @
     (case quic of
        None \<Rightarrow> []
      | Some (q, cert_path, key_path) \<Rightarrow>
          [ascii ''--quic-bind'', os_show_ip os (quic_bind q),
           ascii ''--quic-port'', show_nat (unat (case quic_port q of Some p \<Rightarrow> p | None \<Rightarrow> port)),
           ascii ''--quic-token'', quic_token q,
           ascii ''--quic-cert'', cert_path, ascii ''--quic-key'', key_path])"

text \<open>
  The part of \<open>start_instance\<close> after the old instance is gone: prepare and spawn the
  server, and check it after 150 ms.
\<close>

definition spawn_server ::
  "os \<Rightarrow> DaemonState \<Rightarrow> ustring \<Rightarrow> u16 \<Rightarrow> bool \<Rightarrow> QuicInstanceConfig option \<Rightarrow> daemon_error + u32"
where
  "spawn_server os d name port debug quic =
     (case os_open_log os (path_join (instance_log_dir (work_dir d) name) (ascii ''server.log'')) of
        Some chain \<Rightarrow> Inl (Os chain)
      | None \<Rightarrow>
          let spawn = (\<lambda>q.
            case os_spawn os \<lparr>cmd_program = server_bin d, cmd_args = server_args os port q,
                   cmd_env = server_spawn_env debug, cmd_env_remove = []\<rparr> of
              Inl chain \<Rightarrow> Inl (Os chain)
            | Inr pid \<Rightarrow>
                (case os_exit os 150 of
                   Some status \<Rightarrow> Inl (ServerFailedToStart status)
                 | None \<Rightarrow> Inr pid))
          in case quic of
               None \<Rightarrow> spawn None
             | Some q \<Rightarrow>
                 if quic_token q = [] then Inl EmptyQuicToken
                 else
                   (case os_cert os (quic_cert_dir (work_dir d) name) of
                      Inl chain \<Rightarrow> Inl (Os chain)
                    | Inr (cert_path, key_path) \<Rightarrow> spawn (Some (q, cert_path, key_path))))"

definition start_instance ::
  "(Snapshot \<Rightarrow> u8 list option) \<Rightarrow> os \<Rightarrow> DaemonState \<Rightarrow> ustring \<Rightarrow> u16 \<Rightarrow> bool
     \<Rightarrow> QuicInstanceConfig option \<Rightarrow> (daemon_error + u32) \<times> DaemonState" where
  "start_instance ser os d name port debug quic =
     (let (insts, reaped_dead) = reap_dead_instances os (instances d);
          d = d\<lparr>instances := insts\<rparr>
      in case port_conflict_owner insts name port of
           Some (owner, pid) \<Rightarrow>
             (Inl (PortInUse port owner pid), if reaped_dead then snd (flush ser os d) else d)
         | None \<Rightarrow>
             let d = (case map_of insts name of
                        Some existing \<Rightarrow>
                          terminate os existing (d\<lparr>instances := AList.delete name insts\<rparr>)
                      | None \<Rightarrow> d)
             in case spawn_server os d name port debug quic of
                  Inl e \<Rightarrow> (Inl e, d)
                | Inr pid \<Rightarrow>
                    (Inr pid, snd (flush ser os (d\<lparr>instances := AList.update name
                       \<lparr>inst_port = port, server_pid = pid, server_child = True, app_pids = []\<rparr>
                       (instances d)\<rparr>))))"

definition stop_instance ::
  "(Snapshot \<Rightarrow> u8 list option) \<Rightarrow> os \<Rightarrow> DaemonState \<Rightarrow> ustring \<Rightarrow> (daemon_error + unit) \<times> DaemonState"
where
  "stop_instance ser os d name =
     (case map_of (instances d) name of
        None \<Rightarrow> (Inl (NoSuchInstance name), d)
      | Some inst \<Rightarrow>
          (Inr (), snd (flush ser os
             (terminate os inst (d\<lparr>instances := AList.delete name (instances d)\<rparr>)))))"

section \<open>Launching guest applications\<close>

record GuestEnvPlan =
  env_set :: "(ustring \<times> ustring) list"
  env_unset :: "ustring list"

definition base_env :: "ustring \<Rightarrow> (ustring \<times> ustring) list" where
  "base_env socket =
     [(ascii ''WAYLAND_DISPLAY'', socket),
      (ascii ''GDK_BACKEND'', ascii ''wayland''),
      (ascii ''GSK_RENDERER'', ascii ''cairo''),
      (ascii ''G_APPLICATION_NON_UNIQUE'', ascii ''1''),
      (ascii ''LIBGL_ALWAYS_SOFTWARE'', ascii ''1''),
      (ascii ''QT_QPA_PLATFORM'', ascii ''wayland''),
      (ascii ''XDG_SESSION_TYPE'', ascii ''wayland''),
      (ascii ''XDG_CURRENT_DESKTOP'', ascii ''GNOME''),
      (ascii ''DESKTOP_SESSION'', ascii ''gnome''),
      (ascii ''GNOME_DESKTOP_SESSION_ID'', ascii ''vbox''),
      (ascii ''GTK_USE_PORTAL'', ascii ''0'')]"

definition guest_env_plan ::
  "ustring \<Rightarrow> bool \<Rightarrow> ustring option \<Rightarrow> ustring option \<Rightarrow> (ustring \<Rightarrow> bool) \<Rightarrow> GuestEnvPlan" where
  "guest_env_plan socket use_dbus_isolation xdg_runtime home check_path =
     \<lparr>env_set = base_env socket @
        (case xdg_runtime of
           None \<Rightarrow> []
         | Some runtime \<Rightarrow>
             let pipewire_sock = path_join runtime (ascii ''pipewire-0'');
                 pulse_sock = path_join (path_join runtime (ascii ''pulse'')) (ascii ''native'')
             in (if check_path pipewire_sock then [(ascii ''PIPEWIRE_REMOTE'', pipewire_sock)] else []) @
                (if check_path pulse_sock then [(ascii ''PULSE_SERVER'', ascii ''unix:'' @ pulse_sock)] else []) @
                (case home of
                   None \<Rightarrow> []
                 | Some home \<Rightarrow>
                     let cookie = path_join (path_join (path_join home (ascii ''.config''))
                           (ascii ''pulse'')) (ascii ''cookie'')
                     in if check_path cookie then [(ascii ''PULSE_COOKIE'', cookie)] else []) @
                [(ascii ''XDG_RUNTIME_DIR'', runtime)]),
      env_unset = (if use_dbus_isolation then [ascii ''DBUS_SESSION_BUS_ADDRESS''] else [])\<rparr>"

definition guest_command :: "os \<Rightarrow> DaemonState \<Rightarrow> ustring \<Rightarrow> ustring list \<Rightarrow> Command" where
  "guest_command os d socket argv =
     (let isolated = os_dbus_run_session os;
          plan = guest_env_plan socket isolated (os_env os (ascii ''XDG_RUNTIME_DIR''))
            (os_env os (ascii ''HOME'')) (os_exists os)
      in \<lparr>cmd_program = (if isolated then ascii ''dbus-run-session'' else hd argv),
          cmd_args =
            (if isolated then
               [ascii ''--config-file'', path_join (work_dir d) (ascii ''dbus-session.conf''),
                ascii ''--''] @ argv
             else tl argv),
          cmd_env = env_set plan, cmd_env_remove = env_unset plan\<rparr>)"

text \<open>
  The second phase of the launch: \<open>try_wait\<close> every 100 ms until the deadline. The clock
  starts at 120 ms, after the first check.
\<close>

function wait_ready_loop :: "(nat \<Rightarrow> ustring option) \<Rightarrow> nat \<Rightarrow> nat \<Rightarrow> ustring option" where
  "wait_ready_loop exit_at deadline t =
     (if t < deadline then
        (case exit_at (t + 100) of
           Some status \<Rightarrow> Some status
         | None \<Rightarrow> wait_ready_loop exit_at deadline (t + 100))
      else None)"
  by pat_completeness auto
termination
  by (relation "measure (\<lambda>(_, deadline, t). deadline - t)") auto

declare wait_ready_loop.simps [simp del]

definition launch_app ::
  "(Snapshot \<Rightarrow> u8 list option) \<Rightarrow> os \<Rightarrow> DaemonState \<Rightarrow> ustring \<Rightarrow> ustring \<Rightarrow> ustring list \<Rightarrow> nat
     \<Rightarrow> (daemon_error + u32) \<times> DaemonState" where
  "launch_app ser os d name socket argv wait_ready_ms =
     (if argv = [] then (Inl EmptyArgv, d)
      else
        (case os_runtime_dir os of
           Inl chain \<Rightarrow> (Inl (Os chain), d)
         | Inr runtime \<Rightarrow>
             let socket_path = path_join runtime socket;
                 log_path = path_join (instance_log_dir (work_dir d) name) (ascii ''app.log'')
             in
             if \<not> os_exists os socket_path then (Inl (SocketNotFound socket_path), d)
             else
               (case os_open_log os log_path of
                  Some chain \<Rightarrow> (Inl (Os chain), d)
                | None \<Rightarrow>
                    (case os_spawn os (guest_command os d socket argv) of
                       Inl chain \<Rightarrow> (Inl (Os chain), d)
                     | Inr pid \<Rightarrow>
                         (case os_exit os 120 of
                            Some status \<Rightarrow> (Inl (AppExitedImmediately status log_path), d)
                          | None \<Rightarrow>
                              (case wait_ready_loop (os_exit os) (120 + wait_ready_ms) 120 of
                                 Some status \<Rightarrow> (Inl (AppExitedWaiting status wait_ready_ms log_path), d)
                               | None \<Rightarrow>
                                   let insts =
                                     (case map_of (instances d) name of
                                        Some inst \<Rightarrow>
                                          AList.update name (inst\<lparr>app_pids := app_pids inst @ [pid]\<rparr>)
                                            (instances d)
                                      | None \<Rightarrow> instances d)
                                   in (Inr pid, snd (flush ser os (d\<lparr>instances := insts\<rparr>)))))))))"

section \<open>Waiting for a socket\<close>

text \<open>
  The poll loop with its production step of 50 ms; \<open>now\<close> counts the milliseconds since the
  call.
\<close>

function wait_socket_poll_with_step :: "(nat \<Rightarrow> bool) \<Rightarrow> nat \<Rightarrow> nat \<Rightarrow> bool" where
  "wait_socket_poll_with_step exists_at timeout now =
     (if exists_at now then True
      else if now \<ge> timeout then False
      else wait_socket_poll_with_step exists_at timeout (now + 50))"
  by pat_completeness auto
termination
  by (relation "measure (\<lambda>(_, timeout, now). timeout - now)") auto

declare wait_socket_poll_with_step.simps [simp del]

definition wait_socket_poll :: "(nat \<Rightarrow> bool) \<Rightarrow> nat \<Rightarrow> bool" where
  "wait_socket_poll exists_at timeout = wait_socket_poll_with_step exists_at timeout 0"

text \<open>
  \<open>DaemonState::wait_socket\<close>. \<open>inotify\<close> is the answer of the Linux fast path, \<open>None\<close> when
  inotify is unavailable and the poll loop decides.
\<close>

definition wait_socket :: "os \<Rightarrow> (daemon_error + unit) option \<Rightarrow> ustring \<Rightarrow> nat \<Rightarrow> daemon_error + unit" where
  "wait_socket os inotify socket timeout =
     (case os_runtime_dir os of
        Inl chain \<Rightarrow> Inl (Os chain)
      | Inr runtime \<Rightarrow>
          let path = path_join runtime socket in
          if os_exists os path then Inr ()
          else
            (case inotify of
               Some res \<Rightarrow> res
             | None \<Rightarrow>
                 if wait_socket_poll (\<lambda>t. os_exists_at os t path) timeout
                 then Inr () else Inl (MissingSocket path)))"

section \<open>The daemon as a state machine\<close>

text \<open>
  One event is one call, with the operating system's answers during it. \<open>Restart\<close> is a crash
  or an orderly exit followed by a new process: memory is lost, the files are what they were.
\<close>

datatype daemon_op =
    OpSummaries os
  | OpStart os ustring u16 bool "QuicInstanceConfig option"
  | OpStop os ustring
  | OpLaunch os ustring ustring "ustring list" nat
  | OpRestart os

fun daemon_step ::
  "(Snapshot \<Rightarrow> u8 list option) \<Rightarrow> (u8 list \<Rightarrow> Snapshot option) \<Rightarrow> DaemonState \<Rightarrow> daemon_op \<Rightarrow> DaemonState"
where
  "daemon_step ser de d (OpSummaries os) = snd (summaries ser os d)"
| "daemon_step ser de d (OpStart os name port debug quic) =
     snd (start_instance ser os d name port debug quic)"
| "daemon_step ser de d (OpStop os name) = snd (stop_instance ser os d name)"
| "daemon_step ser de d (OpLaunch os name socket argv ms) =
     snd (launch_app ser os d name socket argv ms)"
| "daemon_step ser de d (OpRestart os) =
     snd (daemon_new ser de os (server_bin d) (work_dir d) (state_bin d) (state_tmp d))"

definition insts_ok :: "(ustring \<times> Instance) list \<Rightarrow> bool" where
  "insts_ok insts \<longleftrightarrow> distinct (map fst insts) \<and> distinct (map (\<lambda>e. inst_port (snd e)) insts)"

definition snap_ok :: "Snapshot \<Rightarrow> bool" where
  "snap_ok snap \<longleftrightarrow> distinct (map snap_instance snap) \<and> distinct (map snap_port snap)"

definition disk_ok :: "(u8 list \<Rightarrow> Snapshot option) \<Rightarrow> disk_file \<Rightarrow> bool" where
  "disk_ok de f \<longleftrightarrow> (case load_snapshot de f of Inr (Some snap) \<Rightarrow> snap_ok snap | _ \<Rightarrow> True)"

definition daemon_inv :: "(u8 list \<Rightarrow> Snapshot option) \<Rightarrow> DaemonState \<Rightarrow> bool" where
  "daemon_inv de d \<longleftrightarrow> insts_ok (instances d) \<and> disk_ok de (state_bin d)"

section \<open>Lemmas\<close>

lemma flush_fields [simp]:
  "instances (snd (flush ser os d)) = instances d"
  "signals (snd (flush ser os d)) = signals d"
  "server_bin (snd (flush ser os d)) = server_bin d"
  "work_dir (snd (flush ser os d)) = work_dir d"
  by (simp_all add: flush_def split: option.splits)

lemma terminate_fields [simp]:
  "instances (terminate os i d) = instances d"
  "state_bin (terminate os i d) = state_bin d"
  "work_dir (terminate os i d) = work_dir d"
  "server_bin (terminate os i d) = server_bin d"
  "signals (terminate os i d) = signals d @ terminate_signals os i"
  by (simp_all add: terminate_def)

text \<open>What \<open>state.bin\<close> can be after a flush: what it was, or the whole new snapshot.\<close>

definition snapshot_complete :: "(Snapshot \<Rightarrow> u8 list option) \<Rightarrow> DaemonState \<Rightarrow> bool" where
  "snapshot_complete ser d \<longleftrightarrow>
     (\<exists>bytes. ser (snapshot_of (instances d)) = Some bytes \<and> state_bin d = FBytes bytes)"

lemma flush_atomic:
  "state_bin (snd (flush ser os d)) = state_bin d \<or> snapshot_complete ser (snd (flush ser os d))"
  by (auto simp: flush_def snapshot_complete_def split: option.splits)

lemma flush_ok_complete: "fst (flush ser os d) \<Longrightarrow> snapshot_complete ser (snd (flush ser os d))"
  by (auto simp: flush_def snapshot_complete_def split: option.splits if_splits)

lemma snapshot_of_keys:
  "map snap_instance (snapshot_of insts) = map fst insts"
  "map snap_port (snapshot_of insts) = map (\<lambda>e. inst_port (snd e)) insts"
  by (simp_all add: snapshot_of_def split_beta comp_def)

lemma snap_ok_snapshot_of: "snap_ok (snapshot_of insts) \<longleftrightarrow> insts_ok insts"
  by (simp add: snap_ok_def insts_ok_def snapshot_of_keys)

lemma flush_inv:
  assumes "codec_ok ser de" and "insts_ok (instances d)" and "disk_ok de (state_bin d)"
  shows "daemon_inv de (snd (flush ser os d))"
proof -
  have "disk_ok de (state_bin (snd (flush ser os d)))"
    using flush_atomic [of ser os d]
  proof
    assume "snapshot_complete ser (snd (flush ser os d))"
    then obtain bytes where "ser (snapshot_of (instances d)) = Some bytes"
        "state_bin (snd (flush ser os d)) = FBytes bytes"
      by (auto simp: snapshot_complete_def)
    then show ?thesis
      using assms(1,2) by (auto simp: disk_ok_def load_snapshot_def codec_ok_def snap_ok_snapshot_of)
  qed (simp add: assms(3))
  with assms(2) show ?thesis by (simp add: daemon_inv_def)
qed

lemma reap_alive:
  assumes "distinct (map fst insts)"
  shows "fst (reap_dead_instances os insts) = filter (\<lambda>(_, i). instance_alive os i) insts"
proof -
  have "filter (\<lambda>(k, _). k \<notin> set (map fst (filter (\<lambda>(_, i). \<not> instance_alive os i) insts))) insts
      = filter (\<lambda>(_, i). instance_alive os i) insts"
  proof (rule filter_cong [OF refl])
    fix e
    assume e: "e \<in> set insts"
    obtain k i where ki: "e = (k, i)" by fastforce
    have "k \<in> set (map fst (filter (\<lambda>(_, i). \<not> instance_alive os i) insts)) \<longleftrightarrow> \<not> instance_alive os i"
    proof
      assume "k \<in> set (map fst (filter (\<lambda>(_, i). \<not> instance_alive os i) insts))"
      then obtain j where "(k, j) \<in> set insts" "\<not> instance_alive os j" by auto
      moreover from this have "j = i"
        using e ki map_of_is_SomeI [OF assms, of k] by (metis option.inject)
      ultimately show "\<not> instance_alive os i" by simp
    next
      assume "\<not> instance_alive os i"
      then show "k \<in> set (map fst (filter (\<lambda>(_, i). \<not> instance_alive os i) insts))"
        using e ki by force
    qed
    then show "(case e of (k, _) \<Rightarrow>
        k \<notin> set (map fst (filter (\<lambda>(_, i). \<not> instance_alive os i) insts)))
        = (case e of (_, i) \<Rightarrow> instance_alive os i)"
      using ki by simp
  qed
  then show ?thesis by (simp add: reap_dead_instances_def fold_delete Let_def)
qed

lemma insts_ok_filter: "insts_ok insts \<Longrightarrow> insts_ok (filter P insts)"
  by (auto simp: insts_ok_def distinct_map_filter intro: distinct_map_filter)

lemma insts_ok_delete: "insts_ok insts \<Longrightarrow> insts_ok (AList.delete k insts)"
  by (simp add: AList.delete_eq insts_ok_filter)

lemma insts_ok_reap: "insts_ok insts \<Longrightarrow> insts_ok (fst (reap_dead_instances os insts))"
  by (simp add: reap_alive insts_ok_filter insts_ok_def [of insts])

lemma port_conflict_None:
  "port_conflict_owner insts name port = None \<Longrightarrow> (n, i) \<in> set insts \<Longrightarrow> n \<noteq> name \<Longrightarrow> inst_port i \<noteq> port"
  by (auto simp: port_conflict_owner_def find_None_iff)

lemma insts_ok_insert:
  assumes "insts_ok insts" and "name \<notin> fst ` set insts"
    and "\<And>n i. (n, i) \<in> set insts \<Longrightarrow> inst_port i \<noteq> inst_port inst"
  shows "insts_ok (AList.update name inst insts)"
  using assms(1,2) by (auto simp: insts_ok_def update_fresh dest: assms(3))

lemma insts_ok_launch:
  "insts_ok insts \<Longrightarrow> map_of insts name = Some i \<Longrightarrow>
     insts_ok (AList.update name (i\<lparr>app_pids := pids\<rparr>) insts)"
  by (simp add: insts_ok_def keys_update_same [of insts name i]
      map_update_same [of insts name i inst_port])

lemma recover_all_eq:
  "distinct (map snap_instance snaps) \<Longrightarrow> fst ` set insts \<inter> snap_instance ` set snaps = {} \<Longrightarrow>
     recover_all alive insts snaps = insts @
       map (\<lambda>s. (snap_instance s, \<lparr>inst_port = snap_port s, server_pid = snap_server_pid s,
          server_child = False, app_pids = filter alive (snap_app_pids s)\<rparr>))
        (filter (\<lambda>s. alive (snap_server_pid s)) snaps)"
proof (induction snaps arbitrary: insts)
  case Nil
  then show ?case by simp
next
  case (Cons s snaps)
  then have fresh: "snap_instance s \<notin> fst ` set insts" by auto
  show ?case
  proof (cases "alive (snap_server_pid s)")
    case True
    then show ?thesis
      using Cons.prems fresh
      by (subst recover_all.simps, simp add: decide_reconcile_def update_fresh)
        (subst Cons.IH, auto)
  next
    case False
    then show ?thesis
      using Cons by (simp add: decide_reconcile_def)
  qed
qed

lemma recover_all_ok:
  assumes "snap_ok snaps"
  shows "insts_ok (recover_all alive [] snaps)"
proof -
  have "recover_all alive [] snaps =
       map (\<lambda>s. (snap_instance s, \<lparr>inst_port = snap_port s, server_pid = snap_server_pid s,
          server_child = False, app_pids = filter alive (snap_app_pids s)\<rparr>))
        (filter (\<lambda>s. alive (snap_server_pid s)) snaps)"
    using assms by (subst recover_all_eq) (auto simp: snap_ok_def)
  then show ?thesis
    using assms by (simp add: insts_ok_def snap_ok_def comp_def distinct_map_filter)
qed

section \<open>Every operation keeps the invariant\<close>

lemma summaries_inv [step_inv]:
  assumes "codec_ok ser de" and "daemon_inv de d"
  shows "daemon_inv de (snd (summaries ser os d))"
proof -
  let ?f = "\<lambda>(name, inst). (name, inst\<lparr>app_pids := fst (retain_live_app_pids (os_alive os) (app_pids inst))\<rparr>)"
  have "insts_ok (map ?f (fst (reap_dead_instances os (instances d))))"
    using assms(2) insts_ok_reap [of "instances d" os]
    by (simp add: daemon_inv_def insts_ok_def split_beta comp_def)
  moreover have "disk_ok de (state_bin d)" using assms(2) by (simp add: daemon_inv_def)
  ultimately have "daemon_inv de (d\<lparr>instances := map ?f (fst (reap_dead_instances os (instances d)))\<rparr>)"
    and "daemon_inv de (snd (flush ser os (d\<lparr>instances := map ?f (fst (reap_dead_instances os (instances d)))\<rparr>)))"
    using flush_inv [OF assms(1)] by (simp_all add: daemon_inv_def)
  then show ?thesis by (simp add: summaries_def Let_def split_beta)
qed

lemma stop_instance_inv [step_inv]:
  assumes "codec_ok ser de" and "daemon_inv de d"
  shows "daemon_inv de (snd (stop_instance ser os d name))"
  using assms
  by (auto simp: stop_instance_def daemon_inv_def [of de d] insts_ok_delete intro!: flush_inv
      split: option.splits)

lemma launch_app_inv [step_inv]:
  assumes "codec_ok ser de" and "daemon_inv de d"
  shows "daemon_inv de (snd (launch_app ser os d name socket argv ms))"
  using assms
  by (auto simp: launch_app_def Let_def daemon_inv_def [of de d] insts_ok_launch intro!: flush_inv
      split: option.splits sum.splits)

lemma reconcile_inv [step_inv]:
  assumes "codec_ok ser de" and "disk_ok de (state_bin d)" and "instances d = []"
  shows "daemon_inv de (snd (reconcile_on_startup ser de os d))"
proof (cases "load_snapshot de (state_bin d)")
  case (Inl e)
  then show ?thesis
    using assms by (simp add: reconcile_on_startup_def daemon_inv_def insts_ok_def)
next
  case (Inr snap)
  show ?thesis
  proof (cases snap)
    case None
    then show ?thesis
      using assms Inr by (simp add: reconcile_on_startup_def daemon_inv_def insts_ok_def)
  next
    case (Some sn)
    then have "snap_ok sn" using assms(2) Inr by (simp add: disk_ok_def)
    then show ?thesis
      using assms Inr Some
      by (simp add: reconcile_on_startup_def) (intro flush_inv, auto intro: recover_all_ok)
  qed
qed

text \<open>The state in which \<open>start_instance\<close> spawns: the reaped map without the old instance.\<close>

definition start_prepare :: "os \<Rightarrow> DaemonState \<Rightarrow> ustring \<Rightarrow> DaemonState" where
  "start_prepare os d name =
     (let insts = fst (reap_dead_instances os (instances d)); d = d\<lparr>instances := insts\<rparr> in
      case map_of insts name of
        Some existing \<Rightarrow> terminate os existing (d\<lparr>instances := AList.delete name insts\<rparr>)
      | None \<Rightarrow> d)"

lemma start_instance_cases:
  "start_instance ser os d name port debug quic =
     (let insts = fst (reap_dead_instances os (instances d)); d0 = start_prepare os d name in
      case port_conflict_owner insts name port of
        Some (owner, pid) \<Rightarrow>
          (Inl (PortInUse port owner pid),
           if snd (reap_dead_instances os (instances d)) then snd (flush ser os (d\<lparr>instances := insts\<rparr>))
           else d\<lparr>instances := insts\<rparr>)
      | None \<Rightarrow>
          (case spawn_server os d0 name port debug quic of
             Inl e \<Rightarrow> (Inl e, d0)
           | Inr pid \<Rightarrow> (Inr pid, snd (flush ser os (d0\<lparr>instances := AList.update name
                \<lparr>inst_port = port, server_pid = pid, server_child = True, app_pids = []\<rparr>
                (instances d0)\<rparr>)))))"
  by (simp add: start_instance_def start_prepare_def Let_def split_beta split: option.splits)

lemma start_prepare_fields:
  "instances (start_prepare os d name) = AList.delete name (fst (reap_dead_instances os (instances d)))"
  "state_bin (start_prepare os d name) = state_bin d"
  "work_dir (start_prepare os d name) = work_dir d"
  "server_bin (start_prepare os d name) = server_bin d"
  by (auto simp: start_prepare_def Let_def delete_fresh map_of_eq_None_iff split: option.splits)

lemma start_instance_inv [step_inv]:
  assumes "codec_ok ser de" and "daemon_inv de d"
  shows "daemon_inv de (snd (start_instance ser os d name port debug quic))"
proof -
  let ?insts = "fst (reap_dead_instances os (instances d))" and ?d0 = "start_prepare os d name"
  have ok: "insts_ok ?insts" and disk: "disk_ok de (state_bin d)"
    using assms(2) by (simp_all add: daemon_inv_def insts_ok_reap)
  show ?thesis
  proof (cases "port_conflict_owner ?insts name port")
    case (Some c)
    then show ?thesis
      using ok disk flush_inv [OF assms(1), of "d\<lparr>instances := ?insts\<rparr>"]
      by (simp add: start_instance_cases Let_def daemon_inv_def split_beta)
  next
    case None
    have d0: "insts_ok (instances ?d0)" "disk_ok de (state_bin ?d0)"
      using ok disk by (simp_all add: start_prepare_fields insts_ok_delete)
    have "insts_ok (AList.update name \<lparr>inst_port = port, server_pid = pid, server_child = True,
        app_pids = []\<rparr> (instances ?d0))" for pid
    proof (rule insts_ok_insert [OF d0(1)])
      show "name \<notin> fst ` set (instances ?d0)"
        by (auto simp: start_prepare_fields AList.delete_eq)
      show "inst_port i \<noteq> inst_port \<lparr>inst_port = port, server_pid = pid, server_child = True, app_pids = []\<rparr>"
        if "(n, i) \<in> set (instances ?d0)" for n i
        using that port_conflict_None [OF None, of n i]
        by (auto simp: start_prepare_fields AList.delete_eq)
    qed
    then show ?thesis
      using d0 flush_inv [OF assms(1)]
      by (simp add: start_instance_cases None Let_def daemon_inv_def split: sum.splits)
  qed
qed

lemma daemon_step_inv:
  "codec_ok ser de \<Longrightarrow> daemon_inv de d \<Longrightarrow> daemon_inv de (daemon_step ser de d op)"
proof (cases op)
  case (OpRestart os)
  assume "codec_ok ser de" "daemon_inv de d"
  then show ?thesis
    unfolding OpRestart daemon_step.simps daemon_new_def
    by (intro reconcile_inv) (simp_all add: daemon_inv_def)
qed (simp_all add: summaries_inv start_instance_inv stop_instance_inv launch_app_inv)

interpretation daemon: invariant_machine "daemon_step ser de" "\<lambda>d. codec_ok ser de \<longrightarrow> daemon_inv de d"
  for ser de
  by unfold_locales (simp add: daemon_step_inv)

section \<open>Lemmas for the properties\<close>

lemma terminate_wait_bound: "t \<le> 1000 \<Longrightarrow> t mod 50 = 0 \<Longrightarrow> terminate_wait alive pids t \<le> 1000"
proof (induction alive pids t rule: terminate_wait.induct)
  case (1 alive pids t)
  show ?case
  proof (cases "t < 1000 \<and> list_ex (alive t) pids")
    case True
    from True have "t < 1000" by simp
    with 1(3) have "t + 50 \<le> 1000" by presburger
    moreover from 1(3) have "(t + 50) mod 50 = 0" by simp
    ultimately show ?thesis
      using 1(1) [OF True] True by (subst terminate_wait.simps) simp
  next
    case False
    then show ?thesis using 1(2) by (subst terminate_wait.simps) auto
  qed
qed

lemma terminate_wait_ends:
  "terminate_wait alive pids t < 1000 \<Longrightarrow> \<not> list_ex (alive (terminate_wait alive pids t)) pids"
proof (induction alive pids t rule: terminate_wait.induct)
  case (1 alive pids t)
  then show ?case by (cases "t < 1000 \<and> list_ex (alive t) pids") (auto simp: terminate_wait.simps [of alive pids t])
qed

lemma flush_atomic_from:
  "state_bin d = b \<Longrightarrow>
     state_bin (snd (flush ser os d)) = b \<or> snapshot_complete ser (snd (flush ser os d))"
  using flush_atomic [of ser os d] by simp

lemma flush_unchanged:
  "\<not> snapshot_complete ser (snd (flush ser os d)) \<Longrightarrow> state_bin (snd (flush ser os d)) = state_bin d"
  using flush_atomic [of ser os d] by simp

lemma step_snapshot_atomic:
  "state_bin (daemon_step ser de d op) = state_bin d \<or> snapshot_complete ser (daemon_step ser de d op)"
proof (cases op)
  case (OpSummaries os)
  show ?thesis
    unfolding OpSummaries daemon_step.simps summaries_def Let_def split_beta snd_conv
    by (simp split: if_split) (intro conjI impI flush_atomic_from, simp_all)
next
  case (OpStart os name port debug quic)
  then show ?thesis
    by (auto simp: start_instance_cases start_prepare_fields Let_def split_beta flush_unchanged
        split: option.splits sum.splits)
qed (auto simp: stop_instance_def launch_app_def daemon_new_def reconcile_on_startup_def Let_def
      flush_unchanged split: option.splits sum.splits)

lemma wait_poll_iff:
  "wait_socket_poll_with_step ex timeout now \<longleftrightarrow>
     (\<exists>k. ex (now + 50 * k) \<and> (k = 0 \<or> now + 50 * (k - 1) < timeout))"
proof (induction ex timeout now rule: wait_socket_poll_with_step.induct)
  case (1 ex timeout now)
  show ?case
  proof (cases "ex now \<or> now \<ge> timeout")
    case True
    then show ?thesis
      by (subst wait_socket_poll_with_step.simps) (auto, metis add.right_neutral mult_0_right)
  next
    case False
    then have "wait_socket_poll_with_step ex timeout now \<longleftrightarrow>
        wait_socket_poll_with_step ex timeout (now + 50)"
      by (subst wait_socket_poll_with_step.simps) simp
    also have "\<dots> \<longleftrightarrow> (\<exists>k. ex (now + 50 * Suc k) \<and> now + 50 * k < timeout)"
    proof -
      have "(k = 0 \<or> now + 50 + 50 * (k - 1) < timeout) \<longleftrightarrow> now + 50 * k < timeout" for k
        using False by (cases k) auto
      then show ?thesis using 1 False by (simp add: add.assoc)
    qed
    also have "\<dots> \<longleftrightarrow> (\<exists>k. ex (now + 50 * k) \<and> (k = 0 \<or> now + 50 * (k - 1) < timeout))"
      using False by (metis Suc_pred add.right_neutral diff_Suc_1 gr0_conv_Suc mult_0_right neq0_conv nat.distinct(1))
    finally show ?thesis .
  qed
qed

lemma map_of_filter_distinct:
  "distinct (map fst p) \<Longrightarrow> map_of (filter (\<lambda>(_, i). P i) p) n =
     (case map_of p n of Some i \<Rightarrow> if P i then Some i else None | None \<Rightarrow> None)"
proof (induction p)
  case Nil
  then show ?case by simp
next
  case (Cons e p)
  obtain k i where e: "e = (k, i)" by fastforce
  have "k \<notin> fst ` set p \<Longrightarrow> map_of p k = None" by (simp add: map_of_eq_None_iff)
  with Cons e show ?case by auto
qed

lemma spawn_server_not_port: "spawn_server os d name port debug quic \<noteq> Inl (PortInUse a b c)"
  by (auto simp: spawn_server_def Let_def split: option.splits sum.splits prod.splits)

lemma start_instances_map:
  assumes "distinct (map fst (instances d))"
  shows "map_of (instances (start_prepare os d name)) n =
    (if n = name then None else
     case map_of (instances d) n of Some i \<Rightarrow> if instance_alive os i then Some i else None | None \<Rightarrow> None)"
  using map_of_filter_distinct [OF assms, of "instance_alive os" n]
  by (simp add: start_prepare_fields reap_alive [OF assms] delete_conv')

lemma port_conflict_Some:
  assumes "distinct (map fst (instances d))"
    and "port_conflict_owner (fst (reap_dead_instances os (instances d))) name port = Some (owner, pid)"
  shows "owner \<noteq> name \<and> (\<exists>i. map_of (instances d) owner = Some i \<and> inst_port i = port
    \<and> server_pid i = pid \<and> instance_alive os i)"
proof -
  from assms(2) obtain i where "find (\<lambda>(n, inst). n \<noteq> name \<and> inst_port inst = port)
      (filter (\<lambda>(_, i). instance_alive os i) (instances d)) = Some (owner, i)" "server_pid i = pid"
    by (auto simp: port_conflict_owner_def reap_alive [OF assms(1)])
  then have "owner \<noteq> name" "inst_port i = port" "(owner, i) \<in> set (instances d)" "instance_alive os i"
    by (auto simp: find_Some_iff) (metis (no_types, lifting) nth_mem mem_Collect_eq set_filter case_prodD)+
  with \<open>server_pid i = pid\<close> map_of_is_SomeI [OF assms(1)] show ?thesis by blast
qed

section \<open>Properties\<close>

text \<open>
  C8: no two instances share a name or a port, ever. From a first start with no state on
  disk, after any sequence of status calls, starts, stops, launches and daemon restarts, with
  any answers of the operating system and any failed file operations, the names and the
  ports of the tracked instances are pairwise different.
\<close>
theorem daemon_ports_distinct:
  assumes "codec_ok ser de"
    and d0_def: "d0 = snd (daemon_new ser de os0 bin work FMissing FMissing)"
  shows "distinct (map fst (instances (run (daemon_step ser de) d0 ops)))
    \<and> distinct (map (\<lambda>e. inst_port (snd e)) (instances (run (daemon_step ser de) d0 ops)))"
proof -
  have "codec_ok ser de \<longrightarrow> daemon_inv de d0"
    by (simp add: d0_def daemon_new_def reconcile_on_startup_def load_snapshot_def daemon_inv_def
        disk_ok_def insts_ok_def)
  from daemon.run_keeps [OF this, of ops] assms(1) show ?thesis
    by (simp add: daemon_inv_def insts_ok_def)
qed

definition demo_snap_ser :: "Snapshot \<Rightarrow> u8 list option" where
  "demo_snap_ser snap = (if snap = [] then Some [0] else None)"

definition demo_snap_de :: "u8 list \<Rightarrow> Snapshot option" where
  "demo_snap_de bs = (if bs = [0] then Some [] else None)"

lemma demo_snap_codec: "codec_ok demo_snap_ser demo_snap_de"
  by (simp add: codec_ok_def demo_snap_ser_def demo_snap_de_def)

definition demo_os :: os where
  "demo_os = \<lparr>os_alive = (\<lambda>p. p < 100), os_running = (\<lambda>p. p < 100), os_alive_at = (\<lambda>t p. p < 50 \<and> t < 100),
     os_write_tmp = True, os_torn = [], os_rename = True, os_open_log = (\<lambda>_. None),
     os_cert = (\<lambda>_. Inl []), os_spawn = (\<lambda>_. Inr 7), os_exit = (\<lambda>_. None), os_runtime_dir = Inr (ascii ''/run''),
     os_exists = (\<lambda>_. True), os_exists_at = (\<lambda>_ _. True), os_dbus_run_session = False,
     os_env = (\<lambda>_. None), os_show_ip = (\<lambda>_. [])\<rparr>"

theorem daemon_ports_distinct_witness:
  "distinct (map fst (instances (run (daemon_step demo_snap_ser demo_snap_de)
     (snd (daemon_new demo_snap_ser demo_snap_de demo_os [] [] FMissing FMissing))
     [OpStart demo_os (ascii ''a'') 7000 False None, OpStart demo_os (ascii ''b'') 7000 False None])))"
  using daemon_ports_distinct [OF demo_snap_codec refl] by blast


text \<open>
  C31: a restart loses no live instance. If the snapshot on disk is the one of the current
  instances (names distinct), the new daemon tracks exactly the instances whose server
  process is alive, each with its port, its server pid and its applications that are still
  alive, re-attached without a child handle.
\<close>
theorem restart_recovers:
  assumes "codec_ok ser de" and "ser (snapshot_of (instances d)) = Some bytes" and "bytes \<noteq> []"
    and "state_bin d = FBytes bytes" and "distinct (map fst (instances d))"
  shows "instances (daemon_step ser de d (OpRestart os)) =
     map (\<lambda>(name, i). (name, i\<lparr>server_child := False, app_pids := filter (os_alive os) (app_pids i)\<rparr>))
       (filter (\<lambda>(_, i). os_alive os (server_pid i)) (instances d))"
proof -
  have load: "load_snapshot de (state_bin d) = Inr (Some (snapshot_of (instances d)))"
    using assms by (simp add: load_snapshot_def codec_ok_def)
  have "recover_all (os_alive os) [] (snapshot_of (instances d)) =
     map (\<lambda>(name, i). (name, i\<lparr>server_child := False, app_pids := filter (os_alive os) (app_pids i)\<rparr>))
       (filter (\<lambda>(_, i). os_alive os (server_pid i)) (instances d))"
    using assms(5)
    by (subst recover_all_eq)
      (auto simp: snapshot_of_keys snapshot_of_def filter_map comp_def split_beta intro!: map_cong filter_cong)
  with load show ?thesis
    by (simp add: daemon_new_def reconcile_on_startup_def)
qed

definition demo_insts :: "(ustring \<times> Instance) list" where
  "demo_insts = [(ascii ''a'', \<lparr>inst_port = 7000, server_pid = 20, server_child = True, app_pids = [30, 130]\<rparr>),
     (ascii ''b'', \<lparr>inst_port = 7001, server_pid = 120, server_child = True, app_pids = []\<rparr>)]"

definition demo_state :: DaemonState where
  "demo_state = \<lparr>server_bin = ascii ''vbox-server'', work_dir = ascii ''/w'', instances = demo_insts,
     state_bin = FBytes [1], state_tmp = FMissing, signals = []\<rparr>"

definition demo_ser2 :: "Snapshot \<Rightarrow> u8 list option" where
  "demo_ser2 snap = (if snap = snapshot_of demo_insts then Some [1] else None)"

definition demo_de2 :: "u8 list \<Rightarrow> Snapshot option" where
  "demo_de2 bs = (if bs = [1] then Some (snapshot_of demo_insts) else None)"

theorem restart_recovers_witness:
  "instances (daemon_step demo_ser2 demo_de2 demo_state (OpRestart demo_os)) =
     [(ascii ''a'', \<lparr>inst_port = 7000, server_pid = 20, server_child = False, app_pids = [30]\<rparr>)]"
proof -
  have "codec_ok demo_ser2 demo_de2"
    by (simp add: codec_ok_def demo_ser2_def demo_de2_def)
  then show ?thesis
    using restart_recovers [of demo_ser2 demo_de2 demo_state "[1]" demo_os]
    by (simp add: demo_state_def demo_ser2_def demo_insts_def demo_os_def ascii_def)
qed

text \<open>
  stopping an instance signals its processes and only them: \<open>SIGTERM\<close> to every guest
  application and then to the server, and after a wait of at most one second \<open>SIGKILL\<close> to
  exactly those still alive; the wait ends early only when none is. The instance is no longer
  tracked and every other one is untouched. An unknown name is an error and changes nothing.
\<close>
theorem stop_instance_behaviour:
  "case map_of (instances d) name of
     None \<Rightarrow> stop_instance ser os d name = (Inl (NoSuchInstance name), d)
   | Some inst \<Rightarrow> \<exists>t \<le> 1000.
       fst (stop_instance ser os d name) = Inr ()
       \<and> signals (snd (stop_instance ser os d name)) = signals d
           @ map (\<lambda>p. (p, SIGTERM)) (app_pids inst @ [server_pid inst])
           @ map (\<lambda>p. (p, SIGKILL)) (filter (os_alive_at os t) (app_pids inst @ [server_pid inst]))
       \<and> (t = 1000 \<or> list_all (\<lambda>p. \<not> os_alive_at os t p) (app_pids inst @ [server_pid inst]))
       \<and> map_of (instances (snd (stop_instance ser os d name))) = (map_of (instances d))(name := None)"
proof (cases "map_of (instances d) name")
  case None
  then show ?thesis by (simp add: stop_instance_def)
next
  case (Some inst)
  let ?t = "terminate_wait (os_alive_at os) (pids_to_terminate inst) 0"
  have t: "?t \<le> 1000" by (rule terminate_wait_bound) simp_all
  moreover have "?t = 1000 \<or> list_all (\<lambda>p. \<not> os_alive_at os ?t p) (pids_to_terminate inst)"
    using terminate_wait_ends [of "os_alive_at os" "pids_to_terminate inst" 0] t
    by (force simp: list_ex_iff list_all_iff)
  moreover have "signals (snd (stop_instance ser os d name)) = signals d @ terminate_signals os inst"
    and "map_of (instances (snd (stop_instance ser os d name))) = (map_of (instances d))(name := None)"
    and "fst (stop_instance ser os d name) = Inr ()"
    using Some by (simp_all add: stop_instance_def delete_conv')
  ultimately show ?thesis
    using Some by (auto simp: terminate_signals_def Let_def pids_to_terminate_def)
qed



text \<open>
  a failed start forgets a running instance without recording it. Starting again an
  instance that is alive, with a QUIC configuration whose token is empty, is an error; but
  the old instance has been terminated and is no longer tracked, and \<open>state.bin\<close> was not
  rewritten: it still lists it.
\<close>
theorem failed_restart_leaves_stale_snapshot:
  assumes "distinct (map fst (instances d))" and "map_of (instances d) name = Some inst"
    and "instance_alive os inst" and "quic_token q = []"
    and "port_conflict_owner (fst (reap_dead_instances os (instances d))) name port = None"
    and "os_open_log os (path_join (instance_log_dir (work_dir d) name) (ascii ''server.log'')) = None"
  shows "\<exists>d'. start_instance ser os d name port debug (Some q) = (Inl EmptyQuicToken, d')
     \<and> map_of (instances d') name = None
     \<and> signals d' = signals d @ terminate_signals os inst
     \<and> state_bin d' = state_bin d"
proof -
  let ?d0 = "start_prepare os d name"
  have "map_of (fst (reap_dead_instances os (instances d))) name = Some inst"
    using map_of_filter_distinct [OF assms(1), of "instance_alive os" name] assms(2,3)
    by (simp add: reap_alive [OF assms(1)])
  then have "signals ?d0 = signals d @ terminate_signals os inst"
    by (simp add: start_prepare_def Let_def)
  moreover have "spawn_server os ?d0 name port debug (Some q) = Inl EmptyQuicToken"
    using assms(4,6) by (simp add: spawn_server_def start_prepare_fields)
  ultimately show ?thesis
    using start_instances_map [OF assms(1), of os name name]
    by (simp add: start_instance_cases Let_def assms(5) start_prepare_fields)
qed

theorem failed_restart_leaves_stale_snapshot_witness:
  "\<exists>d'. start_instance demo_ser2 demo_os demo_state (ascii ''a'') 7000 False
      (Some \<lparr>quic_bind = V4 0, quic_port = None, quic_token = []\<rparr>) = (Inl EmptyQuicToken, d')
     \<and> map_of (instances d') (ascii ''a'') = None
     \<and> signals d' = signals demo_state @ terminate_signals demo_os
         \<lparr>inst_port = 7000, server_pid = 20, server_child = True, app_pids = [30, 130]\<rparr>
     \<and> state_bin d' = state_bin demo_state"
  by (rule failed_restart_leaves_stale_snapshot)
    (simp_all add: demo_state_def demo_insts_def demo_os_def ascii_def instance_alive_def
      reap_dead_instances_def port_conflict_owner_def)

text \<open>
  C33: the poll loop answers and answers right: it returns ready exactly if the socket
  exists at one of its looks, which are 50 ms apart, start at once, and end with the first
  one at or after the timeout.
\<close>
theorem wait_socket_poll_exact:
  "wait_socket_poll exists_at timeout \<longleftrightarrow>
     (\<exists>k. exists_at (50 * k) \<and> (k = 0 \<or> 50 * (k - 1) < timeout))"
  by (simp add: wait_socket_poll_def wait_poll_iff)

text \<open>
  a launched application is tracked when its instance is known, and only then. Success
  means the process survived the fail-fast checks; its pid is appended to the instance's
  applications, all other instances are as before. For a name the daemon does not track the
  launch succeeds as well and no instance records the pid.
\<close>
theorem launch_app_tracking:
  assumes "launch_app ser os d name socket argv ms = (Inr pid, d')"
  shows "argv \<noteq> [] \<and> os_exit os 120 = None
    \<and> map_of (instances d') = (map_of (instances d))(name :=
        map_option (\<lambda>i. i\<lparr>app_pids := app_pids i @ [pid]\<rparr>) (map_of (instances d) name))"
  using assms
  by (auto simp: launch_app_def Let_def update_conv' fun_eq_iff
      split: if_splits sum.splits option.splits)

theorem launch_app_tracking_witness:
  "map_of (instances (snd (launch_app demo_ser2 demo_os demo_state (ascii ''a'') [] [[]] 0))) (ascii ''a'')
     = Some \<lparr>inst_port = 7000, server_pid = 20, server_child = True, app_pids = [30, 130, 7]\<rparr>"
proof -
  have "wait_ready_loop f 120 120 = None" for f
    by (simp add: wait_ready_loop.simps)
  then obtain d' where d': "launch_app demo_ser2 demo_os demo_state (ascii ''a'') [] [[]] 0 = (Inr 7, d')"
    by (simp add: launch_app_def demo_os_def Let_def)
  from launch_app_tracking [OF d'] show ?thesis
    unfolding d' by (simp add: demo_state_def demo_insts_def ascii_def)
qed

text \<open>
  the environment plan of a guest application names every variable once, always selects
  the given Wayland socket, exports the runtime directory exactly when the host has one, and
  clears the inherited session bus exactly under isolation.
\<close>
theorem guest_env_plan_wellformed:
  "let plan = guest_env_plan socket isolated runtime home check in
     distinct (map fst (env_set plan))
     \<and> map_of (env_set plan) (ascii ''WAYLAND_DISPLAY'') = Some socket
     \<and> map_of (env_set plan) (ascii ''XDG_RUNTIME_DIR'') = runtime
     \<and> (ascii ''DBUS_SESSION_BUS_ADDRESS'' \<in> set (env_unset plan) \<longleftrightarrow> isolated)"
  by (cases runtime; cases home; simp add: guest_env_plan_def base_env_def ascii_def Let_def)

text \<open>
  the directory component for QUIC certificates contains no path separator and keeps
  the length of the name, but it is not injective: two different names can share the
  directory, and the parent directory's name is kept.
\<close>
theorem safe_instance_component_shape:
  "0x2F \<notin> set (safe_instance_component s) \<and> length (safe_instance_component s) = length s
   \<and> safe_instance_component (ascii ''a/b'') = safe_instance_component (ascii ''a_b'')
   \<and> safe_instance_component (ascii ''..'') = ascii ''..''"
  by (auto simp: safe_instance_component_def is_ascii_alphanumeric_def ascii_def)

end
