(* ===== verification/Control_Session.thy ===== *)
theory Control_Session
  imports Control_Daemon
begin

text \<open>
  One session of the control daemon, \<open>crates/controld/src/main.rs\<close>: the handshake, the
  authentication gate and the RPC dispatcher.

  The bytes the client sends are a stream; \<open>writes\<close> is the number of frames the connection
  still takes before it breaks (a reply that cannot be encoded ends the session the same way). The operating system's answers and the result of the inotify
  wait of the n-th request are \<open>env n\<close>. Error texts are rendered as in the source;
  \<open>dbg\<close> stands for the \<open>Debug\<close> rendering of a string and \<open>cert_sha\<close> for the digest of a
  certificate file, both only shown to the client.
\<close>

section \<open>Authentication\<close>

fun diff_bytes :: "u8 \<Rightarrow> u8 list \<Rightarrow> u8 list \<Rightarrow> u8" where
  "diff_bytes acc (x # xs) (y # ys) = diff_bytes (acc OR (x XOR y)) xs ys"
| "diff_bytes acc _ _ = acc"

definition constant_time_eq :: "u8 list \<Rightarrow> u8 list \<Rightarrow> bool" where
  "constant_time_eq a b = (if length a \<noteq> length b then False else diff_bytes 0 a b = 0)"

definition authenticate :: "u8 list \<Rightarrow> u8 list \<Rightarrow> RpcResult" where
  "authenticate supplied expected =
     (if constant_time_eq supplied expected then RpcOk Authenticated
      else RpcErr (ascii ''authentication failed''))"

fun is_ok :: "RpcResult \<Rightarrow> bool" where
  "is_ok (RpcOk _) = True"
| "is_ok (RpcErr _) = False"

section \<open>Error texts\<close>

fun error_chain :: "daemon_error \<Rightarrow> ustring list" where
  "error_chain (PortInUse port owner pid) =
     [ascii ''port '' @ show_nat (unat port) @ ascii '' already used by instance '' @ owner
        @ ascii '' (server_pid='' @ show_nat (unat pid) @ ascii '')'']"
| "error_chain EmptyQuicToken = [ascii ''quic token must be non-empty when --quic-bind is set'']"
| "error_chain (ServerFailedToStart status) =
     [ascii ''vbox-server failed to start (status='' @ status @ ascii '')'']"
| "error_chain (NoSuchInstance name) = [ascii ''no such instance: '' @ name]"
| "error_chain EmptyArgv = [ascii ''launch_app: empty argv'']"
| "error_chain (SocketNotFound path) = [ascii ''Wayland socket not found: '' @ path]"
| "error_chain (AppExitedImmediately status log) =
     [ascii ''guest app exited immediately (status='' @ status @ ascii ''); see '' @ log]"
| "error_chain (AppExitedWaiting status ms log) =
     [ascii ''guest app exited during wait-ready (status='' @ status @ ascii '', after ''
        @ show_nat ms @ ascii ''ms); see '' @ log]"
| "error_chain (MissingSocket path) = [ascii ''missing socket: '' @ path @ ascii '' (timeout)'']"
| "error_chain SnapshotUnreadable = [ascii ''read state.bin'']"
| "error_chain SnapshotUndecodable = [ascii ''decode snapshot state.bin'']"
| "error_chain (Os chain) = chain"

fun format_err_chain :: "ustring list \<Rightarrow> ustring" where
  "format_err_chain [] = []"
| "format_err_chain (c # cs) = c @ concat (map (\<lambda>cause. [0x0A] @ ascii ''  caused by: '' @ cause) cs)"

text \<open>The label \<open>dispatch\<close> attaches to a failure; the other methods cannot fail.\<close>

fun failure_label :: "(ustring \<Rightarrow> ustring) \<Rightarrow> RpcMethod \<Rightarrow> ustring" where
  "failure_label dbg (StartInstance name port _ _ _ _) =
     ascii ''start_instance(instance='' @ name @ ascii '', port='' @ show_nat (unat port) @ ascii '')''"
| "failure_label dbg (StopInstance name) = ascii ''stop_instance(instance='' @ name @ ascii '')''"
| "failure_label dbg (LaunchApp name socket argv ms) =
     ascii ''launch_app(instance='' @ name @ ascii '', socket='' @ socket @ ascii '', argv0=''
       @ dbg (case argv of [] \<Rightarrow> [] | a # _ \<Rightarrow> a) @ ascii '', wait_ready_ms='' @ show_nat (unat ms)
       @ ascii '')''"
| "failure_label dbg (WaitSocket socket ms) =
     ascii ''wait_socket(socket='' @ socket @ ascii '', timeout_ms='' @ show_nat (unat ms) @ ascii '')''"
| "failure_label dbg _ = []"

section \<open>Dispatch\<close>

record session_env =
  env_os :: os
  env_inotify :: "(daemon_error + unit) option"
  env_daemon_pid :: u32
  env_cert_sha :: "ustring \<Rightarrow> ustring option"
  env_dbg :: "ustring \<Rightarrow> ustring"

definition rpc_err :: "session_env \<Rightarrow> RpcMethod \<Rightarrow> daemon_error \<Rightarrow> RpcResult" where
  "rpc_err env method e = RpcErr (format_err_chain (failure_label (env_dbg env) method # error_chain e))"

definition quic_cert_sha256 :: "session_env \<Rightarrow> DaemonState \<Rightarrow> ustring \<Rightarrow> ustring option" where
  "quic_cert_sha256 env d name =
     (let cert_path = path_join (quic_cert_dir (work_dir d) name) (ascii ''server.pem'') in
      if \<not> os_exists (env_os env) cert_path then None else env_cert_sha env cert_path)"

text \<open>The methods allowed after authentication.\<close>

fun dispatch_method ::
  "(Snapshot \<Rightarrow> u8 list option) \<Rightarrow> session_env \<Rightarrow> DaemonState \<Rightarrow> RpcMethod \<Rightarrow> RpcResult \<times> DaemonState"
where
  "dispatch_method ser env d Status =
     (case summaries ser (env_os env) d of
        (out, d') \<Rightarrow> (RpcOk (StatusOk \<lparr>daemon_pid = env_daemon_pid env, instances_reply = out\<rparr>), d'))"
| "dispatch_method ser env d (StartInstance name port debug bind qport qtoken) =
     (case start_instance ser (env_os env) d name port debug
             (map_option (\<lambda>b. \<lparr>quic_bind = b, quic_port = qport,
                quic_token = (case qtoken of Some t \<Rightarrow> t | None \<Rightarrow> [])\<rparr>) bind) of
        (Inr pid, d') \<Rightarrow> (RpcOk (InstanceStarted pid), d')
      | (Inl e, d') \<Rightarrow> (rpc_err env (StartInstance name port debug bind qport qtoken) e, d'))"
| "dispatch_method ser env d (StopInstance name) =
     (case stop_instance ser (env_os env) d name of
        (Inr _, d') \<Rightarrow> (RpcOk InstanceStopped, d')
      | (Inl e, d') \<Rightarrow> (rpc_err env (StopInstance name) e, d'))"
| "dispatch_method ser env d (LaunchApp name socket argv ms) =
     (case launch_app ser (env_os env) d name socket argv (unat ms) of
        (Inr pid, d') \<Rightarrow> (RpcOk (AppLaunched pid), d')
      | (Inl e, d') \<Rightarrow> (rpc_err env (LaunchApp name socket argv ms) e, d'))"
| "dispatch_method ser env d (WaitSocket socket ms) =
     (case wait_socket (env_os env) (env_inotify env) socket (unat ms) of
        Inr _ \<Rightarrow> (RpcOk SocketReady, d)
      | Inl e \<Rightarrow> (rpc_err env (WaitSocket socket ms) e, d))"
| "dispatch_method ser env d (PrepareDataPlane inst tcp quic token) =
     (RpcOk (DataPlanePrepared \<lparr>tcp_addr = tcp, quic_addr = quic, session_token = token,
        quic_server_cert_sha256 = Option.bind inst (quic_cert_sha256 env d),
        capabilities = (if quic \<noteq> None then capabilities_quic_phase1 else capabilities_tcp)\<rparr>), d)"
| "dispatch_method ser env d (Authenticate token) = (RpcErr [], d)"

definition dispatch ::
  "(Snapshot \<Rightarrow> u8 list option) \<Rightarrow> session_env \<Rightarrow> ustring \<Rightarrow> bool \<Rightarrow> DaemonState \<Rightarrow> RpcRequest
     \<Rightarrow> RpcResponse \<times> bool \<times> DaemonState" where
  "dispatch ser env expected_token authenticated d req =
     (let (result, authenticated, d) =
        (case req_method req of
           Authenticate token \<Rightarrow>
             let outcome = authenticate (as_bytes token) (as_bytes expected_token) in
             (outcome, authenticated \<or> is_ok outcome, d)
         | method \<Rightarrow>
             if \<not> authenticated then (RpcErr (ascii ''not authenticated''), authenticated, d)
             else (case dispatch_method ser env d method of (r, d') \<Rightarrow> (r, authenticated, d')))
      in (\<lparr>resp_id = req_id req, resp_result = result\<rparr>, authenticated, d))"

section \<open>The session\<close>

datatype HelloDecision = HelloAccept | HelloReject ProtoError

definition check_protocol_version :: "u16 \<Rightarrow> HelloDecision" where
  "check_protocol_version client_proto =
     (if client_proto = PROTOCOL_VERSION then HelloAccept
      else HelloReject \<lparr>err_code = 426,
        err_message = ascii ''protocol version mismatch: client='' @ show_nat (unat client_proto)
          @ ascii '', daemon='' @ show_nat (unat PROTOCOL_VERSION)\<rparr>)"

datatype SessionAction = SPong u64 u64 | SClose ustring | SRpc | SUnexpected Kind

fun decide_session_action :: "Message \<Rightarrow> SessionAction" where
  "decide_session_action (Message.Ping p) = SPong (ping_seq p) (ping_stamp_ns p)"
| "decide_session_action (Message.Goodbye r) = SClose r"
| "decide_session_action (Message.RpcRequest _) = SRpc"
| "decide_session_action msg = SUnexpected (kind msg)"

fun show_kind :: "Kind \<Rightarrow> ustring" where
  "show_kind Kind.Hello = ascii ''Hello''"
| "show_kind Kind.Welcome = ascii ''Welcome''"
| "show_kind Kind.Goodbye = ascii ''Goodbye''"
| "show_kind Kind.ViewRequest = ascii ''ViewRequest''"
| "show_kind Kind.Ping = ascii ''Ping''"
| "show_kind Kind.Pong = ascii ''Pong''"
| "show_kind Kind.Error = ascii ''Error''"
| "show_kind Kind.DataPlaneAuth = ascii ''DataPlaneAuth''"
| "show_kind Kind.DataPlaneChannel = ascii ''DataPlaneChannel''"
| "show_kind Kind.WindowEvent = ascii ''WindowEvent''"
| "show_kind Kind.FrameTile = ascii ''FrameTile''"
| "show_kind Kind.InputEvent = ascii ''InputEvent''"
| "show_kind Kind.ImeEvent = ascii ''ImeEvent''"
| "show_kind Kind.RpcRequest = ascii ''RpcRequest''"
| "show_kind Kind.RpcResponse = ascii ''RpcResponse''"
| "show_kind Kind.Clipboard = ascii ''Clipboard''"
| "show_kind Kind.VolumeChange = ascii ''VolumeChange''"

definition unexpected_message_error :: "Kind \<Rightarrow> ProtoError" where
  "unexpected_message_error k =
     \<lparr>err_code = 400, err_message = ascii ''unexpected message kind: '' @ show_kind k\<rparr>"

definition build_welcome :: "u64 \<Rightarrow> Welcome" where
  "build_welcome sid = \<lparr>welcome_version = PROTOCOL_VERSION,
     server_name = ascii ''vbox-controld/0.1.3'', session_id = sid\<rparr>"

text \<open>How a session ends, with the messages sent, the flag and the daemon's state.\<close>

datatype session_end = Ended | ReadFailed proto_error | ExpectedHello Kind | VersionRefused | WriteFailed

text \<open>The reply to one message: what is sent, whether to go on, and the new state.\<close>

definition session_reply ::
  "(Snapshot \<Rightarrow> u8 list option) \<Rightarrow> session_env \<Rightarrow> ustring \<Rightarrow> bool \<Rightarrow> DaemonState \<Rightarrow> Message
     \<Rightarrow> Message option \<times> bool \<times> DaemonState" where
  "session_reply ser env token authenticated d msg =
     (case decide_session_action msg of
        SPong seq stamp \<Rightarrow>
          (Some (Message.Pong \<lparr>pong_seq = seq, pong_stamp_ns = stamp\<rparr>), authenticated, d)
      | SClose _ \<Rightarrow> (None, authenticated, d)
      | SRpc \<Rightarrow>
          (case msg of
             Message.RpcRequest req \<Rightarrow>
               (case dispatch ser env token authenticated d req of
                  (resp, a, d') \<Rightarrow> (Some (Message.RpcResponse resp), a, d'))
           | _ \<Rightarrow> (None, authenticated, d))
      | SUnexpected k \<Rightarrow> (Some (Message.Error (unexpected_message_error k)), authenticated, d))"

function session_loop ::
  "(u8 list \<Rightarrow> Message option) \<Rightarrow> (Snapshot \<Rightarrow> u8 list option) \<Rightarrow> (nat \<Rightarrow> session_env) \<Rightarrow> ustring
     \<Rightarrow> nat \<Rightarrow> nat \<Rightarrow> bool \<Rightarrow> DaemonState \<Rightarrow> io_stream
     \<Rightarrow> session_end \<times> Message list \<times> bool \<times> DaemonState" where
  "session_loop de ser env token writes n authenticated d s =
     (case read_frame de s of
        (Inl _, _) \<Rightarrow> (Ended, [], authenticated, d)
      | (Inr msg, s') \<Rightarrow>
          (case session_reply ser (env n) token authenticated d msg of
             (None, a, d') \<Rightarrow> (Ended, [], a, d')
           | (Some reply, a, d') \<Rightarrow>
               if writes = 0 then (WriteFailed, [], a, d')
               else
                 (case session_loop de ser env token (writes - 1) (Suc n) a d' s' of
                    (e, out, a', d'') \<Rightarrow> (e, reply # out, a', d''))))"
  by pat_completeness auto
termination
  by (relation "measure (\<lambda>(_, _, _, _, _, _, _, _, s). length s)") (auto dest: read_frame_shorter [OF sym])

declare session_loop.simps [simp del]

definition handle_session ::
  "(u8 list \<Rightarrow> Message option) \<Rightarrow> (Snapshot \<Rightarrow> u8 list option) \<Rightarrow> (nat \<Rightarrow> session_env) \<Rightarrow> ustring
     \<Rightarrow> nat \<Rightarrow> u64 \<Rightarrow> bool \<Rightarrow> DaemonState \<Rightarrow> io_stream
     \<Rightarrow> session_end \<times> Message list \<times> bool \<times> DaemonState" where
  "handle_session de ser env token writes sid tls_mode d s0 =
     (case read_prelude s0 of
        (Inl e, _) \<Rightarrow> (ReadFailed e, [], False, d)
      | (Inr _, s1) \<Rightarrow>
          (case read_frame de s1 of
             (Inl e, _) \<Rightarrow> (ReadFailed e, [], False, d)
           | (Inr (Message.Hello hello), s2) \<Rightarrow>
               (case check_protocol_version (hello_version hello) of
                  HelloReject err \<Rightarrow>
                    (if writes = 0 then WriteFailed else VersionRefused,
                     if writes = 0 then [] else [Message.Error err], False, d)
                | HelloAccept \<Rightarrow>
                    if writes = 0 then (WriteFailed, [], False, d)
                    else
                      (case session_loop de ser env token (writes - 1) 0 tls_mode d s2 of
                         (e, out, a, d') \<Rightarrow> (e, Message.Welcome (build_welcome sid) # out, a, d')))
           | (Inr other, _) \<Rightarrow> (ExpectedHello (kind other), [], False, d)))"

section \<open>Lemmas\<close>

lemma or_xor_zero: "(acc OR (x XOR y) = 0) \<longleftrightarrow> acc = 0 \<and> x = y" for acc x y :: u8
proof -
  have "(x XOR y = 0) \<longleftrightarrow> x = y"
    by (metis xor.assoc xor.left_neutral xor.right_neutral xor_self_eq)
  then show ?thesis by (simp add: or_eq_0_iff)
qed

lemma diff_bytes_zero:
  "length a = length b \<Longrightarrow> diff_bytes acc a b = 0 \<longleftrightarrow> acc = 0 \<and> a = b"
  by (induction acc a b rule: diff_bytes.induct) (auto simp: or_xor_zero)

text \<open>The request that opens the gate.\<close>

fun opens_gate :: "ustring \<Rightarrow> Message \<Rightarrow> bool" where
  "opens_gate token (Message.RpcRequest req) =
     (case req_method req of Authenticate t \<Rightarrow> as_bytes t = as_bytes token | _ \<Rightarrow> False)"
| "opens_gate token _ = False"

text \<open>The replies a client without authentication can get.\<close>

fun harmless :: "Message \<Rightarrow> bool" where
  "harmless (Message.Pong _) = True"
| "harmless (Message.Error _) = True"
| "harmless (Message.RpcResponse resp) = (\<not> is_ok (resp_result resp))"
| "harmless _ = False"

lemma constant_time_eq_iff: "constant_time_eq a b \<longleftrightarrow> a = b"
  by (auto simp: constant_time_eq_def diff_bytes_zero)

lemma dispatch_gate:
  assumes "dispatch ser env token False d req = (resp, a, d')"
    and "\<not> opens_gate token (Message.RpcRequest req)"
  shows "\<not> a \<and> d' = d \<and> \<not> is_ok (resp_result resp)"
  using assms
  by (cases "req_method req")
    (auto simp: dispatch_def authenticate_def constant_time_eq_iff Let_def split: if_splits)

lemma session_reply_gate:
  assumes "session_reply ser env token False d msg = (r, a, d')" and "\<not> opens_gate token msg"
  shows "\<not> a \<and> d' = d \<and> (\<forall>m. r = Some m \<longrightarrow> harmless m)"
proof (cases msg)
  case (RpcRequest req)
  obtain resp a1 d1 where "dispatch ser env token False d req = (resp, a1, d1)"
    by (metis prod_cases3)
  with dispatch_gate [OF this] assms RpcRequest show ?thesis
    by (auto simp: session_reply_def)
qed (use assms in \<open>auto simp: session_reply_def\<close>)

lemma session_loop_gate:
  "session_loop de ser env token writes n False d s = (e, out, a, d') \<Longrightarrow>
     \<not> list_ex (opens_gate token) (frames_of de s) \<Longrightarrow>
     \<not> a \<and> d' = d \<and> list_all harmless out"
proof (induction de ser env token writes n False d s arbitrary: e out a d' rule: session_loop.induct)
  case (1 de ser env token writes n d s)
  show ?case
  proof (cases "read_frame de s")
    case (Pair r s')
    show ?thesis
    proof (cases r)
      case (Inl err)
      then show ?thesis
        using 1(2) Pair by (subst (asm) session_loop.simps) auto
    next
      case (Inr msg)
      obtain rep a1 d1 where rep: "session_reply ser (env n) token False d msg = (rep, a1, d1)"
        by (metis prod_cases3)
      have fr: "frames_of de s = msg # frames_of de s'"
        using Pair Inr by (subst frames_of.simps) simp
      then have gate: "\<not> a1 \<and> d1 = d \<and> (\<forall>m. rep = Some m \<longrightarrow> harmless m)"
        using session_reply_gate [OF rep] 1(3) by simp
      show ?thesis
      proof (cases "rep = None \<or> writes = 0")
        case True
        then show ?thesis
          using 1(2) Pair Inr rep gate by (subst (asm) session_loop.simps) (auto split: option.splits)
      next
        case False
        then obtain m where m: "rep = Some m" "writes \<noteq> 0" by auto
        obtain e2 out2 a2 d2 where
          rest: "session_loop de ser env token (writes - 1) (Suc n) False d s' = (e2, out2, a2, d2)"
          by (metis prod_cases4)
        have "(e, out, a, d') = (e2, m # out2, a2, d2)"
          using 1(2) Pair Inr rep gate m rest by (subst (asm) session_loop.simps) auto
        moreover have "\<not> a2 \<and> d2 = d \<and> list_all harmless out2"
          using 1(1) [OF Pair [symmetric] Inr] 1(3) fr rest rep gate m by auto
        ultimately show ?thesis using gate m by auto
      qed
    qed
  qed
qed

lemma read_prelude_version: "read_prelude s = (Inr v, s') \<Longrightarrow> v = PROTOCOL_VERSION"
  by (auto simp: read_prelude_def Let_def split: prod.splits sum.splits if_splits)

lemma dispatch_method_inv:
  assumes "codec_ok ser de" and "daemon_inv de d"
  shows "daemon_inv de (snd (dispatch_method ser env d m))"
proof (cases m)
  case Status
  then show ?thesis using summaries_inv [OF assms] by (simp add: split_beta)
next
  case (StartInstance name port debug bind qport qtoken)
  let ?q = "map_option (\<lambda>b. \<lparr>quic_bind = b, quic_port = qport,
      quic_token = (case qtoken of Some t \<Rightarrow> t | None \<Rightarrow> [])\<rparr>) bind"
  show ?thesis
    using start_instance_inv [OF assms, of "env_os env" name port debug ?q] StartInstance
    by (auto split: prod.splits sum.splits)
next
  case (StopInstance name)
  then show ?thesis
    using stop_instance_inv [OF assms, of "env_os env" name] by (auto split: prod.splits sum.splits)
next
  case (LaunchApp name socket argv ms)
  then show ?thesis
    using launch_app_inv [OF assms, of "env_os env" name socket argv "unat ms"]
    by (auto split: prod.splits sum.splits)
qed (use assms in \<open>auto split: sum.splits\<close>)

section \<open>Properties\<close>

text \<open>
  the token comparison is equality: \<open>constant_time_eq\<close> accepts exactly equal byte
  strings, and \<open>authenticate\<close> answers accordingly.
\<close>
theorem authenticate_iff:
  "is_ok (authenticate supplied expected) \<longleftrightarrow> supplied = expected"
  by (simp add: authenticate_def constant_time_eq_iff)

text \<open>
  C3: the authentication gate holds for whole sessions. On a connection without TLS, as
  long as no frame the client manages to send is an \<open>Authenticate\<close> request with the right
  token, the session ends unauthenticated, the daemon's state (instances, files, signals) is
  exactly what it was, and apart from the greeting every reply is a pong, an error frame or
  a failed response, in any order of messages and whatever the environment answers.
\<close>
theorem unauthenticated_session_harmless:
  assumes "handle_session de ser env token writes sid False d s = (e, out, a, d')"
    and "\<And>s1 s2 m. read_prelude s = (Inr PROTOCOL_VERSION, s1) \<Longrightarrow> read_frame de s1 = (Inr m, s2) \<Longrightarrow>
      \<not> list_ex (opens_gate token) (frames_of de s2)"
  shows "\<not> a \<and> d' = d
    \<and> list_all (\<lambda>m. harmless m \<or> m = Message.Welcome (build_welcome sid)) out"
proof -
  obtain r s1 where p: "read_prelude s = (r, s1)" by fastforce
  show ?thesis
  proof (cases r)
    case (Inl err)
    then show ?thesis using assms(1) p by (simp add: handle_session_def)
  next
    case (Inr v)
    then have v: "v = PROTOCOL_VERSION" using p read_prelude_version by blast
    obtain r2 s2 where f: "read_frame de s1 = (r2, s2)" by fastforce
    show ?thesis
    proof (cases r2)
      case Inl2: (Inl err)
      then show ?thesis using assms(1) p Inr f by (simp add: handle_session_def)
    next
      case Inr2: (Inr m)
      have gate: "\<not> list_ex (opens_gate token) (frames_of de s2)"
        using assms(2) p Inr v f Inr2 by blast
      obtain e2 out2 a2 d2 where
        loop: "session_loop de ser env token (writes - 1) 0 False d s2 = (e2, out2, a2, d2)"
        by (metis prod_cases4)
      note ok = session_loop_gate [OF loop gate]
      show ?thesis
        using assms(1) p Inr f Inr2 loop ok
        by (cases m) (auto simp: handle_session_def check_protocol_version_def list_all_iff
            split: if_splits)
    qed
  qed
qed

definition demo_env :: session_env where
  "demo_env = \<lparr>env_os = demo_os, env_inotify = None, env_daemon_pid = 1,
     env_cert_sha = (\<lambda>_. None), env_dbg = (\<lambda>s. s)\<rparr>"

definition demo_hello :: Message where
  "demo_hello = Message.Hello \<lparr>hello_version = PROTOCOL_VERSION, client_name = []\<rparr>"

definition demo_status :: Message where
  "demo_status = Message.RpcRequest \<lparr>req_id = 4, req_method = Status\<rparr>"

definition demo_msg_ser :: "Message \<Rightarrow> u8 list option" where
  "demo_msg_ser m = (if m = demo_hello then Some [1] else if m = demo_status then Some [2] else None)"

definition demo_msg_de :: "u8 list \<Rightarrow> Message option" where
  "demo_msg_de bs = (if bs = [1] then Some demo_hello else if bs = [2] then Some demo_status else None)"

lemma demo_msg_codec: "codec_ok demo_msg_ser demo_msg_de"
  by (simp add: codec_ok_def demo_msg_ser_def demo_msg_de_def)

lemma demo_msg_frames:
  "encode_frame demo_msg_ser demo_hello = Inr [0, 0, 0, 5, 0, 0, 0, 1, 1]"
  "write_frames demo_msg_ser [demo_status] = Inr [0, 0, 0, 5, 0, 0, 1, 44, 2]"
  by (simp_all add: demo_msg_ser_def demo_hello_def demo_status_def encode_frame_def u32_to_be_def
      unat_MAX_FRAME_BYTES Let_def)

theorem unauthenticated_session_harmless_witness:
  "case handle_session demo_msg_de demo_snap_ser (\<lambda>_. demo_env) (ascii ''secret'') 5 9 False demo_state
     (map Byte write_prelude @ map Byte [0, 0, 0, 5, 0, 0, 0, 1, 1] @ map Byte [0, 0, 0, 5, 0, 0, 1, 44, 2] @ []) of
     (e, out, a, d') \<Rightarrow> \<not> a \<and> d' = demo_state"
proof -
  have "frames_of demo_msg_de [] = []"
    using read_exact_short [of "[]" 4] by (simp add: frames_of.simps read_frame_def)
  then have fr: "frames_of demo_msg_de (map Byte [0, 0, 0, 5, 0, 0, 1, 44, 2] @ []) = [demo_status]"
    using frames_of_written [OF demo_msg_codec demo_msg_frames(2), of "[]"] by simp
  have gate: "\<not> list_ex (opens_gate (ascii ''secret'')) [demo_status]"
    by (simp add: demo_status_def)
  obtain e out a d' where h: "handle_session demo_msg_de demo_snap_ser (\<lambda>_. demo_env) (ascii ''secret'') 5 9 False
      demo_state (map Byte write_prelude @ map Byte [0, 0, 0, 5, 0, 0, 0, 1, 1]
        @ map Byte [0, 0, 0, 5, 0, 0, 1, 44, 2] @ []) = (e, out, a, d')"
    by (metis prod_cases4)
  have "\<not> a \<and> d' = demo_state
    \<and> list_all (\<lambda>m. harmless m \<or> m = Message.Welcome (build_welcome 9)) out"
    by (rule unauthenticated_session_harmless [OF h])
      (use fr gate read_prelude_write read_frame_encoded [OF demo_msg_codec demo_msg_frames(1)] in auto)
  then show ?thesis unfolding h by simp
qed

text \<open>
  every request is answered once, under its own id, and the gate only opens: a response
  carries the id of its request, a session that is authenticated stays so, and an
  unauthenticated one becomes so exactly by a request with the expected token.
\<close>
theorem dispatch_id_and_gate:
  "case dispatch ser env token authenticated d req of (resp, a, d') \<Rightarrow>
     resp_id resp = req_id req
     \<and> (a \<longleftrightarrow> authenticated \<or> opens_gate token (Message.RpcRequest req))"
  by (cases "req_method req")
    (auto simp: dispatch_def authenticate_def constant_time_eq_iff Let_def split_beta)

text \<open>
  requests keep the daemon's invariant: for a snapshot codec that round-trips, dispatching
  any request keeps names and ports of the instances distinct, in memory and on disk.
\<close>
theorem dispatch_keeps_invariant:
  assumes "codec_ok ser de" and "daemon_inv de d"
  shows "daemon_inv de (snd (snd (dispatch ser env token authenticated d req)))"
  using assms(2) dispatch_method_inv [OF assms]
  by (cases "req_method req") (auto simp: dispatch_def Let_def split_beta simp del: dispatch_method.simps)

theorem dispatch_keeps_invariant_witness:
  "daemon_inv demo_de2 (snd (snd (dispatch demo_ser2 demo_env [] True demo_state
     \<lparr>req_id = 1, req_method = StopInstance (ascii ''a'')\<rparr>)))"
  by (rule dispatch_keeps_invariant)
    (simp_all add: codec_ok_def demo_ser2_def demo_de2_def daemon_inv_def demo_state_def disk_ok_def
      load_snapshot_def snap_ok_snapshot_of insts_ok_def demo_insts_def ascii_def)

end
