(* ===== verification/Surface_Capture.thy ===== *)
theory Surface_Capture
  imports Proto
begin

text \<open>
  Capture of a guest surface, \<open>crates/server/src/wayland_session/surface_capture.rs\<close>: the
  part of a surface that lands in the window, and the copy of a shared-memory buffer into a
  frame tile with the four supported pixel formats. A buffer is what
  \<open>with_buffer_contents\<close> hands to the callback, its description and its bytes. An index
  outside the buffer, where the source panics, is the error \<open>IndexPanic\<close>; a buffer
  that smithay cannot access is \<open>BufferAccess\<close>.
\<close>

type_synonym size2 = "u32 \<times> u32"

record CopyRect =
  skip_x :: u32
  skip_y :: u32
  dst_x :: u32
  dst_y :: u32
  cr_width :: u32
  cr_height :: u32

datatype shm_format = Argb8888 | Xrgb8888 | Abgr8888 | Xbgr8888 | OtherFormat nat

record BufferData =
  bd_offset :: i32
  bd_width :: i32
  bd_height :: i32
  bd_stride :: i32
  bd_format :: shm_format

type_synonym shm_buffer = "BufferData \<times> u8 list"

datatype capture_error =
  BufferAccess | InvalidData | StrideOverflow | TooShort nat nat | UnsupportedFormat shm_format | IndexPanic

definition unsigned_abs_if_neg :: "i32 \<Rightarrow> u32" where
  "unsigned_abs_if_neg n = (if sint n < 0 then - n else 0)"

definition nonneg_part :: "i32 \<Rightarrow> u32" where
  "nonneg_part n = (if sint n < 0 then 0 else n)"

definition surface_copy_rect_with_bounds ::
  "u32 \<Rightarrow> u32 \<Rightarrow> i32 \<Rightarrow> i32 \<Rightarrow> size2 option \<Rightarrow> CopyRect option" where
  "surface_copy_rect_with_bounds width height offset_x offset_y bounds =
     (let sx = unsigned_abs_if_neg offset_x; sy = unsigned_abs_if_neg offset_y in
      if sx \<ge> width \<or> sy \<ge> height then None
      else
        let dx = nonneg_part offset_x; dy = nonneg_part offset_y;
            copy_width = width - sx; copy_height = height - sy;
            rect = (\<lambda>w h. \<lparr>skip_x = sx, skip_y = sy, dst_x = dx, dst_y = dy, cr_width = w, cr_height = h\<rparr>)
        in
        (case bounds of
           None \<Rightarrow> Some (rect copy_width copy_height)
         | Some (bw, bh) \<Rightarrow>
             if bw = 0 \<or> bh = 0 then None
             else if dx \<ge> bw \<or> dy \<ge> bh then None
             else
               let copy_width = min copy_width (bw - dx); copy_height = min copy_height (bh - dy) in
               if copy_width = 0 \<or> copy_height = 0 then None
               else Some (rect copy_width copy_height)))"

fun convert_shm_pixel :: "shm_format \<Rightarrow> u8 list \<Rightarrow> u8 list option" where
  "convert_shm_pixel Argb8888 px = Some [px ! 2, px ! 1, px ! 0, px ! 3]"
| "convert_shm_pixel Xrgb8888 px = Some [px ! 2, px ! 1, px ! 0, 255]"
| "convert_shm_pixel Abgr8888 px = Some [px ! 0, px ! 1, px ! 2, px ! 3]"
| "convert_shm_pixel Xbgr8888 px = Some [px ! 0, px ! 1, px ! 2, 255]"
| "convert_shm_pixel (OtherFormat _) px = None"

definition read_pixel :: "shm_format \<Rightarrow> u8 list \<Rightarrow> nat \<Rightarrow> capture_error + u8 list" where
  "read_pixel fmt src p =
     (if p + 4 > length src then Inl IndexPanic
      else case convert_shm_pixel fmt (take 4 (drop p src)) of
        None \<Rightarrow> Inl (UnsupportedFormat fmt)
      | Some rgba \<Rightarrow> Inr rgba)"

definition copy_from_slice :: "nat \<Rightarrow> u8 list \<Rightarrow> u8 list \<Rightarrow> u8 list" where
  "copy_from_slice p rgba bytes = take p bytes @ rgba @ drop (p + length rgba) bytes"

fun copy_pixels :: "shm_format \<Rightarrow> u8 list \<Rightarrow> (nat \<times> nat) list \<Rightarrow> u8 list \<Rightarrow> capture_error + u8 list" where
  "copy_pixels fmt src [] bytes = Inr bytes"
| "copy_pixels fmt src ((src_px, dst_px) # ps) bytes =
     (case read_pixel fmt src src_px of
        Inl e \<Rightarrow> Inl e
      | Inr rgba \<Rightarrow> copy_pixels fmt src ps (copy_from_slice dst_px rgba bytes))"

definition pixel_positions :: "CopyRect \<Rightarrow> nat \<Rightarrow> nat \<Rightarrow> nat \<Rightarrow> (nat \<times> nat) list" where
  "pixel_positions r offset src_stride dst_stride =
     concat (map (\<lambda>y. map (\<lambda>x.
       (offset + (unat (skip_y r) + y) * src_stride + (unat (skip_x r) + x) * 4, y * dst_stride + x * 4))
       [0..<unat (cr_width r)]) [0..<unat (cr_height r)])"

definition copy_shm_buffer_with_bounds ::
  "shm_buffer \<Rightarrow> u64 \<Rightarrow> i32 \<Rightarrow> i32 \<Rightarrow> size2 option \<Rightarrow> capture_error + FrameTile option" where
  "copy_shm_buffer_with_bounds buffer wid offset_x offset_y bounds =
     (case buffer of (data, src) \<Rightarrow>
      if sint (bd_offset data) < 0 \<or> sint (bd_width data) \<le> 0 \<or> sint (bd_height data) \<le> 0
         \<or> sint (bd_stride data) \<le> 0 then Inl InvalidData
      else
        (case surface_copy_rect_with_bounds (bd_width data) (bd_height data) offset_x offset_y bounds of
           None \<Rightarrow> Inr None
         | Some r \<Rightarrow>
             (case checked_mul (cr_width r) 4 of
                None \<Rightarrow> Inl StrideOverflow
              | Some dst_stride \<Rightarrow>
                  let offset = unat (bd_offset data); src_stride = unat (bd_stride data);
                      min_len = offset + src_stride * unat (bd_height data)
                  in
                  if length src < min_len then Inl (TooShort (length src) min_len)
                  else
                    (case copy_pixels (bd_format data) src
                            (pixel_positions r offset src_stride (unat dst_stride))
                            (replicate (unat dst_stride * unat (cr_height r)) 0) of
                       Inl e \<Rightarrow> Inl e
                     | Inr bytes \<Rightarrow> Inr (Some \<lparr>tile_id = wid, tile_x = dst_x r, tile_y = dst_y r,
                         tile_w = cr_width r, tile_h = cr_height r, tile_stride = dst_stride,
                         tile_encoding = RawRgba, tile_bytes = bytes\<rparr>)))))"

definition copy_shm_buffer :: "shm_buffer \<Rightarrow> u64 \<Rightarrow> i32 \<Rightarrow> i32 \<Rightarrow> capture_error + FrameTile option" where
  "copy_shm_buffer buffer wid offset_x offset_y = copy_shm_buffer_with_bounds buffer wid offset_x offset_y None"

definition copy_shm_buffer_clipped ::
  "shm_buffer \<Rightarrow> u64 \<Rightarrow> i32 \<Rightarrow> i32 \<Rightarrow> size2 \<Rightarrow> capture_error + FrameTile option" where
  "copy_shm_buffer_clipped buffer wid offset_x offset_y bounds =
     copy_shm_buffer_with_bounds buffer wid offset_x offset_y (Some bounds)"

section \<open>The visible part of a surface\<close>

definition visible :: "nat \<Rightarrow> int \<Rightarrow> nat option \<Rightarrow> nat \<Rightarrow> bool" where
  "visible n off bound s \<longleftrightarrow> s < n \<and> 0 \<le> off + int s
     \<and> (case bound of None \<Rightarrow> True | Some b \<Rightarrow> off + int s < int b)"

lemma sint_range: "- (2 ^ 31) \<le> sint n" "sint n < 2 ^ 31" for n :: i32
  using sint_greater_eq [of n] sint_less [of n] by simp_all

lemma unat_sint_nonneg: "0 \<le> sint n \<Longrightarrow> unat n = nat (sint n)" for n :: i32
  using sint_range [of n] by (simp add: unat_eq_nat_uint uint_sint take_bit_int_eq_self)

lemma unat_sint_neg: "sint n < 0 \<Longrightarrow> unat (- n) = nat (- sint n)" for n :: i32
proof -
  assume a: "sint n < 0"
  have "uint (- n) = uint (word_of_int (- sint n) :: u32)" by simp
  also have "\<dots> = take_bit 32 (- sint n)" by (simp only: uint_word_of_int_eq) simp
  also have "\<dots> = - sint n" using a sint_range [of n] by (simp add: take_bit_int_eq_self)
  finally show ?thesis by (simp add: unat_eq_nat_uint)
qed

lemma offset_parts [simp]:
  "sint n < 0 \<Longrightarrow> unat (unsigned_abs_if_neg n) = nat (- sint n)"
  "sint n < 0 \<Longrightarrow> nonneg_part n = 0"
  "0 \<le> sint n \<Longrightarrow> unsigned_abs_if_neg n = 0"
  "0 \<le> sint n \<Longrightarrow> unat (nonneg_part n) = nat (sint n)"
  by (simp_all add: unsigned_abs_if_neg_def nonneg_part_def unat_sint_neg unat_sint_nonneg)

text \<open>One axis: the pixels from \<open>skip\<close> on, as many as fit before the bound.\<close>

lemma visible_unbounded:
  "visible (unat n) (sint off) None s \<longleftrightarrow>
     unat (unsigned_abs_if_neg off) \<le> s \<and> s < unat n"
  by (cases "sint off < 0") (auto simp: visible_def)

lemma visible_bounded:
  "visible (unat n) (sint off) (Some b) s \<longleftrightarrow>
     unat (unsigned_abs_if_neg off) \<le> s \<and> s < unat n
     \<and> s + unat (nonneg_part off) < unat (unsigned_abs_if_neg off) + b"
  by (cases "sint off < 0") (auto simp: visible_def)

lemma axis_interval:
  fixes n sk d b :: u32
  shows "sk < n \<Longrightarrow> unat sk + unat (n - sk) = unat n"
    and "sk < n \<Longrightarrow> d < b \<Longrightarrow> unat sk + unat (min (n - sk) (b - d)) = min (unat n) (unat sk + (unat b - unat d))"
    and "sk < n \<Longrightarrow> d < b \<Longrightarrow> min (n - sk) (b - d) \<noteq> 0"
proof -
  show 1: "unat sk + unat (n - sk) = unat n" if "sk < n"
    using that by (simp add: unat_sub less_imp_le word_less_nat_alt)
  show "unat sk + unat (min (n - sk) (b - d)) = min (unat n) (unat sk + (unat b - unat d))" if "sk < n" "d < b"
  proof -
    have "unat (n - sk) = unat n - unat sk" "unat (b - d) = unat b - unat d"
      using that by (simp_all add: unat_sub less_imp_le)
    moreover have "unat sk < unat n" "unat d < unat b" using that by (simp_all add: word_less_nat_alt)
    ultimately show ?thesis unfolding unat_min by linarith
  qed
  show "min (n - sk) (b - d) \<noteq> 0" if "sk < n" "d < b"
    using that by (auto simp: min_def)
qed

lemma axis_place:
  "unat (unsigned_abs_if_neg off) \<le> s \<Longrightarrow>
     int (unat (nonneg_part off) + (s - unat (unsigned_abs_if_neg off))) = sint off + int s"
  by (cases "sint off < 0") auto

lemma offset_split: "uint (nonneg_part off) - uint (unsigned_abs_if_neg off) = sint off"
  using axis_place [of off "unat (unsigned_abs_if_neg off)"] by simp

lemma axis_bounded:
  assumes "unsigned_abs_if_neg off < n" and "nonneg_part off < b"
  shows "visible (unat n) (sint off) (Some (unat b)) s \<longleftrightarrow>
     unat (unsigned_abs_if_neg off) \<le> s
     \<and> s < unat (unsigned_abs_if_neg off) + unat (min (n - unsigned_abs_if_neg off) (b - nonneg_part off))"
proof -
  have "unat (nonneg_part off) < unat b" using assms(2) by (simp add: word_less_nat_alt)
  then show ?thesis unfolding visible_bounded axis_interval(2) [OF assms] by auto
qed

lemma axis_hidden:
  "n \<le> unsigned_abs_if_neg off \<Longrightarrow> \<not> visible (unat n) (sint off) bound s"
  "b \<le> nonneg_part off \<Longrightarrow> \<not> visible (unat n) (sint off) (Some (unat b)) s"
proof -
  show "\<not> visible (unat n) (sint off) bound s" if "n \<le> unsigned_abs_if_neg off"
    using that by (cases bound) (auto simp: visible_bounded visible_unbounded word_le_nat_alt)
  show "\<not> visible (unat n) (sint off) (Some (unat b)) s" if "b \<le> nonneg_part off"
    using that unfolding visible_bounded word_le_nat_alt by auto
qed

text \<open>
  The copy rectangle is exact: a pixel of the surface is copied if and only if it lies,
  at the surface's offset, in the window (to the right of and below its origin and, where
  bounds are given, before them), and it lands at that place. No rectangle means that no
  pixel is visible.
\<close>
theorem copy_rect_exact:
  "visible (unat width) (sint off_x) (map_option (\<lambda>b. unat (fst b)) bounds) sx
     \<and> visible (unat height) (sint off_y) (map_option (\<lambda>b. unat (snd b)) bounds) sy
   \<longleftrightarrow> (\<exists>r. surface_copy_rect_with_bounds width height off_x off_y bounds = Some r
     \<and> unat (skip_x r) \<le> sx \<and> sx < unat (skip_x r) + unat (cr_width r)
     \<and> unat (skip_y r) \<le> sy \<and> sy < unat (skip_y r) + unat (cr_height r)
     \<and> int (unat (dst_x r) + (sx - unat (skip_x r))) = sint off_x + int sx
     \<and> int (unat (dst_y r) + (sy - unat (skip_y r))) = sint off_y + int sy)"
proof (cases "width \<le> unsigned_abs_if_neg off_x \<or> height \<le> unsigned_abs_if_neg off_y")
  case True
  then show ?thesis
    using axis_hidden(1) by (auto simp: surface_copy_rect_with_bounds_def Let_def)
next
  case inside: False
  show ?thesis
  proof (cases bounds)
    case None
    with inside show ?thesis
      by (auto simp: surface_copy_rect_with_bounds_def Let_def visible_unbounded offset_split axis_interval(1) not_le)
  next
    case (Some b)
    show ?thesis
    proof (cases "fst b \<le> nonneg_part off_x \<or> snd b \<le> nonneg_part off_y")
      case True
      then have "\<not> (visible (unat width) (sint off_x) (Some (unat (fst b))) sx
          \<and> visible (unat height) (sint off_y) (Some (unat (snd b))) sy)"
        using axis_hidden(2) by blast
      moreover have "surface_copy_rect_with_bounds width height off_x off_y bounds = None"
        using True Some by (cases b) (auto simp: surface_copy_rect_with_bounds_def Let_def)
      ultimately show ?thesis using Some by simp
    next
      case False
      with inside have lt: "unsigned_abs_if_neg off_x < width" "nonneg_part off_x < fst b"
          "unsigned_abs_if_neg off_y < height" "nonneg_part off_y < snd b" by (simp_all add: not_le)
      then have rect: "surface_copy_rect_with_bounds width height off_x off_y bounds
          = Some \<lparr>skip_x = unsigned_abs_if_neg off_x, skip_y = unsigned_abs_if_neg off_y,
              dst_x = nonneg_part off_x, dst_y = nonneg_part off_y,
              cr_width = min (width - unsigned_abs_if_neg off_x) (fst b - nonneg_part off_x),
              cr_height = min (height - unsigned_abs_if_neg off_y) (snd b - nonneg_part off_y)\<rparr>"
        using Some inside axis_interval(3) by (cases b) (auto simp: surface_copy_rect_with_bounds_def Let_def not_le)
      show ?thesis
        unfolding rect using Some axis_bounded [OF lt(1,2), of sx] axis_bounded [OF lt(3,4), of sy]
        by (auto simp: offset_split)
    qed
  qed
qed

section \<open>The copy\<close>

text \<open>
  The destination positions are the multiples of four in order, so the loop fills the tile
  from left to right.
\<close>

lemma row_major:
  "0 < w \<Longrightarrow> concat (map (\<lambda>y. map (f y) [0..<w]) [0..<h]) = map (\<lambda>i. f (i div w) (i mod w)) [0..<h * w]"
  for w h :: nat
proof (induction h)
  case (Suc h)
  have "map (f h) [0..<w] = map (\<lambda>i. f (i div w) (i mod w)) (map (\<lambda>x. x + h * w) [0..<w])"
    using Suc.prems by simp
  also have "map (\<lambda>x. x + h * w) [0..<w] = [h * w..<h * w + w]"
    by (simp add: map_add_upt add.commute)
  finally have row: "map (f h) [0..<w] = map (\<lambda>i. f (i div w) (i mod w)) [h * w..<h * w + w]" .
  have "[0..<Suc h * w] = [0..<h * w] @ [h * w..<h * w + w]"
    using upt_add_eq_append [of 0 "h * w" w] by (simp add: add.commute)
  then show ?case using Suc row by simp
qed simp

definition src_position :: "CopyRect \<Rightarrow> nat \<Rightarrow> nat \<Rightarrow> nat \<Rightarrow> nat \<Rightarrow> nat" where
  "src_position r offset stride x y = offset + (unat (skip_y r) + y) * stride + (unat (skip_x r) + x) * 4"

lemma positions_row_major:
  assumes "0 < unat (cr_width r)"
  shows "pixel_positions r offset stride (unat (cr_width r) * 4)
    = map (\<lambda>i. (src_position r offset stride (i mod unat (cr_width r)) (i div unat (cr_width r)), i * 4))
        [0..<unat (cr_height r) * unat (cr_width r)]"
proof -
  have "i div w * (w * 4) + i mod w * 4 = i * 4" for i w :: nat
    by (metis add_mult_distrib div_mult_mod_eq mult.assoc)
  then show ?thesis
    unfolding pixel_positions_def row_major [OF assms] src_position_def by simp
qed

lemma convert_length: "convert_shm_pixel fmt px = Some rgba \<Longrightarrow> length rgba = 4"
  by (cases fmt) auto

lemma read_pixel_length: "read_pixel fmt src p = Inr rgba \<Longrightarrow> length rgba = 4"
  by (auto simp: read_pixel_def convert_length split: if_splits option.splits)

lemma copy_pixels_fill:
  assumes "map snd ps = map (\<lambda>i. i * 4) [k..<n]" and "length bytes = n * 4" and "k \<le> n"
    and "copy_pixels fmt src ps bytes = Inr out"
  shows "\<exists>pxs. map (\<lambda>p. read_pixel fmt src (fst p)) ps = map Inr pxs \<and> out = take (k * 4) bytes @ concat pxs"
  using assms
proof (induction ps arbitrary: k bytes)
  case Nil
  then show ?case by auto
next
  case (Cons p ps)
  from Cons.prems(1) have kn: "k < n" and p: "snd p = k * 4" and ps: "map snd ps = map (\<lambda>i. i * 4) [Suc k..<n]"
    by (cases "k < n"; simp add: upt_conv_Cons)+
  obtain rgba where r: "read_pixel fmt src (fst p) = Inr rgba"
    using Cons.prems(4) by (cases p) (auto split: sum.splits)
  define b1 where "b1 = copy_from_slice (k * 4) rgba bytes"
  have len: "length rgba = 4" using r by (rule read_pixel_length)
  have b1: "length b1 = n * 4" "take (Suc k * 4) b1 = take (k * 4) bytes @ rgba"
    using len kn Cons.prems(2) by (simp_all add: b1_def copy_from_slice_def min_def)
  have "copy_pixels fmt src ps b1 = Inr out"
    using Cons.prems(4) r p by (cases p) (simp add: b1_def)
  from Cons.IH [OF ps b1(1) _ this] kn obtain pxs where
    "map (\<lambda>p. read_pixel fmt src (fst p)) ps = map Inr pxs" "out = take (Suc k * 4) b1 @ concat pxs" by auto
  then have "map (\<lambda>p. read_pixel fmt src (fst p)) (p # ps) = map Inr (rgba # pxs)
      \<and> out = take (k * 4) bytes @ concat (rgba # pxs)"
    using r b1(2) by simp
  then show ?case by blast
qed

lemma copy_pixels_ok:
  assumes "\<forall>p \<in> set ps. \<exists>rgba. read_pixel fmt src (fst p) = Inr rgba"
  shows "\<exists>out. copy_pixels fmt src ps bytes = Inr out"
  using assms by (induction ps arbitrary: bytes) (auto split: sum.split)

lemma length_concat_uniform: "\<forall>x \<in> set xss. length x = k \<Longrightarrow> length (concat xss) = length xss * k"
  by (induction xss) auto

lemma drop_concat_uniform:
  "\<forall>x \<in> set xss. length x = k \<Longrightarrow> i < length xss \<Longrightarrow> take k (drop (i * k) (concat xss)) = xss ! i"
proof (induction xss arbitrary: i)
  case (Cons x xss)
  then show ?case by (cases i) (auto simp: add.commute)
qed simp

definition supported :: "shm_format \<Rightarrow> bool" where
  "supported fmt \<longleftrightarrow> (\<forall>n. fmt \<noteq> OtherFormat n)"

lemma supported_convert: "supported fmt \<Longrightarrow> \<exists>rgba. convert_shm_pixel fmt px = Some rgba"
  by (cases fmt) (auto simp: supported_def)

text \<open>A buffer whose rows fit its stride and whose bytes hold all its rows.\<close>

definition buffer_ok :: "shm_buffer \<Rightarrow> bool" where
  "buffer_ok b \<longleftrightarrow> 0 \<le> sint (bd_offset (fst b)) \<and> 0 < sint (bd_width (fst b))
     \<and> 0 < sint (bd_height (fst b)) \<and> 0 < sint (bd_stride (fst b))
     \<and> 4 * unat (bd_width (fst b)) \<le> unat (bd_stride (fst b))
     \<and> unat (bd_offset (fst b)) + unat (bd_stride (fst b)) * unat (bd_height (fst b)) \<le> length (snd b)"

lemma copy_rect_inside:
  assumes "surface_copy_rect_with_bounds width height ox oy bounds = Some r"
  shows "0 < unat (cr_width r)" "0 < unat (cr_height r)"
    and "unat (skip_x r) + unat (cr_width r) \<le> unat width" "unat (skip_y r) + unat (cr_height r) \<le> unat height"
    and "dst_x r = nonneg_part ox" "dst_y r = nonneg_part oy"
proof -
  have lt: "unsigned_abs_if_neg ox < width" "unsigned_abs_if_neg oy < height"
    using assms by (auto simp: surface_copy_rect_with_bounds_def Let_def not_le split: if_splits)
  show "dst_x r = nonneg_part ox" "dst_y r = nonneg_part oy"
    using assms by (auto simp: surface_copy_rect_with_bounds_def Let_def split: if_splits option.splits)
  have shape: "skip_x r = unsigned_abs_if_neg ox \<and> skip_y r = unsigned_abs_if_neg oy
      \<and> cr_width r \<noteq> 0 \<and> cr_height r \<noteq> 0
      \<and> cr_width r \<le> width - unsigned_abs_if_neg ox \<and> cr_height r \<le> height - unsigned_abs_if_neg oy"
    using assms lt by (auto simp: surface_copy_rect_with_bounds_def Let_def split: if_splits option.splits)
  then show "0 < unat (cr_width r)" "0 < unat (cr_height r)" by (simp_all add: unat_gt_0)
  show "unat (skip_x r) + unat (cr_width r) \<le> unat width" "unat (skip_y r) + unat (cr_height r) \<le> unat height"
    using shape axis_interval(1) [OF lt(1)] axis_interval(1) [OF lt(2)] by (auto simp: word_le_nat_alt)
qed

lemma position_inside:
  assumes "surface_copy_rect_with_bounds width height ox oy bounds = Some r"
    and "4 * unat width \<le> stride" and "x < unat (cr_width r)" and "y < unat (cr_height r)"
  shows "src_position r offset stride x y + 4 \<le> offset + stride * unat height"
proof -
  note i = copy_rect_inside [OF assms(1)]
  have "(unat (skip_x r) + x) * 4 + 4 \<le> stride" using i assms by simp
  moreover have "Suc (unat (skip_y r) + y) * stride \<le> unat height * stride"
    using i assms by (intro mult_le_mono1) simp
  ultimately show ?thesis by (simp add: src_position_def mult.commute)
qed

lemma copy_loop:
  assumes rect: "surface_copy_rect_with_bounds width height ox oy bounds = Some r"
    and rows: "4 * unat width \<le> stride" and fit: "offset + stride * unat height \<le> length src"
    and fmt: "supported fmt"
  shows "\<exists>out. copy_pixels fmt src (pixel_positions r offset stride (unat (cr_width r) * 4))
      (replicate (unat (cr_width r) * 4 * unat (cr_height r)) 0) = Inr out
    \<and> length out = unat (cr_width r) * 4 * unat (cr_height r)
    \<and> (\<forall>x < unat (cr_width r). \<forall>y < unat (cr_height r).
        convert_shm_pixel fmt (take 4 (drop (src_position r offset stride x y) src))
          = Some (take 4 (drop (y * (unat (cr_width r) * 4) + x * 4) out)))"
proof -
  let ?w = "unat (cr_width r)" and ?h = "unat (cr_height r)"
  let ?ps = "pixel_positions r offset stride (?w * 4)" and ?pos = "src_position r offset stride"
  have w: "0 < ?w" by (rule copy_rect_inside [OF rect])
  note ps = positions_row_major [OF w, of offset stride]
  have rd: "\<exists>px. read_pixel fmt src (?pos x y) = Inr px
      \<and> convert_shm_pixel fmt (take 4 (drop (?pos x y) src)) = Some px" if "x < ?w" "y < ?h" for x y
    using position_inside [OF rect rows that, of offset] fit
      supported_convert [OF fmt, of "take 4 (drop (?pos x y) src)"] by (auto simp: read_pixel_def)
  have idx: "i mod ?w < ?w" "i div ?w < ?h" if "i < ?h * ?w" for i
    using w that by (simp_all add: less_mult_imp_div_less)
  have "\<forall>p \<in> set ?ps. \<exists>px. read_pixel fmt src (fst p) = Inr px"
  proof
    fix p assume "p \<in> set ?ps"
    then obtain i where "i < ?h * ?w" "fst p = ?pos (i mod ?w) (i div ?w)" unfolding ps by auto
    with rd idx show "\<exists>px. read_pixel fmt src (fst p) = Inr px" by metis
  qed
  then obtain out where out: "copy_pixels fmt src ?ps (replicate (?w * 4 * ?h) 0) = Inr out"
    using copy_pixels_ok by blast
  have "map snd ?ps = map (\<lambda>i. i * 4) [0..<?h * ?w]" unfolding ps by (simp add: comp_def)
  from copy_pixels_fill [OF this _ _ out] obtain pxs where
    pxs: "map (\<lambda>p. read_pixel fmt src (fst p)) ?ps = map Inr pxs" "out = concat pxs" by (auto simp: mult.commute)
  have len: "length pxs = ?h * ?w" using arg_cong [OF pxs(1), of length] by (simp add: ps)
  have nth: "read_pixel fmt src (?pos (i mod ?w) (i div ?w)) = Inr (pxs ! i)" if "i < ?h * ?w" for i
    using arg_cong [OF pxs(1), of "\<lambda>l. l ! i"] that len by (simp add: ps)
  have four: "\<forall>px \<in> set pxs. length px = 4"
    using nth read_pixel_length len by (metis in_set_conv_nth)
  have "length out = ?w * 4 * ?h"
    using length_concat_uniform [OF four] len pxs(2) by (simp add: mult.commute)
  moreover have "convert_shm_pixel fmt (take 4 (drop (?pos x y) src))
      = Some (take 4 (drop (y * (?w * 4) + x * 4) out))" if "x < ?w" "y < ?h" for x y
  proof -
    let ?i = "y * ?w + x"
    have "Suc y * ?w \<le> ?h * ?w" using that by (intro mult_le_mono1) simp
    then have i: "?i < ?h * ?w" using that by simp
    have "?i mod ?w = x" "?i div ?w = y" using that by simp_all
    then have "read_pixel fmt src (?pos x y) = Inr (pxs ! ?i)" using nth [OF i] by simp
    moreover have "take 4 (drop (?i * 4) out) = pxs ! ?i"
      unfolding pxs(2) using four i len by (intro drop_concat_uniform) simp_all
    ultimately show ?thesis using rd [OF that] by (auto simp: algebra_simps)
  qed
  ultimately show ?thesis using out by blast
qed

lemma stride_fits:
  "4 * unat w < 2 ^ 32 \<Longrightarrow> checked_mul w 4 = Some (w * 4) \<and> unat (w * 4) = unat w * 4" for w :: u32
  by (simp add: checked_mul_def unat_mult_no_overflow)

lemma positive_below: "0 < sint n \<Longrightarrow> unat n < 2 ^ 31 \<and> 0 < unat n" for n :: i32
  using sint_range [of n] by (simp add: unat_sint_nonneg)

lemma captured_tile:
  assumes "buffer_ok (data, src)" and "supported (bd_format data)"
  shows "case surface_copy_rect_with_bounds (bd_width data) (bd_height data) ox oy bounds of
      None \<Rightarrow> copy_shm_buffer_with_bounds (data, src) wid ox oy bounds = Inr None
    | Some r \<Rightarrow> \<exists>t. copy_shm_buffer_with_bounds (data, src) wid ox oy bounds = Inr (Some t)
        \<and> tile_id t = wid \<and> tile_x t = dst_x r \<and> tile_y t = dst_y r
        \<and> tile_w t = cr_width r \<and> tile_h t = cr_height r \<and> tile_encoding t = RawRgba
        \<and> unat (tile_stride t) = 4 * unat (tile_w t)
        \<and> length (tile_bytes t) = unat (tile_stride t) * unat (tile_h t)
        \<and> (\<forall>x < unat (tile_w t). \<forall>y < unat (tile_h t).
            convert_shm_pixel (bd_format data)
              (take 4 (drop (src_position r (unat (bd_offset data)) (unat (bd_stride data)) x y) src))
            = Some (take 4 (drop (y * unat (tile_stride t) + x * 4) (tile_bytes t))))"
proof (cases "surface_copy_rect_with_bounds (bd_width data) (bd_height data) ox oy bounds")
  case None
  with assms(1) show ?thesis
    by (simp add: copy_shm_buffer_with_bounds_def buffer_ok_def not_less not_le)
next
  case (Some r)
  note b = assms(1) [unfolded buffer_ok_def fst_conv snd_conv]
  obtain out where out: "copy_pixels (bd_format data) src
      (pixel_positions r (unat (bd_offset data)) (unat (bd_stride data)) (unat (cr_width r) * 4))
      (replicate (unat (cr_width r) * 4 * unat (cr_height r)) 0) = Inr out"
    "length out = unat (cr_width r) * 4 * unat (cr_height r)"
    "\<forall>x < unat (cr_width r). \<forall>y < unat (cr_height r).
        convert_shm_pixel (bd_format data)
          (take 4 (drop (src_position r (unat (bd_offset data)) (unat (bd_stride data)) x y) src))
        = Some (take 4 (drop (y * (unat (cr_width r) * 4) + x * 4) out))"
    using copy_loop [OF Some _ _ assms(2), of "unat (bd_stride data)" "unat (bd_offset data)" src] b by blast
  have "unat (cr_width r) \<le> unat (bd_width data)" using copy_rect_inside(3) [OF Some] by simp
  moreover have "unat (bd_stride data) < 2 ^ 31" using positive_below b by blast
  moreover have "4 * unat (bd_width data) \<le> unat (bd_stride data)" using b by blast
  ultimately have "4 * unat (cr_width r) < 2 ^ 32" by simp
  from stride_fits [OF this] out Some b show ?thesis
    by (simp add: copy_shm_buffer_with_bounds_def not_less not_le)
qed

text \<open>
  Capture is exact: for a buffer whose rows fit its stride and whose bytes hold all its
  rows, in a supported format, the copy succeeds, whatever the offset and the bounds. If no
  pixel is visible there is no tile. Otherwise the tile has the copy rectangle's place and
  size, tightly packed rows, and every pixel is the converted pixel of the source.
\<close>
theorem capture_exact:
  assumes "buffer_ok (data, src)" and "supported (bd_format data)"
  shows "case surface_copy_rect_with_bounds (bd_width data) (bd_height data) ox oy bounds of
      None \<Rightarrow> copy_shm_buffer_with_bounds (data, src) wid ox oy bounds = Inr None
    | Some r \<Rightarrow> \<exists>t. copy_shm_buffer_with_bounds (data, src) wid ox oy bounds = Inr (Some t)
        \<and> tile_id t = wid \<and> tile_x t = dst_x r \<and> tile_y t = dst_y r
        \<and> tile_w t = cr_width r \<and> tile_h t = cr_height r \<and> tile_encoding t = RawRgba
        \<and> unat (tile_stride t) = 4 * unat (tile_w t)
        \<and> length (tile_bytes t) = unat (tile_stride t) * unat (tile_h t)
        \<and> (\<forall>x < unat (tile_w t). \<forall>y < unat (tile_h t).
            convert_shm_pixel (bd_format data)
              (take 4 (drop (src_position r (unat (bd_offset data)) (unat (bd_stride data)) x y) src))
            = Some (take 4 (drop (y * unat (tile_stride t) + x * 4) (tile_bytes t))))"
  using assms by (rule captured_tile)

definition demo_buffer :: shm_buffer where
  "demo_buffer = (\<lparr>bd_offset = 0, bd_width = 2, bd_height = 1, bd_stride = 8, bd_format = Argb8888\<rparr>,
     [10, 20, 30, 40, 50, 60, 70, 80])"

theorem capture_exact_witness:
  "buffer_ok demo_buffer \<and> (\<exists>t. copy_shm_buffer_with_bounds demo_buffer 7 (- 1) 3 None = Inr (Some t)
     \<and> tile_y t = 3 \<and> length (tile_bytes t) = 4)"
proof -
  have ok: "buffer_ok demo_buffer" by (simp add: buffer_ok_def demo_buffer_def)
  have r: "surface_copy_rect_with_bounds 2 1 (- 1) 3 None
     = Some \<lparr>skip_x = 1, skip_y = 0, dst_x = 0, dst_y = 3, cr_width = 1, cr_height = 1\<rparr>"
    by (simp add: surface_copy_rect_with_bounds_def Let_def unsigned_abs_if_neg_def nonneg_part_def word_le_nat_alt)
  show ?thesis
    using capture_exact [where data = "fst demo_buffer" and src = "snd demo_buffer" and ox = "- 1" and oy = 3
      and bounds = None and wid = 7] ok r
    by (auto simp: demo_buffer_def supported_def)
qed

lemma capture_size:
  assumes "copy_shm_buffer_with_bounds b wid ox oy bounds = Inr (Some t)"
  shows "0 < unat (tile_w t) \<and> unat (tile_w t) < 2 ^ 31 \<and> 0 < unat (tile_h t) \<and> unat (tile_h t) < 2 ^ 31
    \<and> tile_id t = wid"
proof -
  obtain data src where b: "b = (data, src)" by fastforce
  from assms obtain r where r: "surface_copy_rect_with_bounds (bd_width data) (bd_height data) ox oy bounds = Some r"
      and t: "tile_w t = cr_width r" "tile_h t = cr_height r" "tile_id t = wid"
      and pos: "0 < sint (bd_width data)" "0 < sint (bd_height data)"
    by (auto simp: b copy_shm_buffer_with_bounds_def Let_def split: if_splits option.splits sum.splits)
  show ?thesis
    using copy_rect_inside [OF r] positive_below [OF pos(1)] positive_below [OF pos(2)] t by simp
qed

section \<open>Rows longer than the stride\<close>

lemma copy_pixels_supported:
  "supported fmt \<Longrightarrow> copy_pixels fmt src ps bytes = Inl e \<Longrightarrow> e = IndexPanic"
proof (induction ps arbitrary: bytes)
  case (Cons p ps)
  have "read_pixel fmt src (fst p) = Inl e' \<Longrightarrow> e' = IndexPanic" for e'
    using supported_convert [OF Cons.prems(1), of "take 4 (drop (fst p) src)"]
    by (auto simp: read_pixel_def split: if_splits)
  with Cons show ?case by (cases p) (auto split: sum.splits)
qed simp

lemma copy_pixels_outside:
  "p \<in> set ps \<Longrightarrow> length src < fst p + 4 \<Longrightarrow> \<exists>e. copy_pixels fmt src ps bytes = Inl e"
proof (induction ps arbitrary: bytes)
  case (Cons q ps)
  then show ?case by (cases q) (auto simp: read_pixel_def split: sum.splits)
qed simp

text \<open>
  The copy checks that the buffer holds all rows at its stride, but not that a row fits
  the stride. A buffer with a stride shorter than its rows that fills its memory exactly
  passes every check, and the copy of the whole surface then indexes past its end, where the
  program panics.
\<close>
theorem short_stride_panics:
  assumes "0 \<le> sint (bd_offset data)" "0 < sint (bd_width data)" "0 < sint (bd_height data)" "0 < sint (bd_stride data)"
    and "supported (bd_format data)" and "4 * unat (bd_width data) < 2 ^ 32"
    and "unat (bd_stride data) < 4 * unat (bd_width data)"
    and "length src = unat (bd_offset data) + unat (bd_stride data) * unat (bd_height data)"
  shows "copy_shm_buffer (data, src) wid 0 0 = Inl IndexPanic"
proof -
  let ?w = "unat (bd_width data)" and ?h = "unat (bd_height data)" and ?st = "unat (bd_stride data)"
  define r where "r = \<lparr>skip_x = 0, skip_y = 0, dst_x = 0, dst_y = 0, cr_width = bd_width data, cr_height = bd_height data\<rparr>"
  have pos: "0 < ?w" "0 < ?h" using positive_below assms by blast+
  have rect: "surface_copy_rect_with_bounds (bd_width data) (bd_height data) 0 0 None = Some r"
    using pos by (simp add: surface_copy_rect_with_bounds_def Let_def unsigned_abs_if_neg_def nonneg_part_def
        r_def unat_gt_0)
  let ?ps = "pixel_positions r (unat (bd_offset data)) ?st (?w * 4)"
  have "(unat (bd_offset data) + (?h - 1) * ?st + (?w - 1) * 4, (?h - 1) * (?w * 4) + (?w - 1) * 4) \<in> set ?ps"
    using pos by (auto simp: pixel_positions_def r_def intro!: bexI [of _ "?h - 1"] image_eqI [of _ _ "?w - 1"])
  moreover have "length src < unat (bd_offset data) + (?h - 1) * ?st + (?w - 1) * 4 + 4"
    using pos assms(7,8) by (cases ?h; cases ?w) (auto simp: mult.commute)
  ultimately have "\<exists>e. copy_pixels (bd_format data) src ?ps bytes = Inl e" for bytes
    using copy_pixels_outside by fastforce
  then have "copy_pixels (bd_format data) src ?ps bytes = Inl IndexPanic" for bytes
    using copy_pixels_supported [OF assms(5)] by metis
  then show ?thesis
    using assms(1-4,8) rect stride_fits [OF assms(6)]
    by (simp add: copy_shm_buffer_def copy_shm_buffer_with_bounds_def r_def not_less not_le)
qed

theorem short_stride_panics_witness:
  "copy_shm_buffer (\<lparr>bd_offset = 0, bd_width = 2, bd_height = 1, bd_stride = 4, bd_format = Xrgb8888\<rparr>,
     [1, 2, 3, 4]) 7 0 0 = Inl IndexPanic"
  by (rule short_stride_panics) (simp_all add: supported_def)

end
