(* ===== verification/Wayland_App.thy ===== *)
theory Wayland_App
  imports Surface_Capture
begin

text \<open>
  The compositor side of a view session, \<open>crates/server/src/wayland_session/mod.rs\<close>, with
  the size helpers of \<open>output.rs\<close>: the table of guest windows, their modes (normal,
  maximized, fullscreen), focus, popups and pointer targets, surface commits and repaints,
  and text input.

  Smithay's objects appear through what the source does with them. An \<open>ObjectId\<close> is a pair
  of a client and a number. The state of a toplevel that is sent with a configure is the
  record \<open>xdg_state\<close>; \<open>with_pending_state\<close> edits the window's pending one and
  \<open>send_configure\<close> appends a copy to the window's list of sent states. What goes to the seat
  and to text-input objects is a log of events, and so are released buffers and frame
  callbacks. The surface tree and the shared memory belong to smithay and the guest: the
  handlers that read them have them as an argument, the record \<open>guest_env\<close>. The clock is an
  argument, in milliseconds. \<open>App\<close> keeps the fields these operations use.

  A hash map is an association list. Where the source iterates over one, in an order that
  is not specified, the model takes the order of the list, except for the choice of the
  next focused window, which is an argument. The panics of this code are additions that
  overflow in a debug build (\<open>keycode + 8\<close>, which wraps here) and the copy of a buffer
  whose rows do not fit its stride (the error \<open>IndexPanic\<close>, after which the source's
  session is over; the model goes on as after any failed copy).
\<close>

type_synonym ObjectId = "nat \<times> nat"

definition same_client_as :: "ObjectId \<Rightarrow> ObjectId \<Rightarrow> bool" where
  "same_client_as a b \<longleftrightarrow> fst a = fst b"

section \<open>Sizes\<close>

definition nonzero_size :: "size2 \<Rightarrow> size2" where
  "nonzero_size s = (max (fst s) 1, max (snd s) 1)"

definition default_restore_axis :: "u32 \<Rightarrow> u32" where
  "default_restore_axis n = of_nat (min (max (unat n * 7 div 10) 1) (unat n))"

definition default_restore_size :: "size2 \<Rightarrow> size2" where
  "default_restore_size output_size =
     (let out = nonzero_size output_size in
      nonzero_size (default_restore_axis (fst out), default_restore_axis (snd out)))"

definition restore_size_for_mode_entry :: "size2 \<Rightarrow> size2 \<Rightarrow> size2" where
  "restore_size_for_mode_entry current_size output_size =
     (let cur = nonzero_size current_size; out = nonzero_size output_size in
      if fst cur \<le> 32 \<or> snd cur \<le> 32 then default_restore_size out
      else (min (fst cur) (fst out), min (snd cur) (snd out)))"

section \<open>Window modes\<close>

datatype WindowMode = Normal | Maximized size2 | Fullscreen size2

fun is_maximized :: "WindowMode \<Rightarrow> bool" where
  "is_maximized (Maximized _) = True"
| "is_maximized _ = False"

fun is_fullscreen :: "WindowMode \<Rightarrow> bool" where
  "is_fullscreen (Fullscreen _) = True"
| "is_fullscreen _ = False"

definition enter_maximized :: "size2 \<Rightarrow> WindowMode \<Rightarrow> WindowMode" where
  "enter_maximized restore mode = (if is_maximized mode then mode else Maximized (nonzero_size restore))"

definition enter_fullscreen :: "size2 \<Rightarrow> WindowMode \<Rightarrow> WindowMode" where
  "enter_fullscreen restore mode = (if is_fullscreen mode then mode else Fullscreen (nonzero_size restore))"

fun leave_maximized :: "WindowMode \<Rightarrow> WindowMode \<times> size2 option" where
  "leave_maximized (Maximized restore) = (Normal, Some (nonzero_size restore))"
| "leave_maximized mode = (mode, None)"

fun leave_fullscreen :: "WindowMode \<Rightarrow> WindowMode \<times> size2 option" where
  "leave_fullscreen (Fullscreen restore) = (Normal, Some (nonzero_size restore))"
| "leave_fullscreen mode = (mode, None)"

section \<open>State\<close>

record xdg_state =
  xs_size :: "size2 option"
  xs_maximized :: bool
  xs_fullscreen :: bool
  xs_activated :: bool

record RemoteWindow =
  rw_surface :: ObjectId
  rw_size :: size2
  rw_mode :: WindowMode
  rw_last_move_request_at :: "nat option"
  rw_pending :: xdg_state
  rw_sent :: "xdg_state list"
  rw_close_requests :: nat

record PopupRoute =
  pr_window_id :: u64
  pr_x :: i32
  pr_y :: i32
  pr_width :: u32
  pr_height :: u32

record VBoxTextInput =
  ti_resource :: ObjectId
  ti_alive :: bool
  ti_serial :: u32
  ti_enabled :: bool
  ti_pending_enabled :: "bool option"
  ti_focused_surface :: "ObjectId option"

datatype TextInputDelivery = Sent | WaitingForEnable | Unavailable

datatype seat_event =
    KeyboardFocus "ObjectId option"
  | ClipboardFocus "ObjectId option"
  | PointerMotionTo ObjectId i32 i32 i32 i32
  | PointerButtonEv u32 InputButtonState
  | PointerAxis i32 i32
  | KeyboardKey u32 InputKeyState
  | TextEnter ObjectId ObjectId
  | TextLeave ObjectId ObjectId
  | TextCommit ObjectId ustring u32
  | TextPreedit ObjectId "ustring option" i32 i32 u32

type_synonym BufferId = nat
type_synonym rect4 = "i32 \<times> i32 \<times> u32 \<times> u32"

record guest_env =
  tree :: "ObjectId \<Rightarrow> (ObjectId \<times> i32 \<times> i32) list"
  shm :: "BufferId \<Rightarrow> shm_buffer option"

record App =
  max_output_size :: size2
  output_size :: size2
  tx :: "Message list"
  seat_log :: "seat_event list"
  windows :: "(u64 \<times> RemoteWindow) list"
  surface_to_window :: "(ObjectId \<times> u64) list"
  popup_routes :: "(ObjectId \<times> PopupRoute) list"
  popup_order :: "ObjectId list"
  child_surface_window :: "(ObjectId \<times> u64) list"
  child_surfaces :: "ObjectId list"
  child_surface_last_rect :: "(ObjectId \<times> rect4) list"
  current_buffers :: "(ObjectId \<times> BufferId) list"
  commit_count :: u64
  frame_count :: u64
  released :: "BufferId list"
  frame_callbacks :: "ObjectId list"
  next_window_id :: u64
  active_window_id :: "u64 option"
  text_inputs :: "VBoxTextInput list"
  pending_text_input :: "InputEvent list"

definition MOVE_UNMAXIMIZE_SUPPRESS_GRACE :: nat where
  "MOVE_UNMAXIMIZE_SUPPRESS_GRACE = 600"

definition PENDING_TEXT_INPUT_LIMIT :: nat where
  "PENDING_TEXT_INPUT_LIMIT = 32"

definition enqueue_message :: "Message \<Rightarrow> App \<Rightarrow> App" where
  "enqueue_message msg app = app\<lparr>tx := tx app @ [msg]\<rparr>"

definition log_seat :: "seat_event list \<Rightarrow> App \<Rightarrow> App" where
  "log_seat evs app = app\<lparr>seat_log := seat_log app @ evs\<rparr>"

definition set_window :: "u64 \<Rightarrow> RemoteWindow \<Rightarrow> App \<Rightarrow> App" where
  "set_window wid w app = app\<lparr>windows := AList.update wid w (windows app)\<rparr>"

definition send_configure :: "RemoteWindow \<Rightarrow> RemoteWindow" where
  "send_configure w = w\<lparr>rw_sent := rw_sent w @ [rw_pending w]\<rparr>"

definition window_geom :: "RemoteWindow \<Rightarrow> WindowGeometry" where
  "window_geom w = \<lparr>geom_x = 0, geom_y = 0, geom_w = fst (rw_size w), geom_h = snd (rw_size w)\<rparr>"

definition window_surface :: "App \<Rightarrow> u64 \<Rightarrow> ObjectId option" where
  "window_surface app wid = map_option rw_surface (map_of (windows app) wid)"

definition active_surface :: "App \<Rightarrow> ObjectId option" where
  "active_surface app = Option.bind (active_window_id app) (window_surface app)"

section \<open>Text-input focus\<close>

definition ti_leave :: "VBoxTextInput \<Rightarrow> VBoxTextInput \<times> seat_event list" where
  "ti_leave input =
     (input\<lparr>ti_focused_surface := None\<rparr>,
      case ti_focused_surface input of Some s \<Rightarrow> [TextLeave (ti_resource input) s] | None \<Rightarrow> [])"

definition ti_set_focus :: "ObjectId \<Rightarrow> VBoxTextInput \<Rightarrow> VBoxTextInput \<times> seat_event list" where
  "ti_set_focus surface input =
     (if \<not> ti_alive input then (input, [])
      else if \<not> same_client_as (ti_resource input) surface then ti_leave input
      else if ti_focused_surface input = Some surface then (input, [])
      else
        (case ti_leave input of (left, evs) \<Rightarrow>
           (left\<lparr>ti_focused_surface := Some surface\<rparr>, evs @ [TextEnter (ti_resource input) surface])))"

definition map_text_inputs :: "(VBoxTextInput \<Rightarrow> VBoxTextInput \<times> seat_event list) \<Rightarrow> App \<Rightarrow> App" where
  "map_text_inputs f app =
     log_seat (concat (map (\<lambda>i. snd (f i)) (text_inputs app)))
       (app\<lparr>text_inputs := map (\<lambda>i. fst (f i)) (text_inputs app)\<rparr>)"

definition set_text_input_focus :: "App \<Rightarrow> App" where
  "set_text_input_focus app =
     (case active_surface app of None \<Rightarrow> app | Some surface \<Rightarrow> map_text_inputs (ti_set_focus surface) app)"

definition clear_text_input_focus :: "App \<Rightarrow> App" where
  "clear_text_input_focus app = map_text_inputs ti_leave app"

section \<open>Focus\<close>

definition set_toplevel_activation :: "u64 option \<Rightarrow> App \<Rightarrow> App" where
  "set_toplevel_activation active app =
     app\<lparr>windows := map (\<lambda>(wid, w). (wid, send_configure
       (w\<lparr>rw_pending := (rw_pending w)\<lparr>xs_activated := (Some wid = active)\<rparr>\<rparr>))) (windows app)\<rparr>"

definition focus_window :: "u64 \<Rightarrow> App \<Rightarrow> App" where
  "focus_window wid app =
     (case window_surface app wid of
        None \<Rightarrow> app
      | Some surface \<Rightarrow>
          let changed = active_window_id app \<noteq> Some wid;
              app = app\<lparr>active_window_id := Some wid\<rparr>;
              app = (if changed then set_toplevel_activation (Some wid) app else app);
              app = log_seat [KeyboardFocus (Some surface), ClipboardFocus (Some surface)] app
          in set_text_input_focus app)"

definition clear_focus :: "App \<Rightarrow> App" where
  "clear_focus app =
     (let had = active_window_id app \<noteq> None;
          app = app\<lparr>active_window_id := None\<rparr>;
          app = (if had then set_toplevel_activation None app else app);
          app = log_seat [KeyboardFocus None, ClipboardFocus None] app
      in clear_text_input_focus app)"

definition clear_window_focus :: "u64 \<Rightarrow> App \<Rightarrow> App" where
  "clear_window_focus wid app = (if active_window_id app = Some wid then clear_focus app else app)"

section \<open>Window requests\<close>

definition request_window_close :: "u64 \<Rightarrow> App \<Rightarrow> App" where
  "request_window_close wid app =
     (case map_of (windows app) wid of
        None \<Rightarrow> app
      | Some w \<Rightarrow> set_window wid (w\<lparr>rw_close_requests := Suc (rw_close_requests w)\<rparr>) app)"

definition set_output_size :: "size2 \<Rightarrow> App \<Rightarrow> App" where
  "set_output_size s app =
     (let s = nonzero_size s in if output_size app = s then app else app\<lparr>output_size := s\<rparr>)"

definition fullscreen_changed :: "u64 \<Rightarrow> bool \<Rightarrow> Message" where
  "fullscreen_changed wid fs = Message.WindowEvent (FullscreenChanged wid fs)"

definition request_window_resize :: "u64 \<Rightarrow> u32 \<Rightarrow> u32 \<Rightarrow> App \<Rightarrow> App" where
  "request_window_resize wid width height app =
     (case map_of (windows app) wid of
        None \<Rightarrow> app
      | Some w \<Rightarrow>
          let requested = nonzero_size (width, height);
              was_fullscreen = is_fullscreen (rw_mode w)
          in
          if rw_size w = requested \<and> \<not> is_maximized (rw_mode w) \<and> \<not> was_fullscreen then app
          else
            let w' = send_configure (w\<lparr>rw_mode := Normal, rw_pending := (rw_pending w)
                       \<lparr>xs_size := Some requested, xs_maximized := False, xs_fullscreen := False\<rparr>\<rparr>);
                app = set_window wid w' (set_output_size requested app)
            in if was_fullscreen then enqueue_message (fullscreen_changed wid False) app else app)"

definition request_window_maximize_by_id :: "u64 \<Rightarrow> App \<Rightarrow> App" where
  "request_window_maximize_by_id wid app =
     (let target = nonzero_size (max_output_size app) in
      case map_of (windows app) wid of
        None \<Rightarrow> app
      | Some w \<Rightarrow>
          if is_maximized (rw_mode w) \<and> rw_size w = target then app
          else
            let restore = (case rw_mode w of
                             Maximized r \<Rightarrow> r
                           | _ \<Rightarrow> restore_size_for_mode_entry (rw_size w) (max_output_size app))
            in set_window wid (send_configure (w\<lparr>rw_mode := enter_maximized restore (rw_mode w),
                 rw_pending := (rw_pending w)
                   \<lparr>xs_size := Some target, xs_maximized := True, xs_fullscreen := False\<rparr>\<rparr>)) app)"

definition in_grace :: "nat \<Rightarrow> RemoteWindow \<Rightarrow> bool" where
  "in_grace now w = (case rw_last_move_request_at w of
     Some at \<Rightarrow> now - at \<le> MOVE_UNMAXIMIZE_SUPPRESS_GRACE | None \<Rightarrow> False)"

definition request_window_unmaximize_by_id :: "nat \<Rightarrow> u64 \<Rightarrow> bool \<Rightarrow> App \<Rightarrow> App" where
  "request_window_unmaximize_by_id now wid suppress app =
     (case map_of (windows app) wid of
        None \<Rightarrow> app
      | Some w \<Rightarrow>
          if suppress \<and> in_grace now w
          then set_window wid (w\<lparr>rw_last_move_request_at := None\<rparr>) app
          else
            (case leave_maximized (rw_mode w) of
               (_, None) \<Rightarrow> app
             | (mode, Some target) \<Rightarrow>
                 set_window wid (send_configure (w\<lparr>rw_mode := mode, rw_pending := (rw_pending w)
                   \<lparr>xs_size := Some target, xs_maximized := False\<rparr>\<rparr>)) app))"

definition toggle_window_maximize :: "nat \<Rightarrow> u64 \<Rightarrow> App \<Rightarrow> App" where
  "toggle_window_maximize now wid app =
     (case map_of (windows app) wid of
        None \<Rightarrow> app
      | Some w \<Rightarrow>
          if is_maximized (rw_mode w) then request_window_unmaximize_by_id now wid False app
          else request_window_maximize_by_id wid app)"

definition request_window_fullscreen_by_id :: "u64 \<Rightarrow> App \<Rightarrow> App" where
  "request_window_fullscreen_by_id wid app =
     (let target = nonzero_size (max_output_size app) in
      case map_of (windows app) wid of
        None \<Rightarrow> app
      | Some w \<Rightarrow>
          let restore = (case rw_mode w of
                           Fullscreen r \<Rightarrow> r
                         | _ \<Rightarrow> restore_size_for_mode_entry (rw_size w) (max_output_size app));
              already_aligned = (is_fullscreen (rw_mode w) \<and> rw_size w = target);
              app = (if already_aligned then app
                     else set_window wid (send_configure (w\<lparr>rw_mode := enter_fullscreen restore (rw_mode w),
                            rw_pending := (rw_pending w)
                              \<lparr>xs_size := Some target, xs_fullscreen := True, xs_maximized := False\<rparr>\<rparr>)) app)
          in enqueue_message (fullscreen_changed wid True) app)"

definition request_window_unfullscreen_by_id :: "nat \<Rightarrow> u64 \<Rightarrow> bool \<Rightarrow> App \<Rightarrow> App" where
  "request_window_unfullscreen_by_id now wid suppress app =
     (case map_of (windows app) wid of
        None \<Rightarrow> app
      | Some w \<Rightarrow>
          if suppress \<and> in_grace now w
          then set_window wid (w\<lparr>rw_last_move_request_at := None\<rparr>) app
          else
            let app = (case leave_fullscreen (rw_mode w) of
                         (_, None) \<Rightarrow> app
                       | (mode, Some target) \<Rightarrow>
                           set_window wid (send_configure (w\<lparr>rw_mode := mode, rw_pending := (rw_pending w)
                             \<lparr>xs_size := Some target, xs_fullscreen := False\<rparr>\<rparr>)) app)
            in enqueue_message (fullscreen_changed wid False) app)"

definition set_window_fullscreen :: "nat \<Rightarrow> u64 \<Rightarrow> bool \<Rightarrow> App \<Rightarrow> App" where
  "set_window_fullscreen now wid fs app =
     (if fs then request_window_fullscreen_by_id wid app
      else request_window_unfullscreen_by_id now wid False app)"

definition resize_root_window :: "u64 \<Rightarrow> u32 \<Rightarrow> u32 \<Rightarrow> App \<Rightarrow> App \<times> WindowGeometry option" where
  "resize_root_window wid width height app =
     (case map_of (windows app) wid of
        None \<Rightarrow> (app, None)
      | Some w \<Rightarrow>
          let new_size = nonzero_size (width, height) in
          if rw_size w = new_size then (app, None)
          else let w = w\<lparr>rw_size := new_size\<rparr> in (set_window wid w app, Some (window_geom w)))"

section \<open>Requests of the guest\<close>

definition by_surface :: "(u64 \<Rightarrow> App \<Rightarrow> App) \<Rightarrow> ObjectId \<Rightarrow> App \<Rightarrow> App" where
  "by_surface f surface app =
     (case map_of (surface_to_window app) surface of None \<Rightarrow> app | Some wid \<Rightarrow> f wid app)"

definition request_window_minimize :: "ObjectId \<Rightarrow> App \<Rightarrow> App" where
  "request_window_minimize = by_surface (\<lambda>wid. enqueue_message (Message.WindowEvent (Minimized wid)))"

definition request_window_move :: "nat \<Rightarrow> ObjectId \<Rightarrow> App \<Rightarrow> App" where
  "request_window_move now = by_surface (\<lambda>wid app.
     enqueue_message (Message.WindowEvent (MoveRequested wid))
       (case map_of (windows app) wid of
          Some w \<Rightarrow> set_window wid (w\<lparr>rw_last_move_request_at := Some now\<rparr>) app
        | None \<Rightarrow> app))"

definition title_changed :: "ustring \<Rightarrow> ObjectId \<Rightarrow> App \<Rightarrow> App" where
  "title_changed title = by_surface (\<lambda>wid. enqueue_message (Message.WindowEvent (TitleChanged wid title)))"

definition new_toplevel :: "ObjectId \<Rightarrow> ustring \<Rightarrow> ustring \<Rightarrow> App \<Rightarrow> App" where
  "new_toplevel surface title app_id app =
     (let wid = next_window_id app;
          geom = \<lparr>geom_x = 0, geom_y = 0, geom_w = 1, geom_h = 1\<rparr>;
          w = \<lparr>rw_surface = surface, rw_size = (1, 1), rw_mode = Normal,
               rw_last_move_request_at = None,
               rw_pending = \<lparr>xs_size = Some (0, 0), xs_maximized = False, xs_fullscreen = False,
                 xs_activated = False\<rparr>,
               rw_sent = [], rw_close_requests = 0\<rparr>;
          app = app\<lparr>next_window_id := saturating_add wid 1,
                    surface_to_window := AList.update surface wid (surface_to_window app),
                    windows := AList.update wid w (windows app)\<rparr>;
          app = focus_window wid app
      in enqueue_message (Message.WindowEvent (Created wid geom title app_id)) app)"

definition toplevel_destroyed :: "nat \<Rightarrow> ObjectId \<Rightarrow> App \<Rightarrow> App" where
  "toplevel_destroyed choice surface app =
     (case map_of (surface_to_window app) surface of
        None \<Rightarrow> app
      | Some wid \<Rightarrow>
          let routes = filter (\<lambda>(_, r). pr_window_id r \<noteq> wid) (popup_routes app);
              children = filter (\<lambda>(_, w). w \<noteq> wid) (child_surface_window app);
              app = app\<lparr>surface_to_window := AList.delete surface (surface_to_window app),
                        windows := AList.delete wid (windows app),
                        current_buffers := AList.delete surface (current_buffers app),
                        popup_routes := routes,
                        popup_order := filter (\<lambda>k. k \<in> fst ` set routes) (popup_order app),
                        child_surface_window := children,
                        child_surfaces := filter (\<lambda>k. k \<in> fst ` set children) (child_surfaces app),
                        child_surface_last_rect :=
                          filter (\<lambda>(k, _). k \<in> fst ` set children) (child_surface_last_rect app)\<rparr>;
              app = (if active_window_id app = Some wid then
                       (if windows app = [] then clear_focus app
                        else focus_window (fst (windows app ! (choice mod length (windows app)))) app)
                     else app)
          in enqueue_message (Message.WindowEvent (Destroyed wid)) app)"

section \<open>Popups and pointer targets\<close>

text \<open>
  \<open>surface_window_offset\<close> walks up the surface tree. The tree is smithay's: the chain from
  the surface to its root is given as a list of surfaces, each with its subsurface location.
\<close>

fun surface_window_offset ::
  "App \<Rightarrow> i32 \<Rightarrow> i32 \<Rightarrow> (ObjectId \<times> i32 \<times> i32) list \<Rightarrow> (u64 \<times> i32 \<times> i32) option" where
  "surface_window_offset app x y [] = None"
| "surface_window_offset app x y ((current, lx, ly) # chain) =
     (case map_of (surface_to_window app) current of
        Some wid \<Rightarrow> Some (wid, x, y)
      | None \<Rightarrow>
          (case map_of (popup_routes app) current of
             Some route \<Rightarrow>
               Some (pr_window_id route, i32_saturating_add x (pr_x route), i32_saturating_add y (pr_y route))
           | None \<Rightarrow>
               surface_window_offset app (i32_saturating_add x lx) (i32_saturating_add y ly) chain))"

definition popup_constraint_target :: "size2 \<Rightarrow> i32 \<Rightarrow> i32 \<Rightarrow> i32 \<times> i32 \<times> i32 \<times> i32" where
  "popup_constraint_target window_size parent_x parent_y =
     (i32_saturating_neg parent_x, i32_saturating_neg parent_y,
      u32_to_i32_saturating (fst window_size), u32_to_i32_saturating (snd window_size))"

text \<open>
  \<open>geometry\<close> is smithay's positioner: unconstrained in a target rectangle, or without one.
\<close>

definition popup_geometry_for_window ::
  "((i32 \<times> i32 \<times> i32 \<times> i32) option \<Rightarrow> i32 \<times> i32 \<times> i32 \<times> i32) \<Rightarrow> size2 option \<Rightarrow> i32 \<Rightarrow> i32
     \<Rightarrow> i32 \<times> i32 \<times> i32 \<times> i32" where
  "popup_geometry_for_window geometry window_size parent_x parent_y =
     (case window_size of
        Some s \<Rightarrow> geometry (Some (popup_constraint_target s parent_x parent_y))
      | None \<Rightarrow> geometry None)"

definition i32_at_least_one :: "i32 \<Rightarrow> u32" where
  "i32_at_least_one n = (if sint n < 1 then 1 else n)"

definition route_popup ::
  "((i32 \<times> i32 \<times> i32 \<times> i32) option \<Rightarrow> i32 \<times> i32 \<times> i32 \<times> i32) \<Rightarrow> ObjectId
     \<Rightarrow> (ObjectId \<times> i32 \<times> i32) list \<Rightarrow> App \<Rightarrow> App \<times> bool" where
  "route_popup geometry surface parent_chain app =
     (case surface_window_offset app 0 0 parent_chain of
        None \<Rightarrow> (app, False)
      | Some (window_id, parent_x, parent_y) \<Rightarrow>
          let window_size = map_option rw_size (map_of (windows app) window_id);
              (gx, gy, gw, gh) = popup_geometry_for_window geometry window_size parent_x parent_y;
              route = \<lparr>pr_window_id = window_id, pr_x = i32_saturating_add parent_x gx,
                       pr_y = i32_saturating_add parent_y gy,
                       pr_width = i32_at_least_one gw, pr_height = i32_at_least_one gh\<rparr>
          in (app\<lparr>popup_routes := AList.update surface route (popup_routes app),
                  popup_order := removeAll surface (popup_order app) @ [surface]\<rparr>, True))"

definition update_popup_size :: "ObjectId \<Rightarrow> u32 \<Rightarrow> u32 \<Rightarrow> App \<Rightarrow> App" where
  "update_popup_size surface width height app =
     (case map_of (popup_routes app) surface of
        None \<Rightarrow> app
      | Some route \<Rightarrow> app\<lparr>popup_routes := AList.update surface
          (route\<lparr>pr_width := max width 1, pr_height := max height 1\<rparr>) (popup_routes app)\<rparr>)"

definition remove_popup_route_for_surface :: "ObjectId \<Rightarrow> App \<Rightarrow> App \<times> u64 option" where
  "remove_popup_route_for_surface key app =
     (case map_of (popup_routes app) key of
        None \<Rightarrow> (app, None)
      | Some route \<Rightarrow>
          (app\<lparr>popup_routes := AList.delete key (popup_routes app),
               popup_order := removeAll key (popup_order app)\<rparr>, Some (pr_window_id route)))"

definition popup_route_is_pointer_candidate :: "bool \<Rightarrow> u64 \<Rightarrow> u64 \<Rightarrow> bool" where
  "popup_route_is_pointer_candidate has_live_buffer route_window_id target_window_id \<longleftrightarrow>
     has_live_buffer \<and> route_window_id = target_window_id"

definition popup_hit :: "App \<Rightarrow> u64 \<Rightarrow> i32 \<Rightarrow> i32 \<Rightarrow> ObjectId \<Rightarrow> (ObjectId \<times> i32 \<times> i32 \<times> i32 \<times> i32) option"
where
  "popup_hit app wid x y key =
     (case map_of (popup_routes app) key of
        None \<Rightarrow> None
      | Some route \<Rightarrow>
          if \<not> popup_route_is_pointer_candidate (key \<in> fst ` set (current_buffers app)) (pr_window_id route) wid
          then None
          else
            let right = i32_saturating_add (pr_x route) (pr_width route);
                bottom = i32_saturating_add (pr_y route) (pr_height route)
            in if sint x \<ge> sint (pr_x route) \<and> sint x < sint right
                  \<and> sint y \<ge> sint (pr_y route) \<and> sint y < sint bottom
               then Some (key, pr_x route, pr_y route, x, y) else None)"

fun first_hit :: "('a \<Rightarrow> 'b option) \<Rightarrow> 'a list \<Rightarrow> 'b option" where
  "first_hit f [] = None"
| "first_hit f (k # ks) = (case f k of Some r \<Rightarrow> Some r | None \<Rightarrow> first_hit f ks)"

definition pointer_target_at ::
  "App \<Rightarrow> u64 \<Rightarrow> i32 \<Rightarrow> i32 \<Rightarrow> (ObjectId \<times> i32 \<times> i32 \<times> i32 \<times> i32) option" where
  "pointer_target_at app wid x y =
     (case first_hit (popup_hit app wid x y) (rev (popup_order app)) of
        Some hit \<Rightarrow> Some hit
      | None \<Rightarrow>
          (case map_of (windows app) wid of
             None \<Rightarrow> None
           | Some w \<Rightarrow>
               Some (rw_surface w, 0, 0,
                 i32_clamp x 0 (saturating_sub (fst (rw_size w)) 1),
                 i32_clamp y 0 (saturating_sub (snd (rw_size w)) 1))))"

section \<open>Surface commits and repaints\<close>

datatype CommitBuffer = NewBuffer BufferId | RemovedBuffer | NoBuffer

definition is_root_surface_for_window :: "App \<Rightarrow> ObjectId \<Rightarrow> u64 \<Rightarrow> bool" where
  "is_root_surface_for_window app surface wid \<longleftrightarrow> map_of (surface_to_window app) surface = Some wid"

definition captured ::
  "guest_env \<Rightarrow> BufferId \<Rightarrow> u64 \<Rightarrow> i32 \<Rightarrow> i32 \<Rightarrow> size2 option \<Rightarrow> capture_error + FrameTile option" where
  "captured env buffer wid offset_x offset_y bounds =
     (case shm env buffer of
        None \<Rightarrow> Inl BufferAccess
      | Some contents \<Rightarrow>
          (case bounds of
             None \<Rightarrow> copy_shm_buffer contents wid offset_x offset_y
           | Some b \<Rightarrow> copy_shm_buffer_clipped contents wid offset_x offset_y b))"

definition copy_committed_shm_buffer ::
  "guest_env \<Rightarrow> ObjectId \<Rightarrow> CommitBuffer \<Rightarrow> nat \<Rightarrow> u64 \<Rightarrow> i32 \<Rightarrow> i32 \<Rightarrow> App
     \<Rightarrow> App \<times> (capture_error + FrameTile option)" where
  "copy_committed_shm_buffer env key buffer damage_count wid offset_x offset_y app =
     (let (app, source, reused) =
        (case buffer of
           NewBuffer b \<Rightarrow> (app\<lparr>current_buffers := AList.update key b (current_buffers app)\<rparr>, Some b, False)
         | RemovedBuffer \<Rightarrow> (app\<lparr>current_buffers := AList.delete key (current_buffers app)\<rparr>, None, True)
         | NoBuffer \<Rightarrow>
             (app, if damage_count > 0 then map_of (current_buffers app) key else None, True))
      in case source of
        None \<Rightarrow> (app, Inr None)
      | Some b \<Rightarrow>
          let bounds = (if is_root_surface_for_window app key wid then None
                        else map_option rw_size (map_of (windows app) wid))
          in case captured env b wid offset_x offset_y bounds of
               Inl e \<Rightarrow> (app, Inl e)
             | Inr tile \<Rightarrow> ((if reused then app else app\<lparr>released := released app @ [b]\<rparr>), Inr tile))"

definition repaint_window_from_cached_buffer :: "guest_env \<Rightarrow> u64 \<Rightarrow> App \<Rightarrow> App" where
  "repaint_window_from_cached_buffer env wid app =
     (case Option.bind (window_surface app wid) (map_of (current_buffers app)) of
        None \<Rightarrow> app
      | Some b \<Rightarrow>
          (case captured env b wid 0 0 None of
             Inr (Some tile) \<Rightarrow> enqueue_message (Message.FrameTile tile) app
           | Inr None \<Rightarrow> app
           | Inl _ \<Rightarrow> app))"

definition note_child_rect :: "ObjectId \<Rightarrow> rect4 \<Rightarrow> App \<Rightarrow> App" where
  "note_child_rect key rect app =
     app\<lparr>child_surface_last_rect := AList.update key rect (child_surface_last_rect app)\<rparr>"

definition rect_moved :: "App \<Rightarrow> ObjectId \<Rightarrow> rect4 \<Rightarrow> bool" where
  "rect_moved app key rect =
     (case map_of (child_surface_last_rect app) key of Some prev \<Rightarrow> prev \<noteq> rect | None \<Rightarrow> False)"

definition repaint_child ::
  "guest_env \<Rightarrow> u64 \<Rightarrow> size2 \<Rightarrow> ObjectId \<Rightarrow> App \<times> bool \<times> FrameTile list \<Rightarrow> App \<times> bool \<times> FrameTile list" where
  "repaint_child env wid bounds key acc =
     (case acc of (app, needed, tiles) \<Rightarrow>
      case surface_window_offset app 0 0 (tree env key) of
        None \<Rightarrow> (app, needed, tiles)
      | Some (resolved, offset_x, offset_y) \<Rightarrow>
          if resolved \<noteq> wid then (app, needed, tiles)
          else
            (case map_of (current_buffers app) key of
               None \<Rightarrow>
                 (app\<lparr>child_surface_last_rect := AList.delete key (child_surface_last_rect app)\<rparr>, needed, tiles)
             | Some b \<Rightarrow>
                 (case captured env b wid offset_x offset_y (Some bounds) of
                    Inr (Some tile) \<Rightarrow>
                      let rect = (offset_x, offset_y, tile_w tile, tile_h tile) in
                      if rect_moved app key rect then (note_child_rect key rect app, True, tiles @ [tile])
                      else (app, needed, tiles)
                  | Inr None \<Rightarrow>
                      let rect = (offset_x, offset_y, 0, 0) in
                      if rect_moved app key rect then (note_child_rect key rect app, True, tiles)
                      else (app, needed, tiles)
                  | Inl _ \<Rightarrow> (app, needed, tiles))))"

definition repaint_moved_child_surfaces :: "guest_env \<Rightarrow> u64 \<Rightarrow> bool \<Rightarrow> App \<Rightarrow> App" where
  "repaint_moved_child_surfaces env wid repaint_parent_first app =
     (case map_of (windows app) wid of
        None \<Rightarrow> app
      | Some w \<Rightarrow>
          let candidates = map fst (filter (\<lambda>(k, i). i = wid \<and> k \<in> set (child_surfaces app))
                                      (child_surface_window app));
              (app, needed, tiles) = fold (repaint_child env wid (rw_size w)) candidates (app, False, []);
              app = (if needed \<and> repaint_parent_first then repaint_window_from_cached_buffer env wid app else app)
          in fold (\<lambda>tile. enqueue_message (Message.FrameTile tile)) tiles app)"

definition clear_child_surface_tracking :: "ObjectId \<Rightarrow> App \<Rightarrow> App" where
  "clear_child_surface_tracking key app =
     app\<lparr>current_buffers := AList.delete key (current_buffers app),
         child_surface_window := AList.delete key (child_surface_window app),
         child_surfaces := removeAll key (child_surfaces app),
         child_surface_last_rect := AList.delete key (child_surface_last_rect app)\<rparr>"

definition send_frame_callbacks :: "ObjectId \<Rightarrow> App \<Rightarrow> App" where
  "send_frame_callbacks surface app = app\<lparr>frame_callbacks := frame_callbacks app @ [surface]\<rparr>"

definition discard_surface_commit :: "CommitBuffer \<Rightarrow> App \<Rightarrow> App" where
  "discard_surface_commit buffer app =
     (case buffer of NewBuffer b \<Rightarrow> app\<lparr>released := released app @ [b]\<rparr> | _ \<Rightarrow> app)"

text \<open>The branch of \<open>commit\<close> with a captured tile.\<close>

definition commit_tile ::
  "guest_env \<Rightarrow> ObjectId \<Rightarrow> u64 \<Rightarrow> i32 \<Rightarrow> i32 \<Rightarrow> bool \<Rightarrow> bool \<Rightarrow> rect4 option \<Rightarrow> FrameTile \<Rightarrow> App \<Rightarrow> App" where
  "commit_tile env surface wid offset_x offset_y root is_child prev tile app =
     (let app = update_popup_size surface (tile_w tile) (tile_h tile) app;
          rect = (offset_x, offset_y, tile_w tile, tile_h tile);
          app = (if is_child then note_child_rect surface rect app else app);
          app = (if is_child \<and> prev \<noteq> None \<and> prev \<noteq> Some rect
                 then repaint_window_from_cached_buffer env wid app else app);
          (app, geom) = (if root then resize_root_window wid (tile_w tile) (tile_h tile) app else (app, None));
          app = app\<lparr>frame_count := saturating_add (frame_count app) 1\<rparr>;
          app = (case geom of
                   Some g \<Rightarrow> enqueue_message (Message.WindowEvent (Configured wid g)) app
                 | None \<Rightarrow> app);
          app = enqueue_message (Message.FrameTile tile) app
      in if root then repaint_moved_child_surfaces env wid False app else app)"

definition commit :: "guest_env \<Rightarrow> ObjectId \<Rightarrow> CommitBuffer \<Rightarrow> nat \<Rightarrow> App \<Rightarrow> App" where
  "commit env surface buffer damage_count app =
     (let app = app\<lparr>commit_count := saturating_add (commit_count app) 1\<rparr> in
      case surface_window_offset app 0 0 (tree env surface) of
        None \<Rightarrow> send_frame_callbacks surface (discard_surface_commit buffer app)
      | Some (wid, offset_x, offset_y) \<Rightarrow>
          let root = (offset_x = 0 \<and> offset_y = 0 \<and> is_root_surface_for_window app surface wid);
              is_child = (\<not> root);
              app = (if is_child then
                       app\<lparr>child_surface_window := AList.update surface wid (child_surface_window app),
                           child_surfaces := List.insert surface (child_surfaces app)\<rparr>
                     else app);
              prev = (if is_child then map_of (child_surface_last_rect app) surface else None);
              (app, result) = copy_committed_shm_buffer env surface buffer damage_count wid offset_x offset_y app;
              app = (case result of
                       Inr (Some tile) \<Rightarrow> commit_tile env surface wid offset_x offset_y root is_child prev tile app
                     | Inr None \<Rightarrow> (if root then repaint_moved_child_surfaces env wid True app else app)
                     | Inl _ \<Rightarrow> app);
              app = (if buffer = RemovedBuffer \<and> is_child then
                       repaint_window_from_cached_buffer env wid
                         (clear_child_surface_tracking surface (fst (remove_popup_route_for_surface surface app)))
                     else app)
          in send_frame_callbacks surface app)"

text \<open>\<open>CompositorHandler::destroyed\<close> and \<open>XdgShellHandler::popup_destroyed\<close>.\<close>

definition surface_destroyed :: "guest_env \<Rightarrow> ObjectId \<Rightarrow> App \<Rightarrow> App" where
  "surface_destroyed env key app =
     (case remove_popup_route_for_surface key app of
        (app, parent) \<Rightarrow>
          let app = clear_child_surface_tracking key app in
          (case parent of Some wid \<Rightarrow> repaint_window_from_cached_buffer env wid app | None \<Rightarrow> app))"

definition buffer_destroyed :: "BufferId \<Rightarrow> App \<Rightarrow> App" where
  "buffer_destroyed b app = app\<lparr>current_buffers := filter (\<lambda>(_, cached). cached \<noteq> b) (current_buffers app)\<rparr>"

definition popup_destroyed :: "guest_env \<Rightarrow> ObjectId \<Rightarrow> App \<Rightarrow> App" where
  "popup_destroyed env key app =
     (case remove_popup_route_for_surface key app of
        (app, parent) \<Rightarrow>
          let app = clear_child_surface_tracking key app in
          (case parent of Some wid \<Rightarrow> repaint_window_from_cached_buffer env wid app | None \<Rightarrow> app))"

section \<open>Pointer and keyboard\<close>

definition pointer_motion :: "u64 \<Rightarrow> i32 \<Rightarrow> i32 \<Rightarrow> App \<Rightarrow> App" where
  "pointer_motion wid x y app =
     (case pointer_target_at app wid x y of
        None \<Rightarrow> app
      | Some (surface, ox, oy, px, py) \<Rightarrow> log_seat [PointerMotionTo surface ox oy px py] app)"

definition pointer_button :: "u64 \<Rightarrow> u32 \<Rightarrow> InputButtonState \<Rightarrow> App \<Rightarrow> App" where
  "pointer_button wid button st app = log_seat [PointerButtonEv button st] (focus_window wid app)"

definition pointer_scroll :: "u64 \<Rightarrow> i32 \<Rightarrow> i32 \<Rightarrow> App \<Rightarrow> App" where
  "pointer_scroll wid dx dy app = log_seat [PointerAxis dx dy] (focus_window wid app)"

definition keyboard_key :: "u64 \<Rightarrow> u32 \<Rightarrow> InputKeyState \<Rightarrow> App \<Rightarrow> App" where
  "keyboard_key wid keycode st app = log_seat [KeyboardKey (keycode + 8) st] (focus_window wid app)"

definition ascii_keycode :: "uchar \<Rightarrow> (u32 \<times> bool) option" where
  "ascii_keycode = map_of [
     (0x31, (2, False)), (0x32, (3, False)), (0x33, (4, False)), (0x34, (5, False)),
     (0x35, (6, False)), (0x36, (7, False)), (0x37, (8, False)), (0x38, (9, False)),
     (0x39, (10, False)), (0x30, (11, False)), (0x21, (2, True)), (0x40, (3, True)),
     (0x23, (4, True)), (0x24, (5, True)), (0x25, (6, True)), (0x5E, (7, True)),
     (0x26, (8, True)), (0x2A, (9, True)), (0x28, (10, True)), (0x29, (11, True)),
     (0x2D, (12, False)), (0x5F, (12, True)), (0x3D, (13, False)), (0x2B, (13, True)),
     (0x9, (15, False)), (0x71, (16, False)), (0x51, (16, True)), (0x77, (17, False)),
     (0x57, (17, True)), (0x65, (18, False)), (0x45, (18, True)), (0x72, (19, False)),
     (0x52, (19, True)), (0x74, (20, False)), (0x54, (20, True)), (0x79, (21, False)),
     (0x59, (21, True)), (0x75, (22, False)), (0x55, (22, True)), (0x69, (23, False)),
     (0x49, (23, True)), (0x6F, (24, False)), (0x4F, (24, True)), (0x70, (25, False)),
     (0x50, (25, True)), (0x5B, (26, False)), (0x7B, (26, True)), (0x5D, (27, False)),
     (0x7D, (27, True)), (0xA, (28, False)), (0xD, (28, False)), (0x61, (30, False)),
     (0x41, (30, True)), (0x73, (31, False)), (0x53, (31, True)), (0x64, (32, False)),
     (0x44, (32, True)), (0x66, (33, False)), (0x46, (33, True)), (0x67, (34, False)),
     (0x47, (34, True)), (0x68, (35, False)), (0x48, (35, True)), (0x6A, (36, False)),
     (0x4A, (36, True)), (0x6B, (37, False)), (0x4B, (37, True)), (0x6C, (38, False)),
     (0x4C, (38, True)), (0x3B, (39, False)), (0x3A, (39, True)), (0x27, (40, False)),
     (0x22, (40, True)), (0x60, (41, False)), (0x7E, (41, True)), (0x5C, (43, False)),
     (0x7C, (43, True)), (0x7A, (44, False)), (0x5A, (44, True)), (0x78, (45, False)),
     (0x58, (45, True)), (0x63, (46, False)), (0x43, (46, True)), (0x76, (47, False)),
     (0x56, (47, True)), (0x62, (48, False)), (0x42, (48, True)), (0x6E, (49, False)),
     (0x4E, (49, True)), (0x6D, (50, False)), (0x4D, (50, True)), (0x2C, (51, False)),
     (0x3C, (51, True)), (0x2E, (52, False)), (0x3E, (52, True)), (0x2F, (53, False)),
     (0x3F, (53, True)), (0x20, (57, False))]"

definition key_stroke :: "u64 \<Rightarrow> u32 \<Rightarrow> bool \<Rightarrow> App \<Rightarrow> App" where
  "key_stroke wid keycode shifted app =
     (let app = (if shifted then keyboard_key wid 42 KeyPressed app else app);
          app = keyboard_key wid keycode KeyReleased (keyboard_key wid keycode KeyPressed app)
      in if shifted then keyboard_key wid 42 KeyReleased app else app)"

fun synthesize_ascii_text :: "u64 \<Rightarrow> ustring \<Rightarrow> App \<Rightarrow> App \<times> bool" where
  "synthesize_ascii_text wid [] app = (app, False)"
| "synthesize_ascii_text wid (ch # chs) app =
     (case ascii_keycode ch of
        Some (keycode, shifted) \<Rightarrow>
          (case synthesize_ascii_text wid chs (key_stroke wid keycode shifted app) of
             (app, _) \<Rightarrow> (app, True))
      | None \<Rightarrow> synthesize_ascii_text wid chs app)"

section \<open>Text input\<close>

text \<open>The inputs of the focused client, and those that are enabled.\<close>

definition client_inputs :: "ObjectId \<Rightarrow> App \<Rightarrow> VBoxTextInput list" where
  "client_inputs surface app = filter (\<lambda>i. same_client_as (ti_resource i) surface) (text_inputs app)"

definition commit_text_input :: "ustring \<Rightarrow> App \<Rightarrow> App \<times> TextInputDelivery" where
  "commit_text_input s app =
     (if s = [] then (app, Sent)
      else
        (case active_surface app of
           None \<Rightarrow> (app, Unavailable)
         | Some surface \<Rightarrow>
             let same = client_inputs surface app;
                 enabled = filter ti_enabled same
             in (log_seat (map (\<lambda>i. TextCommit (ti_resource i) s (ti_serial i)) enabled) app,
                 if enabled \<noteq> [] then Sent else if same \<noteq> [] then WaitingForEnable else Unavailable)))"

definition queue_pending_text_input :: "InputEvent \<Rightarrow> App \<Rightarrow> App" where
  "queue_pending_text_input event app =
     (if length (pending_text_input app) \<ge> PENDING_TEXT_INPUT_LIMIT then app
      else app\<lparr>pending_text_input := pending_text_input app @ [event]\<rparr>)"

definition inject_text :: "u64 \<Rightarrow> ustring \<Rightarrow> App \<Rightarrow> App" where
  "inject_text wid s app =
     (case commit_text_input s (focus_window wid app) of
        (app, Sent) \<Rightarrow> app
      | (app, WaitingForEnable) \<Rightarrow>
          (case synthesize_ascii_text wid s app of
             (app', True) \<Rightarrow> app'
           | (app', False) \<Rightarrow> queue_pending_text_input (Text wid s) app')
      | (app, Unavailable) \<Rightarrow> fst (synthesize_ascii_text wid s app))"

definition preedit_text_input :: "u64 \<Rightarrow> ustring \<Rightarrow> i32 \<Rightarrow> i32 \<Rightarrow> App \<Rightarrow> App" where
  "preedit_text_input wid s cursor_begin cursor_end app =
     (let app = focus_window wid app in
      case active_surface app of
        None \<Rightarrow> app
      | Some surface \<Rightarrow>
          let same = client_inputs surface app;
              enabled = filter ti_enabled same;
              preedit = (if s = [] then None else Some s);
              app = log_seat (map (\<lambda>i. TextPreedit (ti_resource i) preedit cursor_begin cursor_end (ti_serial i))
                      enabled) app
          in if enabled = [] \<and> same \<noteq> []
             then queue_pending_text_input (Preedit wid s cursor_begin cursor_end) app else app)"

fun handle_input_event :: "nat \<Rightarrow> InputEvent \<Rightarrow> App \<Rightarrow> App" where
  "handle_input_event now (PointerMotion wid x y) app = pointer_motion wid x y app"
| "handle_input_event now (PointerButton wid button st) app = pointer_button wid button st app"
| "handle_input_event now (PointerScroll wid dx dy) app = pointer_scroll wid dx dy app"
| "handle_input_event now (Key wid keycode st) app = keyboard_key wid keycode st app"
| "handle_input_event now (Text wid s) app = inject_text wid s app"
| "handle_input_event now (Focus wid focused) app =
     (if focused then focus_window wid app else clear_window_focus wid app)"
| "handle_input_event now (Resize wid width height) app = request_window_resize wid width height app"
| "handle_input_event now (ToggleMaximize wid) app = toggle_window_maximize now wid app"
| "handle_input_event now (SetFullscreen wid fs) app = set_window_fullscreen now wid fs app"
| "handle_input_event now (Close wid) app = request_window_close wid app"
| "handle_input_event now (Preedit wid s b e) app = preedit_text_input wid s b e app"

definition flush_pending_text_input :: "nat \<Rightarrow> App \<Rightarrow> App" where
  "flush_pending_text_input now app =
     fold (handle_input_event now) (pending_text_input app) (app\<lparr>pending_text_input := []\<rparr>)"

definition register_text_input :: "ObjectId \<Rightarrow> App \<Rightarrow> App" where
  "register_text_input resource app =
     (let input = \<lparr>ti_resource = resource, ti_alive = True, ti_serial = 0, ti_enabled = False,
                   ti_pending_enabled = None, ti_focused_surface = None\<rparr>;
          surface = (case active_surface app of
                       Some s \<Rightarrow> if same_client_as resource s then Some s else None
                     | None \<Rightarrow> None);
          app = (case surface of Some s \<Rightarrow> log_seat [TextEnter resource s] app | None \<Rightarrow> app)
      in app\<lparr>text_inputs := text_inputs app @ [input\<lparr>ti_focused_surface := surface\<rparr>]\<rparr>)"

datatype ti_request = TiEnable | TiDisable | TiOther | TiCommit

definition ti_apply :: "ti_request \<Rightarrow> VBoxTextInput \<Rightarrow> VBoxTextInput \<times> bool" where
  "ti_apply req input =
     (case req of
        TiEnable \<Rightarrow> (input\<lparr>ti_pending_enabled := Some True\<rparr>, False)
      | TiDisable \<Rightarrow> (input\<lparr>ti_pending_enabled := Some False\<rparr>, False)
      | TiOther \<Rightarrow> (input, False)
      | TiCommit \<Rightarrow>
          let input = input\<lparr>ti_serial := saturating_add (ti_serial input) 1\<rparr> in
          (case ti_pending_enabled input of
             None \<Rightarrow> (input, False)
           | Some enabled \<Rightarrow> (input\<lparr>ti_pending_enabled := None, ti_enabled := enabled\<rparr>, enabled)))"

fun update_first :: "('a \<Rightarrow> bool) \<Rightarrow> ('a \<Rightarrow> 'a) \<Rightarrow> 'a list \<Rightarrow> 'a list" where
  "update_first P f [] = []"
| "update_first P f (x # xs) = (if P x then f x # xs else x # update_first P f xs)"

definition text_input_request :: "nat \<Rightarrow> ObjectId \<Rightarrow> ti_request \<Rightarrow> App \<Rightarrow> App" where
  "text_input_request now resource req app =
     (case find (\<lambda>i. ti_resource i = resource) (text_inputs app) of
        None \<Rightarrow> app
      | Some input \<Rightarrow>
          let app = app\<lparr>text_inputs := update_first (\<lambda>i. ti_resource i = resource)
                          (\<lambda>i. fst (ti_apply req i)) (text_inputs app)\<rparr>
          in if snd (ti_apply req input) then flush_pending_text_input now app else app)"

definition text_input_destroyed :: "ObjectId \<Rightarrow> App \<Rightarrow> App" where
  "text_input_destroyed resource app =
     app\<lparr>text_inputs := filter (\<lambda>i. ti_resource i \<noteq> resource) (text_inputs app)\<rparr>"

section \<open>The compositor as a state machine\<close>

text \<open>
  Events are the host's input events, the requests of the guest and the protocol's
  notifications. A new toplevel has a surface that is not yet one, and window ids are not
  exhausted (the counter saturates after 2 to the 64 windows); other notifications of this
  kind do not occur and are ignored. The GTK switch of \<open>maximize_request\<close> is its argument.
\<close>

datatype app_event =
    HostInput nat InputEvent
  | NewToplevel ObjectId ustring ustring
  | ToplevelDestroyed nat ObjectId
  | MaximizeRequest bool ObjectId
  | UnmaximizeRequest bool nat ObjectId
  | FullscreenRequest ObjectId
  | UnfullscreenRequest nat ObjectId
  | MinimizeRequest ObjectId
  | MoveRequest nat ObjectId
  | TitleRequest ustring ObjectId
  | NewPopup "(i32 \<times> i32 \<times> i32 \<times> i32) option \<Rightarrow> i32 \<times> i32 \<times> i32 \<times> i32" ObjectId
      "(ObjectId \<times> i32 \<times> i32) list"
  | SurfaceCommit guest_env ObjectId CommitBuffer nat
  | SurfaceDestroyed guest_env ObjectId
  | PopupDestroyed guest_env ObjectId
  | BufferDestroyed BufferId
  | RegisterTextInput ObjectId
  | TextInputRequest nat ObjectId ti_request
  | TextInputDestroyed ObjectId

fun app_step :: "App \<Rightarrow> app_event \<Rightarrow> App" where
  "app_step app (HostInput now ev) = handle_input_event now ev app"
| "app_step app (NewToplevel s title app_id) =
     (if s \<in> fst ` set (surface_to_window app) \<or> next_window_id app = - 1 then app
      else new_toplevel s title app_id app)"
| "app_step app (ToplevelDestroyed n s) = toplevel_destroyed n s app"
| "app_step app (MaximizeRequest gate s) =
     (if gate then by_surface request_window_maximize_by_id s app else app)"
| "app_step app (UnmaximizeRequest gate now s) =
     (if gate then by_surface (\<lambda>wid. request_window_unmaximize_by_id now wid True) s app else app)"
| "app_step app (FullscreenRequest s) = by_surface request_window_fullscreen_by_id s app"
| "app_step app (UnfullscreenRequest now s) =
     by_surface (\<lambda>wid. request_window_unfullscreen_by_id now wid True) s app"
| "app_step app (MinimizeRequest s) = request_window_minimize s app"
| "app_step app (MoveRequest now s) = request_window_move now s app"
| "app_step app (TitleRequest title s) = title_changed title s app"
| "app_step app (NewPopup geometry s chain) = fst (route_popup geometry s chain app)"
| "app_step app (SurfaceCommit env s b d) = commit env s b d app"
| "app_step app (SurfaceDestroyed env s) = surface_destroyed env s app"
| "app_step app (PopupDestroyed env s) = popup_destroyed env s app"
| "app_step app (BufferDestroyed b) = buffer_destroyed b app"
| "app_step app (RegisterTextInput r) = register_text_input r app"
| "app_step app (TextInputRequest now r req) = text_input_request now r req app"
| "app_step app (TextInputDestroyed r) = text_input_destroyed r app"

definition app_start :: "u32 \<Rightarrow> u32 \<Rightarrow> App" where
  "app_start width height =
     \<lparr>max_output_size = (max width 1, max height 1), output_size = (max width 1, max height 1),
      tx = [], seat_log = [], windows = [], surface_to_window = [], popup_routes = [], popup_order = [],
      child_surface_window = [], child_surfaces = [], child_surface_last_rect = [], current_buffers = [],
      commit_count = 0, frame_count = 0, released = [], frame_callbacks = [], next_window_id = 1, active_window_id = None, text_inputs = [],
      pending_text_input = []\<rparr>"

section \<open>Invariant\<close>

definition nonzero :: "size2 \<Rightarrow> bool" where
  "nonzero s \<longleftrightarrow> fst s \<noteq> 0 \<and> snd s \<noteq> 0"

fun restore_ok :: "WindowMode \<Rightarrow> bool" where
  "restore_ok Normal = True"
| "restore_ok (Maximized r) = nonzero r"
| "restore_ok (Fullscreen r) = nonzero r"

definition small :: "size2 \<Rightarrow> bool" where
  "small s \<longleftrightarrow> unat (fst s) < 2 ^ 31 \<and> unat (snd s) < 2 ^ 31"

definition window_ok :: "RemoteWindow \<Rightarrow> bool" where
  "window_ok w \<longleftrightarrow> nonzero (rw_size w) \<and> small (rw_size w) \<and> restore_ok (rw_mode w)
     \<and> rw_sent w \<noteq> [] \<and> last (rw_sent w) = rw_pending w
     \<and> xs_maximized (rw_pending w) = is_maximized (rw_mode w)
     \<and> xs_fullscreen (rw_pending w) = is_fullscreen (rw_mode w)"

fun is_text_event :: "InputEvent \<Rightarrow> bool" where
  "is_text_event (Text _ _) = True"
| "is_text_event (Preedit _ _ _ _) = True"
| "is_text_event _ = False"

definition tables_ok :: "App \<Rightarrow> bool" where
  "tables_ok app \<longleftrightarrow>
     distinct (map fst (windows app)) \<and> distinct (map fst (surface_to_window app))
     \<and> distinct (map snd (surface_to_window app))
     \<and> snd ` set (surface_to_window app) = fst ` set (windows app)
     \<and> (\<forall>wid \<in> fst ` set (windows app). wid < next_window_id app)
     \<and> distinct (map fst (popup_routes app)) \<and> distinct (popup_order app)
     \<and> set (popup_order app) = fst ` set (popup_routes app)
     \<and> (\<forall>r \<in> snd ` set (popup_routes app). pr_window_id r \<in> fst ` set (windows app))
     \<and> distinct (map fst (child_surface_window app))
     \<and> set (child_surfaces app) = fst ` set (child_surface_window app)
     \<and> fst ` set (child_surface_last_rect app) \<subseteq> fst ` set (child_surface_window app)
     \<and> snd ` set (child_surface_window app) \<subseteq> fst ` set (windows app)"

definition app_inv :: "App \<Rightarrow> bool" where
  "app_inv app \<longleftrightarrow> tables_ok app
     \<and> (\<forall>w \<in> snd ` set (windows app). window_ok w)
     \<and> (\<forall>wid. active_window_id app = Some wid \<longrightarrow> wid \<in> fst ` set (windows app))
     \<and> length (pending_text_input app) \<le> PENDING_TEXT_INPUT_LIMIT
     \<and> list_all is_text_event (pending_text_input app)"

lemma nonzero_nonzero_size [simp]: "nonzero (nonzero_size s)"
  by (auto simp: nonzero_def nonzero_size_def max_def)

lemma small_nonzero_size: "unat a < 2 ^ 31 \<Longrightarrow> unat b < 2 ^ 31 \<Longrightarrow> small (nonzero_size (a, b))"
  by (simp add: small_def nonzero_size_def unat_max)

lemma restore_size_nonzero: "nonzero (restore_size_for_mode_entry a b)"
proof (cases "fst (nonzero_size a) \<le> 32 \<or> snd (nonzero_size a) \<le> 32")
  case True
  then show ?thesis by (simp add: restore_size_for_mode_entry_def default_restore_size_def Let_def)
next
  case False
  have "nonzero (nonzero_size a)" "nonzero (nonzero_size b)" by simp_all
  with False show ?thesis
    by (simp add: restore_size_for_mode_entry_def Let_def nonzero_def min_def)
qed

section \<open>Operations keep the invariant\<close>

lemma map_of_keys: "map_of p k = Some v \<Longrightarrow> k \<in> fst ` set p"
  by (metis map_of_eq_None_iff option.distinct(1))

lemma map_of_vals: "map_of p k = Some v \<Longrightarrow> v \<in> snd ` set p"
  by (force dest: map_of_SomeD)

lemma enqueue_inv [step_inv]: "app_inv (enqueue_message m app) = app_inv app"
  by (simp add: app_inv_def tables_ok_def enqueue_message_def)

lemma log_seat_inv [step_inv]: "app_inv (log_seat evs app) = app_inv app"
  by (simp add: app_inv_def tables_ok_def log_seat_def)

lemma set_output_size_inv [step_inv]: "app_inv (set_output_size sz app) = app_inv app"
  by (simp add: app_inv_def tables_ok_def set_output_size_def Let_def)

lemma text_inputs_inv [step_inv]: "app_inv (app\<lparr>text_inputs := is\<rparr>) = app_inv app"
  by (simp add: app_inv_def tables_ok_def)

lemma windows_inv:
  assumes "map fst ws = map fst (windows app)" and "\<forall>v \<in> snd ` set ws. window_ok v"
    and "tables_ok app"
    and "\<forall>wid. active_window_id app = Some wid \<longrightarrow> wid \<in> fst ` set (windows app)"
    and "length (pending_text_input app) \<le> PENDING_TEXT_INPUT_LIMIT"
    and "list_all is_text_event (pending_text_input app)"
  shows "app_inv (app\<lparr>windows := ws\<rparr>)"
proof -
  have "fst ` set ws = fst ` set (windows app)"
    using assms(1) by (metis list.set_map)
  then show ?thesis
    using assms by (simp add: app_inv_def tables_ok_def)
qed

lemma set_window_inv [step_inv]:
  assumes "app_inv app" and "map_of (windows app) wid = Some w0" and "window_ok w"
  shows "app_inv (set_window wid w app)"
  unfolding set_window_def
proof (rule windows_inv)
  show "map fst (AList.update wid w (windows app)) = map fst (windows app)"
    using assms(2) by (rule keys_update_same)
  show "\<forall>v \<in> snd ` set (AList.update wid w (windows app)). window_ok v"
    using set_update_snd [of wid w "windows app"] assms(1,3) unfolding app_inv_def by blast
qed (use assms(1) in \<open>auto simp: app_inv_def\<close>)

lemma activation_inv [step_inv]:
  assumes "tables_ok app"
    and "\<forall>w \<in> snd ` set (windows app). nonzero (rw_size w) \<and> small (rw_size w) \<and> restore_ok (rw_mode w)
      \<and> xs_maximized (rw_pending w) = is_maximized (rw_mode w)
      \<and> xs_fullscreen (rw_pending w) = is_fullscreen (rw_mode w)"
    and "\<forall>wid. active_window_id app = Some wid \<longrightarrow> wid \<in> fst ` set (windows app)"
    and "length (pending_text_input app) \<le> PENDING_TEXT_INPUT_LIMIT"
    and "list_all is_text_event (pending_text_input app)"
  shows "app_inv (set_toplevel_activation active app)"
  unfolding set_toplevel_activation_def
  by (rule windows_inv)
    (use assms in \<open>auto simp: window_ok_def send_configure_def split_beta comp_def\<close>)

lemma text_input_focus_inv [step_inv]:
  "app_inv (set_text_input_focus app) = app_inv app"
  "app_inv (clear_text_input_focus app) = app_inv app"
  by (simp_all add: set_text_input_focus_def clear_text_input_focus_def map_text_inputs_def
      text_inputs_inv log_seat_inv split: option.split)

text \<open>Focus changes need the tables only: the active window may just have been removed.\<close>

lemma focus_window_from:
  assumes "app_inv (app\<lparr>active_window_id := None\<rparr>)" and "wid \<in> fst ` set (windows app)"
  shows "app_inv (focus_window wid app)"
proof -
  obtain w where w: "map_of (windows app) wid = Some w"
    using assms(2) by (metis map_of_eq_None_iff not_None_eq)
  have base: "app_inv (app\<lparr>active_window_id := Some wid\<rparr>)"
    using assms by (simp add: app_inv_def tables_ok_def)
  have "app_inv (set_toplevel_activation (Some wid) (app\<lparr>active_window_id := Some wid\<rparr>))"
    using base by (intro activation_inv) (auto simp: app_inv_def window_ok_def)
  with base w show ?thesis
    by (simp add: focus_window_def window_surface_def Let_def log_seat_inv text_input_focus_inv)
qed

lemma clear_focus_from:
  assumes "app_inv (app\<lparr>active_window_id := None\<rparr>)"
  shows "app_inv (clear_focus app)"
proof -
  have "app_inv (set_toplevel_activation None (app\<lparr>active_window_id := None\<rparr>))"
    using assms by (intro activation_inv) (auto simp: app_inv_def window_ok_def)
  with assms show ?thesis
    by (simp add: clear_focus_def Let_def log_seat_inv text_input_focus_inv)
qed

lemma unfocused_inv: "app_inv app \<Longrightarrow> app_inv (app\<lparr>active_window_id := None\<rparr>)"
  by (simp add: app_inv_def tables_ok_def)

lemma focus_window_inv [step_inv]:
  assumes "app_inv app"
  shows "app_inv (focus_window wid app)"
proof (cases "map_of (windows app) wid")
  case None
  then show ?thesis using assms by (simp add: focus_window_def window_surface_def)
next
  case (Some w)
  then show ?thesis
    by (intro focus_window_from unfocused_inv assms map_of_keys)
qed

lemma clear_focus_inv [step_inv]: "app_inv app \<Longrightarrow> app_inv (clear_focus app)"
  by (intro clear_focus_from unfocused_inv)

lemma clear_window_focus_inv [step_inv]: "app_inv app \<Longrightarrow> app_inv (clear_window_focus wid app)"
  by (simp add: clear_window_focus_def clear_focus_inv)

lemma window_ok_of: "app_inv app \<Longrightarrow> map_of (windows app) wid = Some w \<Longrightarrow> window_ok w"
  using map_of_vals [of "windows app"] by (auto simp: app_inv_def)

lemma window_ok_fields [simp]:
  "window_ok (w\<lparr>rw_last_move_request_at := t\<rparr>) = window_ok w"
  "window_ok (w\<lparr>rw_close_requests := n\<rparr>) = window_ok w"
  by (simp_all add: window_ok_def)

lemma set_output_windows [simp]: "windows (set_output_size sz app) = windows app"
  by (simp add: set_output_size_def Let_def)

lemma request_window_close_inv [step_inv]: "app_inv app \<Longrightarrow> app_inv (request_window_close wid app)"
  by (auto simp: request_window_close_def window_ok_of intro: set_window_inv split: option.split)

lemma request_window_resize_inv [step_inv]:
  assumes "app_inv app"
  shows "app_inv (request_window_resize wid width height app)"
proof (cases "map_of (windows app) wid")
  case None
  then show ?thesis using assms by (simp add: request_window_resize_def)
next
  case (Some w)
  have "app_inv (set_window wid (send_configure (w\<lparr>rw_mode := Normal, rw_pending := (rw_pending w)
      \<lparr>xs_size := Some sz, xs_maximized := False, xs_fullscreen := False\<rparr>\<rparr>)) (set_output_size sz app))" for sz
    using assms Some window_ok_of [OF assms Some]
    by (intro set_window_inv) (auto simp: set_output_size_inv send_configure_def window_ok_def)
  then show ?thesis
    using assms Some by (simp add: request_window_resize_def Let_def enqueue_inv)
qed

lemma maximize_inv [step_inv]:
  assumes "app_inv app"
  shows "app_inv (request_window_maximize_by_id wid app)"
proof (cases "map_of (windows app) wid")
  case None
  then show ?thesis using assms by (simp add: request_window_maximize_by_id_def)
next
  case (Some w)
  note ok = window_ok_of [OF assms Some]
  show ?thesis
    using assms Some ok
    by (cases "rw_mode w")
      (auto simp: request_window_maximize_by_id_def Let_def send_configure_def enter_maximized_def
        window_ok_def intro!: set_window_inv)
qed

lemma unmaximize_inv [step_inv]:
  assumes "app_inv app"
  shows "app_inv (request_window_unmaximize_by_id now wid suppress app)"
proof (cases "map_of (windows app) wid")
  case None
  then show ?thesis using assms by (simp add: request_window_unmaximize_by_id_def)
next
  case (Some w)
  note ok = window_ok_of [OF assms Some]
  show ?thesis
    using assms Some ok
    by (cases "rw_mode w")
      (auto simp: request_window_unmaximize_by_id_def send_configure_def window_ok_def intro!: set_window_inv)
qed

lemma fullscreen_inv [step_inv]:
  assumes "app_inv app"
  shows "app_inv (request_window_fullscreen_by_id wid app)"
proof (cases "map_of (windows app) wid")
  case None
  then show ?thesis using assms by (simp add: request_window_fullscreen_by_id_def)
next
  case (Some w)
  note ok = window_ok_of [OF assms Some]
  show ?thesis
    using assms Some ok
    by (cases "rw_mode w")
      (auto simp: request_window_fullscreen_by_id_def Let_def send_configure_def enter_fullscreen_def
        window_ok_def enqueue_inv intro!: set_window_inv)
qed

lemma unfullscreen_inv [step_inv]:
  assumes "app_inv app"
  shows "app_inv (request_window_unfullscreen_by_id now wid suppress app)"
proof (cases "map_of (windows app) wid")
  case None
  then show ?thesis using assms by (simp add: request_window_unfullscreen_by_id_def)
next
  case (Some w)
  note ok = window_ok_of [OF assms Some]
  show ?thesis
    using assms Some ok
    by (cases "rw_mode w")
      (auto simp: request_window_unfullscreen_by_id_def Let_def send_configure_def window_ok_def enqueue_inv
        intro!: set_window_inv)
qed

lemma toggle_maximize_inv [step_inv]: "app_inv app \<Longrightarrow> app_inv (toggle_window_maximize now wid app)"
  by (auto simp: toggle_window_maximize_def intro: maximize_inv unmaximize_inv split: option.split)

lemma set_fullscreen_inv [step_inv]: "app_inv app \<Longrightarrow> app_inv (set_window_fullscreen now wid fs app)"
  by (simp add: set_window_fullscreen_def fullscreen_inv unfullscreen_inv)

lemma resize_root_inv [step_inv]:
  assumes "app_inv app" and "unat width < 2 ^ 31" and "unat height < 2 ^ 31"
  shows "app_inv (fst (resize_root_window wid width height app))"
proof (cases "map_of (windows app) wid")
  case None
  then show ?thesis using assms by (simp add: resize_root_window_def)
next
  case (Some w)
  then have "window_ok (w\<lparr>rw_size := nonzero_size (width, height)\<rparr>)"
    using window_ok_of [OF assms(1) Some] assms(2,3) by (simp add: window_ok_def small_nonzero_size)
  with Some assms show ?thesis
    by (simp add: resize_root_window_def Let_def set_window_inv)
qed

lemma by_surface_inv:
  "app_inv app \<Longrightarrow> (\<And>wid. app_inv (f wid app)) \<Longrightarrow> app_inv (by_surface f s app)"
  by (simp add: by_surface_def split: option.split)

lemma move_inv [step_inv]: "app_inv app \<Longrightarrow> app_inv (request_window_move now s app)"
  unfolding request_window_move_def
  by (rule by_surface_inv) (auto simp: enqueue_inv window_ok_of intro: set_window_inv split: option.split)

text \<open>Pointer, keyboard and text events.\<close>

lemma pointer_inv [step_inv]:
  "app_inv app \<Longrightarrow> app_inv (pointer_motion wid x y app)"
  "app_inv app \<Longrightarrow> app_inv (pointer_button wid b st app)"
  "app_inv app \<Longrightarrow> app_inv (pointer_scroll wid dx dy app)"
  "app_inv app \<Longrightarrow> app_inv (keyboard_key wid k ks app)"
  by (auto simp: pointer_motion_def pointer_button_def pointer_scroll_def keyboard_key_def log_seat_inv
      focus_window_inv split: option.split)

lemma key_stroke_inv [step_inv]: "app_inv app \<Longrightarrow> app_inv (key_stroke wid k sh app)"
  by (simp add: key_stroke_def Let_def pointer_inv)

lemma synthesize_inv [step_inv]: "app_inv app \<Longrightarrow> app_inv (fst (synthesize_ascii_text wid chs app))"
proof (induction chs arbitrary: app)
  case Nil
  then show ?case by simp
next
  case (Cons ch chs)
  then show ?case
    by (cases "ascii_keycode ch") (auto simp: key_stroke_inv split_beta)
qed

lemma queue_inv [step_inv]:
  "app_inv app \<Longrightarrow> is_text_event ev \<Longrightarrow> app_inv (queue_pending_text_input ev app)"
  by (auto simp: queue_pending_text_input_def app_inv_def tables_ok_def)

lemma commit_text_inv [step_inv]: "app_inv app \<Longrightarrow> app_inv (fst (commit_text_input t app))"
  by (auto simp: commit_text_input_def log_seat_inv Let_def split: option.split)

lemma inject_text_inv [step_inv]:
  assumes "app_inv app"
  shows "app_inv (inject_text wid t app)"
proof -
  obtain app1 r where c: "commit_text_input t (focus_window wid app) = (app1, r)" by fastforce
  have 1: "app_inv app1"
    using commit_text_inv [OF focus_window_inv [OF assms, of wid], of t] c by simp
  obtain app2 b where sy: "synthesize_ascii_text wid t app1 = (app2, b)" by fastforce
  have "app_inv app2" using synthesize_inv [OF 1, of wid t] sy by simp
  with 1 c sy show ?thesis
    by (cases r; cases b) (simp_all add: inject_text_def queue_inv)
qed

lemma preedit_inv [step_inv]: "app_inv app \<Longrightarrow> app_inv (preedit_text_input wid t b e app)"
  by (auto simp: preedit_text_input_def Let_def log_seat_inv focus_window_inv queue_inv split: option.split)

lemma handle_input_inv [step_inv]: "app_inv app \<Longrightarrow> app_inv (handle_input_event now ev app)"
  by (cases ev) (simp_all add: pointer_inv inject_text_inv focus_window_inv clear_window_focus_inv
      request_window_resize_inv toggle_maximize_inv set_fullscreen_inv request_window_close_inv preedit_inv)

lemma flush_pending_inv [step_inv]:
  assumes "app_inv app"
  shows "app_inv (flush_pending_text_input now app)"
proof -
  have "app_inv a \<Longrightarrow> app_inv (fold (handle_input_event now) evs a)" for a evs
    by (induction evs arbitrary: a) (simp_all add: handle_input_inv)
  moreover have "app_inv (app\<lparr>pending_text_input := []\<rparr>)"
    using assms by (simp add: app_inv_def tables_ok_def)
  ultimately show ?thesis by (simp add: flush_pending_text_input_def)
qed

text \<open>Operations on the tables.\<close>

lemma le_less_saturating_succ: "wid \<le> n \<Longrightarrow> n \<noteq> - 1 \<Longrightarrow> wid < saturating_add n 1" for n wid :: u64
proof -
  assume a: "wid \<le> n" "n \<noteq> - 1"
  have "unat n \<noteq> 2 ^ 64 - 1"
  proof
    assume "unat n = 2 ^ 64 - 1"
    then have "unat n = unat (- 1 :: u64)" by (simp add: unat_minus_one_word)
    with a(2) show False by (simp only: word_unat_eq_iff)
  qed
  then have "unat n < 2 ^ 64 - 1" using unat_lt_len [of n] by simp
  then show ?thesis
    using a(1) by (simp add: word_less_nat_alt word_le_nat_alt unat_saturating_add)
qed

lemma delete_value_image:
  assumes "distinct (map fst p)" and "distinct (map snd p)" and "map_of p k = Some v"
  shows "snd ` set (AList.delete k p) = snd ` set p - {v}"
  using assms
proof (induction p)
  case (Cons e p)
  obtain k' v' where e: "e = (k', v')" by fastforce
  show ?case
  proof (cases "k' = k")
    case True
    with Cons.prems e have "AList.delete k p = p" "v = v'" "v' \<notin> snd ` set p"
      by (auto simp: delete_fresh)
    with True e show ?thesis by simp
  next
    case False
    with Cons.prems e have "map_of p k = Some v" by simp
    with Cons e False have "snd ` set (AList.delete k p) = snd ` set p - {v}" by simp
    moreover have "v \<noteq> v'" using \<open>map_of p k = Some v\<close> Cons.prems(2) e by (auto dest: map_of_vals)
    ultimately show ?thesis using e False by auto
  qed
qed simp

lemma delete_keys_image: "fst ` set (AList.delete k p) = fst ` set p - {k}"
  by (auto simp: AList.delete_eq image_iff)

lemma update_keys_image: "fst ` set (AList.update k v p) = insert k (fst ` set p)"
  by (induction p) auto

lemma new_toplevel_inv [step_inv]:
  assumes "app_inv app" and "s \<notin> fst ` set (surface_to_window app)" and "next_window_id app \<noteq> - 1"
  shows "app_inv (new_toplevel s title app_id app)"
proof -
  let ?id = "next_window_id app"
  define w where "w = \<lparr>rw_surface = s, rw_size = (1, 1), rw_mode = Normal,
     rw_last_move_request_at = None,
     rw_pending = \<lparr>xs_size = Some (0, 0), xs_maximized = False, xs_fullscreen = False, xs_activated = False\<rparr>,
     rw_sent = [], rw_close_requests = 0\<rparr>"
  define app1 where "app1 = app\<lparr>next_window_id := saturating_add ?id 1,
     surface_to_window := AList.update s ?id (surface_to_window app),
     windows := AList.update ?id w (windows app)\<rparr>"
  have fresh: "?id \<notin> fst ` set (windows app)" "?id \<notin> snd ` set (surface_to_window app)"
    using assms(1) by (auto simp: app_inv_def tables_ok_def)
  have less: "wid < saturating_add ?id 1" if "wid \<le> ?id" for wid
    using that assms(3) by (rule le_less_saturating_succ)
  have ws: "windows app1 = windows app @ [(?id, w)]"
      "surface_to_window app1 = surface_to_window app @ [(s, ?id)]"
    using fresh assms(2) by (simp_all add: app1_def update_fresh)
  have tables: "tables_ok (app1\<lparr>active_window_id := Some ?id\<rparr>)"
    using assms(1,2) fresh less ws unfolding tables_ok_def app_inv_def
    by (auto simp: app1_def less_imp_le)
  have "app_inv (set_toplevel_activation (Some ?id) (app1\<lparr>active_window_id := Some ?id\<rparr>))"
  proof (rule activation_inv [OF tables])
    show "\<forall>w \<in> snd ` set (windows (app1\<lparr>active_window_id := Some ?id\<rparr>)). nonzero (rw_size w)
      \<and> small (rw_size w) \<and> restore_ok (rw_mode w) \<and> xs_maximized (rw_pending w) = is_maximized (rw_mode w)
      \<and> xs_fullscreen (rw_pending w) = is_fullscreen (rw_mode w)"
      using assms(1) by (auto simp: ws app_inv_def window_ok_def w_def nonzero_def small_def)
  qed (use assms(1) ws in \<open>auto simp: app1_def app_inv_def\<close>)
  moreover have "active_window_id app1 \<noteq> Some ?id"
    using assms(1) fresh by (auto simp: app1_def app_inv_def)
  moreover have "window_surface app1 ?id = Some s"
    by (simp add: window_surface_def app1_def update_conv' w_def)
  ultimately have "app_inv (focus_window ?id app1)"
    by (simp add: focus_window_def Let_def log_seat_inv text_input_focus_inv)
  then show ?thesis
    by (simp add: new_toplevel_def Let_def enqueue_inv app1_def w_def)
qed

lemma toplevel_destroyed_inv [step_inv]:
  assumes "app_inv app"
  shows "app_inv (toplevel_destroyed choice s app)"
proof (cases "map_of (surface_to_window app) s")
  case None
  then show ?thesis using assms by (simp add: toplevel_destroyed_def)
next
  case (Some wid)
  define routes where "routes = filter (\<lambda>(_, r). pr_window_id r \<noteq> wid) (popup_routes app)"
  define children where "children = filter (\<lambda>(_, w). w \<noteq> wid) (child_surface_window app)"
  define app1 where "app1 = app\<lparr>surface_to_window := AList.delete s (surface_to_window app),
     windows := AList.delete wid (windows app),
     current_buffers := AList.delete s (current_buffers app), popup_routes := routes,
     popup_order := filter (\<lambda>k. k \<in> fst ` set routes) (popup_order app),
     child_surface_window := children,
     child_surfaces := filter (\<lambda>k. k \<in> fst ` set children) (child_surfaces app),
     child_surface_last_rect := filter (\<lambda>(k, _). k \<in> fst ` set children) (child_surface_last_rect app)\<rparr>"
  note t = assms [unfolded app_inv_def tables_ok_def]
  have others: "snd ` set (AList.delete s (surface_to_window app)) = snd ` set (surface_to_window app) - {wid}"
    by (rule delete_value_image) (use t Some in auto)
  have rsub: "fst ` set routes \<subseteq> fst ` set (popup_routes app)" by (auto simp: routes_def)
  have tables: "tables_ok app1"
    unfolding tables_ok_def
  proof (intro conjI)
    show "distinct (map fst (windows app1))" "distinct (map fst (surface_to_window app1))"
      using t by (simp_all add: app1_def distinct_delete)
    show "distinct (map snd (surface_to_window app1))"
      using t by (simp add: app1_def AList.delete_eq distinct_map_filter)
    show "snd ` set (surface_to_window app1) = fst ` set (windows app1)"
      using t others by (simp add: app1_def delete_keys_image)
    show "\<forall>i \<in> fst ` set (windows app1). i < next_window_id app1"
      using t by (auto simp: app1_def AList.delete_eq)
    show "distinct (map fst (popup_routes app1))" "distinct (popup_order app1)"
      using t by (simp_all add: app1_def routes_def distinct_map_filter)
    show "set (popup_order app1) = fst ` set (popup_routes app1)"
      using t rsub by (auto simp: app1_def)
    show "\<forall>r \<in> snd ` set (popup_routes app1). pr_window_id r \<in> fst ` set (windows app1)"
      using t by (auto simp: app1_def routes_def delete_keys_image)
    show "distinct (map fst (child_surface_window app1))"
      using t by (simp add: app1_def children_def distinct_map_filter)
    have "fst ` set children \<subseteq> fst ` set (child_surface_window app)" by (auto simp: children_def)
    then show "set (child_surfaces app1) = fst ` set (child_surface_window app1)"
      using t by (auto simp: app1_def)
    show "fst ` set (child_surface_last_rect app1) \<subseteq> fst ` set (child_surface_window app1)"
      by (auto simp: app1_def intro: rev_image_eqI)
    show "snd ` set (child_surface_window app1) \<subseteq> fst ` set (windows app1)"
      using t by (auto simp: app1_def children_def delete_keys_image)
  qed
  have wins: "\<forall>w \<in> snd ` set (windows app1). window_ok w"
    using t by (auto simp: app1_def AList.delete_eq)
  have rest: "length (pending_text_input app1) \<le> PENDING_TEXT_INPUT_LIMIT"
      "list_all is_text_event (pending_text_input app1)"
    using t by (simp_all add: app1_def)
  have base: "app_inv (app1\<lparr>active_window_id := None\<rparr>)"
    using tables wins rest by (simp add: app_inv_def tables_ok_def)
  have "app_inv (if active_window_id app1 = Some wid
      then (if windows app1 = [] then clear_focus app1
            else focus_window (fst (windows app1 ! (choice mod length (windows app1)))) app1) else app1)"
  proof (cases "active_window_id app1 = Some wid")
    case False
    then have "\<forall>i. active_window_id app1 = Some i \<longrightarrow> i \<in> fst ` set (windows app1)"
      using t by (auto simp: app1_def delete_keys_image)
    then show ?thesis using False tables wins rest by (simp add: app_inv_def)
  next
    case True
    have "fst (windows app1 ! (choice mod length (windows app1))) \<in> fst ` set (windows app1)"
      if "windows app1 \<noteq> []" using that by (intro imageI nth_mem) simp
    with True clear_focus_from [OF base] focus_window_from [OF base] show ?thesis by auto
  qed
  moreover have "toplevel_destroyed choice s app = enqueue_message (Message.WindowEvent (Destroyed wid))
      (if active_window_id app1 = Some wid
       then (if windows app1 = [] then clear_focus app1
            else focus_window (fst (windows app1 ! (choice mod length (windows app1)))) app1) else app1)"
    by (simp only: toplevel_destroyed_def Some option.case Let_def app1_def routes_def children_def)
  ultimately show ?thesis by (simp only: enqueue_inv)
qed

lemma surface_window_offset_known:
  "surface_window_offset app x y chain = Some (wid, px, py) \<Longrightarrow> tables_ok app \<Longrightarrow>
     wid \<in> fst ` set (windows app)"
proof (induction app x y chain rule: surface_window_offset.induct)
  case (2 app x y current lx ly chain)
  show ?case
  proof (cases "map_of (surface_to_window app) current")
    case (Some i)
    then show ?thesis using 2 map_of_vals [OF Some] by (auto simp: tables_ok_def)
  next
    case None
    then show ?thesis
      using 2 map_of_vals [of "popup_routes app" current]
      by (cases "map_of (popup_routes app) current") (auto simp: tables_ok_def)
  qed
qed simp

lemma routes_known:
  "app_inv app \<Longrightarrow> r \<in> snd ` set (popup_routes app) \<Longrightarrow> pr_window_id r \<in> fst ` set (windows app)"
  by (simp only: app_inv_def tables_ok_def)

lemma popup_table_inv:
  assumes "app_inv app" and "pr_window_id r \<in> fst ` set (windows app)"
    and "distinct order" and "set order = insert s (fst ` set (popup_routes app))"
  shows "app_inv (app\<lparr>popup_routes := AList.update s r (popup_routes app), popup_order := order\<rparr>)"
proof -
  let ?p = "AList.update s r (popup_routes app)"
  note t = assms(1) [unfolded app_inv_def tables_ok_def]
  have sub: "snd ` set ?p \<subseteq> insert r (snd ` set (popup_routes app))" by (rule set_update_snd)
  have routes: "\<forall>q \<in> snd ` set ?p. pr_window_id q \<in> fst ` set (windows app)"
  proof
    fix q assume "q \<in> snd ` set ?p"
    then have "q = r \<or> q \<in> snd ` set (popup_routes app)" using sub by blast
    then show "pr_window_id q \<in> fst ` set (windows app)" using routes_known assms by blast
  qed
  have "tables_ok (app\<lparr>popup_routes := ?p, popup_order := order\<rparr>)"
    unfolding tables_ok_def using t routes assms(3,4) by (simp add: distinct_update update_keys_image)
  then show ?thesis using t by (simp add: app_inv_def)
qed

lemma route_popup_inv [step_inv]:
  assumes "app_inv app"
  shows "app_inv (fst (route_popup geometry s chain app))"
proof (cases "surface_window_offset app 0 0 chain")
  case None
  then show ?thesis using assms by (simp add: route_popup_def)
next
  case (Some c)
  obtain wid px py where c: "c = (wid, px, py)" by (metis prod_cases3)
  have known: "wid \<in> fst ` set (windows app)"
    using surface_window_offset_known Some c assms by (auto simp: app_inv_def)
  have "distinct (removeAll s (popup_order app) @ [s])"
      "set (removeAll s (popup_order app) @ [s]) = insert s (fst ` set (popup_routes app))"
    using assms by (auto simp: app_inv_def tables_ok_def distinct_removeAll)
  from popup_table_inv [OF assms _ this] known Some c show ?thesis
    by (simp add: route_popup_def Let_def split_beta)
qed

lemma popup_ops_inv [step_inv]:
  assumes "app_inv app"
  shows "app_inv (update_popup_size s width height app)"
    and "app_inv (fst (remove_popup_route_for_surface s app))"
proof -
  note t = assms [unfolded app_inv_def tables_ok_def]
  show "app_inv (update_popup_size s width height app)"
  proof (cases "map_of (popup_routes app) s")
    case None
    then show ?thesis using assms by (simp add: update_popup_size_def)
  next
    case (Some r)
    have "set (popup_order app) = insert s (fst ` set (popup_routes app))"
      using t map_of_keys [OF Some] by (simp add: insert_absorb)
    moreover have "pr_window_id r \<in> fst ` set (windows app)" using routes_known assms map_of_vals [OF Some] by blast
    ultimately have "app_inv (app\<lparr>popup_routes := AList.update s
        (r\<lparr>pr_width := max width 1, pr_height := max height 1\<rparr>) (popup_routes app),
        popup_order := popup_order app\<rparr>)"
      using assms t by (intro popup_table_inv) simp_all
    then show ?thesis using Some by (simp add: update_popup_size_def)
  qed
  show "app_inv (fst (remove_popup_route_for_surface s app))"
  proof (cases "map_of (popup_routes app) s")
    case None
    then show ?thesis using assms by (simp add: remove_popup_route_for_surface_def)
  next
    case (Some r)
    have "\<forall>q \<in> snd ` set (AList.delete s (popup_routes app)). pr_window_id q \<in> fst ` set (windows app)"
      using t set_delete_subset [of s "popup_routes app"] by auto
    then show ?thesis
      using Some t by (simp add: remove_popup_route_for_surface_def app_inv_def tables_ok_def distinct_delete
          distinct_removeAll delete_keys_image)
  qed
qed

text \<open>Commits and repaints.\<close>

lemma logs_inv [step_inv]:
  "app_inv (app\<lparr>commit_count := c\<rparr>) = app_inv app" "app_inv (app\<lparr>frame_count := c\<rparr>) = app_inv app"
  "app_inv (app\<lparr>released := bs\<rparr>) = app_inv app" "app_inv (app\<lparr>frame_callbacks := ss\<rparr>) = app_inv app"
  "app_inv (app\<lparr>current_buffers := cb\<rparr>) = app_inv app"
  by (simp_all add: app_inv_def tables_ok_def)

lemma captured_size:
  "captured env b wid ox oy bounds = Inr (Some t) \<Longrightarrow>
     0 < unat (tile_w t) \<and> unat (tile_w t) < 2 ^ 31 \<and> 0 < unat (tile_h t) \<and> unat (tile_h t) < 2 ^ 31 \<and> tile_id t = wid"
  by (auto simp: captured_def copy_shm_buffer_def copy_shm_buffer_clipped_def dest: capture_size
      split: option.splits)

lemma copy_committed_inv [step_inv]:
  "app_inv (fst (copy_committed_shm_buffer env s b d wid ox oy app)) = app_inv app"
  by (auto simp: copy_committed_shm_buffer_def Let_def logs_inv split: CommitBuffer.split option.split sum.split)

lemma copy_committed_children:
  "child_surface_window (fst (copy_committed_shm_buffer env s b d wid ox oy app)) = child_surface_window app"
  by (auto simp: copy_committed_shm_buffer_def Let_def split: CommitBuffer.split option.split sum.split)

lemma copy_committed_size:
  assumes "snd (copy_committed_shm_buffer env s b d wid ox oy app) = Inr (Some t)"
  shows "0 < unat (tile_w t) \<and> unat (tile_w t) < 2 ^ 31 \<and> 0 < unat (tile_h t) \<and> unat (tile_h t) < 2 ^ 31"
  using assms by (auto simp: copy_committed_shm_buffer_def Let_def dest: captured_size
      split: CommitBuffer.splits option.splits sum.splits if_splits)

lemma repaint_window_inv [step_inv]: "app_inv (repaint_window_from_cached_buffer env wid app) = app_inv app"
  by (simp add: repaint_window_from_cached_buffer_def enqueue_inv split: option.split sum.split)

lemma last_rect_inv:
  "app_inv app \<Longrightarrow> fst ` set rects \<subseteq> fst ` set (child_surface_window app) \<Longrightarrow>
     app_inv (app\<lparr>child_surface_last_rect := rects\<rparr>)"
  by (simp add: app_inv_def tables_ok_def)

lemma rects_known: "app_inv app \<Longrightarrow> fst ` set (child_surface_last_rect app) \<subseteq> fst ` set (child_surface_window app)"
  by (simp add: app_inv_def tables_ok_def)

lemma children_known: "app_inv app \<Longrightarrow> snd ` set (child_surface_window app) \<subseteq> fst ` set (windows app)"
  by (simp add: app_inv_def tables_ok_def)

lemma note_child_rect_inv [step_inv]:
  "app_inv app \<Longrightarrow> key \<in> fst ` set (child_surface_window app) \<Longrightarrow> app_inv (note_child_rect key rect app)"
  unfolding note_child_rect_def by (intro last_rect_inv) (auto simp: update_keys_image dest: rects_known)

lemma repaint_child_inv:
  assumes "app_inv (fst acc)" and "key \<in> fst ` set (child_surface_window (fst acc))"
  shows "app_inv (fst (repaint_child env wid bounds key acc))
    \<and> child_surface_window (fst (repaint_child env wid bounds key acc)) = child_surface_window (fst acc)"
proof -
  obtain app needed tiles where acc: "acc = (app, needed, tiles)" by (metis prod_cases3)
  have "app_inv (app\<lparr>child_surface_last_rect := AList.delete key (child_surface_last_rect app)\<rparr>)"
    using assms rects_known [of app] by (intro last_rect_inv) (auto simp: acc delete_keys_image)
  then show ?thesis
    using assms note_child_rect_inv [of app key]
    by (auto simp: acc repaint_child_def Let_def note_child_rect_def split: option.split sum.split)
qed

lemma repaint_children_inv:
  assumes "app_inv (fst acc)" and "set keys \<subseteq> fst ` set (child_surface_window (fst acc))"
  shows "app_inv (fst (fold (repaint_child env wid bounds) keys acc))"
  using assms
proof (induction keys arbitrary: acc)
  case (Cons k keys)
  then show ?case using repaint_child_inv [of acc k env wid bounds] by simp
qed simp

lemma enqueue_tiles_inv:
  "app_inv (fold (\<lambda>t. enqueue_message (Message.FrameTile t)) tiles app) = app_inv app"
  by (induction tiles arbitrary: app) (simp_all add: enqueue_inv)

lemma repaint_moved_inv [step_inv]:
  assumes "app_inv app"
  shows "app_inv (repaint_moved_child_surfaces env wid first app)"
proof (cases "map_of (windows app) wid")
  case None
  then show ?thesis using assms by (simp add: repaint_moved_child_surfaces_def)
next
  case (Some w)
  define keys where "keys = map fst (filter (\<lambda>(k, i). i = wid \<and> k \<in> set (child_surfaces app)) (child_surface_window app))"
  have "set keys \<subseteq> fst ` set (child_surface_window app)" by (auto simp: keys_def)
  then have "app_inv (fst (fold (repaint_child env wid (rw_size w)) keys (app, False, [])))"
    using assms by (intro repaint_children_inv) simp_all
  then show ?thesis
    using Some by (simp add: repaint_moved_child_surfaces_def Let_def keys_def split_beta enqueue_tiles_inv
        repaint_window_inv)
qed

lemma clear_tracking_inv [step_inv]:
  assumes "app_inv app"
  shows "app_inv (clear_child_surface_tracking key app)"
proof -
  note t = assms [unfolded app_inv_def tables_ok_def]
  have "snd ` set (AList.delete key (child_surface_window app)) \<subseteq> fst ` set (windows app)"
    using children_known [OF assms] image_mono [OF set_delete_subset, of snd key "child_surface_window app"] by blast
  then show ?thesis
    using t by (auto simp: clear_child_surface_tracking_def app_inv_def tables_ok_def distinct_delete delete_keys_image)
qed

lemma new_child_inv:
  assumes "app_inv app" and "wid \<in> fst ` set (windows app)"
  shows "app_inv (app\<lparr>child_surface_window := AList.update s wid (child_surface_window app),
    child_surfaces := List.insert s (child_surfaces app)\<rparr>)"
proof -
  note t = assms(1) [unfolded app_inv_def tables_ok_def]
  have "snd ` set (AList.update s wid (child_surface_window app)) \<subseteq> fst ` set (windows app)"
    using children_known [OF assms(1)] assms(2) set_update_snd [of s wid "child_surface_window app"] by blast
  moreover have "fst ` set (child_surface_last_rect app) \<subseteq> insert s (fst ` set (child_surface_window app))"
    using rects_known [OF assms(1)] by blast
  ultimately show ?thesis
    using t by (simp add: app_inv_def tables_ok_def distinct_update update_keys_image)
qed

lemma popup_size_children [simp]: "child_surface_window (update_popup_size s w h app) = child_surface_window app"
  by (simp add: update_popup_size_def split: option.split)

lemma commit_tile_inv [step_inv]:
  assumes "app_inv app" and "is_child \<Longrightarrow> s \<in> fst ` set (child_surface_window app)"
    and "unat (tile_w tile) < 2 ^ 31" and "unat (tile_h tile) < 2 ^ 31"
  shows "app_inv (commit_tile env s wid ox oy root is_child prev tile app)"
proof -
  define rect where "rect = (ox, oy, tile_w tile, tile_h tile)"
  define app1 where "app1 = (if is_child then note_child_rect s rect (update_popup_size s (tile_w tile) (tile_h tile) app)
      else update_popup_size s (tile_w tile) (tile_h tile) app)"
  define app2 where "app2 = (if is_child \<and> prev \<noteq> None \<and> prev \<noteq> Some rect
      then repaint_window_from_cached_buffer env wid app1 else app1)"
  have "app_inv app1"
    using assms(2) popup_ops_inv(1) [OF assms(1)] by (cases is_child) (simp_all add: app1_def note_child_rect_inv)
  then have "app_inv app2" by (simp add: app2_def repaint_window_inv)
  then have 3: "app_inv (fst (if root then resize_root_window wid (tile_w tile) (tile_h tile) app2 else (app2, None)))"
    using assms(3,4) by (simp add: resize_root_inv)
  have eq: "commit_tile env s wid ox oy root is_child prev tile app =
     (let (app, geom) = (if root then resize_root_window wid (tile_w tile) (tile_h tile) app2 else (app2, None));
          app = app\<lparr>frame_count := saturating_add (frame_count app) 1\<rparr>;
          app = (case geom of Some g \<Rightarrow> enqueue_message (Message.WindowEvent (Configured wid g)) app | None \<Rightarrow> app);
          app = enqueue_message (Message.FrameTile tile) app
      in if root then repaint_moved_child_surfaces env wid False app else app)"
    by (simp only: commit_tile_def Let_def app2_def app1_def rect_def)
  show ?thesis
    unfolding eq using 3 by (auto simp: Let_def split_beta logs_inv enqueue_inv intro!: repaint_moved_inv split: option.split)
qed

lemma commit_inv [step_inv]:
  assumes "app_inv app0"
  shows "app_inv (commit env s b d app0)"
proof -
  define app where "app = app0\<lparr>commit_count := saturating_add (commit_count app0) 1\<rparr>"
  have inv: "app_inv app" using assms by (simp add: app_def logs_inv)
  show ?thesis
  proof (cases "surface_window_offset app 0 0 (tree env s)")
    case None
    then show ?thesis
      using inv by (simp add: commit_def app_def [symmetric] send_frame_callbacks_def discard_surface_commit_def
          logs_inv split: CommitBuffer.split)
  next
    case (Some c)
    obtain wid ox oy where c: "c = (wid, ox, oy)" by (metis prod_cases3)
    have known: "wid \<in> fst ` set (windows app)"
      using surface_window_offset_known Some c inv by (auto simp: app_inv_def)
    define root where "root = (ox = 0 \<and> oy = 0 \<and> is_root_surface_for_window app s wid)"
    define app1 where "app1 = (if \<not> root then app\<lparr>child_surface_window := AList.update s wid (child_surface_window app),
        child_surfaces := List.insert s (child_surfaces app)\<rparr> else app)"
    define prev where "prev = (if \<not> root then map_of (child_surface_last_rect app1) s else None)"
    obtain app2 result where cp: "copy_committed_shm_buffer env s b d wid ox oy app1 = (app2, result)" by fastforce
    define app3 where "app3 = (case result of
        Inr (Some tile) \<Rightarrow> commit_tile env s wid ox oy root (\<not> root) prev tile app2
      | Inr None \<Rightarrow> (if root then repaint_moved_child_surfaces env wid True app2 else app2)
      | Inl _ \<Rightarrow> app2)"
    have 1: "app_inv app1" using inv known by (simp add: app1_def new_child_inv)
    then have 2: "app_inv app2" using copy_committed_inv [of env s b d wid ox oy app1] cp by simp
    have ch: "\<not> root \<Longrightarrow> s \<in> fst ` set (child_surface_window app2)"
      using copy_committed_children [of env s b d wid ox oy app1] cp by (simp add: app1_def update_keys_image)
    have "app_inv app3"
      using 2 ch copy_committed_size [of env s b d wid ox oy app1] cp
      by (auto simp: app3_def repaint_moved_inv intro!: commit_tile_inv split: sum.split option.split)
    moreover have "commit env s b d app0 = send_frame_callbacks s (if b = RemovedBuffer \<and> \<not> root
        then repaint_window_from_cached_buffer env wid
          (clear_child_surface_tracking s (fst (remove_popup_route_for_surface s app3))) else app3)"
      unfolding commit_def Let_def app_def [symmetric] Some c option.case prod.case root_def [symmetric]
        app1_def [symmetric] prev_def [symmetric] cp app3_def [symmetric] ..
    ultimately show ?thesis
      by (simp add: send_frame_callbacks_def logs_inv repaint_window_inv clear_tracking_inv popup_ops_inv)
  qed
qed

lemma destroyed_inv [step_inv]:
  "app_inv app \<Longrightarrow> app_inv (surface_destroyed env s app)"
  "app_inv app \<Longrightarrow> app_inv (popup_destroyed env s app)"
  using popup_ops_inv(2) [of app s]
  by (auto simp: surface_destroyed_def popup_destroyed_def Let_def split_beta repaint_window_inv clear_tracking_inv
      split: option.split)

lemma text_input_request_inv [step_inv]:
  "app_inv app \<Longrightarrow> app_inv (text_input_request now r req app)"
  by (auto simp: text_input_request_def Let_def text_inputs_inv intro: flush_pending_inv split: option.split)

lemma register_text_input_inv [step_inv]: "app_inv app \<Longrightarrow> app_inv (register_text_input r app)"
  by (auto simp: register_text_input_def Let_def text_inputs_inv log_seat_inv split: option.split)

lemma app_step_inv: "app_inv app \<Longrightarrow> app_inv (app_step app ev)"
  by (cases ev) (auto simp: handle_input_inv new_toplevel_inv toplevel_destroyed_inv move_inv route_popup_inv
    commit_inv destroyed_inv text_input_request_inv register_text_input_inv request_window_minimize_def
    title_changed_def enqueue_inv text_input_destroyed_def text_inputs_inv buffer_destroyed_def logs_inv
    intro!: by_surface_inv maximize_inv unmaximize_inv fullscreen_inv unfullscreen_inv)

interpretation wayland: invariant_machine app_step app_inv
  by unfold_locales (rule app_step_inv)

end
