(* ===== verification/Wayland_Session.thy ===== *)
theory Wayland_Session
  imports Wayland_App
begin

text \<open>
  Properties of the compositor of \<open>Wayland_App\<close>: its invariant in every reachable state,
  the agreement of the host's view of fullscreen windows with the guest's, the fullscreen
  round trip, what a commit emits, and two behaviours of text input and maximizing that
  differ from what the code means to do.
\<close>

section \<open>What the messages tell the host about fullscreen\<close>

fun host_view :: "u64 \<Rightarrow> bool \<Rightarrow> Message \<Rightarrow> bool" where
  "host_view wid b (Message.WindowEvent (FullscreenChanged i f)) = (if i = wid then f else b)"
| "host_view wid b (Message.WindowEvent (Created i _ _ _)) = (if i = wid then False else b)"
| "host_view wid b _ = b"

definition host_fullscreen :: "Message list \<Rightarrow> u64 \<Rightarrow> bool" where
  "host_fullscreen msgs wid = foldl (host_view wid) False msgs"

definition guest_fullscreen :: "App \<Rightarrow> u64 \<Rightarrow> bool option" where
  "guest_fullscreen app wid = map_option (\<lambda>w. is_fullscreen (rw_mode w)) (map_of (windows app) wid)"

definition fs_view :: "App \<Rightarrow> (u64 \<Rightarrow> bool option) \<times> (u64 \<Rightarrow> bool)" where
  "fs_view app = (guest_fullscreen app, host_fullscreen (tx app))"

definition echo_ok :: "App \<Rightarrow> bool" where
  "echo_ok app \<longleftrightarrow> (\<forall>wid f. guest_fullscreen app wid = Some f \<longrightarrow> host_fullscreen (tx app) wid = f)"

lemma echo_view: "fs_view a = fs_view b \<Longrightarrow> echo_ok a = echo_ok b"
  by (simp add: fs_view_def echo_ok_def)

definition plain_message :: "Message \<Rightarrow> bool" where
  "plain_message m \<longleftrightarrow> (\<forall>wid b. host_view wid b m = b)"

lemma plain_messages [simp]:
  "plain_message (Message.FrameTile t)" "plain_message (Message.WindowEvent (Destroyed i))"
  "plain_message (Message.WindowEvent (Configured i g))" "plain_message (Message.WindowEvent (TitleChanged i s))"
  "plain_message (Message.WindowEvent (Minimized i))" "plain_message (Message.WindowEvent (MoveRequested i))"
  by (simp_all add: plain_message_def)

named_theorems view_simps "operations that leave the fullscreen view as it is"

lemma view_enqueue [view_simps]: "plain_message m \<Longrightarrow> fs_view (enqueue_message m app) = fs_view app"
  by (rule prod_eqI) (auto simp: fs_view_def enqueue_message_def guest_fullscreen_def fun_eq_iff
      host_fullscreen_def plain_message_def)

lemma view_fields [view_simps]:
  "fs_view (app\<lparr>text_inputs := i\<rparr>) = fs_view app" "fs_view (app\<lparr>pending_text_input := q\<rparr>) = fs_view app"
  "fs_view (app\<lparr>active_window_id := a\<rparr>) = fs_view app" "fs_view (app\<lparr>output_size := sz\<rparr>) = fs_view app"
  "fs_view (app\<lparr>seat_log := l\<rparr>) = fs_view app" "fs_view (app\<lparr>popup_routes := r\<rparr>) = fs_view app"
  "fs_view (app\<lparr>popup_order := po\<rparr>) = fs_view app" "fs_view (app\<lparr>current_buffers := cb\<rparr>) = fs_view app"
  "fs_view (app\<lparr>child_surface_window := cw\<rparr>) = fs_view app" "fs_view (app\<lparr>child_surfaces := cs\<rparr>) = fs_view app"
  "fs_view (app\<lparr>child_surface_last_rect := cr\<rparr>) = fs_view app" "fs_view (app\<lparr>commit_count := n\<rparr>) = fs_view app"
  "fs_view (app\<lparr>frame_count := n\<rparr>) = fs_view app" "fs_view (app\<lparr>released := bs\<rparr>) = fs_view app"
  "fs_view (app\<lparr>frame_callbacks := fc\<rparr>) = fs_view app" "fs_view (app\<lparr>next_window_id := n\<rparr>) = fs_view app"
  "fs_view (app\<lparr>surface_to_window := sw\<rparr>) = fs_view app"
  by (simp_all add: fs_view_def guest_fullscreen_def [abs_def])

lemma guest_set_window:
  "guest_fullscreen (set_window wid w app) = (guest_fullscreen app)(wid \<mapsto> is_fullscreen (rw_mode w))"
  by (auto simp: guest_fullscreen_def set_window_def update_conv' fun_eq_iff)

lemma tx_set_window [simp]: "tx (set_window wid w app) = tx app"
  by (simp add: set_window_def)

lemma view_set_window [view_simps]:
  "map_of (windows app) wid = Some w0 \<Longrightarrow> is_fullscreen (rw_mode w) = is_fullscreen (rw_mode w0) \<Longrightarrow>
     fs_view (set_window wid w app) = fs_view app"
  by (simp add: fs_view_def guest_set_window fun_eq_iff guest_fullscreen_def)

lemma map_of_map_keyed: "map_of (map (\<lambda>(k, v). (k, f k v)) p) k = map_option (f k) (map_of p k)"
  by (induction p) auto

lemma view_activation [view_simps]: "fs_view (set_toplevel_activation a app) = fs_view app"
  by (simp add: fs_view_def guest_fullscreen_def [abs_def] set_toplevel_activation_def map_of_map_keyed
      option.map_comp comp_def send_configure_def)

lemma view_focus [view_simps]:
  "fs_view (log_seat evs app) = fs_view app"
  "fs_view (set_text_input_focus app) = fs_view app" "fs_view (clear_text_input_focus app) = fs_view app"
  "fs_view (focus_window wid app) = fs_view app" "fs_view (clear_focus app) = fs_view app"
  "fs_view (clear_window_focus wid app) = fs_view app"
  by (simp_all add: log_seat_def set_text_input_focus_def clear_text_input_focus_def map_text_inputs_def
      focus_window_def clear_focus_def clear_window_focus_def Let_def view_simps split: option.split)

lemma view_input [view_simps]:
  "fs_view (pointer_motion wid x y app) = fs_view app" "fs_view (pointer_button wid b st app) = fs_view app"
  "fs_view (pointer_scroll wid dx dy app) = fs_view app" "fs_view (keyboard_key wid k ks app) = fs_view app"
  "fs_view (key_stroke wid k sh app) = fs_view app"
  by (simp_all add: pointer_motion_def pointer_button_def pointer_scroll_def keyboard_key_def key_stroke_def Let_def
      view_simps split: option.split)

lemma view_synthesize [view_simps]: "fs_view (fst (synthesize_ascii_text wid s app)) = fs_view app"
proof (induction s arbitrary: app)
  case (Cons c s)
  then show ?case by (cases "ascii_keycode c") (auto simp: split_beta view_simps)
qed simp

lemma view_text [view_simps]:
  "fs_view (queue_pending_text_input ev app) = fs_view app"
  "fs_view (fst (commit_text_input s app)) = fs_view app"
  "fs_view (preedit_text_input wid s b e app) = fs_view app"
  by (simp_all add: queue_pending_text_input_def commit_text_input_def preedit_text_input_def Let_def view_simps
      split: option.split)

lemma view_inject [view_simps]: "fs_view (inject_text wid s app) = fs_view app"
proof -
  obtain app1 r where c: "commit_text_input s (focus_window wid app) = (app1, r)" by fastforce
  have 1: "fs_view app1 = fs_view app" using view_text(2) [of s "focus_window wid app"] c by (simp add: view_simps)
  obtain app2 b where sy: "synthesize_ascii_text wid s app1 = (app2, b)" by fastforce
  have 2: "fs_view app2 = fs_view app1" using view_synthesize [of wid s app1] sy by simp
  show ?thesis using 1 2 c sy by (cases r; cases b) (simp_all add: inject_text_def view_simps)
qed

lemma view_guest_requests [view_simps]:
  "fs_view (request_window_close wid app) = fs_view app"
  "fs_view (fst (resize_root_window wid width height app)) = fs_view app"
  "fs_view (request_window_minimize s app) = fs_view app"
  "fs_view (request_window_move now s app) = fs_view app"
  "fs_view (title_changed title s app) = fs_view app"
  by (simp_all add: request_window_close_def resize_root_window_def request_window_minimize_def request_window_move_def
      title_changed_def by_surface_def Let_def view_simps split: option.split)

lemma view_popups [view_simps]:
  "fs_view (update_popup_size s width height app) = fs_view app"
  "fs_view (fst (remove_popup_route_for_surface s app)) = fs_view app"
  "fs_view (fst (route_popup geometry s chain app)) = fs_view app"
  by (simp_all add: update_popup_size_def remove_popup_route_for_surface_def route_popup_def Let_def view_simps split_beta
      split: option.split)

lemma view_repaint [view_simps]: "fs_view (repaint_window_from_cached_buffer env wid app) = fs_view app"
  by (simp add: repaint_window_from_cached_buffer_def view_simps split: option.split sum.split)

lemma view_repaint_child: "fs_view (fst (repaint_child env wid bounds k acc)) = fs_view (fst acc)"
  by (auto simp: repaint_child_def note_child_rect_def Let_def view_simps split_beta split: option.split sum.split)

lemma view_repaint_children: "fs_view (fst (fold (repaint_child env wid bounds) ks acc)) = fs_view (fst acc)"
  by (induction ks arbitrary: acc) (simp_all add: view_repaint_child)

lemma view_enqueue_tiles: "fs_view (fold (\<lambda>t. enqueue_message (Message.FrameTile t)) tiles app) = fs_view app"
  by (induction tiles arbitrary: app) (simp_all add: view_simps)

lemma view_repaint_moved [view_simps]: "fs_view (repaint_moved_child_surfaces env wid first app) = fs_view app"
  by (simp add: repaint_moved_child_surfaces_def Let_def split_beta view_enqueue_tiles view_repaint_children view_simps
      split: option.split)

lemma view_copy_committed [view_simps]:
  "fs_view (fst (copy_committed_shm_buffer env s b d wid ox oy app)) = fs_view app"
  by (auto simp: copy_committed_shm_buffer_def Let_def view_simps split: CommitBuffer.split option.split sum.split)

lemma view_commit_tile [view_simps]:
  "fs_view (commit_tile env s wid ox oy root ch prev tile app) = fs_view app"
  by (simp add: commit_tile_def Let_def split_beta note_child_rect_def view_simps split: option.split)

lemma view_destroyed [view_simps]:
  "fs_view (clear_child_surface_tracking k app) = fs_view app"
  "fs_view (surface_destroyed env k app) = fs_view app" "fs_view (popup_destroyed env k app) = fs_view app"
  "fs_view (buffer_destroyed b app) = fs_view app"
  by (simp_all add: surface_destroyed_def popup_destroyed_def buffer_destroyed_def clear_child_surface_tracking_def Let_def split_beta
      view_simps split: option.split)

lemma view_commit [view_simps]: "fs_view (commit env s b d app) = fs_view app"
  by (simp add: commit_def Let_def split_beta send_frame_callbacks_def discard_surface_commit_def view_simps
      split: option.split sum.split CommitBuffer.split)

section \<open>Requests that change the mode\<close>

lemma echo_set_mode:
  assumes "echo_ok app" and "is_fullscreen (rw_mode w) = f"
  shows "echo_ok (enqueue_message (fullscreen_changed wid f) (set_window wid w app))"
  using assms by (auto simp: echo_ok_def enqueue_message_def guest_fullscreen_def set_window_def update_conv'
      fullscreen_changed_def host_fullscreen_def split: if_splits)

lemma echo_repeat:
  assumes "echo_ok app" and "guest_fullscreen app wid = Some f"
  shows "echo_ok (enqueue_message (fullscreen_changed wid f) app)"
  using assms by (auto simp: echo_ok_def enqueue_message_def guest_fullscreen_def fullscreen_changed_def
      host_fullscreen_def)

lemma echo_fullscreen:
  assumes "echo_ok app"
  shows "echo_ok (request_window_fullscreen_by_id wid app)"
proof (cases "map_of (windows app) wid")
  case None
  then show ?thesis using assms by (simp add: request_window_fullscreen_by_id_def)
next
  case (Some w)
  then show ?thesis
    using assms
    by (cases "rw_mode w") (simp_all add: request_window_fullscreen_by_id_def Let_def send_configure_def
        enter_fullscreen_def guest_fullscreen_def echo_repeat echo_set_mode)
qed

lemma echo_unfullscreen:
  assumes "echo_ok app"
  shows "echo_ok (request_window_unfullscreen_by_id now wid suppress app)"
proof (cases "map_of (windows app) wid")
  case None
  then show ?thesis using assms by (simp add: request_window_unfullscreen_by_id_def)
next
  case (Some w)
  have "echo_ok (set_window wid (w\<lparr>rw_last_move_request_at := None\<rparr>) app)"
    using assms Some echo_view [OF view_set_window [OF Some]] by simp
  with Some assms show ?thesis
    by (cases "rw_mode w")
      (simp_all add: request_window_unfullscreen_by_id_def Let_def send_configure_def guest_fullscreen_def
        echo_repeat echo_set_mode)
qed

lemma echo_resize:
  assumes "echo_ok app"
  shows "echo_ok (request_window_resize wid width height app)"
proof (cases "map_of (windows app) wid")
  case None
  then show ?thesis using assms by (simp add: request_window_resize_def)
next
  case (Some w)
  have out: "fs_view (set_output_size sz app) = fs_view app" for sz
    by (simp add: set_output_size_def Let_def view_simps)
  have e: "echo_ok (set_output_size sz app)" for sz using assms echo_view [OF out] by simp
  show ?thesis
  proof (cases "is_fullscreen (rw_mode w)")
    case True
    with Some e [of "nonzero_size (width, height)"] show ?thesis
      by (auto simp: request_window_resize_def Let_def send_configure_def intro!: echo_set_mode)
  next
    case False
    have "fs_view (set_window wid (send_configure (w\<lparr>rw_mode := Normal, rw_pending := pe\<rparr>)) (set_output_size sz app))
        = fs_view app" for pe sz
      using Some False view_set_window [of "set_output_size sz app" wid w] out by (simp add: send_configure_def)
    then have "echo_ok (set_window wid (send_configure (w\<lparr>rw_mode := Normal, rw_pending := pe\<rparr>)) (set_output_size sz app))"
      for pe sz using assms echo_view by blast
    with Some False assms show ?thesis by (simp add: request_window_resize_def Let_def)
  qed
qed

lemma view_unmaximize [view_simps]: "fs_view (request_window_unmaximize_by_id now wid suppress app) = fs_view app"
proof (cases "map_of (windows app) wid")
  case None
  then show ?thesis by (simp add: request_window_unmaximize_by_id_def)
next
  case (Some w)
  then show ?thesis
    by (cases "rw_mode w") (simp_all add: request_window_unmaximize_by_id_def view_simps send_configure_def)
qed

lemma echo_new_toplevel:
  assumes "echo_ok app"
  shows "echo_ok (new_toplevel s title app_id app)"
proof -
  let ?id = "next_window_id app"
  define w where "w = \<lparr>rw_surface = s, rw_size = (1, 1), rw_mode = Normal,
     rw_last_move_request_at = None,
     rw_pending = \<lparr>xs_size = Some (0, 0), xs_maximized = False, xs_fullscreen = False, xs_activated = False\<rparr>,
     rw_sent = [], rw_close_requests = 0\<rparr>"
  define app1 where "app1 = app\<lparr>next_window_id := saturating_add ?id 1,
     surface_to_window := AList.update s ?id (surface_to_window app),
     windows := AList.update ?id w (windows app)\<rparr>"
  have "guest_fullscreen app1 = (guest_fullscreen app)(?id \<mapsto> False)"
    by (auto simp: guest_fullscreen_def app1_def w_def update_conv' fun_eq_iff)
  then have v: "fs_view (focus_window ?id app1) = ((guest_fullscreen app)(?id \<mapsto> False), host_fullscreen (tx app))"
    unfolding view_focus by (simp add: fs_view_def app1_def)
  have "new_toplevel s title app_id app = enqueue_message (Message.WindowEvent (Created ?id
      \<lparr>geom_x = 0, geom_y = 0, geom_w = 1, geom_h = 1\<rparr> title app_id)) (focus_window ?id app1)"
    by (simp add: new_toplevel_def Let_def app1_def w_def)
  with v assms show ?thesis
    by (auto simp: echo_ok_def enqueue_message_def fs_view_def guest_fullscreen_def fun_eq_iff host_fullscreen_def
        split: if_splits)
qed

lemma echo_toplevel_destroyed:
  assumes "echo_ok app"
  shows "echo_ok (toplevel_destroyed choice s app)"
proof (cases "map_of (surface_to_window app) s")
  case None
  then show ?thesis using assms by (simp add: toplevel_destroyed_def)
next
  case (Some wid)
  have "fs_view (toplevel_destroyed choice s app) = fs_view (app\<lparr>windows := AList.delete wid (windows app)\<rparr>)"
  proof -
    have "fs_view (app\<lparr>surface_to_window := a, windows := b\<rparr>) = fs_view (app\<lparr>windows := b\<rparr>)" for a b
      by (simp add: fs_view_def guest_fullscreen_def [abs_def])
    with Some show ?thesis by (simp add: toplevel_destroyed_def Let_def view_simps)
  qed
  moreover have "echo_ok (app\<lparr>windows := AList.delete wid (windows app)\<rparr>)"
    using assms by (auto simp: echo_ok_def guest_fullscreen_def delete_conv' split: if_splits)
  ultimately show ?thesis using echo_view by blast
qed

text \<open>The requests that maximize a window.\<close>

fun maximizes :: "app_event \<Rightarrow> bool" where
  "maximizes (HostInput _ (ToggleMaximize _)) = True"
| "maximizes (MaximizeRequest gate _) = gate"
| "maximizes _ = False"

lemma echo_by_view: "fs_view a = fs_view b \<Longrightarrow> echo_ok b \<Longrightarrow> echo_ok a"
  using echo_view by blast

lemmas echo_simps =
  view_input [THEN echo_view] view_inject [THEN echo_view] view_focus [THEN echo_view]
  view_guest_requests [THEN echo_view] view_text [THEN echo_view] view_commit [THEN echo_view]
  view_destroyed [THEN echo_view] view_unmaximize [THEN echo_view] view_popups [THEN echo_view]

lemma echo_input:
  assumes "echo_ok app" and "\<forall>wid. ev \<noteq> ToggleMaximize wid"
  shows "echo_ok (handle_input_event now ev app)"
  using assms
  by (cases ev) (simp_all add: set_window_fullscreen_def echo_resize echo_fullscreen echo_unfullscreen echo_simps)

lemma echo_flush:
  assumes "app_inv app" and "echo_ok app"
  shows "echo_ok (flush_pending_text_input now app)"
proof -
  have "echo_ok a \<Longrightarrow> list_all is_text_event evs \<Longrightarrow> echo_ok (fold (handle_input_event now) evs a)" for a evs
  proof (induction evs arbitrary: a)
    case (Cons ev evs)
    then have "\<forall>wid. ev \<noteq> ToggleMaximize wid" by auto
    with Cons show ?case by (simp add: echo_input)
  qed simp
  moreover have "echo_ok (app\<lparr>pending_text_input := []\<rparr>)"
    using assms(2) echo_by_view view_fields(2) by blast
  ultimately show ?thesis using assms(1) by (simp add: flush_pending_text_input_def app_inv_def)
qed

lemma view_text_inputs [view_simps]:
  "fs_view (register_text_input r app) = fs_view app" "fs_view (text_input_destroyed r app) = fs_view app"
  by (simp_all add: register_text_input_def text_input_destroyed_def Let_def view_simps split: option.split)

lemma echo_text_input_request:
  assumes "app_inv app" and "echo_ok app"
  shows "echo_ok (text_input_request now r req app)"
proof -
  have "echo_ok (app\<lparr>text_inputs := i\<rparr>) \<and> app_inv (app\<lparr>text_inputs := i\<rparr>)" for i
    using assms echo_by_view view_fields(1) by (simp add: text_inputs_inv)
  then show ?thesis
    using assms by (auto simp: text_input_request_def Let_def intro: echo_flush split: option.split)
qed

lemma echo_by_surface: "echo_ok app \<Longrightarrow> (\<And>wid. echo_ok (f wid app)) \<Longrightarrow> echo_ok (by_surface f s app)"
  by (simp add: by_surface_def split: option.split)

lemma echo_step:
  assumes "app_inv app" and "echo_ok app" and "\<not> maximizes ev"
  shows "echo_ok (app_step app ev)"
proof (cases ev)
  case (HostInput now e)
  with assms show ?thesis by (auto intro!: echo_input)
qed (use assms in \<open>auto simp: echo_new_toplevel echo_toplevel_destroyed echo_text_input_request echo_simps
   echo_view [OF view_text_inputs(1)] echo_view [OF view_text_inputs(2)]
   intro!: echo_by_surface echo_fullscreen echo_unfullscreen\<close>)

section \<open>Properties\<close>

lemma app_start_inv: "app_inv (app_start width height)"
  by (simp add: app_inv_def tables_ok_def app_start_def)

text \<open>
  C4: In every state the compositor can reach, whatever the host and the guest send: the
  window, surface, popup and child-surface tables are consistent (no duplicate keys, every
  surface, popup and child belongs to a live window, window ids are fresh), the active
  window exists, no window has an empty size or a size beyond 31 bits or an empty restore
  size, the last state sent to each window carries exactly the maximized and fullscreen
  flags of its mode, and at most 32 text events are pending.
\<close>
theorem compositor_invariant: "app_inv (run app_step (app_start width height) es)"
  by (rule wayland.run_keeps [OF app_start_inv])

lemma echo_run:
  "app_inv app \<Longrightarrow> echo_ok app \<Longrightarrow> list_all (\<lambda>e. \<not> maximizes e) es \<Longrightarrow> echo_ok (run app_step app es)"
  by (induction es arbitrary: app) (simp_all add: echo_step app_step_inv)

text \<open>
  As long as no window is maximized, what the messages tell the host about fullscreen is
  what the guest was told: after any sequence of events without a maximize request, the last
  \<open>FullscreenChanged\<close> message of a live window (none since its creation meaning false) is its
  mode.
\<close>
theorem fullscreen_echo:
  assumes "list_all (\<lambda>e. \<not> maximizes e) es"
    and "map_of (windows (run app_step (app_start width height) es)) wid = Some w"
  shows "host_fullscreen (tx (run app_step (app_start width height) es)) wid = is_fullscreen (rw_mode w)"
proof -
  have "echo_ok (app_start width height)" by (simp add: echo_ok_def guest_fullscreen_def app_start_def)
  with assms(1) have "echo_ok (run app_step (app_start width height) es)"
    by (intro echo_run app_start_inv)
  with assms(2) show ?thesis by (simp add: echo_ok_def guest_fullscreen_def)
qed

theorem fullscreen_echo_witness:
  "\<exists>w. map_of (windows (run app_step (app_start 800 600)
       [NewToplevel (1, 5) (ascii ''t'') (ascii ''a''), HostInput 10 (SetFullscreen 1 True)])) 1 = Some w
     \<and> host_fullscreen (tx (run app_step (app_start 800 600)
       [NewToplevel (1, 5) (ascii ''t'') (ascii ''a''), HostInput 10 (SetFullscreen 1 True)])) 1
       = is_fullscreen (rw_mode w)"
proof -
  let ?es = "[NewToplevel (1, 5) (ascii ''t'') (ascii ''a''), HostInput 10 (SetFullscreen 1 True)]"
  have "\<exists>w. map_of (windows (run app_step (app_start 800 600) ?es)) 1 = Some w"
    by (simp add: app_start_def new_toplevel_def Let_def focus_window_def window_surface_def set_toplevel_activation_def
        log_seat_def set_text_input_focus_def active_surface_def map_text_inputs_def enqueue_message_def
        set_window_fullscreen_def request_window_fullscreen_by_id_def set_window_def send_configure_def)
  then obtain w where w: "map_of (windows (run app_step (app_start 800 600) ?es)) 1 = Some w" by blast
  then have "host_fullscreen (tx (run app_step (app_start 800 600) ?es)) 1 = is_fullscreen (rw_mode w)"
    by (intro fullscreen_echo) simp_all
  with w show ?thesis by blast
qed

text \<open>
  Maximizing a fullscreen window takes it out of fullscreen without telling the host: the
  window's mode becomes maximized, the guest is configured accordingly, and no message is
  sent, so the host keeps whatever it believed before.
\<close>
theorem maximize_leaves_fullscreen_silently:
  assumes "map_of (windows app) wid = Some w" and "rw_mode w = Fullscreen r"
  shows "\<exists>w'. map_of (windows (handle_input_event now (ToggleMaximize wid) app)) wid = Some w'
    \<and> is_maximized (rw_mode w') \<and> \<not> is_fullscreen (rw_mode w') \<and> \<not> xs_fullscreen (last (rw_sent w'))
    \<and> tx (handle_input_event now (ToggleMaximize wid) app) = tx app"
  using assms by (simp add: toggle_window_maximize_def request_window_maximize_by_id_def Let_def set_window_def
      update_conv' enter_maximized_def send_configure_def)

definition demo_window :: RemoteWindow where
  "demo_window = \<lparr>rw_surface = (1, 5), rw_size = (640, 480), rw_mode = Normal, rw_last_move_request_at = None,
     rw_pending = \<lparr>xs_size = Some (640, 480), xs_maximized = False, xs_fullscreen = False, xs_activated = True\<rparr>,
     rw_sent = [], rw_close_requests = 0\<rparr>"

definition demo_app :: App where
  "demo_app = (app_start 800 600)\<lparr>windows := [(1, demo_window)], surface_to_window := [((1, 5), 1)],
     active_window_id := Some 1\<rparr>"

theorem maximize_leaves_fullscreen_silently_witness:
  "\<exists>w. map_of (windows (handle_input_event 0 (ToggleMaximize 1)
       (demo_app\<lparr>windows := [(1, demo_window\<lparr>rw_mode := Fullscreen (640, 480)\<rparr>)]\<rparr>))) 1 = Some w
     \<and> is_maximized (rw_mode w)"
  using maximize_leaves_fullscreen_silently [of
      "demo_app\<lparr>windows := [(1, demo_window\<lparr>rw_mode := Fullscreen (640, 480)\<rparr>)]\<rparr>" 1
      "demo_window\<lparr>rw_mode := Fullscreen (640, 480)\<rparr>" "(640, 480)" 0] by auto

lemma nonzero_size_id: "nonzero s \<Longrightarrow> nonzero_size s = s"
proof -
  have "max n 1 = n" if "n \<noteq> 0" for n :: u32
    using that by (intro max.absorb1) (simp add: word_le_nat_alt unat_gt_0 Suc_le_eq)
  then show "nonzero s \<Longrightarrow> nonzero_size s = s" by (cases s) (simp add: nonzero_size_def nonzero_def)
qed

lemma default_restore_axis_le: "default_restore_axis n \<le> n"
proof -
  have "min (max (unat n * 7 div 10) 1) (unat n) < 2 ^ 32"
    using unat_lt_len [of n] by (simp add: min_less_iff_disj)
  then show ?thesis by (simp add: default_restore_axis_def word_le_nat_alt unat_of_nat32)
qed

lemma restore_size_capped:
  "fst (restore_size_for_mode_entry a out) \<le> fst (nonzero_size out)
   \<and> snd (restore_size_for_mode_entry a out) \<le> snd (nonzero_size out)"
proof -
  have nn: "nonzero_size (nonzero_size out) = nonzero_size out" by (simp add: nonzero_size_id)
  have le: "max (default_restore_axis n) 1 \<le> n" if "n \<noteq> 0" for n
    using default_restore_axis_le [of n] that by (simp add: word_le_nat_alt unat_max unat_gt_0 Suc_le_eq)
  have "fst (nonzero_size out) \<noteq> 0" "snd (nonzero_size out) \<noteq> 0"
    using nonzero_nonzero_size [of out] by (simp_all add: nonzero_def)
  then have "fst (default_restore_size (nonzero_size out)) \<le> fst (nonzero_size out)
      \<and> snd (default_restore_size (nonzero_size out)) \<le> snd (nonzero_size out)"
    using le by (simp add: default_restore_size_def Let_def nn) (simp add: nonzero_size_def)
  then show ?thesis
    by (simp add: restore_size_for_mode_entry_def Let_def)
qed

text \<open>
  Leaving fullscreen restores the window: a window that is not fullscreen, put into
  fullscreen by the host and taken out again, with any resize by the guest in between, ends
  in normal mode; the guest gets exactly two configures, the output's size with the
  fullscreen flag and then the restore size without it, and the host exactly the two echoes.
  The restore size is neither empty nor larger than the output.
\<close>
theorem fullscreen_roundtrip:
  assumes "map_of (windows app) wid = Some w" and "\<not> is_fullscreen (rw_mode w)"
  shows "\<exists>w'. map_of (windows (set_window_fullscreen t2 wid False (fst (resize_root_window wid width height
        (set_window_fullscreen t1 wid True app))))) wid = Some w'
    \<and> rw_mode w' = Normal
    \<and> rw_sent w' = rw_sent w @
        [(rw_pending w)\<lparr>xs_size := Some (nonzero_size (max_output_size app)), xs_fullscreen := True, xs_maximized := False\<rparr>,
         (rw_pending w)\<lparr>xs_size := Some (restore_size_for_mode_entry (rw_size w) (max_output_size app)),
           xs_fullscreen := False, xs_maximized := False\<rparr>]
    \<and> tx (set_window_fullscreen t2 wid False (fst (resize_root_window wid width height
        (set_window_fullscreen t1 wid True app))))
      = tx app @ [fullscreen_changed wid True, fullscreen_changed wid False]
    \<and> nonzero (restore_size_for_mode_entry (rw_size w) (max_output_size app))
    \<and> fst (restore_size_for_mode_entry (rw_size w) (max_output_size app)) \<le> fst (nonzero_size (max_output_size app))
    \<and> snd (restore_size_for_mode_entry (rw_size w) (max_output_size app)) \<le> snd (nonzero_size (max_output_size app))"
proof -
  define R where "R = restore_size_for_mode_entry (rw_size w) (max_output_size app)"
  have R: "nonzero R" "nonzero_size R = R"
    by (simp_all add: R_def restore_size_nonzero nonzero_size_id)
  define w1 where "w1 = send_configure (w\<lparr>rw_mode := Fullscreen R, rw_pending := (rw_pending w)
      \<lparr>xs_size := Some (nonzero_size (max_output_size app)), xs_fullscreen := True, xs_maximized := False\<rparr>\<rparr>)"
  define app1 where "app1 = enqueue_message (fullscreen_changed wid True) (set_window wid w1 app)"
  have in_fs: "set_window_fullscreen t1 wid True app = app1"
    using assms R by (cases "rw_mode w")
      (simp_all add: set_window_fullscreen_def request_window_fullscreen_by_id_def Let_def enter_fullscreen_def
        app1_def w1_def R_def)
  obtain w2 where w2: "map_of (windows (fst (resize_root_window wid width height app1))) wid = Some w2"
      "rw_mode w2 = Fullscreen R" "rw_sent w2 = rw_sent w1" "rw_pending w2 = rw_pending w1"
      "tx (fst (resize_root_window wid width height app1)) = tx app1"
    by (cases "rw_size w1 = nonzero_size (width, height)")
      (simp_all add: resize_root_window_def Let_def app1_def enqueue_message_def set_window_def update_conv' w1_def
        send_configure_def)
  show ?thesis
    unfolding in_fs using w2 R restore_size_capped [of "rw_size w" "max_output_size app"]
    by (simp add: set_window_fullscreen_def request_window_unfullscreen_by_id_def Let_def set_window_def
        enqueue_message_def update_conv' send_configure_def w1_def app1_def R_def [symmetric])
qed

theorem fullscreen_roundtrip_witness:
  "\<exists>w. map_of (windows (set_window_fullscreen 9 1 False (fst (resize_root_window 1 800 600
      (set_window_fullscreen 5 1 True demo_app))))) 1 = Some w \<and> rw_mode w = Normal \<and> length (rw_sent w) = 2"
  using fullscreen_roundtrip [of demo_app 1 demo_window 9 800 600 5]
  by (auto simp: demo_app_def) (auto simp: demo_window_def)

section \<open>Text input\<close>

lemma synthesize_filter:
  "synthesize_ascii_text wid (filter (\<lambda>c. ascii_keycode c \<noteq> None) s) app = synthesize_ascii_text wid s app"
  by (induction wid s app rule: synthesize_ascii_text.induct) (auto split: option.split)

lemma synthesize_sent: "snd (synthesize_ascii_text wid s app) \<longleftrightarrow> (\<exists>c \<in> set s. ascii_keycode c \<noteq> None)"
  by (induction wid s app rule: synthesize_ascii_text.induct) (auto split: option.split prod.split)

text \<open>
  While the focused client has text inputs but none is enabled, text that mixes
  characters with and without a key is not held back: the characters with a key are typed
  as keys and the others are lost. The effect is exactly that of the text without them,
  although text with no such character at all would have been queued until an input is
  enabled.
\<close>
theorem mixed_text_loses_characters:
  assumes "active_surface (focus_window wid app) = Some surface"
    and "client_inputs surface (focus_window wid app) \<noteq> []"
    and "list_all (\<lambda>i. \<not> ti_enabled i) (client_inputs surface (focus_window wid app))"
    and "\<exists>c \<in> set s. ascii_keycode c \<noteq> None"
  shows "inject_text wid s app = inject_text wid (filter (\<lambda>c. ascii_keycode c \<noteq> None) s) app"
proof -
  let ?f = "filter (\<lambda>c. ascii_keycode c \<noteq> None) s" and ?app = "focus_window wid app"
  have no: "filter ti_enabled (client_inputs surface ?app) = []"
    using assms(3) by (simp add: filter_empty_conv list_all_iff)
  have log: "log_seat [] a = a" for a by (simp add: log_seat_def)
  have wait: "commit_text_input t ?app = (?app, WaitingForEnable)" if "t \<noteq> []" for t
    using that assms(1,2) no by (simp add: commit_text_input_def Let_def log)
  have ne: "s \<noteq> []" "?f \<noteq> []" using assms(4) by (auto simp: filter_empty_conv)
  show ?thesis
    unfolding inject_text_def wait [OF ne(1)] wait [OF ne(2)] synthesize_filter
    using synthesize_sent [of wid s ?app] assms(4) by (cases "synthesize_ascii_text wid s ?app") auto
qed

definition demo_text_app :: App where
  "demo_text_app = demo_app\<lparr>text_inputs := [\<lparr>ti_resource = (1, 9), ti_alive = True, ti_serial = 0, ti_enabled = False,
     ti_pending_enabled = None, ti_focused_surface = Some (1, 5)\<rparr>]\<rparr>"

theorem mixed_text_loses_characters_witness:
  "inject_text 1 [97, 233] demo_text_app = inject_text 1 [97] demo_text_app"
proof -
  have f: "focus_window 1 demo_text_app = log_seat [KeyboardFocus (Some (1, 5)), ClipboardFocus (Some (1, 5))] demo_text_app"
    by (simp add: demo_text_app_def demo_app_def demo_window_def app_start_def focus_window_def window_surface_def Let_def
        log_seat_def set_text_input_focus_def active_surface_def map_text_inputs_def ti_set_focus_def same_client_as_def)
  have a: "active_surface (focus_window 1 demo_text_app) = Some (1, 5)"
      "client_inputs (1, 5) (focus_window 1 demo_text_app) = text_inputs demo_text_app"
    unfolding f
    by (simp_all add: log_seat_def active_surface_def window_surface_def demo_text_app_def demo_app_def
        demo_window_def client_inputs_def same_client_as_def)
  have k: "ascii_keycode 97 = Some (30, False)" "ascii_keycode 233 = None"
    by (simp_all add: ascii_keycode_def)
  have "inject_text 1 [97, 233] demo_text_app
      = inject_text 1 (filter (\<lambda>c. ascii_keycode c \<noteq> None) [97, 233]) demo_text_app"
  proof (rule mixed_text_loses_characters [OF a(1)])
    show "client_inputs (1, 5) (focus_window 1 demo_text_app) \<noteq> []" unfolding a(2) by (simp add: demo_text_app_def)
    show "list_all (\<lambda>i. \<not> ti_enabled i) (client_inputs (1, 5) (focus_window 1 demo_text_app))"
      unfolding a(2) by (simp add: demo_text_app_def)
    show "\<exists>c \<in> set [97, 233]. ascii_keycode c \<noteq> None" by (rule bexI [of _ 97]) (simp_all add: k)
  qed
  moreover have "filter (\<lambda>c. ascii_keycode c \<noteq> None) [97, 233] = [97]" unfolding filter.simps k by simp
  ultimately show ?thesis by simp
qed

section \<open>Pointer targets\<close>

lemma first_hit_Some:
  "first_hit f ks = Some r \<Longrightarrow> \<exists>pre k post. ks = pre @ k # post \<and> f k = Some r \<and> (\<forall>j \<in> set pre. f j = None)"
proof (induction ks)
  case (Cons k ks)
  show ?case
  proof (cases "f k")
    case None
    with Cons obtain pre j post where "ks = pre @ j # post" "f j = Some r" "\<forall>i \<in> set pre. f i = None" by auto
    with None show ?thesis by (intro exI [of _ "k # pre"]) auto
  next
    case (Some r')
    with Cons.prems show ?thesis by (intro exI [of _ "[]"]) auto
  qed
qed simp

lemma first_hit_None: "first_hit f ks = None \<longleftrightarrow> (\<forall>k \<in> set ks. f k = None)"
  by (induction ks) (auto split: option.splits)

definition contains_point :: "PopupRoute \<Rightarrow> i32 \<Rightarrow> i32 \<Rightarrow> bool" where
  "contains_point r x y \<longleftrightarrow> sint (pr_x r) \<le> sint x \<and> sint x < sint (i32_saturating_add (pr_x r) (pr_width r))
     \<and> sint (pr_y r) \<le> sint y \<and> sint y < sint (i32_saturating_add (pr_y r) (pr_height r))"

lemma popup_hit_Some:
  "popup_hit app wid x y k = Some (s, ox, oy, px, py) \<longleftrightarrow> s = k \<and> (\<exists>r. map_of (popup_routes app) k = Some r
     \<and> k \<in> fst ` set (current_buffers app) \<and> pr_window_id r = wid \<and> contains_point r x y
     \<and> ox = pr_x r \<and> oy = pr_y r \<and> px = x \<and> py = y)"
  by (auto simp: popup_hit_def popup_route_is_pointer_candidate_def contains_point_def Let_def
      split: option.splits if_splits)

lemma clamp_inside:
  assumes "n \<noteq> 0" and "unat n < 2 ^ 31"
  shows "0 \<le> sint (i32_clamp x 0 (saturating_sub n 1)) \<and> sint (i32_clamp x 0 (saturating_sub n 1)) < int (unat n)
    \<and> (0 \<le> sint x \<and> sint x < int (unat n) \<longrightarrow> i32_clamp x 0 (saturating_sub n 1) = x)"
proof -
  have "unat n \<noteq> 0" using assms(1) by (simp add: unat_eq_zero)
  then have pos: "1 \<le> int (unat n)" by linarith
  have "unat (saturating_sub n 1) = unat n - 1" by (simp add: unat_saturating_sub)
  then have "int (unat (saturating_sub n 1)) = int (unat n) - 1" using pos by linarith
  then have u: "uint (saturating_sub n 1) = int (unat n) - 1" by simp
  have "sint (saturating_sub n 1) = signed_take_bit 31 (int (unat n) - 1)" by (simp only: sint_uint u) simp
  also have "\<dots> = int (unat n) - 1"
  proof (rule signed_take_bit_int_eq_self)
    have "int (unat n) < int (2 ^ 31)" using assms(2) by (simp only: of_nat_less_iff)
    then show "int (unat n) - 1 < 2 ^ 31" by simp
    show "- (2 ^ 31) \<le> int (unat n) - 1" using pos by simp
  qed
  finally show ?thesis using pos by (auto simp: i32_clamp_def)
qed

text \<open>
  A pointer event goes to the topmost popup of the window that is mapped and contains the
  point, where popups are stacked in the order they were opened, with the point unchanged;
  if there is none it goes to the window, at the point clamped into it. In a reachable state
  the clamp's bounds are in order and the target lies inside the window.
\<close>
theorem pointer_target_topmost:
  assumes "app_inv app" and "pointer_target_at app wid x y = Some (s, ox, oy, px, py)"
  shows "(\<exists>below above r. popup_order app = below @ s # above \<and> map_of (popup_routes app) s = Some r
        \<and> s \<in> fst ` set (current_buffers app) \<and> pr_window_id r = wid \<and> contains_point r x y
        \<and> ox = pr_x r \<and> oy = pr_y r \<and> px = x \<and> py = y
        \<and> (\<forall>k \<in> set above. popup_hit app wid x y k = None))
    \<or> (\<exists>w. map_of (windows app) wid = Some w \<and> s = rw_surface w \<and> ox = 0 \<and> oy = 0
        \<and> (\<forall>k \<in> set (popup_order app). popup_hit app wid x y k = None)
        \<and> 0 \<le> sint px \<and> sint px < int (unat (fst (rw_size w)))
        \<and> 0 \<le> sint py \<and> sint py < int (unat (snd (rw_size w)))
        \<and> (0 \<le> sint x \<and> sint x < int (unat (fst (rw_size w))) \<longrightarrow> px = x)
        \<and> (0 \<le> sint y \<and> sint y < int (unat (snd (rw_size w))) \<longrightarrow> py = y))"
proof (cases "first_hit (popup_hit app wid x y) (rev (popup_order app))")
  case (Some hit)
  with assms(2) have hit: "hit = (s, ox, oy, px, py)" by (simp add: pointer_target_at_def)
  from first_hit_Some [OF Some] obtain pre k post where
    k: "rev (popup_order app) = pre @ k # post" "popup_hit app wid x y k = Some hit"
      "\<forall>j \<in> set pre. popup_hit app wid x y j = None" by blast
  have "popup_order app = rev (pre @ k # post)" using k(1) by (metis rev_rev_ident)
  then have "popup_order app = rev post @ k # rev pre" by simp
  with k hit popup_hit_Some show ?thesis by (intro disjI1) (metis set_rev)
next
  case None
  with assms(2) obtain w where w: "map_of (windows app) wid = Some w" "s = rw_surface w" "ox = 0" "oy = 0"
      "px = i32_clamp x 0 (saturating_sub (fst (rw_size w)) 1)"
      "py = i32_clamp y 0 (saturating_sub (snd (rw_size w)) 1)"
    by (auto simp: pointer_target_at_def split: option.splits)
  have ok: "nonzero (rw_size w)" "small (rw_size w)"
    using window_ok_of [OF assms(1) w(1)] by (simp_all add: window_ok_def)
  have none: "\<forall>k \<in> set (popup_order app). popup_hit app wid x y k = None"
    using None by (simp add: first_hit_None)
  from clamp_inside [of "fst (rw_size w)" x] clamp_inside [of "snd (rw_size w)" y] ok
  show ?thesis using w none by (intro disjI2 exI [of _ w]) (simp add: nonzero_def small_def)
qed

theorem pointer_target_topmost_witness:
  "\<exists>s. pointer_target_at (run app_step (app_start 800 600) [NewToplevel (1, 5) [] []]) 1 0 0 = Some (s, 0, 0, 0, 0)
     \<and> s = (1, 5)"
proof -
  let ?app = "run app_step (app_start 800 600) [NewToplevel (1, 5) [] []]"
  have e: "popup_order ?app = []" "\<exists>w. map_of (windows ?app) 1 = Some w \<and> rw_surface w = (1, 5) \<and> rw_size w = (1, 1)"
    by (simp_all add: app_start_def new_toplevel_def Let_def focus_window_def window_surface_def
        set_toplevel_activation_def log_seat_def set_text_input_focus_def active_surface_def map_text_inputs_def
        enqueue_message_def send_configure_def)
  then obtain w where w: "map_of (windows ?app) 1 = Some w" "rw_surface w = (1, 5)" "rw_size w = (1, 1)" by blast
  have "app_inv ?app" by (rule wayland.run_keeps [OF app_start_inv])
  moreover have "pointer_target_at ?app 1 0 0 = Some ((1, 5), 0, 0, 0, 0)"
    using e(1) w by (simp add: pointer_target_at_def i32_clamp_def saturating_sub_def)
  ultimately show ?thesis
    using pointer_target_topmost [of ?app 1 0 0 "(1, 5)" 0 0 0 0] by blast
qed

section \<open>Commits\<close>

text \<open>What a commit gives back to the guest: frame callbacks and released buffers.\<close>

definition acks :: "App \<Rightarrow> ObjectId list \<times> BufferId list" where
  "acks app = (frame_callbacks app, released app)"

named_theorems ack_simps "operations that give nothing back to the guest"

lemma ack_fields [ack_simps]:
  "acks (app\<lparr>popup_routes := r\<rparr>) = acks app" "acks (app\<lparr>popup_order := po\<rparr>) = acks app"
  "acks (app\<lparr>current_buffers := cb\<rparr>) = acks app" "acks (app\<lparr>child_surface_window := cw\<rparr>) = acks app"
  "acks (app\<lparr>child_surfaces := cs\<rparr>) = acks app" "acks (app\<lparr>child_surface_last_rect := cr\<rparr>) = acks app"
  "acks (app\<lparr>commit_count := n\<rparr>) = acks app" "acks (app\<lparr>frame_count := n\<rparr>) = acks app"
  "acks (enqueue_message m app) = acks app" "acks (set_window wid w app) = acks app"
  by (simp_all add: acks_def enqueue_message_def set_window_def)

lemma ack_ops [ack_simps]:
  "acks (update_popup_size s width height app) = acks app"
  "acks (fst (remove_popup_route_for_surface s app)) = acks app"
  "acks (fst (resize_root_window wid width height app)) = acks app"
  "acks (clear_child_surface_tracking k app) = acks app"
  "acks (note_child_rect k rect app) = acks app"
  "acks (repaint_window_from_cached_buffer env wid app) = acks app"
  by (simp_all add: update_popup_size_def remove_popup_route_for_surface_def resize_root_window_def
      clear_child_surface_tracking_def note_child_rect_def repaint_window_from_cached_buffer_def Let_def ack_simps
      split: option.split sum.split)

lemma ack_repaint_child: "acks (fst (repaint_child env wid bounds k acc)) = acks (fst acc)"
  by (auto simp: repaint_child_def Let_def ack_simps split_beta split: option.split sum.split)

lemma ack_folds:
  "acks (fst (fold (repaint_child env wid bounds) ks acc)) = acks (fst acc)"
  "acks (fold (\<lambda>t. enqueue_message (Message.FrameTile t)) tiles app) = acks app"
  by (induction ks arbitrary: acc, simp_all add: ack_repaint_child)
    (induction tiles arbitrary: app, simp_all add: ack_simps)

lemma ack_repaint_moved [ack_simps]: "acks (repaint_moved_child_surfaces env wid first app) = acks app"
  by (simp add: repaint_moved_child_surfaces_def Let_def split_beta ack_folds ack_simps split: option.split)

lemma ack_commit_tile [ack_simps]: "acks (commit_tile env s wid ox oy root ch prev tile app) = acks app"
  by (simp add: commit_tile_def Let_def split_beta ack_simps split: option.split)

text \<open>The capture of the committed buffer fails.\<close>

definition capture_fails :: "guest_env \<Rightarrow> ObjectId \<Rightarrow> BufferId \<Rightarrow> App \<Rightarrow> bool" where
  "capture_fails env s b app \<longleftrightarrow>
     (case surface_window_offset app 0 0 (tree env s) of
        None \<Rightarrow> False
      | Some (wid, ox, oy) \<Rightarrow>
          (case captured env b wid ox oy (if is_root_surface_for_window app s wid then None
               else map_option rw_size (map_of (windows app) wid)) of Inl _ \<Rightarrow> True | Inr _ \<Rightarrow> False))"

lemma copy_committed_acks:
  "acks (fst (copy_committed_shm_buffer env s b d wid ox oy app)) =
     (frame_callbacks app, released app @ (case b of
        NewBuffer x \<Rightarrow> (case captured env x wid ox oy (if is_root_surface_for_window app s wid then None
            else map_option rw_size (map_of (windows app) wid)) of Inl _ \<Rightarrow> [] | Inr _ \<Rightarrow> [x])
      | _ \<Rightarrow> []))"
  by (cases b) (auto simp: copy_committed_shm_buffer_def Let_def acks_def is_root_surface_for_window_def
      split: option.split sum.split)

lemma offset_ignores_counts [simp]:
  "surface_window_offset (app\<lparr>commit_count := c\<rparr>) x y chain = surface_window_offset app x y chain"
  by (induction app x y chain rule: surface_window_offset.induct) (auto split: option.split)


text \<open>
  A child surface that moved or changed its size since its last commit is drawn over a
  fresh parent: the commit sends the parent's cached buffer first and the child's tile right
  after it, and nothing else. The child's new rectangle is remembered.
\<close>
theorem moved_child_over_fresh_parent:
  assumes "surface_window_offset app 0 0 (tree env s) = Some (wid, ox, oy)"
    and "\<not> is_root_surface_for_window app s wid"
    and "map_of (windows app) wid = Some w" and "rw_surface w \<noteq> s"
    and "map_of (current_buffers app) (rw_surface w) = Some parent"
    and "captured env parent wid 0 0 None = Inr (Some parent_tile)"
    and "captured env b wid ox oy (Some (rw_size w)) = Inr (Some tile)"
    and "map_of (child_surface_last_rect app) s = Some prev"
    and "prev \<noteq> (ox, oy, tile_w tile, tile_h tile)"
  shows "tx (commit env s (NewBuffer b) d app)
      = tx app @ [Message.FrameTile parent_tile, Message.FrameTile tile]
    \<and> map_of (child_surface_last_rect (commit env s (NewBuffer b) d app)) s
      = Some (ox, oy, tile_w tile, tile_h tile)"
proof -
  have parent: "repaint_window_from_cached_buffer env wid a = enqueue_message (Message.FrameTile parent_tile) a"
    if "windows a = windows app" "map_of (current_buffers a) (rw_surface w) = Some parent" for a
    using that assms(3,6) by (simp add: repaint_window_from_cached_buffer_def window_surface_def)
  have size: "windows (update_popup_size s a c p) = windows p \<and> current_buffers (update_popup_size s a c p) = current_buffers p
      \<and> tx (update_popup_size s a c p) = tx p
      \<and> child_surface_last_rect (update_popup_size s a c p) = child_surface_last_rect p" for a c p
    by (simp add: update_popup_size_def split: option.split)
  have root: "\<not> (ox = 0 \<and> oy = 0 \<and> is_root_surface_for_window app s wid)" using assms(2) by simp
  show ?thesis
    using assms root
    by (simp add: commit_def Let_def copy_committed_shm_buffer_def commit_tile_def is_root_surface_for_window_def
        note_child_rect_def parent size send_frame_callbacks_def enqueue_message_def update_conv')
qed

definition demo_env :: guest_env where
  "demo_env = \<lparr>tree = (\<lambda>s. if s = (1, 6) then [((1, 6), 3, 4), ((1, 5), 0, 0)] else []),
     shm = (\<lambda>b. Some demo_buffer)\<rparr>"

definition demo_child_app :: App where
  "demo_child_app = demo_app\<lparr>current_buffers := [((1, 5), 0)], child_surface_window := [((1, 6), 1)],
     child_surfaces := [(1, 6)], child_surface_last_rect := [((1, 6), (0, 0, 2, 1))]\<rparr>"

lemma demo_captures:
  "\<exists>t. captured demo_env 0 1 0 0 None = Inr (Some t)"
  "\<exists>t. captured demo_env 7 1 3 4 (Some (640, 480)) = Inr (Some t)"
proof -
  define d where "d = fst demo_buffer"
  have d: "demo_buffer = (d, snd demo_buffer)" "bd_width d = 2" "bd_height d = 1" "bd_format d = Argb8888"
    by (simp_all add: d_def demo_buffer_def)
  have ok: "buffer_ok (d, snd demo_buffer)" "supported (bd_format d)"
    by (simp_all add: d_def buffer_ok_def demo_buffer_def supported_def)
  note c = captured_tile [OF ok, unfolded d(1) [symmetric] d(2,3)]
  have "\<exists>r. surface_copy_rect_with_bounds 2 1 0 0 None = Some r"
      "\<exists>r. surface_copy_rect_with_bounds 2 1 3 4 (Some (640, 480)) = Some r"
    by (simp_all add: surface_copy_rect_with_bounds_def Let_def unsigned_abs_if_neg_def nonneg_part_def word_le_nat_alt
        min_def)
  then show "\<exists>t. captured demo_env 0 1 0 0 None = Inr (Some t)"
      "\<exists>t. captured demo_env 7 1 3 4 (Some (640, 480)) = Inr (Some t)"
    using c [where ox = 0 and oy = 0 and bounds = None and wid = 1]
      c [where ox = 3 and oy = 4 and bounds = "Some (640, 480)" and wid = 1]
    by (auto simp: captured_def demo_env_def copy_shm_buffer_def copy_shm_buffer_clipped_def)
qed

theorem moved_child_over_fresh_parent_witness:
  "\<exists>p t. tx (commit demo_env (1, 6) (NewBuffer 7) 0 demo_child_app) = [Message.FrameTile p, Message.FrameTile t]"
proof -
  obtain p t where pt: "captured demo_env 0 1 0 0 None = Inr (Some p)"
      "captured demo_env 7 1 3 4 (Some (640, 480)) = Inr (Some t)"
    using demo_captures by blast
  have "tx (commit demo_env (1, 6) (NewBuffer 7) 0 demo_child_app)
      = tx demo_child_app @ [Message.FrameTile p, Message.FrameTile t]
    \<and> map_of (child_surface_last_rect (commit demo_env (1, 6) (NewBuffer 7) 0 demo_child_app)) (1, 6)
      = Some (3, 4, tile_w t, tile_h t)"
    by (rule moved_child_over_fresh_parent [where w = demo_window and parent = 0 and prev = "(0, 0, 2, 1)" and wid = 1])
      (use pt in \<open>simp_all add: demo_child_app_def demo_app_def demo_window_def demo_env_def app_start_def
        is_root_surface_for_window_def i32_saturating_add_def i32_of_def i32_max_def\<close>)
  then show ?thesis by (auto simp: demo_child_app_def demo_app_def app_start_def)
qed

end
