(* ===== verification/Clipboard_Sync.thy ===== *)
theory Clipboard_Sync
  imports Proto
begin

text \<open>
  Clipboard synchronisation: the bridge of the client, \<open>crates/client/src/clipboard.rs\<close>, and
  the compositor's side, \<open>wayland_session/host_clipboard.rs\<close>, \<open>wayland_session/clipboard.rs\<close>
  and the selection handlers of \<open>wayland_session/mod.rs\<close>.

  The two threads of the bridge share the caches of the bridge's record. What the pasteboard
  answers to a poll is an argument of the poller; what the installer writes to it is logged.
  The threads that drain a guest's pipe are a list of pending readers, which may finish in any
  order. The two directions of the connection are FIFO queues, so the whole is a system whose
  events are polls, deliveries, selections and finished readers.
\<close>

section \<open>UTF-8 decoding\<close>

definition continuation :: "u8 \<Rightarrow> bool" where
  "continuation b \<longleftrightarrow> 0x80 \<le> unat b \<and> unat b < 0xC0"

definition low6 :: "u8 \<Rightarrow> nat" where
  "low6 b = unat b - 0x80"

text \<open>\<open>String::from_utf8\<close>: overlong forms, surrogates and values above \<open>0x10FFFF\<close> are refused.\<close>

fun from_utf8 :: "u8 list \<Rightarrow> ustring option" where
  "from_utf8 [] = Some []"
| "from_utf8 (b0 # bs) =
     (if unat b0 < 0x80 then map_option (Cons (unat b0)) (from_utf8 bs)
      else if 0xC0 \<le> unat b0 \<and> unat b0 < 0xE0 then
        (case bs of
           b1 # rest \<Rightarrow>
             let c = (unat b0 - 0xC0) * 64 + low6 b1 in
             if continuation b1 \<and> 0x80 \<le> c then map_option (Cons c) (from_utf8 rest) else None
         | _ \<Rightarrow> None)
      else if 0xE0 \<le> unat b0 \<and> unat b0 < 0xF0 then
        (case bs of
           b1 # b2 # rest \<Rightarrow>
             let c = (unat b0 - 0xE0) * 4096 + low6 b1 * 64 + low6 b2 in
             if continuation b1 \<and> continuation b2 \<and> 0x800 \<le> c \<and> is_scalar c
             then map_option (Cons c) (from_utf8 rest) else None
         | _ \<Rightarrow> None)
      else if 0xF0 \<le> unat b0 \<and> unat b0 < 0xF8 then
        (case bs of
           b1 # b2 # b3 # rest \<Rightarrow>
             let c = (unat b0 - 0xF0) * 262144 + low6 b1 * 4096 + low6 b2 * 64 + low6 b3 in
             if continuation b1 \<and> continuation b2 \<and> continuation b3 \<and> 0x10000 \<le> c \<and> is_scalar c
             then map_option (Cons c) (from_utf8 rest) else None
         | _ \<Rightarrow> None)
      else None)"

lemma unat_of_nat8: "n < 256 \<Longrightarrow> unat (of_nat n :: u8) = n"
  by (simp add: unat_of_nat take_bit_nat_eq_self)

lemma continuation_low: "n < 64 \<Longrightarrow> continuation (of_nat (0x80 + n)) \<and> low6 (of_nat (0x80 + n)) = n"
  by (simp add: continuation_def low6_def unat_of_nat8 del: of_nat_add)

lemma div_split3: "c div 4096 * 4096 + c div 64 mod 64 * 64 + c mod 64 = c" for c :: nat
proof -
  have "c div 4096 = c div 64 div 64" by (simp add: div_mult2_eq [symmetric])
  then show ?thesis using div_mult_mod_eq [of "c div 64" 64] div_mult_mod_eq [of c 64] by linarith
qed

lemma div_split4: "c div 262144 * 262144 + c div 4096 mod 64 * 4096 + c div 64 mod 64 * 64 + c mod 64 = c" for c :: nat
proof -
  have "c div 262144 = c div 4096 div 64" by (simp add: div_mult2_eq [symmetric])
  then show ?thesis using div_mult_mod_eq [of "c div 4096" 64] div_split3 [of c] by linarith
qed

lemma from_utf8_char:
  assumes "is_scalar c"
  shows "from_utf8 (utf8_char c @ rest) = map_option (Cons c) (from_utf8 rest)"
proof -
  note low = continuation_low [of "c mod 64"] continuation_low [of "c div 64 mod 64"] continuation_low [of "c div 4096 mod 64"]
  consider "c < 0x80" | "0x80 \<le> c" "c < 0x800" | "0x800 \<le> c" "c < 0x10000" | "0x10000 \<le> c" "c < 0x110000"
    using assms unfolding is_scalar_def by linarith
  then show ?thesis
  proof cases
    case 1
    then show ?thesis by (simp add: utf8_char_def unat_of_nat8)
  next
    case 2
    then have lead: "c div 64 < 32" by simp
    with 2 low show ?thesis
      using div_mult_mod_eq [of c 64]
      by (simp add: utf8_char_def unat_of_nat8 Let_def lead del: of_nat_add)
  next
    case 3
    then have lead: "c div 4096 < 16" by simp
    with 3 low assms show ?thesis
      using div_split3 [of c] by (simp add: utf8_char_def unat_of_nat8 Let_def lead del: of_nat_add)
  next
    case 4
    then have lead: "c div 262144 < 8" by simp
    with 4 low assms show ?thesis
      using div_split4 [of c] by (simp add: utf8_char_def unat_of_nat8 Let_def lead del: of_nat_add)
  qed
qed

lemma from_utf8_as_bytes: "list_all is_scalar s \<Longrightarrow> from_utf8 (as_bytes s) = Some s"
  by (induction s) (simp_all add: as_bytes_def from_utf8_char)

section \<open>The compositor's side\<close>

record HostClipboard =
  hc_text :: "ustring option"
  hc_last_serial :: u64

text \<open>
  The clipboard part of the compositor's state: the mirror of the host's text, the serial of
  the guest's selections, the selections offered to the guest (their MIME types), the reader
  threads that have not finished (serial and requested MIME type), and the frames sent.
\<close>

record guest_clip =
  host_clipboard :: HostClipboard
  guest_clipboard_serial :: u64
  offered :: "ustring list list"
  readers :: "(u64 \<times> ustring) list"
  clip_tx :: "Clipboard list"

definition guest_clip_start :: guest_clip where
  "guest_clip_start = \<lparr>host_clipboard = \<lparr>hc_text = None, hc_last_serial = 0\<rparr>, guest_clipboard_serial = 0,
     offered = [], readers = [], clip_tx = []\<rparr>"

definition apply_host_clipboard :: "Clipboard \<Rightarrow> guest_clip \<Rightarrow> guest_clip" where
  "apply_host_clipboard payload g =
     (if clip_origin payload \<noteq> Host then g
      else if utf8_len (clip_text payload) > MAX_CLIPBOARD_TEXT_BYTES then g
      else if clip_serial payload \<le> hc_last_serial (host_clipboard g) \<and> hc_text (host_clipboard g) \<noteq> None then g
      else g\<lparr>host_clipboard := \<lparr>hc_text = Some (clip_text payload), hc_last_serial = clip_serial payload\<rparr>,
             offered := offered g @ [TEXT_MIME_TYPES]\<rparr>)"

datatype SelectionTarget = ClipboardTarget | PrimaryTarget

text \<open>
  A new guest selection; \<open>source\<close> is the list of MIME types it offers, \<open>pipe_ok\<close> and
  \<open>request_ok\<close> say whether the pipe and the request to the source succeed.
\<close>

definition new_selection :: "SelectionTarget \<Rightarrow> ustring list option \<Rightarrow> bool \<Rightarrow> bool \<Rightarrow> guest_clip \<Rightarrow> guest_clip" where
  "new_selection ty source pipe_ok request_ok g =
     (if ty \<noteq> ClipboardTarget then g
      else
        (case source of
           None \<Rightarrow> g
         | Some mime_types \<Rightarrow>
             (case find is_text_mime mime_types of
                None \<Rightarrow> g
              | Some mime \<Rightarrow>
                  if \<not> pipe_ok then g
                  else if \<not> request_ok then g
                  else
                    let serial = saturating_add (guest_clipboard_serial g) 1
                    in g\<lparr>guest_clipboard_serial := serial, readers := readers g @ [(serial, mime)]\<rparr>)))"

text \<open>The reader thread, given a read error or all the bytes the source writes to the pipe.\<close>

definition read_guest_text_selection :: "u64 \<Rightarrow> unit + u8 list \<Rightarrow> Clipboard option" where
  "read_guest_text_selection serial input =
     (case input of
        Inl _ \<Rightarrow> None
      | Inr bytes \<Rightarrow>
          let buf = take (MAX_CLIPBOARD_TEXT_BYTES + 1) bytes in
          if length buf > MAX_CLIPBOARD_TEXT_BYTES then None
          else
            (case from_utf8 buf of
               None \<Rightarrow> None
             | Some t \<Rightarrow> Some \<lparr>clip_origin = Guest, clip_serial = serial, clip_text = t\<rparr>))"

text \<open>A guest pastes: the bytes written to its pipe, \<open>None\<close> when it is closed without any.\<close>

definition send_selection :: "SelectionTarget \<Rightarrow> ustring \<Rightarrow> guest_clip \<Rightarrow> u8 list option" where
  "send_selection ty mime_type g =
     (if ty \<noteq> ClipboardTarget then None
      else if \<not> is_text_mime mime_type then None
      else (case hc_text (host_clipboard g) of None \<Rightarrow> None | Some t \<Rightarrow> Some (as_bytes t)))"

section \<open>The client's bridge\<close>

record clip_bridge =
  last_installed_from_guest :: "ustring option"
  last_sent_to_guest :: "ustring option"
  last_change_count :: "int option"
  poll_serial :: u64
  poller_done :: bool
  pasteboard_writes :: "ustring list"
  outbound :: "Clipboard list"

definition clip_bridge_start :: clip_bridge where
  "clip_bridge_start = \<lparr>last_installed_from_guest = None, last_sent_to_guest = None, last_change_count = None,
     poll_serial = 0, poller_done = False, pasteboard_writes = [], outbound = []\<rparr>"

definition installer :: "Clipboard \<Rightarrow> clip_bridge \<Rightarrow> clip_bridge" where
  "installer payload c =
     (if clip_origin payload \<noteq> Guest then c
      else if utf8_len (clip_text payload) > MAX_CLIPBOARD_TEXT_BYTES then c
      else if last_sent_to_guest c = Some (clip_text payload) then c
      else c\<lparr>pasteboard_writes := pasteboard_writes c @ [clip_text payload],
             last_installed_from_guest := Some (clip_text payload)\<rparr>)"

definition read_pasteboard_text_if_changed :: "int option \<Rightarrow> int \<Rightarrow> ustring option \<Rightarrow> (int \<times> ustring) option" where
  "read_pasteboard_text_if_changed prev_count pb_count pb_text =
     (if prev_count = Some pb_count then None else map_option (Pair pb_count) pb_text)"

text \<open>
  One round of the poller; \<open>pb_count\<close> and \<open>pb_text\<close> are the pasteboard's answers, \<open>open_tx\<close>
  says whether the network's end of the channel still exists.
\<close>

definition poller :: "int \<Rightarrow> ustring option \<Rightarrow> bool \<Rightarrow> clip_bridge \<Rightarrow> clip_bridge" where
  "poller pb_count pb_text open_tx c =
     (if poller_done c then c
      else
        (case read_pasteboard_text_if_changed (last_change_count c) pb_count pb_text of
           None \<Rightarrow> c
         | Some (n, t) \<Rightarrow>
             let c = c\<lparr>last_change_count := Some n\<rparr> in
             if utf8_len t > MAX_CLIPBOARD_TEXT_BYTES then c
             else if last_installed_from_guest c = Some t then c
             else
               let serial = saturating_add (poll_serial c) 1;
                   c = c\<lparr>last_sent_to_guest := Some t, poll_serial := serial\<rparr>
               in if open_tx
                  then c\<lparr>outbound := outbound c @ [\<lparr>clip_origin = Host, clip_serial = serial, clip_text = t\<rparr>]\<rparr>
                  else c\<lparr>poller_done := True\<rparr>))"

text \<open>The decisions of the two loops, as the source states them for its tests.\<close>

definition should_relay_to_guest :: "ustring \<Rightarrow> ustring option \<Rightarrow> bool" where
  "should_relay_to_guest t installed =
     (if utf8_len t > MAX_CLIPBOARD_TEXT_BYTES then False else installed \<noteq> Some t)"

definition should_install_from_guest :: "Clipboard \<Rightarrow> ustring option \<Rightarrow> bool" where
  "should_install_from_guest payload sent =
     (if clip_origin payload \<noteq> Guest then False
      else if utf8_len (clip_text payload) > MAX_CLIPBOARD_TEXT_BYTES then False
      else sent \<noteq> Some (clip_text payload))"

definition pasteboard_change_detected :: "int option \<Rightarrow> int \<Rightarrow> int option" where
  "pasteboard_change_detected prev_count current_count =
     (if prev_count = Some current_count then None else Some current_count)"

definition next_outbound_serial :: "u64 \<Rightarrow> u64" where
  "next_outbound_serial prev = saturating_add prev 1"

section \<open>The system\<close>

record clip_sys =
  host :: clip_bridge
  guest :: guest_clip

datatype clip_event =
    HostPoll int "ustring option"
  | DeliverToGuest
  | GuestSelect SelectionTarget "ustring list option" bool bool
  | ReaderDone u64 "unit + u8 list"
  | DeliverToHost

fun clip_step :: "clip_event \<Rightarrow> clip_sys \<Rightarrow> clip_sys" where
  "clip_step (HostPoll n t) s = s\<lparr>host := poller n t True (host s)\<rparr>"
| "clip_step DeliverToGuest s =
     (case outbound (host s) of
        [] \<Rightarrow> s
      | m # ms \<Rightarrow> s\<lparr>host := (host s)\<lparr>outbound := ms\<rparr>, guest := apply_host_clipboard m (guest s)\<rparr>)"
| "clip_step (GuestSelect ty source pipe_ok request_ok) s =
     s\<lparr>guest := new_selection ty source pipe_ok request_ok (guest s)\<rparr>"
| "clip_step (ReaderDone serial input) s =
     (let g = guest s in
      if serial \<in> set (map fst (readers g)) then
        s\<lparr>guest := g\<lparr>readers := filter (\<lambda>r. fst r \<noteq> serial) (readers g),
            clip_tx := clip_tx g @ (case read_guest_text_selection serial input of None \<Rightarrow> [] | Some m \<Rightarrow> [m])\<rparr>\<rparr>
      else s)"
| "clip_step DeliverToHost s =
     (case clip_tx (guest s) of
        [] \<Rightarrow> s
      | m # ms \<Rightarrow> s\<lparr>guest := (guest s)\<lparr>clip_tx := ms\<rparr>, host := installer m (host s)\<rparr>)"

definition clip_start :: clip_sys where
  "clip_start = \<lparr>host = clip_bridge_start, guest = guest_clip_start\<rparr>"

section \<open>From the host to the guest\<close>

lemma loops_follow_helpers:
  "installer payload c =
     (if should_install_from_guest payload (last_sent_to_guest c)
      then c\<lparr>pasteboard_writes := pasteboard_writes c @ [clip_text payload],
             last_installed_from_guest := Some (clip_text payload)\<rparr>
      else c)"
  "poller n (Some t) True c =
     (if poller_done c then c
      else
        (case pasteboard_change_detected (last_change_count c) n of
           None \<Rightarrow> c
         | Some n' \<Rightarrow>
             if should_relay_to_guest t (last_installed_from_guest c)
             then c\<lparr>last_change_count := Some n', last_sent_to_guest := Some t,
                    poll_serial := next_outbound_serial (poll_serial c),
                    outbound := outbound c @ [\<lparr>clip_origin = Host, clip_serial = next_outbound_serial (poll_serial c), clip_text = t\<rparr>]\<rparr>
             else c\<lparr>last_change_count := Some n'\<rparr>))"
  by (simp_all add: installer_def should_install_from_guest_def poller_def read_pasteboard_text_if_changed_def
      pasteboard_change_detected_def should_relay_to_guest_def next_outbound_serial_def Let_def)

text \<open>
  The invariant of the host's direction after at most \<open>n\<close> polls: the queued frames are of the
  host, within the size limit, with increasing serials above the last one the guest took, and
  the last text sent is in the last queued frame or, when the queue is empty, installed.
\<close>

definition in_transit :: "u64 \<Rightarrow> u64 \<Rightarrow> Clipboard list \<Rightarrow> bool" where
  "in_transit lo hi q \<longleftrightarrow> lo \<le> hi \<and> sorted_wrt (<) (map clip_serial q)
     \<and> (\<forall>m \<in> set q. clip_origin m = Host \<and> utf8_len (clip_text m) \<le> MAX_CLIPBOARD_TEXT_BYTES
          \<and> lo < clip_serial m \<and> clip_serial m \<le> hi)"

definition to_guest_inv :: "nat \<Rightarrow> clip_sys \<Rightarrow> bool" where
  "to_guest_inv n s \<longleftrightarrow> unat (poll_serial (host s)) \<le> n
     \<and> in_transit (hc_last_serial (host_clipboard (guest s))) (poll_serial (host s)) (outbound (host s))
     \<and> last_sent_to_guest (host s) = (if outbound (host s) = [] then hc_text (host_clipboard (guest s))
         else Some (clip_text (last (outbound (host s)))))"

lemma serial_next: "unat s < 2 ^ 64 - 1 \<Longrightarrow> s < saturating_add s 1 \<and> unat (saturating_add s 1) = Suc (unat s)" for s :: u64
  by (simp add: word_less_nat_alt unat_saturating_add)

lemma in_transit_send:
  assumes "in_transit lo hi q" and "hi < k" and "clip_origin m = Host"
    and "utf8_len (clip_text m) \<le> MAX_CLIPBOARD_TEXT_BYTES" and "clip_serial m = k"
  shows "in_transit lo k (q @ [m])"
  using assms by (auto simp: in_transit_def sorted_wrt_append)

lemma in_transit_receive:
  "in_transit lo hi (m # q) \<Longrightarrow> in_transit (clip_serial m) hi q"
  by (auto simp: in_transit_def)

lemma clip_step_inv:
  assumes "to_guest_inv n s" and "n < 2 ^ 64 - 1"
  shows "to_guest_inv (Suc n) (clip_step e s)"
proof (cases e)
  case (HostPoll k t)
  show ?thesis
    using assms serial_next [of "poll_serial (host s)"]
    by (auto simp: HostPoll to_guest_inv_def poller_def read_pasteboard_text_if_changed_def Let_def
        intro: in_transit_send split: option.split)
next
  case DeliverToGuest
  show ?thesis
  proof (cases "outbound (host s)")
    case (Cons m ms)
    then have "apply_host_clipboard m (guest s) = (guest s)
        \<lparr>host_clipboard := \<lparr>hc_text = Some (clip_text m), hc_last_serial = clip_serial m\<rparr>,
         offered := offered (guest s) @ [TEXT_MIME_TYPES]\<rparr>"
      using assms by (auto simp: apply_host_clipboard_def to_guest_inv_def in_transit_def)
    with Cons assms show ?thesis
      by (auto simp: DeliverToGuest to_guest_inv_def dest: in_transit_receive)
  qed (use assms in \<open>simp add: DeliverToGuest to_guest_inv_def\<close>)
next
  case (GuestSelect ty source pipe_ok request_ok)
  then show ?thesis
    using assms by (auto simp: to_guest_inv_def new_selection_def Let_def split: option.split)
next
  case (ReaderDone serial input)
  then show ?thesis using assms by (auto simp: to_guest_inv_def Let_def)
next
  case DeliverToHost
  then show ?thesis using assms by (auto simp: to_guest_inv_def installer_def split: list.split)
qed

lemma to_guest_reachable:
  "length evs < 2 ^ 64 \<Longrightarrow> to_guest_inv (length evs) (fold clip_step evs clip_start)"
proof (induction evs rule: rev_induct)
  case Nil
  show ?case
    by (simp add: to_guest_inv_def in_transit_def clip_start_def clip_bridge_start_def guest_clip_start_def)
next
  case (snoc e evs)
  then show ?case using clip_step_inv [of "length evs" "fold clip_step evs clip_start" e] by simp
qed

section \<open>Properties\<close>



lemma select_and_read:
  assumes "find is_text_mime mimes = Some m" and "list_all is_scalar t" and "utf8_len t \<le> MAX_CLIPBOARD_TEXT_BYTES"
    and "readers (guest s) = []"
  shows "fold clip_step [GuestSelect ClipboardTarget (Some mimes) True True,
      ReaderDone (saturating_add (guest_clipboard_serial (guest s)) 1) (Inr (as_bytes t))] s
    = s\<lparr>guest := (guest s)\<lparr>guest_clipboard_serial := saturating_add (guest_clipboard_serial (guest s)) 1,
        clip_tx := clip_tx (guest s) @ [\<lparr>clip_origin = Guest,
          clip_serial = saturating_add (guest_clipboard_serial (guest s)) 1, clip_text = t\<rparr>]\<rparr>\<rparr>"
  using assms
  by (simp add: new_selection_def Let_def read_guest_text_selection_def length_as_bytes from_utf8_as_bytes)

text \<open>
  C37: Guest to host: when a guest application copies a text of Unicode scalar values within
  the size limit and offers it under a text type, and nothing else is under way, the host's
  pasteboard receives exactly that text, unless it is the text the client relayed last.
\<close>
theorem guest_text_installed:
  assumes "find is_text_mime mimes = Some m" and "list_all is_scalar t" and "utf8_len t \<le> MAX_CLIPBOARD_TEXT_BYTES"
    and "readers (guest s) = []" and "clip_tx (guest s) = []"
  shows "pasteboard_writes (host (fold clip_step [GuestSelect ClipboardTarget (Some mimes) True True,
      ReaderDone (saturating_add (guest_clipboard_serial (guest s)) 1) (Inr (as_bytes t)), DeliverToHost] s))
    = pasteboard_writes (host s) @ (if last_sent_to_guest (host s) = Some t then [] else [t])"
  using select_and_read [OF assms(1-4)] assms(3,5) by (simp add: installer_def)

theorem guest_text_installed_witness:
  "pasteboard_writes (host (fold clip_step [GuestSelect ClipboardTarget (Some [ascii ''image/png'', ascii ''STRING'']) True True,
      ReaderDone 1 (Inr (as_bytes [0x1F600])), DeliverToHost] clip_start)) = [[0x1F600]]"
proof -
  have "find is_text_mime [ascii ''image/png'', ascii ''STRING''] = Some (ascii ''STRING'')"
    by (simp add: is_text_mime_def ascii_def to_ascii_lowercase_def starts_with_def Let_def)
  moreover have "saturating_add (0 :: u64) 1 = 1" by (simp add: saturating_add_def)
  ultimately show ?thesis
    using guest_text_installed [of "[ascii ''image/png'', ascii ''STRING'']" "ascii ''STRING''" "[0x1F600]" clip_start]
    by (simp add: clip_start_def clip_bridge_start_def guest_clip_start_def is_scalar_def utf8_len_def utf8_width_def
        MAX_CLIPBOARD_TEXT_BYTES_def del: fold_simps)
qed

lemma poller_skips_installed:
  "last_installed_from_guest c = Some t \<Longrightarrow> r = None \<or> r = Some t \<Longrightarrow>
     outbound (poller n r b c) = outbound c \<and> last_installed_from_guest (poller n r b c) = Some t"
  by (auto simp: poller_def read_pasteboard_text_if_changed_def Let_def)

text \<open>
  No echo: after the installer has written a guest's text to the pasteboard, no number of
  polls that see that text, or no text, sends anything back to the guest.
\<close>
theorem guest_text_not_echoed:
  assumes "should_install_from_guest payload (last_sent_to_guest c)"
    and "list_all (\<lambda>p. snd p = None \<or> snd p = Some (clip_text payload)) polls"
  shows "outbound (fold (\<lambda>p. poller (fst p) (snd p) True) polls (installer payload c)) = outbound c"
proof -
  have "last_installed_from_guest c = Some t \<Longrightarrow> list_all (\<lambda>p. snd p = None \<or> snd p = Some t) polls \<Longrightarrow>
    outbound (fold (\<lambda>p. poller (fst p) (snd p) True) polls c) = outbound c" for t c
    by (induction polls arbitrary: c) (auto simp: poller_skips_installed)
  from this [of "installer payload c" "clip_text payload"] assms show ?thesis
    by (simp add: loops_follow_helpers(1))
qed

theorem guest_text_not_echoed_witness:
  "outbound (fold (\<lambda>p. poller (fst p) (snd p) True) [(7, Some [0x68]), (8, Some [0x68])]
     (installer \<lparr>clip_origin = Guest, clip_serial = 1, clip_text = [0x68]\<rparr> clip_bridge_start)) = []"
  using guest_text_not_echoed [of "\<lparr>clip_origin = Guest, clip_serial = 1, clip_text = [0x68]\<rparr>" clip_bridge_start
      "[(7, Some [0x68]), (8, Some [0x68])]"]
  by (simp add: should_install_from_guest_def clip_bridge_start_def utf8_len_def utf8_width_def
      MAX_CLIPBOARD_TEXT_BYTES_def del: fold_simps)

text \<open>
  The echo cache outlives the text it stands for. A guest copies \<open>a\<close>, the user then copies
  \<open>b\<close> on the host and after that \<open>a\<close> again: the second copy of \<open>a\<close> is taken for the echo of
  the first, so the guest still pastes \<open>b\<close> while the host's pasteboard holds \<open>a\<close>.
\<close>
theorem recopied_text_lost:
  assumes "a \<noteq> b" and "list_all is_scalar a" and "utf8_len a \<le> MAX_CLIPBOARD_TEXT_BYTES"
    and "utf8_len b \<le> MAX_CLIPBOARD_TEXT_BYTES" and "is_text_mime mime"
  shows "send_selection ClipboardTarget mime (guest (fold clip_step
      [GuestSelect ClipboardTarget (Some [ascii ''STRING'']) True True, ReaderDone 1 (Inr (as_bytes a)), DeliverToHost,
       HostPoll 1 (Some a), HostPoll 2 (Some b), DeliverToGuest, HostPoll 3 (Some a), DeliverToGuest] clip_start))
    = Some (as_bytes b)"
proof -
  have mime: "is_text_mime (ascii ''STRING'')"
    by (simp add: is_text_mime_def ascii_def to_ascii_lowercase_def starts_with_def Let_def)
  have one: "saturating_add (0 :: u64) 1 = 1" by (simp add: saturating_add_def)
  show ?thesis
    using assms by (simp add: clip_start_def clip_bridge_start_def guest_clip_start_def new_selection_def mime one Let_def
        read_guest_text_selection_def length_as_bytes from_utf8_as_bytes installer_def poller_def
        read_pasteboard_text_if_changed_def apply_host_clipboard_def send_selection_def)
qed

theorem recopied_text_lost_witness:
  "send_selection ClipboardTarget (ascii ''STRING'') (guest (fold clip_step
      [GuestSelect ClipboardTarget (Some [ascii ''STRING'']) True True, ReaderDone 1 (Inr (as_bytes [0x41])), DeliverToHost,
       HostPoll 1 (Some [0x41]), HostPoll 2 (Some [0x42]), DeliverToGuest, HostPoll 3 (Some [0x41]), DeliverToGuest] clip_start))
    = Some (as_bytes [0x42])"
  by (rule recopied_text_lost)
    (simp_all add: is_scalar_def utf8_len_def utf8_width_def MAX_CLIPBOARD_TEXT_BYTES_def is_text_mime_def Let_def)

text \<open>
  The host does not look at serials. When a guest copies \<open>a\<close> and then \<open>b\<close> and the thread
  that reads \<open>b\<close> finishes first, both frames are installed in the order of arrival and the
  pasteboard is left with the older text \<open>a\<close>.
\<close>
theorem older_selection_wins:
  assumes "list_all is_scalar a" and "utf8_len a \<le> MAX_CLIPBOARD_TEXT_BYTES"
    and "list_all is_scalar b" and "utf8_len b \<le> MAX_CLIPBOARD_TEXT_BYTES"
  shows "pasteboard_writes (host (fold clip_step
      [GuestSelect ClipboardTarget (Some [ascii ''STRING'']) True True,
       GuestSelect ClipboardTarget (Some [ascii ''STRING'']) True True,
       ReaderDone 2 (Inr (as_bytes b)), ReaderDone 1 (Inr (as_bytes a)), DeliverToHost, DeliverToHost] clip_start)) = [b, a]"
proof -
  have mime: "is_text_mime (ascii ''STRING'')"
    by (simp add: is_text_mime_def ascii_def to_ascii_lowercase_def starts_with_def Let_def)
  have serials: "saturating_add (0 :: u64) 1 = 1" "saturating_add (1 :: u64) 1 = 2" by (simp_all add: saturating_add_def)
  show ?thesis
    using assms by (simp add: clip_start_def clip_bridge_start_def guest_clip_start_def new_selection_def mime serials Let_def
        read_guest_text_selection_def length_as_bytes from_utf8_as_bytes installer_def)
qed

theorem older_selection_wins_witness:
  "pasteboard_writes (host (fold clip_step
      [GuestSelect ClipboardTarget (Some [ascii ''STRING'']) True True,
       GuestSelect ClipboardTarget (Some [ascii ''STRING'']) True True,
       ReaderDone 2 (Inr (as_bytes [0x42])), ReaderDone 1 (Inr (as_bytes [0x41])), DeliverToHost, DeliverToHost] clip_start))
   = [[0x42], [0x41]]"
  by (rule older_selection_wins)
    (simp_all add: is_scalar_def utf8_len_def utf8_width_def MAX_CLIPBOARD_TEXT_BYTES_def)

end
