(* ===== verification/View_Loop.thy ===== *)
theory View_Loop
  imports Wayland_Session Clipboard_Sync
begin

text \<open>
  The main loop of a view session, \<open>wayland_session::run\<close> in \<open>wayland_session/mod.rs\<close>, which
  joins the compositor and the clipboard. One round dispatches the guest's requests, drains
  the input and clipboard channels of the sender slots, then the viewer's own messages, and
  sends the compositor's messages to the viewer.

  The requests the guest's clients make in a round, the clock, the state of the connection and
  the success of the send are arguments of the round. Errors of the display library end the
  loop like a failed send. The frames of the clipboard's reader threads share the outgoing
  channel; they are modelled with the clipboard.
\<close>

record view_state =
  vs_app :: App
  vs_clip :: guest_clip
  vs_input_rx :: "InputEvent list"
  vs_clipboard_rx :: "Clipboard list"
  vs_inbound :: "Message list"
  vs_volumes :: "VolumeChange list"
  vs_sent :: "Message list"

definition view_start :: "u32 \<Rightarrow> u32 \<Rightarrow> view_state" where
  "view_start width height = \<lparr>vs_app = app_start width height, vs_clip = guest_clip_start, vs_input_rx = [],
     vs_clipboard_rx = [], vs_inbound = [], vs_volumes = [], vs_sent = []\<rparr>"

datatype view_end = ViewerDisconnected | ViewerGoodbye | SendFailed

text \<open>The viewer's messages; the flag says whether a goodbye ended the loop.\<close>

fun view_inbound :: "nat \<Rightarrow> Message list \<Rightarrow> view_state \<Rightarrow> view_state \<times> bool" where
  "view_inbound now [] st = (st\<lparr>vs_inbound := []\<rparr>, False)"
| "view_inbound now (msg # msgs) st =
     (case msg of
        Message.InputEvent event \<Rightarrow>
          view_inbound now msgs (st\<lparr>vs_app := handle_input_event now event (vs_app st)\<rparr>)
      | Message.Clipboard payload \<Rightarrow>
          view_inbound now msgs (st\<lparr>vs_clip := apply_host_clipboard payload (vs_clip st)\<rparr>)
      | Message.VolumeChange change \<Rightarrow>
          view_inbound now msgs (st\<lparr>vs_volumes := vs_volumes st @ [change]\<rparr>)
      | Message.Goodbye _ \<Rightarrow> (st\<lparr>vs_inbound := msgs\<rparr>, True)
      | _ \<Rightarrow> view_inbound now msgs st)"

definition view_round ::
  "nat \<Rightarrow> bool \<Rightarrow> app_event list \<Rightarrow> bool \<Rightarrow> view_state \<Rightarrow> view_state \<times> view_end option" where
  "view_round now disconnected requests send_ok st =
     (if disconnected then (st, Some ViewerDisconnected)
      else
        let app = run app_step (vs_app st) requests;
            app = fold (handle_input_event now) (vs_input_rx st) app;
            clip = fold apply_host_clipboard (vs_clipboard_rx st) (vs_clip st);
            (st, bye) = view_inbound now (vs_inbound st)
              (st\<lparr>vs_app := app, vs_clip := clip, vs_input_rx := [], vs_clipboard_rx := []\<rparr>)
        in
        if bye then (st, Some ViewerGoodbye)
        else if tx (vs_app st) \<noteq> [] \<and> \<not> send_ok then (st, Some SendFailed)
        else (st\<lparr>vs_sent := vs_sent st @ tx (vs_app st), vs_app := (vs_app st)\<lparr>tx := []\<rparr>\<rparr>, None))"

datatype view_event =
    SlotInput InputEvent
  | SlotClipboard Clipboard
  | ViewerMessage Message
  | Round nat "app_event list"

fun view_step :: "view_state \<Rightarrow> view_event \<Rightarrow> view_state" where
  "view_step st (SlotInput e) = st\<lparr>vs_input_rx := vs_input_rx st @ [e]\<rparr>"
| "view_step st (SlotClipboard c) = st\<lparr>vs_clipboard_rx := vs_clipboard_rx st @ [c]\<rparr>"
| "view_step st (ViewerMessage m) = st\<lparr>vs_inbound := vs_inbound st @ [m]\<rparr>"
| "view_step st (Round now requests) = fst (view_round now False requests True st)"

section \<open>A round as a run of the compositor\<close>

fun inputs_of :: "Message list \<Rightarrow> InputEvent list" where
  "inputs_of [] = []"
| "inputs_of (Message.InputEvent e # ms) = e # inputs_of ms"
| "inputs_of (_ # ms) = inputs_of ms"

fun clips_of :: "Message list \<Rightarrow> Clipboard list" where
  "clips_of [] = []"
| "clips_of (Message.Clipboard c # ms) = c # clips_of ms"
| "clips_of (_ # ms) = clips_of ms"

fun volumes_of :: "Message list \<Rightarrow> VolumeChange list" where
  "volumes_of [] = []"
| "volumes_of (Message.VolumeChange v # ms) = v # volumes_of ms"
| "volumes_of (_ # ms) = volumes_of ms"

fun is_goodbye :: "Message \<Rightarrow> bool" where
  "is_goodbye (Message.Goodbye _) = True"
| "is_goodbye _ = False"

text \<open>The messages up to a goodbye, and the rest behind it.\<close>

definition heard :: "Message list \<Rightarrow> Message list" where
  "heard ms = takeWhile (\<lambda>m. \<not> is_goodbye m) ms"

lemma view_inbound_heard:
  "view_inbound now ms st =
     (st\<lparr>vs_app := fold (handle_input_event now) (inputs_of (heard ms)) (vs_app st),
         vs_clip := fold apply_host_clipboard (clips_of (heard ms)) (vs_clip st),
         vs_volumes := vs_volumes st @ volumes_of (heard ms),
         vs_inbound := drop (Suc (length (heard ms))) ms\<rparr>,
      list_ex is_goodbye ms)"
proof (induction ms arbitrary: st)
  case (Cons m ms)
  then show ?case by (cases m) (simp_all add: heard_def)
qed (simp add: heard_def)

lemma host_inputs_run: "run app_step app (map (HostInput now) es) = fold (handle_input_event now) es app"
  by (induction es arbitrary: app) simp_all

lemma drained_inv [step_inv]: "app_inv (app\<lparr>tx := m\<rparr>) = app_inv app"
  by (simp add: app_inv_def tables_ok_def)

text \<open>The compositor events of a round, and its clipboard frames.\<close>

definition round_events :: "nat \<Rightarrow> app_event list \<Rightarrow> view_state \<Rightarrow> app_event list" where
  "round_events now requests st =
     requests @ map (HostInput now) (vs_input_rx st) @ map (HostInput now) (inputs_of (heard (vs_inbound st)))"

lemma round_parts:
  "view_round now False requests send_ok st =
     (let app = run app_step (vs_app st) (round_events now requests st);
          st' = st\<lparr>vs_app := app,
                   vs_clip := fold apply_host_clipboard (vs_clipboard_rx st @ clips_of (heard (vs_inbound st))) (vs_clip st),
                   vs_input_rx := [], vs_clipboard_rx := [],
                   vs_volumes := vs_volumes st @ volumes_of (heard (vs_inbound st)),
                   vs_inbound := drop (Suc (length (heard (vs_inbound st)))) (vs_inbound st)\<rparr>
      in if list_ex is_goodbye (vs_inbound st) then (st', Some ViewerGoodbye)
         else if tx app \<noteq> [] \<and> \<not> send_ok then (st', Some SendFailed)
         else (st'\<lparr>vs_sent := vs_sent st @ tx app, vs_app := app\<lparr>tx := []\<rparr>\<rparr>, None))"
  by (simp add: view_round_def view_inbound_heard round_events_def run_append host_inputs_run Let_def)

lemma view_step_keeps: "app_inv (vs_app st) \<Longrightarrow> app_inv (vs_app (view_step st e))"
proof (cases e)
  case (Round now requests)
  assume "app_inv (vs_app st)"
  then have "app_inv (run app_step (vs_app st) (round_events now requests st))" by (rule wayland.run_keeps)
  then show ?thesis by (simp add: Round round_parts Let_def drained_inv)
qed simp_all

interpretation view: invariant_machine view_step "\<lambda>st. app_inv (vs_app st)"
  by unfold_locales (rule view_step_keeps)

section \<open>Properties\<close>

text \<open>
  C7: One round of the view loop is a run of the compositor: the guest's requests, then the
  input events of the slot, then those of the viewer up to a goodbye, in order; the clipboard
  frames of both sources are applied in order; every message the compositor produced is sent
  once and in order, unless the viewer said goodbye in this round; and nothing behind a
  goodbye is handled.
\<close>
theorem round_refines_compositor:
  "view_round now False requests True st =
     (let app = run app_step (vs_app st) (round_events now requests st);
          bye = list_ex is_goodbye (vs_inbound st)
      in (st\<lparr>vs_app := (if bye then app else app\<lparr>tx := []\<rparr>),
             vs_clip := fold apply_host_clipboard (vs_clipboard_rx st @ clips_of (heard (vs_inbound st))) (vs_clip st),
             vs_input_rx := [], vs_clipboard_rx := [],
             vs_inbound := drop (Suc (length (heard (vs_inbound st)))) (vs_inbound st),
             vs_volumes := vs_volumes st @ volumes_of (heard (vs_inbound st)),
             vs_sent := vs_sent st @ (if bye then [] else tx app)\<rparr>,
          if bye then Some ViewerGoodbye else None))"
  by (simp add: round_parts Let_def)

text \<open>
  In every state the view loop can reach, for every interleaving of guest requests,
  messages of the viewer, messages of other connections and rounds, the compositor's
  invariant holds.
\<close>
theorem view_loop_invariant: "app_inv (vs_app (run view_step (view_start width height) es))"
  by (rule view.run_keeps) (simp add: view_start_def app_start_inv)

end
