(* ===== verification/Server_Session.thy ===== *)
theory Server_Session
  imports Proto
begin

text \<open>
  The guest server's front end, \<open>crates/server/src/main.rs\<close>: the accept loop with its limit on
  connections, the session of one TCP connection up to the point where it becomes a view, and
  the channels a view hangs on: the reader thread of \<open>wayland_session/io.rs\<close> and the global
  sender slots of \<open>input_registration.rs\<close> and \<open>clipboard.rs\<close>.

  A connection's input is a byte stream; \<open>writes\<close> is the number of writes it still takes before
  it breaks (a message that cannot be encoded ends the session the same way). The clock is a
  function of the number of messages read. Connections, views and processes are numbered.
\<close>

section \<open>Banner and environment\<close>

text \<open>\<open>str::lines\<close>: lines end in a newline, an optional carriage return before it is dropped.\<close>

definition strip_cr :: "ustring \<Rightarrow> ustring" where
  "strip_cr line = (if line \<noteq> [] \<and> last line = 0x0D then butlast line else line)"

fun lines_from :: "ustring \<Rightarrow> ustring \<Rightarrow> ustring list" where
  "lines_from line [] = (if line = [] then [] else [line])"
| "lines_from line (c # cs) = (if c = 0x0A then strip_cr line # lines_from [] cs else lines_from (line @ [c]) cs)"

definition trim_quotes :: "ustring \<Rightarrow> ustring" where
  "trim_quotes s = rev (dropWhile ((=) 0x22) (rev (dropWhile ((=) 0x22) s)))"

definition PRETTY_NAME :: ustring where
  "PRETTY_NAME = ascii ''PRETTY_NAME=''"

definition parse_os_release_pretty_name :: "ustring \<Rightarrow> ustring option" where
  "parse_os_release_pretty_name body =
     map_option (\<lambda>line. trim_quotes (drop (length PRETTY_NAME) line))
       (find (\<lambda>line. starts_with line PRETTY_NAME) (lines_from [] body))"

definition format_server_name :: "ustring \<Rightarrow> ustring \<Rightarrow> ustring" where
  "format_server_name version os =
     ascii ''vbox-server/'' @ version @ ascii '' ('' @ os @ ascii '', Wayland-first)''"

text \<open>The name in the \<open>Welcome\<close>; \<open>os_release\<close> is the text of \<open>/etc/os-release\<close> if it can be read.\<close>

definition server_name_of :: "ustring \<Rightarrow> ustring option \<Rightarrow> ustring" where
  "server_name_of version os_release =
     format_server_name version
       (case Option.bind os_release parse_os_release_pretty_name of Some os \<Rightarrow> os | None \<Rightarrow> ascii ''linux'')"

definition debug_flag_from :: "ustring option \<Rightarrow> bool" where
  "debug_flag_from v \<longleftrightarrow>
     v \<in> Some ` set [ascii ''1'', ascii ''true'', ascii ''TRUE'', ascii ''yes'', ascii ''on'']"

definition build_welcome_for_session :: "ustring \<Rightarrow> ustring option \<Rightarrow> u64 \<Rightarrow> Welcome" where
  "build_welcome_for_session version os_release sid =
     \<lparr>welcome_version = PROTOCOL_VERSION, server_name = server_name_of version os_release, session_id = sid\<rparr>"

section \<open>The accept loop\<close>

datatype AcceptDecision = Accept u64 | Reject u64

definition decide_accept :: "u64 \<Rightarrow> u64 \<Rightarrow> AcceptDecision" where
  "decide_accept current_active max_clients =
     (let attempted = current_active + 1 in
      if attempted > max_clients then Reject current_active else Accept attempted)"

definition encode_refuse :: "(Message \<Rightarrow> u8 list option) \<Rightarrow> ustring \<Rightarrow> proto_error + u8 list" where
  "encode_refuse ser why = write_frame ser write_prelude (Message.Goodbye why)"

text \<open>
  \<open>active\<close> is the shared counter. The threads that run \<open>handle\<close> are \<open>live\<close>; one that panics
  unwinds past the decrement at its end and is kept in \<open>panicked\<close>.
\<close>

record accept_state =
  active :: u64
  live :: "nat list"
  panicked :: "nat list"
  refused :: "nat list"
  running :: bool

definition accept_start :: accept_state where
  "accept_start = \<lparr>active = 0, live = [], panicked = [], refused = [], running = True\<rparr>"

datatype accept_event =
  AcceptError | Incoming nat | SpawnFailed nat | ConnEnded nat | ConnPanicked nat

definition accept_incoming :: "u64 \<Rightarrow> bool \<Rightarrow> nat \<Rightarrow> accept_state \<Rightarrow> accept_state" where
  "accept_incoming max_clients spawned c st =
     (if \<not> running st then st
      else
        (case decide_accept (active st) max_clients of
           Reject _ \<Rightarrow> st\<lparr>refused := c # refused st\<rparr>
         | Accept _ \<Rightarrow>
             let st = st\<lparr>active := active st + 1\<rparr> in
             if spawned then st\<lparr>live := c # live st\<rparr> else st\<lparr>running := False\<rparr>))"

fun accept_step :: "u64 \<Rightarrow> accept_event \<Rightarrow> accept_state \<Rightarrow> accept_state" where
  "accept_step max_clients AcceptError st = st"
| "accept_step max_clients (Incoming c) st = accept_incoming max_clients True c st"
| "accept_step max_clients (SpawnFailed c) st = accept_incoming max_clients False c st"
| "accept_step max_clients (ConnEnded c) st =
     (if c \<in> set (live st) then st\<lparr>active := active st - 1, live := remove1 c (live st)\<rparr> else st)"
| "accept_step max_clients (ConnPanicked c) st =
     (if c \<in> set (live st) then st\<lparr>panicked := c # panicked st, live := remove1 c (live st)\<rparr> else st)"

section \<open>One connection\<close>

datatype HandleDecision =
    HPong u64
  | HClose ustring
  | HStartView
  | HForwardInput
  | HForwardClipboard
  | HForwardVolume
  | HIgnore Kind

fun decide_handle_action :: "Message \<Rightarrow> HandleDecision" where
  "decide_handle_action (Message.Ping p) = HPong (ping_seq p)"
| "decide_handle_action (Message.Goodbye why) = HClose why"
| "decide_handle_action (Message.ViewRequest _) = HStartView"
| "decide_handle_action (Message.InputEvent _) = HForwardInput"
| "decide_handle_action (Message.Clipboard _) = HForwardClipboard"
| "decide_handle_action (Message.VolumeChange _) = HForwardVolume"
| "decide_handle_action other = HIgnore (kind other)"

datatype server_effect =
    SentPrelude
  | Sent Message
  | ForwardedInput InputEvent
  | ForwardedClipboard Clipboard
  | AppliedVolume VolumeChange

datatype verdict = Continue "server_effect list" | Finish | View ViewRequest

definition handle_action :: "u64 \<Rightarrow> Message \<Rightarrow> verdict" where
  "handle_action now msg =
     (case (decide_handle_action msg, msg) of
        (HPong seq, _) \<Rightarrow> Continue [Sent (Message.Pong \<lparr>pong_seq = seq, pong_stamp_ns = now\<rparr>)]
      | (HClose _, _) \<Rightarrow> Finish
      | (HStartView, Message.ViewRequest req) \<Rightarrow> View req
      | (HForwardInput, Message.InputEvent event) \<Rightarrow> Continue [ForwardedInput event]
      | (HForwardClipboard, Message.Clipboard payload) \<Rightarrow> Continue [ForwardedClipboard payload]
      | (HForwardVolume, Message.VolumeChange change) \<Rightarrow> Continue [AppliedVolume change]
      | (HIgnore k, _) \<Rightarrow> Continue []
      | (_, _) \<Rightarrow> Continue [])"

datatype handle_end =
    HandleOk
  | HandleFailed proto_error
  | HandleExpectedHello Kind
  | HandleWriteFailed
  | HandleView ViewRequest io_stream

definition writes_of :: "server_effect list \<Rightarrow> nat" where
  "writes_of effects = length (filter (\<lambda>e. case e of SentPrelude \<Rightarrow> True | Sent _ \<Rightarrow> True | _ \<Rightarrow> False) effects)"

function handle_loop ::
  "(u8 list \<Rightarrow> Message option) \<Rightarrow> (nat \<Rightarrow> u64) \<Rightarrow> nat \<Rightarrow> nat \<Rightarrow> io_stream \<Rightarrow> handle_end \<times> server_effect list" where
  "handle_loop de now writes n s =
     (case read_frame de s of
        (Inl _, _) \<Rightarrow> (HandleOk, [])
      | (Inr msg, s') \<Rightarrow>
          (case handle_action (now n) msg of
             Finish \<Rightarrow> (HandleOk, [])
           | View req \<Rightarrow> (HandleView req s', [])
           | Continue effects \<Rightarrow>
               if writes_of effects > writes then (HandleWriteFailed, [])
               else
                 (case handle_loop de now (writes - writes_of effects) (Suc n) s' of
                    (end, out) \<Rightarrow> (end, effects @ out))))"
  by pat_completeness auto
termination
  by (relation "measure (\<lambda>(_, _, _, _, s). length s)") (auto dest: read_frame_shorter [OF sym])

declare handle_loop.simps [simp del]

text \<open>
  A whole connection; \<open>counter\<close> is the global session counter, returned with the next value.
\<close>

definition handle ::
  "(u8 list \<Rightarrow> Message option) \<Rightarrow> ustring \<Rightarrow> ustring option \<Rightarrow> (nat \<Rightarrow> u64) \<Rightarrow> nat \<Rightarrow> u64 \<Rightarrow> io_stream
     \<Rightarrow> handle_end \<times> server_effect list \<times> u64" where
  "handle de version os_release now writes counter s =
     (if writes = 0 then (HandleWriteFailed, [], counter)
      else
        (case read_prelude s of
           (Inl e, _) \<Rightarrow> (HandleFailed e, [SentPrelude], counter)
         | (Inr _, s1) \<Rightarrow>
             (case read_frame de s1 of
                (Inl e, _) \<Rightarrow> (HandleFailed e, [SentPrelude], counter)
              | (Inr (Message.Hello hello), s2) \<Rightarrow>
                  let sid = counter in
                  if writes = 1 then (HandleWriteFailed, [SentPrelude], counter + 1)
                  else
                    (case handle_loop de now (writes - 2) 0 s2 of
                       (end, out) \<Rightarrow>
                         (end, SentPrelude # Sent (Message.Welcome (build_welcome_for_session version os_release sid)) # out,
                          counter + 1))
              | (Inr other, _) \<Rightarrow> (HandleExpectedHello (kind other), [SentPrelude], counter))))"

section \<open>The reader of a view\<close>

text \<open>
  The messages the reader thread hands to the compositor loop; \<open>room\<close> is the number of messages
  that arrive before the loop drops its end of the channel.
\<close>

function view_reader :: "(u8 list \<Rightarrow> Message option) \<Rightarrow> nat \<Rightarrow> io_stream \<Rightarrow> Message list" where
  "view_reader de room s =
     (case read_frame de s of
        (Inr msg, s') \<Rightarrow> if room = 0 then [] else msg # view_reader de (room - 1) s'
      | (Inl (Io WouldBlock), s') \<Rightarrow> view_reader de room s'
      | (Inl _, _) \<Rightarrow> [])"
  by pat_completeness auto
termination
  by (relation "measure (\<lambda>(_, _, s). length s)") (auto dest: read_frame_shorter [OF sym] read_frame_block_shorter [OF sym])

declare view_reader.simps [simp del]

section \<open>The sender slot of a view\<close>

text \<open>
  \<open>INPUT_SENDER\<close> and \<open>CLIPBOARD_SENDER\<close> work alike: a view stores the sender of its channel when
  it starts and clears the slot when it ends, after its receiver is gone; other connections
  send through the slot. \<open>received\<close> holds what the channel of each view was given.
\<close>

record 'm slot =
  sender :: "nat option"
  views :: "nat list"
  received :: "(nat \<times> 'm) list"

definition slot_start :: "'m slot" where
  "slot_start = \<lparr>sender = None, views = [], received = []\<rparr>"

definition registration_new :: "nat \<Rightarrow> 'm slot \<Rightarrow> 'm slot" where
  "registration_new v sl = sl\<lparr>sender := Some v, views := v # views sl\<rparr>"

definition registration_drop :: "nat \<Rightarrow> 'm slot \<Rightarrow> 'm slot" where
  "registration_drop v sl = sl\<lparr>sender := None, views := removeAll v (views sl)\<rparr>"

definition send_registered :: "'m \<Rightarrow> 'm slot \<Rightarrow> 'm slot \<times> bool" where
  "send_registered m sl =
     (case sender sl of
        None \<Rightarrow> (sl, False)
      | Some v \<Rightarrow>
          if v \<in> set (views sl) then (sl\<lparr>received := received sl @ [(v, m)]\<rparr>, True) else (sl, False))"

datatype 'm slot_event = ViewStarts nat | ViewEnds nat | Arrives 'm

fun slot_step :: "'m slot_event \<Rightarrow> 'm slot \<Rightarrow> 'm slot" where
  "slot_step (ViewStarts v) sl = registration_new v sl"
| "slot_step (ViewEnds v) sl = (if v \<in> set (views sl) then registration_drop v sl else sl)"
| "slot_step (Arrives m) sl = fst (send_registered m sl)"

section \<open>Volume\<close>

text \<open>
  \<open>volume.rs\<close>: a level is the bit pattern of an \<open>f32\<close>. \<open>clamp\<close> compares as floating-point
  numbers: a pattern with the sign bit is below zero unless it is \<open>-0.0\<close>, and non-negative
  numbers are ordered like their patterns.
\<close>

definition f32_is_nan :: "u32 \<Rightarrow> bool" where
  "f32_is_nan b \<longleftrightarrow> b AND 0x7fffffff > 0x7f800000"

definition f32_one :: u32 where
  "f32_one = 0x3f800000"

definition clamp_level :: "u32 \<Rightarrow> u32" where
  "clamp_level raw =
     (if f32_is_nan raw then 0
      else if raw > 0x80000000 then 0
      else if raw < 0x80000000 \<and> raw > f32_one then f32_one
      else raw)"

definition apply_volume :: "VolumeChange \<Rightarrow> (ustring \<times> u32) \<times> (ustring \<times> ustring)" where
  "apply_volume change =
     ((ascii ''set-volume'', clamp_level (vol_level change)),
      (ascii ''set-mute'', if vol_muted change then ascii ''1'' else ascii ''0''))"

section \<open>Lemmas\<close>

definition accept_inv :: "u64 \<Rightarrow> accept_state \<Rightarrow> bool" where
  "accept_inv max_clients st \<longleftrightarrow> unat (active st) \<le> unat max_clients
     \<and> (if running st then unat (active st) = length (live st) + length (panicked st)
        else unat (active st) = Suc (length (live st) + length (panicked st)))"

lemma decide_accept_iff:
  assumes "unat current \<le> unat max_clients" and "max_clients \<noteq> - 1"
  shows "decide_accept current max_clients =
    (if unat current < unat max_clients then Accept (current + 1) else Reject current)"
    and "unat (current + 1) = Suc (unat current)"
proof -
  have "unat max_clients < 2 ^ 64 - 1"
    using assms(2) unat_lt_len [of max_clients] unat_minus_one_word [where 'a = 64]
    by (simp add: word_unat_eq_iff)
  then show *: "unat (current + 1) = Suc (unat current)"
    using assms(1) by (simp add: unat_word_ariths)
  show "decide_accept current max_clients =
    (if unat current < unat max_clients then Accept (current + 1) else Reject current)"
    using * assms(1) by (auto simp: decide_accept_def Let_def word_less_nat_alt)
qed

lemma accept_step_inv [step_inv]:
  assumes "accept_inv max_clients st" and "max_clients \<noteq> - 1"
  shows "accept_inv max_clients (accept_step max_clients e st)"
proof -
  have leave: "unat (active st - 1) = unat (active st) - 1" "0 < unat (active st)" "length (live st) = Suc (length (remove1 c (live st)))"
    if "c \<in> set (live st)" for c
  proof -
    from that have "0 < length (live st)" by (cases "live st") auto
    then show "0 < unat (active st)" using assms(1) by (auto simp: accept_inv_def split: if_splits)
    then show "unat (active st - 1) = unat (active st) - 1"
      by (intro unat_minus_one) auto
    show "length (live st) = Suc (length (remove1 c (live st)))"
      using that \<open>0 < length (live st)\<close> by (simp add: length_remove1)
  qed
  note enter = decide_accept_iff [OF _ assms(2), of "active st"]
  show ?thesis
  proof (cases e)
    case (ConnEnded c)
    then show ?thesis using assms leave [of c] by (auto simp: accept_inv_def)
  next
    case (ConnPanicked c)
    then show ?thesis using assms leave [of c] by (auto simp: accept_inv_def)
  qed (use assms enter in \<open>auto simp: accept_inv_def accept_incoming_def Let_def split: if_splits\<close>)
qed

lemma accept_runs_inv:
  assumes "max_clients \<noteq> - 1" and "accept_inv max_clients st"
  shows "accept_inv max_clients (fold (accept_step max_clients) evs st)"
  using assms(2) by (induction evs arbitrary: st) (auto intro: accept_step_inv [OF _ assms(1)])

lemma accept_start_inv: "accept_inv max_clients accept_start"
  by (simp add: accept_inv_def accept_start_def)

lemma panicked_grows: "length (panicked st) \<le> length (panicked (fold (accept_step m) evs st))"
proof (induction evs arbitrary: st)
  case (Cons e evs)
  have "length (panicked st) \<le> length (panicked (accept_step m e st))"
    by (cases e) (auto simp: accept_incoming_def Let_def split: AcceptDecision.split)
  then show ?case using Cons.IH [of "accept_step m e st"] by simp
qed simp

section \<open>Properties\<close>

text \<open>
  C38: The accept loop keeps its limit: for every sequence of connections, ends, panics and
  failures, at most \<open>max_clients\<close> connections are served at a time, the shared counter is the
  number of served connections plus the number of those that panicked, and the next
  connection is refused exactly when that number has reached the limit.
\<close>
theorem accept_limit:
  assumes "max_clients \<noteq> - 1"
  shows "length (live (fold (accept_step max_clients) evs accept_start)) \<le> unat max_clients
    \<and> (running (fold (accept_step max_clients) evs accept_start) \<longrightarrow>
        unat (active (fold (accept_step max_clients) evs accept_start))
          = length (live (fold (accept_step max_clients) evs accept_start))
            + length (panicked (fold (accept_step max_clients) evs accept_start))
        \<and> refused (accept_step max_clients (Incoming c) (fold (accept_step max_clients) evs accept_start))
          = (if length (live (fold (accept_step max_clients) evs accept_start))
                + length (panicked (fold (accept_step max_clients) evs accept_start)) = unat max_clients
             then c # refused (fold (accept_step max_clients) evs accept_start)
             else refused (fold (accept_step max_clients) evs accept_start)))"
proof -
  have inv: "accept_inv max_clients (fold (accept_step max_clients) evs accept_start)"
    by (rule accept_runs_inv [OF assms accept_start_inv])
  define st where "st = fold (accept_step max_clients) evs accept_start"
  from inv have "unat (active st) \<le> unat max_clients" by (simp add: accept_inv_def st_def)
  from decide_accept_iff [OF this assms] inv show ?thesis
    unfolding st_def [symmetric] by (auto simp: accept_inv_def accept_incoming_def Let_def split: if_splits)
qed

theorem accept_limit_witness:
  "(2 :: u64) \<noteq> - 1 \<and> length (live (fold (accept_step 2) [Incoming 0, Incoming 1, ConnEnded 0, Incoming 2, Incoming 3] accept_start))
     \<le> unat (2 :: u64)"
  using accept_limit [of 2 "[Incoming 0, Incoming 1, ConnEnded 0, Incoming 2, Incoming 3]" 4] by (simp del: fold_simps)

text \<open>
  A connection that panics keeps its slot for ever, since the counter is decremented only
  when \<open>handle\<close> returns: once \<open>max_clients\<close> connections have panicked, the server serves no
  connection any more, whatever happens later, although none is left.
\<close>
theorem panicked_connections_exhaust_server:
  assumes "max_clients \<noteq> - 1" and "length (panicked (fold (accept_step max_clients) evs accept_start)) = unat max_clients"
  shows "live (fold (accept_step max_clients) (evs @ evs') accept_start) = []"
proof -
  have "accept_inv max_clients (fold (accept_step max_clients) (evs @ evs') accept_start)"
    by (rule accept_runs_inv [OF assms(1) accept_start_inv])
  moreover have "unat max_clients \<le> length (panicked (fold (accept_step max_clients) (evs @ evs') accept_start))"
    using assms(2) panicked_grows [of "fold (accept_step max_clients) evs accept_start" max_clients evs'] by simp
  ultimately have "length (live (fold (accept_step max_clients) (evs @ evs') accept_start)) = 0"
    unfolding accept_inv_def by (auto split: if_splits simp del: length_0_conv)
  then show ?thesis by (simp only: length_0_conv)
qed

theorem panicked_connections_exhaust_server_witness:
  "live (fold (accept_step 1) ([Incoming 0, ConnPanicked 0] @ [Incoming 1, Incoming 2]) accept_start) = []"
proof -
  have "length (panicked (fold (accept_step 1) [Incoming 0, ConnPanicked 0] accept_start)) = unat (1 :: u64)"
    by (simp add: accept_start_def accept_incoming_def decide_accept_def Let_def)
  then show ?thesis by (intro panicked_connections_exhaust_server) simp_all
qed

lemma refusal_readable:
  assumes "codec_ok ser de" and "encode_refuse ser why = Inr bytes"
  shows "\<exists>s. read_prelude (map Byte bytes) = (Inr PROTOCOL_VERSION, s)
    \<and> read_frame de s = (Inr (Message.Goodbye why), [])"
proof -
  from assms(2) obtain frame where f: "encode_frame ser (Message.Goodbye why) = Inr frame" "bytes = write_prelude @ frame"
    by (auto simp: encode_refuse_def write_frame_def split: sum.splits)
  show ?thesis
    using read_frame_encoded [OF assms(1) f(1), of "[]"] read_prelude_write [of "map Byte frame"] by (simp add: f(2))
qed

text \<open>What a message other than a goodbye or a view request makes the session do.\<close>

fun reaction :: "u64 \<Rightarrow> Message \<Rightarrow> server_effect list" where
  "reaction now (Message.Ping p) = [Sent (Message.Pong \<lparr>pong_seq = ping_seq p, pong_stamp_ns = now\<rparr>)]"
| "reaction now (Message.InputEvent e) = [ForwardedInput e]"
| "reaction now (Message.Clipboard c) = [ForwardedClipboard c]"
| "reaction now (Message.VolumeChange v) = [AppliedVolume v]"
| "reaction now _ = []"

fun ends_session :: "Message \<Rightarrow> bool" where
  "ends_session (Message.Goodbye _) = True"
| "ends_session (Message.ViewRequest _) = True"
| "ends_session _ = False"

fun reactions :: "(nat \<Rightarrow> u64) \<Rightarrow> nat \<Rightarrow> Message list \<Rightarrow> server_effect list" where
  "reactions now n [] = []"
| "reactions now n (m # ms) = reaction (now n) m @ reactions now (Suc n) ms"

lemma handle_action_reaction: "\<not> ends_session m \<Longrightarrow> handle_action now m = Continue (reaction now m)"
  by (cases m) (simp_all add: handle_action_def)

lemma writes_of_append [simp]: "writes_of (xs @ ys) = writes_of xs + writes_of ys"
  by (simp add: writes_of_def)

lemma handle_loop_frames:
  assumes codec: "codec_ok ser de"
  shows "write_frames ser ms = Inr bs \<Longrightarrow> list_all (\<lambda>m. \<not> ends_session m) ms \<Longrightarrow>
    writes_of (reactions now n ms) \<le> writes \<Longrightarrow>
    handle_loop de now writes n (map Byte bs @ s) =
      (case handle_loop de now (writes - writes_of (reactions now n ms)) (n + length ms) s of
         (e, out) \<Rightarrow> (e, reactions now n ms @ out))"
proof (induction ms arbitrary: bs writes n)
  case Nil
  then show ?case by (simp add: writes_of_def split: prod.split)
next
  case (Cons m ms)
  from Cons.prems(1) obtain b1 b2 where enc: "encode_frame ser m = Inr b1" "write_frames ser ms = Inr b2" "bs = b1 @ b2"
    by (auto split: sum.splits)
  show ?case
    using Cons.prems(2,3) Cons.IH [OF enc(2), of "Suc n" "writes - writes_of (reaction (now n) m)"]
    by (subst handle_loop.simps) (auto simp: enc(3) read_frame_encoded [OF codec enc(1)] handle_action_reaction split: prod.splits)
qed

lemma handle_after_hello:
  assumes "codec_ok ser de" and "encode_frame ser (Message.Hello hello) = Inr hb" and "2 \<le> writes"
  shows "handle de version os_release now writes counter (map Byte (write_prelude @ hb) @ s) =
    (case handle_loop de now (writes - 2) 0 s of
       (e, out) \<Rightarrow> (e, SentPrelude # Sent (Message.Welcome (build_welcome_for_session version os_release counter)) # out, counter + 1))"
  using assms(3) read_frame_encoded [OF assms(1,2), of s] read_prelude_write [of "map Byte hb @ s"]
  by (auto simp: handle_def)

text \<open>
  C12: A session does exactly what it is sent. After the prelude and a \<open>Hello\<close>, the client's
  messages are answered and forwarded one by one and in order: each ping by a pong with its
  number, each input event, clipboard frame and volume change is forwarded, everything else
  is ignored. A view request turns the connection into a view that starts to read right after
  the request, so that no byte the client sent behind it is lost.
\<close>
theorem session_until_view:
  assumes "codec_ok ser de" and "encode_frame ser (Message.Hello hello) = Inr hb"
    and "write_frames ser ms = Inr bs" and "list_all (\<lambda>m. \<not> ends_session m) ms"
    and "encode_frame ser (Message.ViewRequest req) = Inr vb"
    and "2 + writes_of (reactions now 0 ms) \<le> writes"
  shows "handle de version os_release now writes counter (map Byte (write_prelude @ hb @ bs @ vb) @ rest) =
    (HandleView req rest,
     SentPrelude # Sent (Message.Welcome (build_welcome_for_session version os_release counter)) # reactions now 0 ms,
     counter + 1)"
proof -
  have view: "handle_loop de now w n (map Byte vb @ rest) = (HandleView req rest, [])" for w n
    by (subst handle_loop.simps) (simp add: read_frame_encoded [OF assms(1,5)] handle_action_def)
  from assms(6) have w: "2 \<le> writes" "writes_of (reactions now 0 ms) \<le> writes - 2" by auto
  show ?thesis
    using handle_after_hello [OF assms(1,2) w(1), of version os_release now counter "map Byte (bs @ vb) @ rest"]
      handle_loop_frames [OF assms(1,3,4) w(2), of "map Byte vb @ rest"]
    by (simp add: view)
qed

definition view_hello :: Message where
  "view_hello = Message.Hello \<lparr>hello_version = 1, client_name = []\<rparr>"

definition view_ping :: Message where
  "view_ping = Message.Ping \<lparr>ping_seq = 5, ping_stamp_ns = 0\<rparr>"

definition view_request :: ViewRequest where
  "view_request = \<lparr>socket_name = [], view_width = 1, view_height = 1\<rparr>"

definition view_ser :: "Message \<Rightarrow> u8 list option" where
  "view_ser m = (if m = view_hello then Some [1] else if m = view_ping then Some [2]
     else if m = Message.ViewRequest view_request then Some [3] else None)"

definition view_de :: "u8 list \<Rightarrow> Message option" where
  "view_de bs = (if bs = [1] then Some view_hello else if bs = [2] then Some view_ping
     else if bs = [3] then Some (Message.ViewRequest view_request) else None)"

lemma view_codec: "codec_ok view_ser view_de"
  by (simp add: codec_ok_def view_ser_def view_de_def)

lemma view_frames:
  "encode_frame view_ser view_hello = Inr [0, 0, 0, 5, 0, 0, 0, 1, 1]"
  "write_frames view_ser [view_ping] = Inr [0, 0, 0, 5, 0, 0, 0, 10, 2]"
  "encode_frame view_ser (Message.ViewRequest view_request) = Inr [0, 0, 0, 5, 0, 0, 0, 20, 3]"
  by (simp_all add: view_ser_def view_hello_def view_ping_def view_request_def encode_frame_def u32_to_be_def
      unat_MAX_FRAME_BYTES Let_def)

theorem session_until_view_witness:
  "handle view_de [] None (\<lambda>_. 9) 3 4
     (map Byte (write_prelude @ [0, 0, 0, 5, 0, 0, 0, 1, 1] @ [0, 0, 0, 5, 0, 0, 0, 10, 2] @ [0, 0, 0, 5, 0, 0, 0, 20, 3]) @ [Byte 77])
   = (HandleView view_request [Byte 77],
      SentPrelude # Sent (Message.Welcome (build_welcome_for_session [] None 4)) # reactions (\<lambda>_. 9) 0 [view_ping], 4 + 1)"
  by (rule session_until_view [OF view_codec view_frames(1) [unfolded view_hello_def] view_frames(2) _ view_frames(3)])
    (auto simp: view_ping_def writes_of_def)

text \<open>
  Without a handshake nothing happens: a session has an effect other than its own prelude
  only if the client sent the six bytes of the prelude followed by a well-formed \<open>Hello\<close>.
\<close>
theorem no_effect_before_hello:
  assumes "handle de version os_release now writes counter s = (e, effects, counter')"
    and "effect \<in> set effects" and "effect \<noteq> SentPrelude"
  shows "\<exists>hello s1 s2. s = map Byte write_prelude @ s1 \<and> read_frame de s1 = (Inr (Message.Hello hello), s2)"
proof -
  from assms obtain v hello s1 s2 where r: "read_prelude s = (Inr v, s1)" "read_frame de s1 = (Inr (Message.Hello hello), s2)"
    by (auto simp: handle_def Let_def split: if_splits prod.splits sum.splits Message.splits)
  from read_prelude_Inr [OF r(1)] have "s = map Byte write_prelude @ s1" ..
  with r(2) show ?thesis by blast
qed

theorem no_effect_before_hello_witness:
  "\<exists>hello s1 s2. map Byte (write_prelude @ [0, 0, 0, 5, 0, 0, 0, 1, 1]) @ [] = map Byte write_prelude @ s1
     \<and> read_frame view_de s1 = (Inr (Message.Hello hello), s2)"
proof -
  have "handle view_de [] None (\<lambda>_. 9) 3 4 (map Byte (write_prelude @ [0, 0, 0, 5, 0, 0, 0, 1, 1]) @ [])
    = (case handle_loop view_de (\<lambda>_. 9) (3 - 2) 0 [] of
       (e, out) \<Rightarrow> (e, SentPrelude # Sent (Message.Welcome (build_welcome_for_session [] None 4)) # out, 4 + 1))"
    by (rule handle_after_hello [OF view_codec view_frames(1) [unfolded view_hello_def]]) simp
  then obtain e out where h: "handle view_de [] None (\<lambda>_. 9) 3 4 (map Byte (write_prelude @ [0, 0, 0, 5, 0, 0, 0, 1, 1]) @ [])
      = (e, SentPrelude # Sent (Message.Welcome (build_welcome_for_session [] None 4)) # out, 4 + 1)"
    by (cases "handle_loop view_de (\<lambda>_. 9) (3 - 2) 0 []") auto
  show ?thesis
    by (rule no_effect_before_hello [OF h, of "Sent (Message.Welcome (build_welcome_for_session [] None 4))"]) simp_all
qed

text \<open>Timeouts between frames.\<close>

fun with_gaps :: "(nat \<times> u8 list) list \<Rightarrow> io_stream" where
  "with_gaps [] = []"
| "with_gaps ((n, frame) # fs) = replicate n Block @ map Byte frame @ with_gaps fs"

lemma view_reader_blocks: "view_reader de room (replicate n Block @ s) = view_reader de room s"
proof (induction n)
  case (Suc n)
  have "read_frame de (Block # z) = (Inl (Io WouldBlock), z)" for z
    by (simp add: read_frame_def eval_nat_numeral)
  then show ?case using Suc by (subst view_reader.simps) simp
qed simp

text \<open>
  The view's reader thread survives timeouts between frames: when each of the client's
  messages arrives in one piece, whatever number of read timeouts come before it, the
  compositor loop receives exactly the messages, in order.
\<close>
theorem view_reader_complete:
  assumes "codec_ok ser de" and "list_all2 (\<lambda>m f. encode_frame ser m = Inr (snd f)) ms fs"
    and "length ms \<le> room"
  shows "view_reader de room (with_gaps fs @ replicate n Block) = ms"
  using assms(2,3)
proof (induction ms fs arbitrary: room rule: list_all2_induct)
  case Nil
  have "view_reader de room [] = []" by (subst view_reader.simps) (simp add: read_frame_def eval_nat_numeral)
  then show ?case using view_reader_blocks [of de room n "[]"] by simp
next
  case (Cons m ms f fs)
  then obtain k where "room = Suc k" "length ms \<le> k" by (cases room) auto
  with Cons show ?case
    by (cases f) (simp add: view_reader_blocks, subst view_reader.simps,
        simp add: read_frame_encoded [OF assms(1)])
qed

theorem view_reader_complete_witness:
  "view_reader view_de 9 (with_gaps [(3, [0, 0, 0, 5, 0, 0, 0, 1, 1]), (1, [0, 0, 0, 5, 0, 0, 0, 20, 3])] @ replicate 2 Block)
   = [view_hello, Message.ViewRequest view_request]"
  by (rule view_reader_complete [OF view_codec]) (simp_all add: view_frames)

section \<open>Slots and volume\<close>

lemma arrivals_received:
  "sender sl = Some v \<Longrightarrow> v \<in> set (views sl) \<Longrightarrow>
     fold slot_step (map Arrives ms) sl = sl\<lparr>received := received sl @ map (Pair v) ms\<rparr>"
  by (induction ms arbitrary: sl) (simp_all add: send_registered_def)

lemma arrivals_dropped: "sender sl = None \<Longrightarrow> fold slot_step (map Arrives ms) sl = sl"
  by (induction ms) (simp_all add: send_registered_def)

text \<open>
  Two views share one slot. While view \<open>b\<close>, started last, is the only one to change it,
  every message of the other connections reaches \<open>b\<close>; but when a view \<open>a\<close> that was started
  earlier ends, it clears the slot, and from then on every message is dropped although \<open>b\<close>
  still runs.
\<close>
theorem older_view_silences_newer:
  assumes "a \<noteq> b"
  shows "received (fold slot_step ([ViewStarts a, ViewStarts b] @ map Arrives ms @ [ViewEnds a] @ map Arrives lost) sl)
      = received sl @ map (Pair b) ms
    \<and> b \<in> set (views (fold slot_step ([ViewStarts a, ViewStarts b] @ map Arrives ms @ [ViewEnds a] @ map Arrives lost) sl))"
  using assms by (simp add: registration_new_def arrivals_received registration_drop_def arrivals_dropped)

theorem older_view_silences_newer_witness:
  "received (fold slot_step ([ViewStarts 1, ViewStarts 2] @ map Arrives [True] @ [ViewEnds 1] @ map Arrives [False]) slot_start)
     = [(2, True)]"
  using older_view_silences_newer [of 1 2 "[True]" "[False]" slot_start]
  by (simp only: slot_start_def) simp

lemma clamp_level_range:
  "clamp_level raw \<le> f32_one \<or> clamp_level raw = 0x80000000"
  "f32_is_nan raw \<Longrightarrow> clamp_level raw = 0"
  by (auto simp: clamp_level_def f32_one_def)

lemma os_release_pretty_name:
  "parse_os_release_pretty_name (ascii ''NAME=x'' @ [0x0A] @ ascii ''PRETTY_NAME='' @ [0x22] @ ascii ''Debian 13'' @ [0x22, 0x0D, 0x0A])
     = Some (ascii ''Debian 13'')"
  by (simp add: parse_os_release_pretty_name_def PRETTY_NAME_def ascii_def starts_with_def strip_cr_def trim_quotes_def)

end
