(* ===== verification/Frame_Buffer.thy ===== *)
theory Frame_Buffer
  imports Proto
begin

text \<open>
  The viewer's frame buffer, \<open>crates/client/src/viewer/frame.rs\<close>: painting of tiles, growth
  and resizes, the content rectangle with the trimming of uniform padding, and the scaled
  copy into the host's surface. Coordinates and sizes, \<open>u32\<close> or \<open>usize\<close> in the source, are
  natural numbers; the \<open>u32\<close> products and sums that can overflow are taken modulo
  \<open>2 ^ 32\<close>. Pixels are \<open>u32\<close> words. An index out of range, where the source panics, is the
  error \<open>TilePanic\<close> of \<open>apply_tile\<close>; the other loops stay in range for every buffer whose
  pixel vector has the size it declares, which all operations keep.

  The abstract view of a frame buffer is a screen: a size and a function from coordinates to
  pixels, and painting a tile on it is a pointwise update. \<open>apply_tile\<close> and the resizes are
  shown to refine it.
\<close>

section \<open>Pixels\<close>

definition DEFAULT_MATTE_PIXEL :: u32 where
  "DEFAULT_MATTE_PIXEL = 0x00181818"

definition TRANSPARENT_PIXEL :: u32 where
  "TRANSPARENT_PIXEL = 0"

definition VISIBLE_ALPHA_THRESHOLD :: u8 where
  "VISIBLE_ALPHA_THRESHOLD = 48"

definition CONTENT_EDGE_TRIM_PX :: nat where
  "CONTENT_EDGE_TRIM_PX = 0"

definition UNIFORM_PADDING_MIN_RUN :: nat where
  "UNIFORM_PADDING_MIN_RUN = 16"

definition PADDING_COLOR_TOLERANCE :: nat where
  "PADDING_COLOR_TOLERANCE = 12"

definition PADDING_OUTLIER_RATIO :: nat where
  "PADDING_OUTLIER_RATIO = 20"

definition wrap32 :: "nat \<Rightarrow> nat" where
  "wrap32 n = n mod 2 ^ 32"

definition rgba_to_pixel :: "u32 \<Rightarrow> u32 \<Rightarrow> u32 \<Rightarrow> u32 \<Rightarrow> u32" where
  "rgba_to_pixel r g b a =
     push_bit 24 (a AND 0xff) OR push_bit 16 (r AND 0xff) OR push_bit 8 (g AND 0xff) OR (b AND 0xff)"

definition rgb_to_pixel :: "u32 \<Rightarrow> u32 \<Rightarrow> u32 \<Rightarrow> u32" where
  "rgb_to_pixel r g b = push_bit 16 (r AND 0xff) OR push_bit 8 (g AND 0xff) OR (b AND 0xff)"

definition pixel_alpha :: "u32 \<Rightarrow> u8" where
  "pixel_alpha p = ucast (drop_bit 24 p AND 0xff)"

definition pixel_r :: "u32 \<Rightarrow> u8" where
  "pixel_r p = ucast (drop_bit 16 p AND 0xff)"

definition pixel_g :: "u32 \<Rightarrow> u8" where
  "pixel_g p = ucast (drop_bit 8 p AND 0xff)"

definition pixel_b :: "u32 \<Rightarrow> u8" where
  "pixel_b p = ucast (p AND 0xff)"

definition opaque_softbuffer_pixel :: "u32 \<Rightarrow> u32" where
  "opaque_softbuffer_pixel p = 0xff000000 OR (p AND 0x00ffffff)"

definition blend :: "u32 \<Rightarrow> u32 \<Rightarrow> u32 \<Rightarrow> u32" where
  "blend a channel matte = (channel * a + matte * (255 - a)) div 255"

definition pixel_for_softbuffer :: "u32 \<Rightarrow> u32 \<Rightarrow> u32" where
  "pixel_for_softbuffer pixel matte =
     (let a = ucast (pixel_alpha pixel) :: u32 in
      if a \<ge> 255 then opaque_softbuffer_pixel pixel
      else if a < ucast VISIBLE_ALPHA_THRESHOLD then opaque_softbuffer_pixel matte
      else
        let matte_r = drop_bit 16 matte AND 0xff; matte_g = drop_bit 8 matte AND 0xff; matte_b = matte AND 0xff;
            r = blend a (ucast (pixel_r pixel)) matte_r;
            g = blend a (ucast (pixel_g pixel)) matte_g;
            b = blend a (ucast (pixel_b pixel)) matte_b
        in opaque_softbuffer_pixel (rgb_to_pixel r g b))"

section \<open>The frame buffer\<close>

record FrameRect =
  fr_x :: nat
  fr_y :: nat
  fr_w :: nat
  fr_h :: nat

record FrameBuffer =
  fb_width :: nat
  fb_height :: nat
  fb_pixels :: "u32 list"
  fb_content :: FrameRect
  fb_matte :: u32

definition frame_rect_new :: "nat \<Rightarrow> nat \<Rightarrow> nat \<Rightarrow> nat \<Rightarrow> FrameRect" where
  "frame_rect_new x y w h = \<lparr>fr_x = x, fr_y = y, fr_w = max w 1, fr_h = max h 1\<rparr>"

definition splice_row :: "u32 list \<Rightarrow> nat \<Rightarrow> nat \<Rightarrow> nat \<Rightarrow> nat \<Rightarrow> u32 list \<Rightarrow> u32 list" where
  "splice_row old old_width width copy_w y new =
     take (y * width) new @ take copy_w (drop (y * old_width) old) @ drop (y * width + copy_w) new"

definition replace_buffer_preserving_pixels :: "nat \<Rightarrow> nat \<Rightarrow> FrameBuffer \<Rightarrow> FrameBuffer" where
  "replace_buffer_preserving_pixels width height fb =
     (let copy_w = min (fb_width fb) width; copy_h = min (fb_height fb) height
      in fb\<lparr>fb_width := width, fb_height := height,
            fb_pixels := fold (splice_row (fb_pixels fb) (fb_width fb) width copy_w) [0..<copy_h]
              (replicate (width * height) TRANSPARENT_PIXEL)\<rparr>)"

definition replace_buffer_clearing :: "nat \<Rightarrow> nat \<Rightarrow> FrameBuffer \<Rightarrow> FrameBuffer" where
  "replace_buffer_clearing width height fb =
     fb\<lparr>fb_width := width, fb_height := height, fb_pixels := replicate (width * height) TRANSPARENT_PIXEL\<rparr>"

definition fb_resize :: "nat \<Rightarrow> nat \<Rightarrow> FrameBuffer \<Rightarrow> FrameBuffer" where
  "fb_resize width height fb =
     (if fb_width fb = width \<and> fb_height fb = height then fb
      else (replace_buffer_preserving_pixels width height fb)
        \<lparr>fb_content := frame_rect_new 0 0 (max width 1) (max height 1)\<rparr>)"

definition resize_for_remote_size :: "nat \<Rightarrow> nat \<Rightarrow> FrameBuffer \<Rightarrow> FrameBuffer" where
  "resize_for_remote_size width height fb =
     (if fb_width fb = width \<and> fb_height fb = height then fb
      else
        (if width < fb_width fb \<or> height < fb_height fb then replace_buffer_clearing width height fb
         else replace_buffer_preserving_pixels width height fb)
        \<lparr>fb_content := frame_rect_new 0 0 (max width 1) (max height 1)\<rparr>)"

definition grow_preserving_pixels :: "nat \<Rightarrow> nat \<Rightarrow> FrameBuffer \<Rightarrow> FrameBuffer" where
  "grow_preserving_pixels width height fb =
     (if fb_width fb = width \<and> fb_height fb = height then fb
      else replace_buffer_preserving_pixels width height fb)"

definition frame_buffer_new :: "nat \<Rightarrow> nat \<Rightarrow> FrameBuffer" where
  "frame_buffer_new width height = fb_resize width height
     \<lparr>fb_width = 0, fb_height = 0, fb_pixels = [], fb_content = frame_rect_new 0 0 1 1,
      fb_matte = DEFAULT_MATTE_PIXEL\<rparr>"

definition display_size :: "FrameBuffer \<Rightarrow> nat \<times> nat" where
  "display_size fb = (max (fr_w (fb_content fb)) 1, max (fr_h (fb_content fb)) 1)"

section \<open>Uniform padding\<close>

definition abs_diff :: "u32 \<Rightarrow> u32 \<Rightarrow> nat" where
  "abs_diff a b = (if a < b then unat b - unat a else unat a - unat b)"

definition pixel_distance :: "u32 \<Rightarrow> u32 \<Rightarrow> nat" where
  "pixel_distance a b =
     abs_diff (drop_bit 16 a AND 0xff) (drop_bit 16 b AND 0xff)
     + abs_diff (drop_bit 8 a AND 0xff) (drop_bit 8 b AND 0xff)
     + abs_diff (a AND 0xff) (b AND 0xff)"

fun uniform_scan :: "u32 \<Rightarrow> nat \<Rightarrow> nat \<Rightarrow> u32 list \<Rightarrow> bool" where
  "uniform_scan first allow outliers [] = True"
| "uniform_scan first allow outliers (p # ps) =
     (if pixel_distance p first > PADDING_COLOR_TOLERANCE
      then (if Suc outliers > allow then False else uniform_scan first allow (Suc outliers) ps)
      else uniform_scan first allow outliers ps)"

definition is_uniform_row :: "u32 list \<Rightarrow> nat \<Rightarrow> nat \<Rightarrow> nat \<Rightarrow> nat \<Rightarrow> bool" where
  "is_uniform_row pixels stride y x_start x_end =
     (if x_start \<ge> x_end then True
      else
        let row = wrap32 (y * stride) in
        uniform_scan (pixels ! (row + x_start)) (max ((x_end - x_start) div PADDING_OUTLIER_RATIO) 1) 0
          (map (\<lambda>x. pixels ! (row + x)) [x_start + 1..<x_end]))"

definition is_uniform_col :: "u32 list \<Rightarrow> nat \<Rightarrow> nat \<Rightarrow> nat \<Rightarrow> nat \<Rightarrow> bool" where
  "is_uniform_col pixels stride x y_start y_end =
     (if y_start \<ge> y_end then True
      else
        uniform_scan (pixels ! (wrap32 (y_start * stride) + x))
          (max ((y_end - y_start) div PADDING_OUTLIER_RATIO) 1) 0
          (map (\<lambda>y. pixels ! (wrap32 (y * stride) + x)) [y_start + 1..<y_end]))"

text \<open>The two directions of the trimming loops, and the restore of runs that are too short.\<close>

fun shrink_high :: "(nat \<Rightarrow> bool) \<Rightarrow> nat \<Rightarrow> nat \<Rightarrow> nat" where
  "shrink_high uniform lo 0 = 0"
| "shrink_high uniform lo (Suc hi) =
     (if Suc hi > lo + 1 \<and> uniform hi then shrink_high uniform lo hi else Suc hi)"

function shrink_low :: "(nat \<Rightarrow> bool) \<Rightarrow> nat \<Rightarrow> nat \<Rightarrow> nat" where
  "shrink_low uniform lo hi = (if lo + 1 < hi \<and> uniform lo then shrink_low uniform (Suc lo) hi else lo)"
  by pat_completeness auto
termination
  by (relation "measure (\<lambda>(_, lo, hi). hi - lo)") auto

declare shrink_low.simps [simp del]

definition trim_high :: "(nat \<Rightarrow> bool) \<Rightarrow> nat \<Rightarrow> nat \<Rightarrow> nat" where
  "trim_high uniform lo hi =
     (let hi' = shrink_high uniform lo hi in if hi - hi' < UNIFORM_PADDING_MIN_RUN then hi else hi')"

definition trim_low :: "(nat \<Rightarrow> bool) \<Rightarrow> nat \<Rightarrow> nat \<Rightarrow> nat" where
  "trim_low uniform lo hi =
     (let lo' = shrink_low uniform lo hi in if lo' - lo < UNIFORM_PADDING_MIN_RUN then lo else lo')"

definition trim_uniform_padding :: "u32 list \<Rightarrow> nat \<Rightarrow> FrameRect \<Rightarrow> FrameRect" where
  "trim_uniform_padding pixels stride rect =
     (let top = fr_y rect; bottom = fr_y rect + fr_h rect; left = fr_x rect; right = fr_x rect + fr_w rect;
          bottom = trim_high (\<lambda>y. is_uniform_row pixels stride y left right) top bottom;
          top = trim_low (\<lambda>y. is_uniform_row pixels stride y left right) top bottom;
          right = trim_high (\<lambda>x. is_uniform_col pixels stride x top bottom) left right;
          left = trim_low (\<lambda>x. is_uniform_col pixels stride x top bottom) left right
      in frame_rect_new left top (right - left) (bottom - top))"

definition trim_content_rect :: "FrameRect \<Rightarrow> FrameRect" where
  "trim_content_rect rect =
     (let trim = CONTENT_EDGE_TRIM_PX in
      if fr_w rect \<le> trim * 2 \<or> fr_h rect \<le> trim * 2 then rect
      else frame_rect_new (fr_x rect + trim) (fr_y rect + trim) (fr_w rect - trim * 2) (fr_h rect - trim * 2))"

section \<open>The content rectangle\<close>

record content_acc =
  min_x :: nat
  min_y :: nat
  max_x :: nat
  max_y :: nat
  r_sum :: nat
  g_sum :: nat
  b_sum :: nat
  visible_count :: nat

definition scan_pixel :: "FrameBuffer \<Rightarrow> nat \<times> nat \<Rightarrow> content_acc \<Rightarrow> content_acc" where
  "scan_pixel fb p acc =
     (case p of (x, y) \<Rightarrow>
      let pixel = fb_pixels fb ! (y * fb_width fb + x) in
      if pixel_alpha pixel < VISIBLE_ALPHA_THRESHOLD then acc
      else \<lparr>min_x = min (min_x acc) x, min_y = min (min_y acc) y, max_x = max (max_x acc) x,
            max_y = max (max_y acc) y, r_sum = r_sum acc + unat (pixel_r pixel),
            g_sum = g_sum acc + unat (pixel_g pixel), b_sum = b_sum acc + unat (pixel_b pixel),
            visible_count = Suc (visible_count acc)\<rparr>)"

definition scan_order :: "FrameBuffer \<Rightarrow> (nat \<times> nat) list" where
  "scan_order fb = concat (map (\<lambda>y. map (\<lambda>x. (x, y)) [0..<fb_width fb]) [0..<fb_height fb])"

definition update_content_rect :: "FrameBuffer \<Rightarrow> FrameBuffer" where
  "update_content_rect fb =
     (let acc = fold (scan_pixel fb) (scan_order fb)
                  \<lparr>min_x = fb_width fb, min_y = fb_height fb, max_x = 0, max_y = 0, r_sum = 0, g_sum = 0,
                   b_sum = 0, visible_count = 0\<rparr>
      in
      if visible_count acc = 0 then
        fb\<lparr>fb_content := frame_rect_new 0 0 (max (fb_width fb) 1) (max (fb_height fb) 1),
           fb_matte := DEFAULT_MATTE_PIXEL\<rparr>
      else
        let alpha_rect = trim_content_rect (frame_rect_new (min_x acc) (min_y acc)
                           (max_x acc - min_x acc + 1) (max_y acc - min_y acc + 1))
        in fb\<lparr>fb_content := trim_uniform_padding (fb_pixels fb) (fb_width fb) alpha_rect,
              fb_matte := rgb_to_pixel (of_nat (r_sum acc div visible_count acc))
                (of_nat (g_sum acc div visible_count acc)) (of_nat (b_sum acc div visible_count acc))\<rparr>)"

section \<open>Painting a tile\<close>

datatype tile_error =
  UnsupportedEncoding | TileStrideOverflow | TileStrideShort u32 u32 | TileLengthOverflow | TileBytesShort nat nat
  | TilePanic

definition tile_pixel :: "u8 list \<Rightarrow> nat \<Rightarrow> u32" where
  "tile_pixel bytes src = rgba_to_pixel (ucast (bytes ! src)) (ucast (bytes ! (src + 1))) (ucast (bytes ! (src + 2)))
     (ucast (bytes ! (src + 3)))"

fun paint_pixels :: "FrameTile \<Rightarrow> nat \<Rightarrow> (nat \<times> nat) list \<Rightarrow> u32 list \<Rightarrow> tile_error + u32 list" where
  "paint_pixels t width [] px = Inr px"
| "paint_pixels t width ((row, col) # ps) px =
     (let src = row * unat (tile_stride t) + col * 4;
          dst = wrap32 (wrap32 (wrap32 (unat (tile_y t) + row) * width) + unat (tile_x t)) + col
      in
      if src + 3 \<ge> length (tile_bytes t) then Inl TilePanic
      else if tile_bytes t ! (src + 3) < VISIBLE_ALPHA_THRESHOLD then paint_pixels t width ps px
      else if dst \<ge> length px then Inl TilePanic
      else paint_pixels t width ps (px[dst := tile_pixel (tile_bytes t) src]))"

definition paint_order :: "FrameTile \<Rightarrow> (nat \<times> nat) list" where
  "paint_order t = concat (map (\<lambda>row. map (\<lambda>col. (row, col)) [0..<unat (tile_w t)]) [0..<unat (tile_h t)])"

definition grown :: "nat \<Rightarrow> u32 \<Rightarrow> u32 \<Rightarrow> nat" where
  "grown old pos len = max (max old (unat (saturating_add pos len))) 1"

definition apply_tile :: "FrameTile \<Rightarrow> FrameBuffer \<Rightarrow> tile_error + bool \<times> FrameBuffer" where
  "apply_tile t fb =
     (if tile_encoding t \<noteq> RawRgba then Inl UnsupportedEncoding
      else
        (case checked_mul (tile_w t) 4 of
           None \<Rightarrow> Inl TileStrideOverflow
         | Some min_stride \<Rightarrow>
             if tile_stride t < min_stride then Inl (TileStrideShort (tile_stride t) min_stride)
             else
               (case checked_mul (tile_stride t) (tile_h t) of
                  None \<Rightarrow> Inl TileLengthOverflow
                | Some needed \<Rightarrow>
                    if length (tile_bytes t) < unat needed then Inl (TileBytesShort (length (tile_bytes t)) (unat needed))
                    else
                      let old_display_size = display_size fb;
                          new_width = grown (fb_width fb) (tile_x t) (tile_w t);
                          new_height = grown (fb_height fb) (tile_y t) (tile_h t);
                          fb = (if new_width \<noteq> fb_width fb \<or> new_height \<noteq> fb_height fb
                                then grow_preserving_pixels new_width new_height fb else fb)
                      in
                      (case paint_pixels t (fb_width fb) (paint_order t) (fb_pixels fb) of
                         Inl e \<Rightarrow> Inl e
                       | Inr px \<Rightarrow>
                           let fb = update_content_rect (fb\<lparr>fb_pixels := px\<rparr>)
                           in Inr (old_display_size \<noteq> display_size fb, fb)))))"

section \<open>Copy to the host surface\<close>

definition aspect_fit_rect :: "nat \<Rightarrow> nat \<Rightarrow> nat \<Rightarrow> nat \<Rightarrow> FrameRect" where
  "aspect_fit_rect src_width src_height dst_width dst_height =
     (let sw = max src_width 1; sh = max src_height 1; dw = max dst_width 1; dh = max dst_height 1;
          (w, h) = (if sw * dh > dw * sh
                    then (dw, min (max ((dw * sh + sw div 2) div sw) 1) dh)
                    else (min (max ((dh * sw + sh div 2) div sh) 1) dw, dh))
      in \<lparr>fr_x = (dw - w) div 2, fr_y = (dh - h) div 2, fr_w = w, fr_h = h\<rparr>)"

definition scaled_pixel ::
  "u32 list \<Rightarrow> nat \<Rightarrow> FrameRect \<Rightarrow> u32 \<Rightarrow> FrameRect \<Rightarrow> nat \<Rightarrow> nat \<Rightarrow> u32" where
  "scaled_pixel src src_width region matte render x y =
     pixel_for_softbuffer (src ! ((fr_y region + y * fr_h region div fr_h render) * src_width
       + (fr_x region + x * fr_w region div fr_w render))) matte"

definition copy_scaled_frame_region_into_rect ::
  "u32 list \<Rightarrow> nat \<Rightarrow> FrameRect \<Rightarrow> u32 \<Rightarrow> u32 list \<Rightarrow> nat \<Rightarrow> FrameRect \<Rightarrow> u32 list" where
  "copy_scaled_frame_region_into_rect src src_width region matte dst dst_width render =
     fold (\<lambda>(x, y) dst. dst[(fr_y render + y) * dst_width + fr_x render + x :=
         scaled_pixel src src_width region matte render x y])
       (concat (map (\<lambda>y. map (\<lambda>x. (x, y)) [0..<fr_w render]) [0..<fr_h render])) dst"

definition copy_frame_region_preserve_aspect ::
  "u32 list \<Rightarrow> nat \<Rightarrow> FrameRect \<Rightarrow> u32 \<Rightarrow> u32 list \<Rightarrow> nat \<Rightarrow> nat \<Rightarrow> u32 list" where
  "copy_frame_region_preserve_aspect src src_width region matte dst dst_width dst_height =
     copy_scaled_frame_region_into_rect src src_width region matte
       (replicate (length dst) (opaque_softbuffer_pixel matte)) dst_width
       (aspect_fit_rect (fr_w region) (fr_h region) dst_width dst_height)"

section \<open>Well-formed buffers\<close>

definition fb_ok :: "FrameBuffer \<Rightarrow> bool" where
  "fb_ok fb \<longleftrightarrow> length (fb_pixels fb) = fb_width fb * fb_height fb"

text \<open>Row-major indices.\<close>

lemma index_lt: "x < w \<Longrightarrow> y < h \<Longrightarrow> y * w + x < w * h" for w h :: nat
proof -
  assume a: "x < w" "y < h"
  then have "y * w + x < Suc y * w" by simp
  also have "\<dots> \<le> h * w" using a(2) by (intro mult_le_mono1) simp
  finally show ?thesis by (simp add: mult.commute)
qed

lemma index_inj: "x < w \<Longrightarrow> x' < w \<Longrightarrow> y * w + x = y' * w + x' \<longleftrightarrow> x = x' \<and> y = y'" for w :: nat
proof
  assume a: "x < w" "x' < w" and e: "y * w + x = y' * w + x'"
  have "y = (y * w + x) div w" "x = (y * w + x) mod w" using a by simp_all
  moreover have "y' = (y' * w + x') div w" "x' = (y' * w + x') mod w" using a by simp_all
  ultimately show "x = x' \<and> y = y'" using e by metis
qed simp

lemma length_splice_row:
  "copy_w \<le> width \<Longrightarrow> copy_w \<le> old_width \<Longrightarrow> y < height \<Longrightarrow> y < old_height \<Longrightarrow>
     length old = old_width * old_height \<Longrightarrow> length new = width * height \<Longrightarrow>
     length (splice_row old old_width width copy_w y new) = width * height"
proof -
  assume a: "copy_w \<le> width" "copy_w \<le> old_width" "y < height" "y < old_height"
    "length old = old_width * old_height" "length new = width * height"
  have "Suc y * width \<le> height * width" "Suc y * old_width \<le> old_height * old_width"
    using a(3,4) by (intro mult_le_mono1, simp)+
  then show ?thesis using a by (simp add: splice_row_def mult.commute)
qed

lemma nth_splice_row:
  assumes "copy_w \<le> width" "copy_w \<le> old_width" "y < height" "y < old_height"
    "length old = old_width * old_height" "length new = width * height" "x' < width" "y' < height"
  shows "splice_row old old_width width copy_w y new ! (y' * width + x')
    = (if y' = y \<and> x' < copy_w then old ! (y * old_width + x') else new ! (y' * width + x'))"
proof -
  have le: "Suc y * width \<le> height * width" "Suc y * old_width \<le> old_height * old_width"
    using assms(3,4) by (intro mult_le_mono1, simp)+
  have len: "y * width \<le> length new" "copy_w \<le> length (drop (y * old_width) old)"
    using le assms by (simp_all add: mult.commute)
  have bound: "y' * width + x' < length new" using index_lt [OF assms(7,8)] assms(6) by simp
  consider "y' < y" | "y' = y" | "y < y'" by linarith
  then show ?thesis
  proof cases
    case 1
    then have "Suc y' * width \<le> y * width" by (intro mult_le_mono1) simp
    then have "y' * width + x' < y * width" using assms(7) by simp
    with 1 len show ?thesis by (simp add: splice_row_def nth_append)
  next
    case 2
    show ?thesis
    proof (cases "x' < copy_w")
      case True
      with 2 len show ?thesis by (simp add: splice_row_def nth_append)
    next
      case False
      then have "y * width + copy_w + (x' - copy_w) = y * width + x'" by simp
      with 2 False len bound show ?thesis by (simp add: splice_row_def nth_append)
    qed
  next
    case 3
    then have "Suc y * width \<le> y' * width" by (intro mult_le_mono1) simp
    then have g: "y * width + width \<le> y' * width" by simp
    then have "\<not> y' * width + x' < y * width" "\<not> y' * width + x' - y * width < copy_w"
        "y * width + copy_w + (y' * width + x' - y * width - copy_w) = y' * width + x'"
      using assms(1) by simp_all
    with 3 len bound show ?thesis by (simp add: splice_row_def nth_append)
  qed
qed

lemma splice_rows:
  assumes "copy_w \<le> width" "copy_w \<le> old_width" "copy_h \<le> height" "copy_h \<le> old_height"
    "length old = old_width * old_height" "length new = width * height"
  shows "length (fold (splice_row old old_width width copy_w) [0..<copy_h] new) = width * height
    \<and> (\<forall>x < width. \<forall>y < height. fold (splice_row old old_width width copy_w) [0..<copy_h] new ! (y * width + x)
      = (if x < copy_w \<and> y < copy_h then old ! (y * old_width + x) else new ! (y * width + x)))"
  using assms(3,4)
proof (induction copy_h)
  case 0
  then show ?case using assms by simp
next
  case (Suc k)
  let ?px = "fold (splice_row old old_width width copy_w) [0..<k] new"
  have IH: "length ?px = width * height" "\<forall>x < width. \<forall>y < height. ?px ! (y * width + x)
      = (if x < copy_w \<and> y < k then old ! (y * old_width + x) else new ! (y * width + x))"
    using Suc by simp_all
  have "length (splice_row old old_width width copy_w k ?px) = width * height"
    using Suc.prems assms IH(1) by (intro length_splice_row [where old_height = old_height]) simp_all
  moreover have "splice_row old old_width width copy_w k ?px ! (y * width + x)
      = (if x < copy_w \<and> y < Suc k then old ! (y * old_width + x) else new ! (y * width + x))"
    if "x < width" "y < height" for x y
    using nth_splice_row [of copy_w width old_width k height old_height old ?px x y] that Suc.prems assms IH
    by (auto simp: less_Suc_eq)
  ultimately show ?case by simp
qed

section \<open>The abstract screen\<close>

record screen =
  sc_width :: nat
  sc_height :: nat
  sc_pixel :: "nat \<Rightarrow> nat \<Rightarrow> u32"

definition abs_frame :: "FrameBuffer \<Rightarrow> screen" where
  "abs_frame fb = \<lparr>sc_width = fb_width fb, sc_height = fb_height fb,
     sc_pixel = (\<lambda>x y. if x < fb_width fb \<and> y < fb_height fb then fb_pixels fb ! (y * fb_width fb + x)
                  else TRANSPARENT_PIXEL)\<rparr>"

definition crop_screen :: "nat \<Rightarrow> nat \<Rightarrow> screen \<Rightarrow> screen" where
  "crop_screen width height s = \<lparr>sc_width = width, sc_height = height,
     sc_pixel = (\<lambda>x y. if x < width \<and> y < height then sc_pixel s x y else TRANSPARENT_PIXEL)\<rparr>"

definition clear_screen :: "nat \<Rightarrow> nat \<Rightarrow> screen" where
  "clear_screen width height = \<lparr>sc_width = width, sc_height = height, sc_pixel = (\<lambda>x y. TRANSPARENT_PIXEL)\<rparr>"

text \<open>A tile as a partial function on the screen: its pixels that are visible.\<close>

definition tile_covers :: "FrameTile \<Rightarrow> nat \<Rightarrow> nat \<Rightarrow> bool" where
  "tile_covers t x y \<longleftrightarrow> unat (tile_x t) \<le> x \<and> x < unat (tile_x t) + unat (tile_w t)
     \<and> unat (tile_y t) \<le> y \<and> y < unat (tile_y t) + unat (tile_h t)"

definition tile_offset :: "FrameTile \<Rightarrow> nat \<Rightarrow> nat \<Rightarrow> nat" where
  "tile_offset t x y = (y - unat (tile_y t)) * unat (tile_stride t) + (x - unat (tile_x t)) * 4"

definition tile_shows :: "FrameTile \<Rightarrow> nat \<Rightarrow> nat \<Rightarrow> u32 option" where
  "tile_shows t x y =
     (if tile_covers t x y \<and> \<not> tile_bytes t ! (tile_offset t x y + 3) < VISIBLE_ALPHA_THRESHOLD
      then Some (tile_pixel (tile_bytes t) (tile_offset t x y)) else None)"

definition paint :: "FrameTile \<Rightarrow> screen \<Rightarrow> screen" where
  "paint t s = \<lparr>sc_width = max (max (sc_width s) (unat (tile_x t) + unat (tile_w t))) 1,
     sc_height = max (max (sc_height s) (unat (tile_y t) + unat (tile_h t))) 1,
     sc_pixel = (\<lambda>x y. case tile_shows t x y of Some p \<Rightarrow> p | None \<Rightarrow> sc_pixel s x y)\<rparr>"

definition tile_ok :: "FrameTile \<Rightarrow> bool" where
  "tile_ok t \<longleftrightarrow> tile_encoding t = RawRgba \<and> unat (tile_w t) * 4 \<le> unat (tile_stride t)
     \<and> unat (tile_stride t) * unat (tile_h t) < 2 ^ 32
     \<and> unat (tile_stride t) * unat (tile_h t) \<le> length (tile_bytes t)"

text \<open>The tile and the buffer it makes have fewer than \<open>2 ^ 32\<close> pixels.\<close>

definition fits :: "FrameTile \<Rightarrow> nat \<Rightarrow> nat \<Rightarrow> bool" where
  "fits t width height \<longleftrightarrow> unat (tile_x t) + unat (tile_w t) < 2 ^ 32 \<and> unat (tile_y t) + unat (tile_h t) < 2 ^ 32
     \<and> max (max width (unat (tile_x t) + unat (tile_w t))) 1 * max (max height (unat (tile_y t) + unat (tile_h t))) 1 < 2 ^ 32"

lemma abs_replace_preserving:
  assumes "fb_ok fb"
  shows "fb_ok (replace_buffer_preserving_pixels w h fb)"
    and "abs_frame (replace_buffer_preserving_pixels w h fb) = crop_screen w h (abs_frame fb)"
proof -
  let ?px = "fold (splice_row (fb_pixels fb) (fb_width fb) w (min (fb_width fb) w)) [0..<min (fb_height fb) h]
      (replicate (w * h) TRANSPARENT_PIXEL)"
  have rows: "length ?px = w * h" "\<forall>x < w. \<forall>y < h. ?px ! (y * w + x)
      = (if x < min (fb_width fb) w \<and> y < min (fb_height fb) h then fb_pixels fb ! (y * fb_width fb + x)
         else replicate (w * h) TRANSPARENT_PIXEL ! (y * w + x))"
    using splice_rows [of "min (fb_width fb) w" w "fb_width fb" "min (fb_height fb) h" h "fb_height fb" "fb_pixels fb"
        "replicate (w * h) TRANSPARENT_PIXEL"] assms by (simp_all add: fb_ok_def)
  show "fb_ok (replace_buffer_preserving_pixels w h fb)"
    using rows(1) by (simp add: fb_ok_def replace_buffer_preserving_pixels_def Let_def)
  show "abs_frame (replace_buffer_preserving_pixels w h fb) = crop_screen w h (abs_frame fb)"
    using rows(2) by (auto simp: abs_frame_def crop_screen_def replace_buffer_preserving_pixels_def Let_def
        fun_eq_iff index_lt)
qed

lemma abs_clearing:
  "fb_ok (replace_buffer_clearing w h fb)" "abs_frame (replace_buffer_clearing w h fb) = clear_screen w h"
  by (auto simp: fb_ok_def replace_buffer_clearing_def abs_frame_def clear_screen_def fun_eq_iff index_lt)

lemma abs_fields [simp]:
  "fb_ok (fb\<lparr>fb_content := c\<rparr>) = fb_ok fb" "abs_frame (fb\<lparr>fb_content := c\<rparr>) = abs_frame fb"
  "fb_ok (fb\<lparr>fb_matte := m\<rparr>) = fb_ok fb" "abs_frame (fb\<lparr>fb_matte := m\<rparr>) = abs_frame fb"
  by (simp_all add: fb_ok_def abs_frame_def fun_eq_iff)

lemma abs_same_size:
  "fb_width fb = w \<Longrightarrow> fb_height fb = h \<Longrightarrow> crop_screen w h (abs_frame fb) = abs_frame fb"
  by (auto simp: crop_screen_def abs_frame_def fun_eq_iff)

lemma abs_update_content [simp]:
  "fb_ok (update_content_rect fb) = fb_ok fb" "abs_frame (update_content_rect fb) = abs_frame fb"
  by (simp_all add: update_content_rect_def Let_def)

text \<open>A loop of updates at distinct places.\<close>

definition write_where :: "('a \<Rightarrow> bool) \<Rightarrow> ('a \<Rightarrow> nat) \<Rightarrow> ('a \<Rightarrow> 'b) \<Rightarrow> 'a \<Rightarrow> 'b list \<Rightarrow> 'b list" where
  "write_where vis d v p xs = (if vis p then xs[d p := v p] else xs)"

lemma length_writes [simp]: "length (fold (write_where vis d v) ps xs) = length xs"
  by (induction ps arbitrary: xs) (simp_all add: write_where_def)

lemma nth_writes_other:
  "i \<notin> d ` set ps \<Longrightarrow> fold (write_where vis d v) ps xs ! i = xs ! i"
  by (induction ps arbitrary: xs) (auto simp: write_where_def)

lemma nth_writes:
  "distinct (map d ps) \<Longrightarrow> p \<in> set ps \<Longrightarrow> d p < length xs \<Longrightarrow>
     fold (write_where vis d v) ps xs ! d p = (if vis p then v p else xs ! d p)"
proof (induction ps arbitrary: xs)
  case (Cons q ps)
  show ?case
  proof (cases "p = q")
    case True
    with Cons.prems show ?thesis by (simp add: nth_writes_other) (simp add: write_where_def)
  next
    case False
    with Cons.prems have "p \<in> set ps" "d q \<noteq> d p" by (auto simp: rev_image_eqI)
    with Cons show ?thesis by (simp add: write_where_def)
  qed
qed simp

lemma distinct_row_major:
  assumes "\<And>x y x' y'. x < w \<Longrightarrow> x' < w \<Longrightarrow> y < h \<Longrightarrow> y' < h \<Longrightarrow> d (f x y) = d (f x' y') \<Longrightarrow> x = x' \<and> y = y'"
  shows "distinct (map d (concat (map (\<lambda>y. map (\<lambda>x. f x y) [0..<w]) [0..<h])))"
proof -
  have "map d (concat (map (\<lambda>y. map (\<lambda>x. f x y) [0..<w]) [0..<h]))
      = concat (map (\<lambda>y. map (\<lambda>x. d (f x y)) [0..<w]) [0..<h])"
    by (simp add: map_concat comp_def)
  moreover have "distinct (concat (map (\<lambda>y. map (\<lambda>x. d (f x y)) [0..<w]) [0..<k]))" if "k \<le> h" for k
    using that
  proof (induction k)
    case (Suc k)
    have "inj_on (\<lambda>x. d (f x k)) {0..<w}"
      using Suc.prems assms by (intro inj_onI) (auto simp: Suc_le_eq)
    moreover have "z \<notin> (\<Union>y \<in> {0..<k}. (\<lambda>x. d (f x y)) ` {0..<w})" if z: "z \<in> (\<lambda>x. d (f x k)) ` {0..<w}" for z
    proof
      assume "z \<in> (\<Union>y \<in> {0..<k}. (\<lambda>x. d (f x y)) ` {0..<w})"
      then obtain y x' where "y < k" "x' < w" "z = d (f x' y)" by auto
      moreover obtain x where "x < w" "z = d (f x k)" using z by auto
      ultimately show False using assms [of x x' k y] Suc.prems by simp
    qed
    then have "(\<Union>y \<in> {0..<k}. (\<lambda>x. d (f x y)) ` {0..<w}) \<inter> (\<lambda>x. d (f x k)) ` {0..<w} = {}" by blast
    ultimately show ?case using Suc by (simp add: distinct_map)
  qed simp
  ultimately show ?thesis by simp
qed

section \<open>Painting refines the screen\<close>

definition pp_src :: "FrameTile \<Rightarrow> nat \<times> nat \<Rightarrow> nat" where
  "pp_src t p = fst p * unat (tile_stride t) + snd p * 4"

definition pp_dst :: "FrameTile \<Rightarrow> nat \<Rightarrow> nat \<times> nat \<Rightarrow> nat" where
  "pp_dst t width p = wrap32 (wrap32 (wrap32 (unat (tile_y t) + fst p) * width) + unat (tile_x t)) + snd p"

definition pp_visible :: "FrameTile \<Rightarrow> nat \<times> nat \<Rightarrow> bool" where
  "pp_visible t p \<longleftrightarrow> \<not> tile_bytes t ! (pp_src t p + 3) < VISIBLE_ALPHA_THRESHOLD"

lemma paint_pixels_fold:
  "\<forall>p \<in> set ps. pp_src t p + 3 < length (tile_bytes t) \<and> pp_dst t width p < length px \<Longrightarrow>
     paint_pixels t width ps px
       = Inr (fold (write_where (pp_visible t) (pp_dst t width) (\<lambda>p. tile_pixel (tile_bytes t) (pp_src t p))) ps px)"
proof (induction ps arbitrary: px)
  case (Cons p ps)
  have len: "length (write_where (pp_visible t) (pp_dst t width) (\<lambda>p. tile_pixel (tile_bytes t) (pp_src t p)) p px)
      = length px" by (simp add: write_where_def)
  from Cons.prems have "\<forall>q \<in> set ps. pp_src t q + 3 < length (tile_bytes t) \<and> pp_dst t width q
      < length (write_where (pp_visible t) (pp_dst t width) (\<lambda>p. tile_pixel (tile_bytes t) (pp_src t p)) p px)"
    unfolding len by simp
  from Cons.IH [OF this] Cons.prems show ?case
    by (cases p) (auto simp: Let_def write_where_def pp_visible_def pp_src_def pp_dst_def)
qed simp

lemma set_paint_order: "(row, col) \<in> set (paint_order t) \<longleftrightarrow> row < unat (tile_h t) \<and> col < unat (tile_w t)"
  by (auto simp: paint_order_def image_iff)

lemma source_in_range:
  assumes "tile_ok t" and "p \<in> set (paint_order t)"
  shows "pp_src t p + 3 < length (tile_bytes t)"
proof -
  obtain row col where p: "p = (row, col)" by fastforce
  then have rc: "row < unat (tile_h t)" "col < unat (tile_w t)" using assms(2) by (simp_all add: set_paint_order)
  have "pp_src t p + 3 < row * unat (tile_stride t) + unat (tile_stride t)"
    using rc(2) assms(1) by (simp add: pp_src_def p tile_ok_def)
  also have "\<dots> = Suc row * unat (tile_stride t)" by simp
  also have "\<dots> \<le> unat (tile_h t) * unat (tile_stride t)" using rc(1) by (intro mult_le_mono1) simp
  also have "\<dots> \<le> length (tile_bytes t)" using assms(1) by (simp add: tile_ok_def mult.commute)
  finally show ?thesis .
qed

lemma dest_no_wrap:
  assumes "unat (tile_x t) + unat (tile_w t) \<le> width" and "unat (tile_y t) + unat (tile_h t) \<le> height"
    and "width * height < 2 ^ 32" and "row < unat (tile_h t)" and "col < unat (tile_w t)"
  shows "pp_dst t width (row, col) = (unat (tile_y t) + row) * width + (unat (tile_x t) + col)"
proof -
  have lt: "(unat (tile_y t) + row) * width + (unat (tile_x t) + col) < 2 ^ 32"
    using index_lt [of "unat (tile_x t) + col" width "unat (tile_y t) + row" height] assms by simp
  have "unat (tile_y t) + row \<le> (unat (tile_y t) + row) * width" using assms(1,5) by (cases width) simp_all
  then have small: "unat (tile_y t) + row < 2 ^ 32" "(unat (tile_y t) + row) * width < 2 ^ 32"
      "(unat (tile_y t) + row) * width + unat (tile_x t) < 2 ^ 32"
    using lt by linarith+
  then show ?thesis by (simp add: pp_dst_def wrap32_def)
qed

lemma paint_frame:
  assumes ok: "fb_ok fb" "tile_ok t"
    and inside: "unat (tile_x t) + unat (tile_w t) \<le> fb_width fb" "unat (tile_y t) + unat (tile_h t) \<le> fb_height fb"
    and small: "fb_width fb * fb_height fb < 2 ^ 32"
  shows "\<exists>px. paint_pixels t (fb_width fb) (paint_order t) (fb_pixels fb) = Inr px
    \<and> length px = length (fb_pixels fb)
    \<and> (\<forall>x < fb_width fb. \<forall>y < fb_height fb. px ! (y * fb_width fb + x)
        = (case tile_shows t x y of Some p \<Rightarrow> p | None \<Rightarrow> fb_pixels fb ! (y * fb_width fb + x)))"
proof -
  let ?w = "fb_width fb" and ?ps = "paint_order t"
  let ?d = "pp_dst t ?w" and ?v = "\<lambda>p. tile_pixel (tile_bytes t) (pp_src t p)"
  let ?px = "fold (write_where (pp_visible t) ?d ?v) ?ps (fb_pixels fb)"
  have d: "?d (row, col) = (unat (tile_y t) + row) * ?w + (unat (tile_x t) + col)"
    if "row < unat (tile_h t)" "col < unat (tile_w t)" for row col
    by (rule dest_no_wrap [OF inside small that])
  have lt: "?d p < length (fb_pixels fb)" if "p \<in> set ?ps" for p
    using that d inside ok(1) by (cases p rule: prod.exhaust) (simp add: set_paint_order fb_ok_def index_lt)
  have px: "paint_pixels t ?w ?ps (fb_pixels fb) = Inr ?px"
    using lt source_in_range [OF ok(2)] by (intro paint_pixels_fold) blast
  have dist: "distinct (map ?d ?ps)"
    unfolding paint_order_def
  proof (rule distinct_row_major)
    fix x y x' y'
    assume a: "x < unat (tile_w t)" "x' < unat (tile_w t)" "y < unat (tile_h t)" "y' < unat (tile_h t)"
      "?d (y, x) = ?d (y', x')"
    then show "x = x' \<and> y = y'"
      using index_inj [of "unat (tile_x t) + x" ?w "unat (tile_x t) + x'" "unat (tile_y t) + y" "unat (tile_y t) + y'"]
        inside by (simp add: d)
  qed
  have "?px ! (y * ?w + x) = (case tile_shows t x y of Some p \<Rightarrow> p | None \<Rightarrow> fb_pixels fb ! (y * ?w + x))"
    if xy: "x < ?w" "y < fb_height fb" for x y
  proof (cases "tile_covers t x y")
    case True
    let ?p = "(y - unat (tile_y t), x - unat (tile_x t))"
    have p: "?p \<in> set ?ps" and dp: "?d ?p = y * ?w + x"
      using True by (auto simp: set_paint_order tile_covers_def d)
    show ?thesis
      using nth_writes [OF dist p lt [OF p], of "pp_visible t" ?v] dp True
      by (simp add: tile_shows_def pp_visible_def pp_src_def tile_offset_def)
  next
    case False
    have "y * ?w + x \<notin> ?d ` set ?ps"
    proof
      assume "y * ?w + x \<in> ?d ` set ?ps"
      then obtain row col where rc: "row < unat (tile_h t)" "col < unat (tile_w t)" "y * ?w + x = ?d (row, col)"
        by (auto simp: set_paint_order)
      then have "x = unat (tile_x t) + col \<and> y = unat (tile_y t) + row"
        using index_inj [of x ?w "unat (tile_x t) + col" y "unat (tile_y t) + row"] xy inside by (simp add: d)
      with rc False show False by (auto simp: tile_covers_def)
    qed
    with False show ?thesis by (simp add: nth_writes_other tile_shows_def)
  qed
  then show ?thesis using px by simp
qed

lemma grown_fits: "unat pos + unat len < 2 ^ 32 \<Longrightarrow> grown old pos len = max (max old (unat pos + unat len)) 1"
  by (simp add: grown_def unat_saturating_add)

lemma tile_checks:
  assumes "tile_ok t"
  shows "checked_mul (tile_w t) 4 = Some (tile_w t * 4)" and "\<not> tile_stride t < tile_w t * 4"
    and "checked_mul (tile_stride t) (tile_h t) = Some (tile_stride t * tile_h t)"
    and "\<not> length (tile_bytes t) < unat (tile_stride t * tile_h t)"
proof -
  have w: "unat (tile_w t) * 4 < 2 ^ 32"
    using assms unat_lt_len [of "tile_stride t"] by (simp add: tile_ok_def)
  show "checked_mul (tile_w t) 4 = Some (tile_w t * 4)" using w by (simp add: checked_mul_def)
  have "unat (tile_w t * 4) = unat (tile_w t) * 4" using w by (subst unat_mult_no_overflow) simp_all
  then show "\<not> tile_stride t < tile_w t * 4" using assms by (simp add: tile_ok_def word_less_nat_alt not_less)
  show "checked_mul (tile_stride t) (tile_h t) = Some (tile_stride t * tile_h t)"
    using assms by (simp add: checked_mul_def tile_ok_def)
  show "\<not> length (tile_bytes t) < unat (tile_stride t * tile_h t)"
    using assms by (simp add: tile_ok_def unat_mult_no_overflow not_less)
qed

lemma crop_larger:
  "fb_width fb \<le> w \<Longrightarrow> fb_height fb \<le> h \<Longrightarrow> sc_pixel (crop_screen w h (abs_frame fb)) = sc_pixel (abs_frame fb)"
  by (auto simp: crop_screen_def abs_frame_def fun_eq_iff)

lemma apply_tile_paints:
  assumes "fb_ok fb" and "tile_ok t" and "fits t (fb_width fb) (fb_height fb)"
  shows "\<exists>fb'. apply_tile t fb = Inr (display_size fb \<noteq> display_size fb', fb')
    \<and> fb_ok fb' \<and> abs_frame fb' = paint t (abs_frame fb)"
proof -
  define W where "W = grown (fb_width fb) (tile_x t) (tile_w t)"
  define H where "H = grown (fb_height fb) (tile_y t) (tile_h t)"
  have WH: "W = max (max (fb_width fb) (unat (tile_x t) + unat (tile_w t))) 1"
      "H = max (max (fb_height fb) (unat (tile_y t) + unat (tile_h t))) 1" "W * H < 2 ^ 32"
    using assms(3) by (simp_all add: W_def H_def fits_def grown_fits)
  define fb1 where "fb1 = (if W \<noteq> fb_width fb \<or> H \<noteq> fb_height fb then grow_preserving_pixels W H fb else fb)"
  have fb1: "fb_ok fb1" "fb_width fb1 = W" "fb_height fb1 = H" "abs_frame fb1 = crop_screen W H (abs_frame fb)"
    using assms(1) abs_replace_preserving [OF assms(1)] abs_same_size [of fb]
    by (auto simp: fb1_def grow_preserving_pixels_def replace_buffer_preserving_pixels_def Let_def)
  have le: "unat (tile_x t) + unat (tile_w t) \<le> fb_width fb1" "unat (tile_y t) + unat (tile_h t) \<le> fb_height fb1"
      "fb_width fb \<le> W" "fb_height fb \<le> H"
    using fb1(2,3) WH(1,2) by linarith+
  have "fb_width fb1 * fb_height fb1 < 2 ^ 32" using fb1(2,3) WH(3) by simp
  from paint_frame [OF fb1(1) assms(2) le(1,2) this] obtain px where px:
      "paint_pixels t W (paint_order t) (fb_pixels fb1) = Inr px" "length px = length (fb_pixels fb1)"
      "\<forall>x < W. \<forall>y < H. px ! (y * W + x) = (case tile_shows t x y of Some p \<Rightarrow> p | None \<Rightarrow> fb_pixels fb1 ! (y * W + x))"
    unfolding fb1(2,3) by blast
  let ?fb' = "update_content_rect (fb1\<lparr>fb_pixels := px\<rparr>)"
  have "fb_ok (fb1\<lparr>fb_pixels := px\<rparr>)" using px(2) fb1(1) by (simp add: fb_ok_def)
  then have ok': "fb_ok ?fb'" by simp
  have out: "tile_shows t x y = None" if "\<not> (x < W \<and> y < H)" for x y
    using that le fb1(2,3) by (auto simp: tile_shows_def tile_covers_def)
  have old: "sc_pixel (abs_frame fb1) = sc_pixel (abs_frame fb)"
    unfolding fb1(4) using le by (intro crop_larger)
  have "sc_pixel (abs_frame ?fb') x y = (case tile_shows t x y of Some p \<Rightarrow> p | None \<Rightarrow> sc_pixel (abs_frame fb1) x y)" for x y
    using px(3) out [of x y] fb1(2,3) unfolding abs_update_content by (auto simp: abs_frame_def split: option.split)
  then have "sc_pixel (abs_frame ?fb') = (\<lambda>x y. case tile_shows t x y of Some p \<Rightarrow> p | None \<Rightarrow> sc_pixel (abs_frame fb) x y)"
    unfolding old by (intro ext)
  moreover have "sc_width (abs_frame ?fb') = W" "sc_height (abs_frame ?fb') = H"
    unfolding abs_update_content using fb1(2,3) by (simp_all add: abs_frame_def)
  moreover have "sc_width (abs_frame fb) = fb_width fb" "sc_height (abs_frame fb) = fb_height fb"
    by (simp_all add: abs_frame_def)
  ultimately have "abs_frame ?fb' = paint t (abs_frame fb)"
    unfolding paint_def WH(1,2) by (intro screen.equality) simp_all
  moreover have "apply_tile t fb = Inr (display_size fb \<noteq> display_size ?fb', ?fb')"
    unfolding apply_tile_def Let_def W_def [symmetric] H_def [symmetric] fb1_def [symmetric] fb1(2) px(1)
    using assms(2) tile_checks [OF assms(2)] by (simp add: tile_ok_def)
  ultimately show ?thesis using ok' by blast
qed

section \<open>Displays\<close>

text \<open>
  The contract of a display that tiles are painted on, and what follows from it for a
  sequence of tiles: the screen is the fold of \<open>paint\<close>, so a pixel shows the last tile that
  is visible there.
\<close>

fun steps :: "('t \<Rightarrow> 'd \<Rightarrow> 'd option) \<Rightarrow> 't list \<Rightarrow> 'd \<Rightarrow> 'd option" where
  "steps step [] d = Some d"
| "steps step (t # ts) d = (case step t d of None \<Rightarrow> None | Some d' \<Rightarrow> steps step ts d')"

definition within :: "nat \<Rightarrow> nat \<Rightarrow> FrameTile \<Rightarrow> bool" where
  "within W H t \<longleftrightarrow> tile_ok t \<and> unat (tile_x t) + unat (tile_w t) \<le> W \<and> unat (tile_y t) + unat (tile_h t) \<le> H"

definition area_ok :: "nat \<Rightarrow> nat \<Rightarrow> bool" where
  "area_ok W H \<longleftrightarrow> 0 < W \<and> 0 < H \<and> W < 2 ^ 32 \<and> H < 2 ^ 32 \<and> W * H < 2 ^ 32"

lemma within_fits:
  assumes "area_ok W H" and "within W H t" and "w \<le> W" and "h \<le> H"
  shows "fits t w h"
proof -
  have "max (max w (unat (tile_x t) + unat (tile_w t))) 1 * max (max h (unat (tile_y t) + unat (tile_h t))) 1 \<le> W * H"
    using assms by (intro mult_le_mono) (simp_all add: within_def area_ok_def)
  with assms show ?thesis by (simp add: fits_def within_def area_ok_def)
qed

lemma paint_within:
  "area_ok W H \<Longrightarrow> within W H t \<Longrightarrow> sc_width s \<le> W \<Longrightarrow> sc_height s \<le> H \<Longrightarrow>
     sc_width (paint t s) \<le> W \<and> sc_height (paint t s) \<le> H"
  by (simp add: paint_def within_def area_ok_def)

lemma fold_paint_pixel:
  "sc_pixel (fold paint ts s) x y =
     (case find (\<lambda>t. tile_shows t x y \<noteq> None) (rev ts) of
        Some t \<Rightarrow> the (tile_shows t x y) | None \<Rightarrow> sc_pixel s x y)"
proof (induction ts rule: rev_induct)
  case (snoc t ts)
  then show ?case by (cases "tile_shows t x y") (simp_all add: paint_def)
qed simp

locale tile_display =
  fixes step :: "FrameTile \<Rightarrow> 'd \<Rightarrow> 'd option"
    and view :: "'d \<Rightarrow> screen"
    and ok :: "'d \<Rightarrow> bool"
  assumes step_paints: "ok d \<Longrightarrow> tile_ok t \<Longrightarrow> fits t (sc_width (view d)) (sc_height (view d)) \<Longrightarrow>
    \<exists>d'. step t d = Some d' \<and> ok d' \<and> view d' = paint t (view d)"
begin

lemma steps_paint:
  assumes "ok d" and "area_ok W H" and "list_all (within W H) ts"
    and "sc_width (view d) \<le> W" and "sc_height (view d) \<le> H"
  shows "\<exists>d'. steps step ts d = Some d' \<and> ok d' \<and> view d' = fold paint ts (view d)"
  using assms
proof (induction ts arbitrary: d)
  case (Cons t ts)
  have t: "within W H t" using Cons.prems by simp
  then obtain d' where d': "step t d = Some d'" "ok d'" "view d' = paint t (view d)"
    using step_paints [OF Cons.prems(1), of t] within_fits Cons.prems by (auto simp: within_def)
  moreover have "sc_width (view d') \<le> W" "sc_height (view d') \<le> H"
    using paint_within [OF Cons.prems(2) t] Cons.prems d'(3) by simp_all
  ultimately show ?case using Cons.IH [of d'] Cons.prems by auto
qed simp

lemma steps_last_visible:
  assumes "ok d" and "area_ok W H" and "list_all (within W H) ts"
    and "sc_width (view d) \<le> W" and "sc_height (view d) \<le> H"
  shows "\<exists>d'. steps step ts d = Some d' \<and> (\<forall>x y. sc_pixel (view d') x y =
     (case find (\<lambda>t. tile_shows t x y \<noteq> None) (rev ts) of
        Some t \<Rightarrow> the (tile_shows t x y) | None \<Rightarrow> sc_pixel (view d) x y))"
  using steps_paint [OF assms] by (auto simp: fold_paint_pixel)

end

definition viewer_step :: "FrameTile \<Rightarrow> FrameBuffer \<Rightarrow> FrameBuffer option" where
  "viewer_step t fb = (case apply_tile t fb of Inl _ \<Rightarrow> None | Inr (_, fb') \<Rightarrow> Some fb')"

interpretation viewer: tile_display viewer_step abs_frame fb_ok
proof
  fix d t
  assume "fb_ok d" "tile_ok t" "fits t (sc_width (abs_frame d)) (sc_height (abs_frame d))"
  then show "\<exists>d'. viewer_step t d = Some d' \<and> fb_ok d' \<and> abs_frame d' = paint t (abs_frame d)"
    using apply_tile_paints [of d t] by (auto simp: viewer_step_def abs_frame_def)
qed

section \<open>Content rectangle\<close>

lemma shrink_high_bounds: "lo < hi \<Longrightarrow> lo < shrink_high P lo hi \<and> shrink_high P lo hi \<le> hi"
  by (induction P lo hi rule: shrink_high.induct) auto

lemma shrink_low_bounds: "lo < hi \<Longrightarrow> lo \<le> shrink_low P lo hi \<and> shrink_low P lo hi < hi"
proof (induction P lo hi rule: shrink_low.induct)
  case (1 P lo hi)
  show ?case
  proof (cases "lo + 1 < hi \<and> P lo")
    case True
    with 1 show ?thesis by (subst (1 2) shrink_low.simps) simp
  next
    case False
    then have "shrink_low P lo hi = lo" by (subst shrink_low.simps) auto
    with 1 show ?thesis by simp
  qed
qed

lemma trim_bounds:
  assumes "lo < hi"
  shows "lo < trim_high P lo hi" "trim_high P lo hi \<le> hi" "lo \<le> trim_low P lo hi" "trim_low P lo hi < hi"
  using shrink_high_bounds [OF assms, of P] shrink_low_bounds [OF assms, of P] assms
  by (simp_all add: trim_high_def trim_low_def Let_def)

lemma trim_uniform_padding_inside:
  assumes "0 < fr_w r" and "0 < fr_h r"
  shows "fr_x r \<le> fr_x (trim_uniform_padding px st r)"
    and "fr_x (trim_uniform_padding px st r) + fr_w (trim_uniform_padding px st r) \<le> fr_x r + fr_w r"
    and "fr_y r \<le> fr_y (trim_uniform_padding px st r)"
    and "fr_y (trim_uniform_padding px st r) + fr_h (trim_uniform_padding px st r) \<le> fr_y r + fr_h r"
    and "0 < fr_w (trim_uniform_padding px st r)" and "0 < fr_h (trim_uniform_padding px st r)"
proof -
  define left right where "left = fr_x r" and "right = fr_x r + fr_w r"
  define bottom where "bottom = trim_high (\<lambda>y. is_uniform_row px st y left right) (fr_y r) (fr_y r + fr_h r)"
  define top where "top = trim_low (\<lambda>y. is_uniform_row px st y left right) (fr_y r) bottom"
  define right' where "right' = trim_high (\<lambda>x. is_uniform_col px st x top bottom) left right"
  define left' where "left' = trim_low (\<lambda>x. is_uniform_col px st x top bottom) left right'"
  have lr: "left < right" "fr_y r < fr_y r + fr_h r" using assms by (simp_all add: left_def right_def)
  have b: "fr_y r < bottom" "bottom \<le> fr_y r + fr_h r" unfolding bottom_def by (rule trim_bounds [OF lr(2)])+
  have t: "fr_y r \<le> top" "top < bottom" unfolding top_def by (rule trim_bounds [OF b(1)])+
  have r': "left < right'" "right' \<le> right" unfolding right'_def by (rule trim_bounds [OF lr(1)])+
  have l': "left \<le> left'" "left' < right'" unfolding left'_def by (rule trim_bounds [OF r'(1)])+
  have eq: "trim_uniform_padding px st r = frame_rect_new left' top (right' - left') (bottom - top)"
    by (simp only: trim_uniform_padding_def Let_def left_def right_def bottom_def top_def right'_def left'_def)
  show "fr_x r \<le> fr_x (trim_uniform_padding px st r)"
    "fr_x (trim_uniform_padding px st r) + fr_w (trim_uniform_padding px st r) \<le> fr_x r + fr_w r"
    "fr_y r \<le> fr_y (trim_uniform_padding px st r)"
    "fr_y (trim_uniform_padding px st r) + fr_h (trim_uniform_padding px st r) \<le> fr_y r + fr_h r"
    "0 < fr_w (trim_uniform_padding px st r)" "0 < fr_h (trim_uniform_padding px st r)"
    unfolding eq using b t r' l' by (simp_all add: frame_rect_new_def left_def right_def)
qed

definition visible_at :: "FrameBuffer \<Rightarrow> nat \<times> nat \<Rightarrow> bool" where
  "visible_at fb p \<longleftrightarrow> \<not> pixel_alpha (fb_pixels fb ! (snd p * fb_width fb + fst p)) < VISIBLE_ALPHA_THRESHOLD"

definition acc_ok :: "FrameBuffer \<Rightarrow> content_acc \<Rightarrow> (nat \<times> nat) list \<Rightarrow> bool" where
  "acc_ok fb acc seen \<longleftrightarrow>
     visible_count acc = length (filter (visible_at fb) seen)
     \<and> (\<forall>p \<in> set seen. visible_at fb p \<longrightarrow> min_x acc \<le> fst p \<and> fst p \<le> max_x acc \<and> min_y acc \<le> snd p \<and> snd p \<le> max_y acc)
     \<and> (visible_count acc \<noteq> 0 \<longrightarrow> max_x acc < fb_width fb \<and> max_y acc < fb_height fb
          \<and> min_x acc \<le> max_x acc \<and> min_y acc \<le> max_y acc)"

lemma scan_keeps:
  assumes "acc_ok fb acc seen" and "fst p < fb_width fb" and "snd p < fb_height fb"
    and "visible_count acc = 0 \<longrightarrow> max_x acc = 0 \<and> max_y acc = 0"
  shows "acc_ok fb (scan_pixel fb p acc) (seen @ [p])
    \<and> (visible_count (scan_pixel fb p acc) = 0 \<longrightarrow> max_x (scan_pixel fb p acc) = 0 \<and> max_y (scan_pixel fb p acc) = 0)"
proof (cases "visible_at fb p")
  case True
  then have s: "scan_pixel fb p acc = acc\<lparr>min_x := min (min_x acc) (fst p), min_y := min (min_y acc) (snd p),
      max_x := max (max_x acc) (fst p), max_y := max (max_y acc) (snd p),
      r_sum := r_sum acc + unat (pixel_r (fb_pixels fb ! (snd p * fb_width fb + fst p))),
      g_sum := g_sum acc + unat (pixel_g (fb_pixels fb ! (snd p * fb_width fb + fst p))),
      b_sum := b_sum acc + unat (pixel_b (fb_pixels fb ! (snd p * fb_width fb + fst p))),
      visible_count := Suc (visible_count acc)\<rparr>"
    by (cases p) (simp add: scan_pixel_def visible_at_def Let_def)
  have "max (max_x acc) (fst p) < fb_width fb \<and> max (max_y acc) (snd p) < fb_height fb"
    using assms by (cases "visible_count acc = 0") (auto simp: acc_ok_def)
  with True assms(1) show ?thesis unfolding s by (auto simp: acc_ok_def le_max_iff_disj min_le_iff_disj)
next
  case False
  then have "scan_pixel fb p acc = acc" by (cases p) (simp add: scan_pixel_def visible_at_def Let_def)
  with False assms show ?thesis by (auto simp: acc_ok_def)
qed

lemma scan_all:
  assumes "\<forall>p \<in> set ps. fst p < fb_width fb \<and> snd p < fb_height fb" and "acc_ok fb acc seen"
    and "visible_count acc = 0 \<longrightarrow> max_x acc = 0 \<and> max_y acc = 0"
  shows "acc_ok fb (fold (scan_pixel fb) ps acc) (seen @ ps)"
  using assms
proof (induction ps arbitrary: acc seen)
  case (Cons p ps)
  have "acc_ok fb (fold (scan_pixel fb) ps (scan_pixel fb p acc)) ((seen @ [p]) @ ps)"
    using Cons.prems scan_keeps [of fb acc seen p] by (intro Cons.IH) auto
  then show ?case by simp
qed simp

lemma set_scan_order: "p \<in> set (scan_order fb) \<longleftrightarrow> fst p < fb_width fb \<and> snd p < fb_height fb"
  by (cases p) (auto simp: scan_order_def image_iff)

lemma content_inside:
  assumes "0 < fb_width fb" and "0 < fb_height fb"
  shows "fr_x (fb_content (update_content_rect fb)) + fr_w (fb_content (update_content_rect fb)) \<le> fb_width fb
    \<and> fr_y (fb_content (update_content_rect fb)) + fr_h (fb_content (update_content_rect fb)) \<le> fb_height fb
    \<and> 0 < fr_w (fb_content (update_content_rect fb)) \<and> 0 < fr_h (fb_content (update_content_rect fb))"
proof -
  define acc where "acc = fold (scan_pixel fb) (scan_order fb)
    \<lparr>min_x = fb_width fb, min_y = fb_height fb, max_x = 0, max_y = 0, r_sum = 0, g_sum = 0, b_sum = 0, visible_count = 0\<rparr>"
  have "acc_ok fb acc ([] @ scan_order fb)"
    unfolding acc_def by (rule scan_all) (auto simp: set_scan_order acc_ok_def)
  then have acc: "visible_count acc \<noteq> 0 \<Longrightarrow> max_x acc < fb_width fb \<and> max_y acc < fb_height fb
      \<and> min_x acc \<le> max_x acc \<and> min_y acc \<le> max_y acc" by (simp add: acc_ok_def)
  let ?r = "frame_rect_new (min_x acc) (min_y acc) (max_x acc - min_x acc + 1) (max_y acc - min_y acc + 1)"
  have trim: "trim_content_rect ?r = ?r"
    by (simp add: trim_content_rect_def CONTENT_EDGE_TRIM_PX_def frame_rect_new_def Let_def)
  have pos: "0 < fr_w ?r" "0 < fr_h ?r" by (simp_all add: frame_rect_new_def)
  note t = trim_uniform_padding_inside [OF pos, of "fb_pixels fb" "fb_width fb"]
  have box: "visible_count acc \<noteq> 0 \<Longrightarrow> fr_x ?r + fr_w ?r \<le> fb_width fb \<and> fr_y ?r + fr_h ?r \<le> fb_height fb"
    using acc by (simp add: frame_rect_new_def)
  show ?thesis
  proof (cases "visible_count acc = 0")
    case True
    then show ?thesis
      using assms by (simp add: update_content_rect_def acc_def [symmetric] Let_def frame_rect_new_def)
  next
    case False
    then have "fb_content (update_content_rect fb) = trim_uniform_padding (fb_pixels fb) (fb_width fb) ?r"
      unfolding update_content_rect_def acc_def [symmetric] Let_def trim by simp
    with t box False show ?thesis by simp
  qed
qed

section \<open>Rendering\<close>

lemma round_half:
  assumes "0 < (b :: nat)"
  shows "2 * a \<le> 2 * (((a + b div 2) div b) * b) + b" and "2 * (((a + b div 2) div b) * b) \<le> 2 * a + b"
proof -
  define k where "k = ((a + b div 2) div b) * b"
  have "k + (a + b div 2) mod b = a + b div 2" unfolding k_def by (rule div_mult_mod_eq)
  moreover have "(a + b div 2) mod b < b" using assms by simp
  moreover have "2 * (b div 2) \<le> b" "b \<le> 2 * (b div 2) + 1" by simp_all
  ultimately have "2 * a \<le> 2 * k + b" "2 * k \<le> 2 * a + b" by linarith+
  then show "2 * a \<le> 2 * (((a + b div 2) div b) * b) + b" "2 * (((a + b div 2) div b) * b) \<le> 2 * a + b"
    by (simp_all only: k_def)
qed

lemma round_bound: "0 < b \<Longrightarrow> a < b * (d :: nat) \<Longrightarrow> (a + b div 2) div b \<le> d"
proof -
  assume "0 < b" "a < b * d"
  then have "a + b div 2 < b * Suc d" by simp
  then have "a + b div 2 < Suc d * b" by (simp add: mult.commute)
  then have "(a + b div 2) div b < Suc d" by (rule less_mult_imp_div_less)
  then show ?thesis by simp
qed

definition aspect_ok :: "nat \<Rightarrow> nat \<Rightarrow> FrameRect \<Rightarrow> bool" where
  "aspect_ok sw sh r \<longleftrightarrow> fr_h r = 1 \<or> fr_w r = 1
     \<or> (2 * (fr_w r * sh) \<le> 2 * (fr_h r * sw) + max sw sh \<and> 2 * (fr_h r * sw) \<le> 2 * (fr_w r * sh) + max sw sh)"

lemma aspect_fit:
  assumes "0 < sw" "0 < sh" "0 < dw" "0 < dh"
  defines "r \<equiv> aspect_fit_rect sw sh dw dh"
  shows "0 < fr_w r \<and> 0 < fr_h r \<and> fr_x r + fr_w r \<le> dw \<and> fr_y r + fr_h r \<le> dh
    \<and> (fr_w r = dw \<or> fr_h r = dh) \<and> aspect_ok sw sh r"
proof (cases "sw * dh > dw * sh")
  case True
  define h where "h = max ((dw * sh + sw div 2) div sw) 1"
  have "(dw * sh + sw div 2) div sw \<le> dh" using round_bound [OF assms(1), of "dw * sh" dh] True by simp
  then have hd: "min h dh = h" using assms by (simp add: h_def)
  have r: "r = \<lparr>fr_x = 0, fr_y = (dh - h) div 2, fr_w = dw, fr_h = h\<rparr>"
    using True assms hd by (simp add: r_def aspect_fit_rect_def Let_def h_def max_absorb1 Suc_le_eq)
  have "h = 1 \<or> h = (dw * sh + sw div 2) div sw" by (auto simp: h_def)
  then have "aspect_ok sw sh r"
    using round_half [OF assms(1), of "dw * sh"] by (auto simp: r aspect_ok_def)
  moreover have "h \<le> dh" "0 < h" using hd by (simp_all add: h_def min_def split: if_splits)
  ultimately show ?thesis using assms(3) unfolding r by simp
next
  case False
  define w where "w = max ((dh * sw + sh div 2) div sh) 1"
  have "(dh * sw + sh div 2) div sh \<le> dw"
  proof (cases "dh * sw = sh * dw")
    case True
    have "(sh * dw + sh div 2) div sh = dw + (sh div 2) div sh" using assms(2) by simp
    then show ?thesis using True assms(2) by simp
  next
    case ne: False
    then show ?thesis using round_bound [OF assms(2), of "dh * sw" dw] False by (simp add: mult.commute)
  qed
  then have wd: "min w dw = w" using assms by (simp add: w_def)
  have r: "r = \<lparr>fr_x = (dw - w) div 2, fr_y = 0, fr_w = w, fr_h = dh\<rparr>"
    using False assms wd by (simp add: r_def aspect_fit_rect_def Let_def w_def max_absorb1 Suc_le_eq)
  have "w = 1 \<or> w = (dh * sw + sh div 2) div sh" by (auto simp: w_def)
  then have "aspect_ok sw sh r"
    using round_half [OF assms(2), of "dh * sw"] by (auto simp: r aspect_ok_def)
  moreover have "w \<le> dw" "0 < w" using wd by (simp_all add: w_def min_def split: if_splits)
  ultimately show ?thesis using assms(4) unfolding r by simp
qed

lemma copy_into_rect:
  assumes inside: "fr_x render + fr_w render \<le> dw" "fr_y render + fr_h render \<le> dh" and len: "length dst = dw * dh"
    and xy: "x < dw" "y < dh"
  shows "copy_scaled_frame_region_into_rect src sw region matte dst dw render ! (y * dw + x)
    = (if fr_x render \<le> x \<and> x < fr_x render + fr_w render \<and> fr_y render \<le> y \<and> y < fr_y render + fr_h render
       then scaled_pixel src sw region matte render (x - fr_x render) (y - fr_y render) else dst ! (y * dw + x))"
proof -
  define d where "d = (\<lambda>p. (fr_y render + snd p) * dw + (fr_x render + fst p))"
  define v where "v = (\<lambda>p. scaled_pixel src sw region matte render (fst p) (snd p))"
  define ps where "ps = concat (map (\<lambda>y. map (\<lambda>x. (x, y)) [0..<fr_w render]) [0..<fr_h render])"
  have eq: "copy_scaled_frame_region_into_rect src sw region matte dst dw render = fold (write_where (\<lambda>_. True) d v) ps dst"
    by (simp add: copy_scaled_frame_region_into_rect_def ps_def d_def v_def write_where_def [abs_def] case_prod_unfold add.assoc)
  have set: "p \<in> set ps \<longleftrightarrow> fst p < fr_w render \<and> snd p < fr_h render" for p
    by (cases p) (auto simp: ps_def image_iff)
  have dist: "distinct (map d ps)"
    unfolding ps_def
  proof (rule distinct_row_major)
    fix a b a' b'
    assume "a < fr_w render" "a' < fr_w render" "b < fr_h render" "b' < fr_h render" "d (a, b) = d (a', b')"
    then show "a = a' \<and> b = b'"
      using index_inj [of "fr_x render + a" dw "fr_x render + a'" "fr_y render + b" "fr_y render + b'"] inside
      by (simp add: d_def)
  qed
  show ?thesis
  proof (cases "fr_x render \<le> x \<and> x < fr_x render + fr_w render \<and> fr_y render \<le> y \<and> y < fr_y render + fr_h render")
    case True
    let ?p = "(x - fr_x render, y - fr_y render)"
    have p: "?p \<in> set ps" "d ?p = y * dw + x" using True by (auto simp: set d_def)
    then have "d ?p < length dst" using index_lt [OF xy] len by simp
    from nth_writes [OF dist p(1) this, of "\<lambda>_. True" v] True p(2) show ?thesis
      by (simp add: eq v_def)
  next
    case False
    have "y * dw + x \<notin> d ` set ps"
    proof
      assume "y * dw + x \<in> d ` set ps"
      then obtain p where p: "fst p < fr_w render" "snd p < fr_h render" "y * dw + x = d p" by (auto simp: set)
      then have "x = fr_x render + fst p \<and> y = fr_y render + snd p"
        using index_inj [of x dw "fr_x render + fst p" y "fr_y render + snd p"] xy inside by (simp add: d_def)
      with p False show False by simp
    qed
    with False show ?thesis by (auto simp: eq nth_writes_other)
  qed
qed

lemma scaled_source_inside:
  assumes "x < fr_w render" and "0 < fr_w region"
  shows "x * fr_w region div fr_w render < fr_w region"
proof -
  have "x * fr_w region < fr_w region * fr_w render"
    using assms by (simp add: mult.commute)
  then show ?thesis by (rule less_mult_imp_div_less)
qed

section \<open>Properties\<close>

lemma bad_tile_rejected: "\<not> tile_ok t \<Longrightarrow> \<exists>e. apply_tile t fb = Inl e"
  by (auto simp: apply_tile_def tile_ok_def checked_mul_def unat_mult_no_overflow word_less_nat_alt Let_def
      split: if_splits)

text \<open>
  C6: \<open>apply_tile\<close> refines painting on the abstract screen. On a well-formed buffer, with
  fewer than \<open>2 ^ 32\<close> pixels after the tile, a tile that passes the checks is painted without
  a panic, whatever its contents: the screen grows to the tile's extent, each visible pixel of
  the tile replaces the one below it, and all others stay, new ones transparent. A tile that
  fails a check is an error.
\<close>
theorem apply_tile_refines_paint:
  assumes "fb_ok fb" and "fits t (fb_width fb) (fb_height fb)"
  shows "if tile_ok t
    then \<exists>fb'. apply_tile t fb = Inr (display_size fb \<noteq> display_size fb', fb')
      \<and> fb_ok fb' \<and> abs_frame fb' = paint t (abs_frame fb)
    else \<exists>e. apply_tile t fb = Inl e"
  using apply_tile_paints [OF assms(1) _ assms(2)] bad_tile_rejected [of t fb] by simp

definition demo_tile :: FrameTile where
  "demo_tile = \<lparr>tile_id = 2, tile_x = 1, tile_y = 1, tile_w = 1, tile_h = 1, tile_stride = 4,
     tile_encoding = RawRgba, tile_bytes = [255, 0, 0, 255]\<rparr>"

lemma demo_tile_ok: "tile_ok demo_tile"
  by (simp add: tile_ok_def demo_tile_def)

theorem apply_tile_refines_paint_witness:
  "\<exists>fb. apply_tile demo_tile (frame_buffer_new 1 1) = Inr (display_size (frame_buffer_new 1 1) \<noteq> display_size fb, fb)
     \<and> abs_frame fb = paint demo_tile (abs_frame (frame_buffer_new 1 1))"
proof -
  have "fb_ok (frame_buffer_new 1 1)"
    by (simp add: frame_buffer_new_def fb_resize_def replace_buffer_preserving_pixels_def Let_def fb_ok_def)
  moreover have "fits demo_tile (fb_width (frame_buffer_new 1 1)) (fb_height (frame_buffer_new 1 1))"
    by (simp add: frame_buffer_new_def fb_resize_def replace_buffer_preserving_pixels_def Let_def fits_def demo_tile_def)
  ultimately show ?thesis
    using apply_tile_refines_paint [of "frame_buffer_new 1 1" demo_tile] demo_tile_ok by auto
qed

text \<open>
  Any sequence of valid tiles inside an area of fewer than \<open>2 ^ 32\<close> pixels is painted
  without an error, and in the end every pixel shows the last tile that is visible there, or
  what was there before if none is.
\<close>
theorem last_visible_tile_wins:
  assumes "fb_ok fb" and "area_ok W H" and "list_all (within W H) ts"
    and "fb_width fb \<le> W" and "fb_height fb \<le> H"
  shows "\<exists>fb'. steps viewer_step ts fb = Some fb' \<and> (\<forall>x y. sc_pixel (abs_frame fb') x y =
     (case find (\<lambda>t. tile_shows t x y \<noteq> None) (rev ts) of
        Some t \<Rightarrow> the (tile_shows t x y) | None \<Rightarrow> sc_pixel (abs_frame fb) x y))"
  using viewer.steps_last_visible [OF assms(1-3)] assms(4,5) by (simp add: abs_frame_def)

theorem last_visible_tile_wins_witness:
  "\<exists>fb'. steps viewer_step [demo_tile, demo_tile] (frame_buffer_new 0 0) = Some fb'
     \<and> sc_pixel (abs_frame fb') 1 1 = 0xffff0000"
proof -
  have "\<exists>fb'. steps viewer_step [demo_tile, demo_tile] (frame_buffer_new 0 0) = Some fb'
     \<and> (\<forall>x y. sc_pixel (abs_frame fb') x y =
       (case find (\<lambda>t. tile_shows t x y \<noteq> None) (rev [demo_tile, demo_tile]) of
          Some t \<Rightarrow> the (tile_shows t x y) | None \<Rightarrow> sc_pixel (abs_frame (frame_buffer_new 0 0)) x y))"
    by (rule last_visible_tile_wins [of _ 2 2])
      (simp_all add: demo_tile_ok within_def area_ok_def, simp_all add: demo_tile_def frame_buffer_new_def fb_resize_def fb_ok_def)
  moreover have "tile_shows demo_tile 1 1 = Some 0xffff0000"
    by (simp add: tile_shows_def tile_covers_def tile_offset_def demo_tile_def tile_pixel_def rgba_to_pixel_def
        VISIBLE_ALPHA_THRESHOLD_def word_less_nat_alt)
  ultimately show ?thesis by fastforce
qed

text \<open>
  The type of a frame buffer: a pixel for each place, no empty side, and a content rectangle that
  is not empty and lies inside. The viewer's window asks for sizes of at least one pixel.
\<close>

definition fb_typed :: "FrameBuffer \<Rightarrow> bool" where
  "fb_typed fb \<longleftrightarrow> length (fb_pixels fb) = fb_width fb * fb_height fb \<and> 0 < fb_width fb \<and> 0 < fb_height fb
     \<and> fr_x (fb_content fb) + fr_w (fb_content fb) \<le> fb_width fb \<and> fr_y (fb_content fb) + fr_h (fb_content fb) \<le> fb_height fb
     \<and> 0 < fr_w (fb_content fb) \<and> 0 < fr_h (fb_content fb)"

datatype fb_op = OpTile FrameTile | OpResize nat nat | OpRemoteSize nat nat

fun fb_op_step :: "FrameBuffer \<Rightarrow> fb_op \<Rightarrow> FrameBuffer" where
  "fb_op_step fb (OpTile t) = (case apply_tile t fb of Inl _ \<Rightarrow> fb | Inr (_, fb') \<Rightarrow> fb')"
| "fb_op_step fb (OpResize w h) = fb_resize (max w 1) (max h 1) fb"
| "fb_op_step fb (OpRemoteSize w h) = resize_for_remote_size (max w 1) (max h 1) fb"

lemma paint_pixels_length: "paint_pixels t w ps px = Inr px' \<Longrightarrow> length px' = length px"
  by (induction t w ps px rule: paint_pixels.induct) (auto simp: Let_def split: if_splits)

lemma fb_typed_resized: "fb_ok fb \<Longrightarrow> fb_width fb = w \<Longrightarrow> fb_height fb = h \<Longrightarrow> 0 < w \<Longrightarrow> 0 < h
    \<Longrightarrow> fb_typed (fb\<lparr>fb_content := frame_rect_new 0 0 (max w 1) (max h 1)\<rparr>)"
  by (simp add: fb_typed_def fb_ok_def frame_rect_new_def)

lemma replaced_size:
  "fb_width (replace_buffer_preserving_pixels w h fb) = w" "fb_height (replace_buffer_preserving_pixels w h fb) = h"
  "fb_width (replace_buffer_clearing w h fb) = w" "fb_height (replace_buffer_clearing w h fb) = h"
  by (simp_all add: replace_buffer_preserving_pixels_def replace_buffer_clearing_def Let_def)

lemma fb_resize_typed: "fb_ok fb \<Longrightarrow> fb_typed fb \<or> fb_width fb = 0 \<Longrightarrow> 0 < w \<Longrightarrow> 0 < h \<Longrightarrow> fb_typed (fb_resize w h fb)"
  using fb_typed_resized [OF abs_replace_preserving(1) replaced_size(1,2), of fb w h] by (auto simp: fb_resize_def)

lemma apply_tile_typed:
  assumes "fb_typed fb" and "apply_tile t fb = Inr (b, fb')"
  shows "fb_typed fb'"
proof -
  have ok: "fb_ok fb" using assms(1) by (simp add: fb_typed_def fb_ok_def)
  define W H where "W = grown (fb_width fb) (tile_x t) (tile_w t)" and "H = grown (fb_height fb) (tile_y t) (tile_h t)"
  define fb1 where "fb1 = (if W \<noteq> fb_width fb \<or> H \<noteq> fb_height fb then grow_preserving_pixels W H fb else fb)"
  have fb1: "fb_ok fb1" "fb_width fb1 = W" "fb_height fb1 = H"
    using ok abs_replace_preserving(1) [OF ok, of W H] by (auto simp: fb1_def grow_preserving_pixels_def replaced_size)
  have pos: "0 < W" "0 < H" by (simp_all add: W_def H_def grown_def)
  obtain px where px: "paint_pixels t (fb_width fb1) (paint_order t) (fb_pixels fb1) = Inr px" "fb' = update_content_rect (fb1\<lparr>fb_pixels := px\<rparr>)"
    using assms(2) unfolding apply_tile_def Let_def W_def [symmetric] H_def [symmetric] fb1_def [symmetric]
    by (auto split: if_splits option.splits sum.splits)
  have size: "fb_width (update_content_rect f) = fb_width f" "fb_height (update_content_rect f) = fb_height f"
    "fb_pixels (update_content_rect f) = fb_pixels f" for f by (simp_all add: update_content_rect_def Let_def)
  show ?thesis
    using content_inside [of "fb1\<lparr>fb_pixels := px\<rparr>"] paint_pixels_length [OF px(1)] fb1 pos
    by (simp add: fb_typed_def px(2) size fb_ok_def)
qed

interpretation frame_type: invariant_machine fb_op_step fb_typed
proof
  fix fb op assume typed: "fb_typed fb"
  then have ok: "fb_ok fb" by (simp add: fb_typed_def fb_ok_def)
  show "fb_typed (fb_op_step fb op)"
  proof (cases op)
    case (OpTile t)
    with typed apply_tile_typed [OF typed, of t] show ?thesis by (auto split: sum.split)
  next
    case (OpResize w h)
    with fb_resize_typed [OF ok, of "max w 1" "max h 1"] typed show ?thesis by simp
  next
    case (OpRemoteSize w h)
    have "0 < max w 1" "0 < max h 1" by simp_all
    with OpRemoteSize typed fb_typed_resized [OF abs_replace_preserving(1) [OF ok] replaced_size(1,2), of "max w 1" "max h 1"]
      fb_typed_resized [OF abs_clearing(1) replaced_size(3,4), of "max w 1" "max h 1" fb]
    show ?thesis by (simp add: resize_for_remote_size_def)
  qed
qed

text \<open>
  C19: A frame buffer keeps its type, whatever the guest sends: after any sequence of tiles, valid
  or not, of host resizes and of sizes the guest configures, the pixel vector has exactly one entry for
  each place, and the content rectangle is not empty and lies inside the frame, so that
  rendering never indexes past the vector.
\<close>
theorem frame_buffer_well_typed:
  "let fb = run fb_op_step (frame_buffer_new (max w 1) (max h 1)) ops in
     length (fb_pixels fb) = fb_width fb * fb_height fb \<and> 0 < fb_width fb \<and> 0 < fb_height fb
     \<and> fr_x (fb_content fb) + fr_w (fb_content fb) \<le> fb_width fb \<and> fr_y (fb_content fb) + fr_h (fb_content fb) \<le> fb_height fb
     \<and> 0 < fr_w (fb_content fb) \<and> 0 < fr_h (fb_content fb)"
proof -
  have "fb_typed (frame_buffer_new (max w 1) (max h 1))"
    unfolding frame_buffer_new_def by (rule fb_resize_typed) (simp_all add: fb_ok_def)
  from frame_type.run_keeps [OF this, of ops] show ?thesis by (simp add: fb_typed_def Let_def)
qed

text \<open>
  The content rectangle is never empty and lies inside the frame, whatever the pixels
  are, so that rendering it reads only pixels of the frame.
\<close>
theorem content_rect_inside:
  assumes "0 < fb_width fb" and "0 < fb_height fb"
  shows "fr_x (fb_content (update_content_rect fb)) + fr_w (fb_content (update_content_rect fb)) \<le> fb_width fb
    \<and> fr_y (fb_content (update_content_rect fb)) + fr_h (fb_content (update_content_rect fb)) \<le> fb_height fb
    \<and> 0 < fr_w (fb_content (update_content_rect fb)) \<and> 0 < fr_h (fb_content (update_content_rect fb))"
  using assms by (rule content_inside)

theorem content_rect_inside_witness:
  "fr_w (fb_content (update_content_rect (frame_buffer_new 2 1))) \<le> 2"
proof -
  have "fb_width (frame_buffer_new 2 1) = 2" "fb_height (frame_buffer_new 2 1) = 1"
    by (simp_all add: frame_buffer_new_def fb_resize_def replace_buffer_preserving_pixels_def Let_def)
  then show ?thesis using content_rect_inside [of "frame_buffer_new 2 1"] by simp
qed

text \<open>
  C35: Rendering is exact: the content is scaled into the largest centred rectangle of the
  host surface with its aspect ratio, up to rounding to whole pixels, touching both edges of
  one axis. Every pixel of that rectangle is the blended source pixel at the scaled place,
  which lies in the content rectangle, and every pixel outside is the matte.
\<close>
theorem render_exact:
  assumes "0 < fr_w region" "0 < fr_h region" "0 < dw" "0 < dh" and "length dst = dw * dh" and "x < dw" "y < dh"
  shows "let r = aspect_fit_rect (fr_w region) (fr_h region) dw dh;
      out = copy_frame_region_preserve_aspect src sw region matte dst dw dh in
    fr_x r + fr_w r \<le> dw \<and> fr_y r + fr_h r \<le> dh \<and> (fr_w r = dw \<or> fr_h r = dh)
    \<and> aspect_ok (fr_w region) (fr_h region) r
    \<and> out ! (y * dw + x) =
       (if fr_x r \<le> x \<and> x < fr_x r + fr_w r \<and> fr_y r \<le> y \<and> y < fr_y r + fr_h r
        then pixel_for_softbuffer (src ! ((fr_y region + (y - fr_y r) * fr_h region div fr_h r) * sw
          + (fr_x region + (x - fr_x r) * fr_w region div fr_w r))) matte
        else opaque_softbuffer_pixel matte)
    \<and> (fr_x r \<le> x \<and> x < fr_x r + fr_w r \<longrightarrow> (x - fr_x r) * fr_w region div fr_w r < fr_w region)
    \<and> (fr_y r \<le> y \<and> y < fr_y r + fr_h r \<longrightarrow> (y - fr_y r) * fr_h region div fr_h r < fr_h region)"
proof -
  let ?r = "aspect_fit_rect (fr_w region) (fr_h region) dw dh"
  note fit = aspect_fit [OF assms(1-4)]
  have "out_x < k \<Longrightarrow> 0 < n \<Longrightarrow> out_x * n div k < n" for out_x n k :: nat
    by (simp add: less_mult_imp_div_less mult.commute)
  moreover have "copy_frame_region_preserve_aspect src sw region matte dst dw dh ! (y * dw + x) =
      (if fr_x ?r \<le> x \<and> x < fr_x ?r + fr_w ?r \<and> fr_y ?r \<le> y \<and> y < fr_y ?r + fr_h ?r
       then scaled_pixel src sw region matte ?r (x - fr_x ?r) (y - fr_y ?r) else opaque_softbuffer_pixel matte)"
    unfolding copy_frame_region_preserve_aspect_def
    using copy_into_rect [of ?r dw dh "replicate (length dst) (opaque_softbuffer_pixel matte)" x y] fit assms(5-7)
    by (simp add: index_lt)
  ultimately show ?thesis using fit assms(1,2) unfolding Let_def scaled_pixel_def by auto
qed

theorem render_exact_witness:
  "copy_frame_region_preserve_aspect [0xff112233] 1 \<lparr>fr_x = 0, fr_y = 0, fr_w = 1, fr_h = 1\<rparr> 0 [0, 0] 2 1 ! 1
     = 0xff000000"
  using render_exact [of "\<lparr>fr_x = 0, fr_y = 0, fr_w = 1, fr_h = 1\<rparr>" 2 1 "[0, 0]" 1 0 "[0xff112233]" 1 0]
  by (simp add: Let_def aspect_fit_rect_def opaque_softbuffer_pixel_def)

end
