(* ===== verification/Viewer_Input.thy ===== *)
theory Viewer_Input
  imports Proto Ime
begin

text \<open>
  The viewer's keyboard and input-method handling: the key tables of
  \<open>crates/client/src/viewer/input.rs\<close>, the shortcut recognisers of \<open>viewer/fullscreen.rs\<close> and
  \<open>viewer/keyboard_shortcuts.rs\<close>, and the keyboard part of \<open>viewer/app.rs\<close> with its table of
  keys the guest holds and the composer of each window.

  Key codes and named keys the source does not mention are collected in one constructor each.
  A window's fullscreen flag is what the host's window system reports. The zoom shortcuts only
  change the floating-point scale of a window; they are logged.
\<close>

section \<open>Keys of the host\<close>

datatype ElementState = Pressed | Released

datatype KeyCode =
    Digit nat | Letter char | Minus | Equal | TabKey | BracketLeft | BracketRight | EnterKey | NumpadEnter
  | Semicolon | Quote | Backquote | Backslash | IntlBackslash | IntlYen | Comma | Period | NumpadDecimal
  | Slash | NumpadDivide | Space | BackspaceKey | EscapeKey | ArrowLeftKey | ArrowRightKey | ArrowUpKey
  | ArrowDownKey | DeleteKey | HomeKey | EndKey
  | ControlLeft | ControlRight | ShiftLeft | ShiftRight | AltLeft | AltRight | SuperLeft | SuperRight
  | OtherCode nat

datatype PhysicalKey = Code KeyCode | UnidentifiedKey nat

datatype NamedKey =
    NControl | NShift | NAlt | NSuper | NEnter | NTab | NBackspace | NEscape | NArrowLeft | NArrowRight
  | NArrowUp | NArrowDown | NDelete | NHome | NEnd | NF11 | OtherNamed nat

datatype LogicalKey = Named NamedKey | Character ustring | OtherKey

record ModifiersState =
  shift_key :: bool
  control_key :: bool
  alt_key :: bool
  super_key :: bool

definition no_modifiers :: ModifiersState where
  "no_modifiers = \<lparr>shift_key = False, control_key = False, alt_key = False, super_key = False\<rparr>"

record KeyEvent =
  ke_state :: ElementState
  ke_repeat :: bool
  ke_physical :: PhysicalKey
  ke_logical :: LogicalKey
  ke_text :: "ustring option"

datatype MouseButton = LeftButton | RightButton | MiddleButton | BackButton | ForwardButton | OtherButton u16

definition KEY_BACKSPACE :: u32 where "KEY_BACKSPACE = 14"
definition KEY_LEFTCTRL :: u32 where "KEY_LEFTCTRL = 29"
definition KEY_LEFTSHIFT :: u32 where "KEY_LEFTSHIFT = 42"
definition KEY_RIGHTSHIFT :: u32 where "KEY_RIGHTSHIFT = 54"
definition KEY_LEFTALT :: u32 where "KEY_LEFTALT = 56"
definition KEY_RIGHTCTRL :: u32 where "KEY_RIGHTCTRL = 97"
definition KEY_RIGHTALT :: u32 where "KEY_RIGHTALT = 100"

lemmas key_codes = KEY_BACKSPACE_def KEY_LEFTCTRL_def KEY_LEFTSHIFT_def KEY_RIGHTSHIFT_def KEY_LEFTALT_def
  KEY_RIGHTCTRL_def KEY_RIGHTALT_def

fun mouse_button_code :: "MouseButton \<Rightarrow> u32 option" where
  "mouse_button_code LeftButton = Some 0x110"
| "mouse_button_code RightButton = Some 0x111"
| "mouse_button_code MiddleButton = Some 0x112"
| "mouse_button_code BackButton = Some 0x116"
| "mouse_button_code ForwardButton = Some 0x115"
| "mouse_button_code (OtherButton n) = Some (0x110 + ucast n)"

fun modifier_of_logical :: "LogicalKey \<Rightarrow> u32 option" where
  "modifier_of_logical (Named NControl) = Some KEY_LEFTCTRL"
| "modifier_of_logical (Named NShift) = Some KEY_LEFTSHIFT"
| "modifier_of_logical (Named NAlt) = Some KEY_LEFTALT"
| "modifier_of_logical (Named NSuper) = Some KEY_LEFTCTRL"
| "modifier_of_logical _ = None"

fun guest_modifier_keycode :: "PhysicalKey \<Rightarrow> LogicalKey \<Rightarrow> u32 option" where
  "guest_modifier_keycode (Code ControlLeft) _ = Some KEY_LEFTCTRL"
| "guest_modifier_keycode (Code ControlRight) _ = Some KEY_RIGHTCTRL"
| "guest_modifier_keycode (Code ShiftLeft) _ = Some KEY_LEFTSHIFT"
| "guest_modifier_keycode (Code ShiftRight) _ = Some KEY_RIGHTSHIFT"
| "guest_modifier_keycode (Code AltLeft) _ = Some KEY_LEFTALT"
| "guest_modifier_keycode (Code AltRight) _ = Some KEY_RIGHTALT"
| "guest_modifier_keycode (Code SuperLeft) _ = Some KEY_LEFTCTRL"
| "guest_modifier_keycode (Code SuperRight) _ = Some KEY_LEFTCTRL"
| "guest_modifier_keycode _ logical = modifier_of_logical logical"

definition letter_codes :: "(char \<times> u32) list" where
  "letter_codes = zip ''QWERTYUIOP'' [16, 17, 18, 19, 20, 21, 22, 23, 24, 25]
     @ zip ''ASDFGHJKL'' [30, 31, 32, 33, 34, 35, 36, 37, 38] @ zip ''ZXCVBNM'' [44, 45, 46, 47, 48, 49, 50]"

definition digit_codes :: "(nat \<times> u32) list" where
  "digit_codes = [(1, 2), (2, 3), (3, 4), (4, 5), (5, 6), (6, 7), (7, 8), (8, 9), (9, 10), (0, 11)]"

fun code_table :: "KeyCode \<Rightarrow> u32 option" where
  "code_table (Digit n) = map_of digit_codes n"
| "code_table (Letter c) = map_of letter_codes c"
| "code_table Minus = Some 12"
| "code_table Equal = Some 13"
| "code_table TabKey = Some 15"
| "code_table BracketLeft = Some 26"
| "code_table BracketRight = Some 27"
| "code_table EnterKey = Some 28"
| "code_table NumpadEnter = Some 28"
| "code_table Semicolon = Some 39"
| "code_table Quote = Some 40"
| "code_table Backquote = Some 41"
| "code_table Backslash = Some 43"
| "code_table IntlBackslash = Some 43"
| "code_table IntlYen = Some 43"
| "code_table Comma = Some 51"
| "code_table Period = Some 52"
| "code_table NumpadDecimal = Some 52"
| "code_table Slash = Some 53"
| "code_table NumpadDivide = Some 53"
| "code_table Space = Some 57"
| "code_table BackspaceKey = Some KEY_BACKSPACE"
| "code_table EscapeKey = Some 1"
| "code_table ArrowLeftKey = Some 105"
| "code_table ArrowRightKey = Some 106"
| "code_table ArrowUpKey = Some 103"
| "code_table ArrowDownKey = Some 108"
| "code_table DeleteKey = Some 111"
| "code_table HomeKey = Some 102"
| "code_table EndKey = Some 107"
| "code_table _ = None"

fun shortcut_keycode :: "PhysicalKey \<Rightarrow> u32 option" where
  "shortcut_keycode (Code c) = code_table c"
| "shortcut_keycode (UnidentifiedKey _) = None"

fun named_keycode :: "LogicalKey \<Rightarrow> u32 option" where
  "named_keycode (Named NEnter) = Some 28"
| "named_keycode (Named NTab) = Some 15"
| "named_keycode (Named NBackspace) = Some KEY_BACKSPACE"
| "named_keycode (Named NEscape) = Some 1"
| "named_keycode (Named NArrowLeft) = Some 105"
| "named_keycode (Named NArrowRight) = Some 106"
| "named_keycode (Named NArrowUp) = Some 103"
| "named_keycode (Named NArrowDown) = Some 108"
| "named_keycode (Named NDelete) = Some 111"
| "named_keycode (Named NHome) = Some 102"
| "named_keycode (Named NEnd) = Some 107"
| "named_keycode _ = None"

text \<open>\<open>char::is_control\<close> is the Unicode category Cc.\<close>

definition is_control :: "uchar \<Rightarrow> bool" where
  "is_control c \<longleftrightarrow> c < 0x20 \<or> (0x7F \<le> c \<and> c < 0xA0)"

definition printable_keyboard_text :: "ustring option \<Rightarrow> ustring option" where
  "printable_keyboard_text t =
     (case t of None \<Rightarrow> None | Some s \<Rightarrow> if s = [] \<or> list_ex is_control s then None else Some s)"

definition shortcut_modifiers_active :: "ModifiersState \<Rightarrow> bool" where
  "shortcut_modifiers_active m \<longleftrightarrow> control_key m \<or> super_key m"

definition keyboard_command_modifiers_active :: "ModifiersState \<Rightarrow> bool" where
  "keyboard_command_modifiers_active m \<longleftrightarrow> shortcut_modifiers_active m \<or> alt_key m"

definition is_macos_emoji_picker_shortcut :: "PhysicalKey \<Rightarrow> ModifiersState \<Rightarrow> bool" where
  "is_macos_emoji_picker_shortcut physical m \<longleftrightarrow>
     physical = Code Space \<and> super_key m \<and> control_key m \<and> \<not> alt_key m \<and> \<not> shift_key m"

definition is_emoji_picker_release_to_swallow :: "ElementState \<Rightarrow> PhysicalKey \<Rightarrow> ModifiersState \<Rightarrow> bool" where
  "is_emoji_picker_release_to_swallow st physical m \<longleftrightarrow>
     st = Released \<and> physical = Code Space \<and> super_key m \<and> control_key m"

definition host_move_modifier_active :: "ModifiersState \<Rightarrow> bool" where
  "host_move_modifier_active m \<longleftrightarrow> alt_key m \<and> \<not> shortcut_modifiers_active m"

definition usize_to_i32 :: "nat \<Rightarrow> i32" where
  "usize_to_i32 n = (if n < 2 ^ 31 then of_nat n else 0x7fffffff)"

definition ime_cursor_range :: "(nat \<times> nat) option \<Rightarrow> i32 \<times> i32" where
  "ime_cursor_range cursor =
     (case cursor of None \<Rightarrow> (- 1, - 1) | Some (b, e) \<Rightarrow> (usize_to_i32 b, usize_to_i32 e))"

definition is_char :: "ustring \<Rightarrow> LogicalKey \<Rightarrow> bool" where
  "is_char c key = (case key of Character t \<Rightarrow> to_ascii_lowercase t = c | _ \<Rightarrow> False)"

definition is_fullscreen_shortcut :: "ModifiersState \<Rightarrow> LogicalKey \<Rightarrow> bool" where
  "is_fullscreen_shortcut m key =
     (if key = Named NF11 \<and> \<not> control_key m \<and> \<not> super_key m \<and> \<not> alt_key m then True
      else if \<not> super_key m \<or> \<not> shift_key m then False
      else if control_key m \<or> alt_key m then False
      else is_char (ascii ''f'') key)"

definition is_window_dump_shortcut :: "ModifiersState \<Rightarrow> LogicalKey \<Rightarrow> bool" where
  "is_window_dump_shortcut m key =
     (if \<not> super_key m \<or> \<not> alt_key m then False
      else if control_key m \<or> shift_key m then False
      else is_char (ascii ''w'') key)"

definition contains :: "ustring \<Rightarrow> ustring \<Rightarrow> bool" where
  "contains s p = list_ex (\<lambda>i. starts_with (drop i s) p) [0..<Suc (length s)]"

definition is_terminal_window_title :: "ustring \<Rightarrow> bool" where
  "is_terminal_window_title title \<longleftrightarrow>
     (let lower = to_ascii_lowercase title in
      contains lower (ascii ''terminal'') \<or> contains lower (ascii ''ptyxis'')
      \<or> contains title [0xD130, 0xBBF8, 0xB110] \<or> 0x40 \<in> set title)"

definition is_terminal_new_tab_shortcut ::
  "ElementState \<Rightarrow> bool \<Rightarrow> PhysicalKey \<Rightarrow> ModifiersState \<Rightarrow> bool \<Rightarrow> bool" where
  "is_terminal_new_tab_shortcut st repeated physical m target_is_terminal \<longleftrightarrow>
     st = Pressed \<and> \<not> repeated \<and> super_key m \<and> \<not> control_key m \<and> \<not> alt_key m \<and> \<not> shift_key m
     \<and> physical = Code (Letter CHR ''T'') \<and> target_is_terminal"

definition is_view_shortcut :: "LogicalKey \<Rightarrow> bool" where
  "is_view_shortcut key =
     (case key of
        Character t \<Rightarrow> t \<in> set [ascii ''+'', ascii ''='', ascii ''-'', ascii ''_'', ascii ''0'']
      | _ \<Rightarrow> False)"

section \<open>The viewer's state\<close>

record viewer_window =
  vw_title :: ustring
  vw_composer :: Backend
  vw_fullscreen :: bool

record viewer =
  modifiers :: ModifiersState
  pressed_guest_keys :: "(u32 \<times> u64) list"
  modifier_counts :: "(u32 \<times> nat) list"
  vwindows :: "(u64 \<times> viewer_window) list"
  out_tx :: "InputEvent list"
  zooms :: "(u64 \<times> LogicalKey) list"
  window_dumps :: nat

definition viewer_start :: viewer where
  "viewer_start = \<lparr>modifiers = no_modifiers, pressed_guest_keys = [], modifier_counts = [], vwindows = [],
     out_tx = [], zooms = [], window_dumps = 0\<rparr>"

definition send_input :: "InputEvent \<Rightarrow> viewer \<Rightarrow> viewer" where
  "send_input event v = v\<lparr>out_tx := out_tx v @ [event]\<rparr>"

fun composer_event :: "u64 \<Rightarrow> ComposerAction \<Rightarrow> InputEvent list" where
  "composer_event wid (Commit t) = (if t = [] then [] else [Text wid t])"
| "composer_event wid (ComposerAction.Preedit (Some t)) =
     [InputEvent.Preedit wid t (usize_to_i32 (utf8_len t)) (usize_to_i32 (utf8_len t))]"
| "composer_event wid (ComposerAction.Preedit None) = [InputEvent.Preedit wid [] (- 1) (- 1)]"

definition send_composer_actions :: "u64 \<Rightarrow> ComposerAction list \<Rightarrow> viewer \<Rightarrow> viewer" where
  "send_composer_actions wid actions v = v\<lparr>out_tx := out_tx v @ concat (map (composer_event wid) actions)\<rparr>"

definition composer_is_empty :: "u64 \<Rightarrow> viewer \<Rightarrow> bool" where
  "composer_is_empty wid v =
     (case map_of (vwindows v) wid of None \<Rightarrow> True | Some w \<Rightarrow> input_is_empty (vw_composer w))"

text \<open>\<open>composer_flush\<close>, \<open>composer_backspace\<close> and \<open>composer_push_text\<close>: an operation on a window's composer.\<close>

definition with_composer ::
  "(Backend \<Rightarrow> Backend \<times> ComposerAction list) \<Rightarrow> u64 \<Rightarrow> viewer \<Rightarrow> viewer \<times> ComposerAction list" where
  "with_composer f wid v =
     (case map_of (vwindows v) wid of
        None \<Rightarrow> (v, [])
      | Some w \<Rightarrow>
          (case f (vw_composer w) of
             (b, actions) \<Rightarrow> (v\<lparr>vwindows := AList.update wid (w\<lparr>vw_composer := b\<rparr>) (vwindows v)\<rparr>, actions)))"

definition compose :: "(Backend \<Rightarrow> Backend \<times> ComposerAction list) \<Rightarrow> u64 \<Rightarrow> viewer \<Rightarrow> viewer" where
  "compose f wid v = (case with_composer f wid v of (v, actions) \<Rightarrow> send_composer_actions wid actions v)"

definition flush_composer :: "u64 \<Rightarrow> viewer \<Rightarrow> viewer" where
  "flush_composer wid v = compose input_flush wid v"

definition send_host_text :: "u64 \<Rightarrow> ustring \<Rightarrow> viewer \<Rightarrow> viewer" where
  "send_host_text wid t v =
     (if can_compose t then compose (\<lambda>b. input_push_text b t) wid v
      else send_input (Text wid t) (flush_composer wid v))"

section \<open>Keys the guest holds\<close>

fun send_tracked_guest_key :: "u64 \<Rightarrow> u32 \<Rightarrow> ElementState \<Rightarrow> viewer \<Rightarrow> viewer" where
  "send_tracked_guest_key wid keycode Pressed v =
     send_input (Key wid keycode KeyPressed)
       (v\<lparr>pressed_guest_keys := AList.update keycode wid (pressed_guest_keys v)\<rparr>)"
| "send_tracked_guest_key wid keycode Released v =
     (case map_of (pressed_guest_keys v) keycode of
        None \<Rightarrow> v
      | Some pressed_id \<Rightarrow>
          send_input (Key pressed_id keycode KeyReleased)
            (v\<lparr>pressed_guest_keys := AList.delete keycode (pressed_guest_keys v)\<rparr>))"

fun guest_modifier_refcount_should_forward ::
  "u32 \<Rightarrow> ElementState \<Rightarrow> (u32 \<times> nat) list \<Rightarrow> (u32 \<times> nat) list \<times> bool" where
  "guest_modifier_refcount_should_forward keycode Pressed counts =
     (let n = (case map_of counts keycode of Some n \<Rightarrow> n | None \<Rightarrow> 0)
      in (AList.update keycode (Suc n) counts, n = 0))"
| "guest_modifier_refcount_should_forward keycode Released counts =
     (case map_of counts keycode of
        None \<Rightarrow> (counts, False)
      | Some n \<Rightarrow>
          if n > 1 then (AList.update keycode (n - 1) counts, False)
          else (AList.delete keycode counts, True))"

definition send_tracked_guest_modifier_key :: "u64 \<Rightarrow> u32 \<Rightarrow> ElementState \<Rightarrow> viewer \<Rightarrow> viewer" where
  "send_tracked_guest_modifier_key wid keycode st v =
     (case guest_modifier_refcount_should_forward keycode st (modifier_counts v) of
        (counts, forward) \<Rightarrow>
          let v = v\<lparr>modifier_counts := counts\<rparr>
          in if forward then send_tracked_guest_key wid keycode st v else v)"

definition forget_key :: "u64 \<Rightarrow> u32 \<Rightarrow> viewer \<Rightarrow> viewer" where
  "forget_key wid keycode v =
     send_input (Key wid keycode KeyReleased)
       (v\<lparr>pressed_guest_keys := AList.delete keycode (pressed_guest_keys v),
          modifier_counts := AList.delete keycode (modifier_counts v)\<rparr>)"

definition release_window_guest_keys :: "u64 \<Rightarrow> viewer \<Rightarrow> viewer" where
  "release_window_guest_keys wid v =
     (if pressed_guest_keys v = [] then v
      else
        let keycodes = map fst (filter (\<lambda>(_, pressed_id). pressed_id = wid) (pressed_guest_keys v))
        in fold (forget_key wid) keycodes v)"

definition release_guest_key_if_pressed :: "u32 \<Rightarrow> viewer \<Rightarrow> viewer" where
  "release_guest_key_if_pressed keycode v =
     (case map_of (pressed_guest_keys v) keycode of
        None \<Rightarrow> v\<lparr>modifier_counts := AList.delete keycode (modifier_counts v)\<rparr>
      | Some pressed_id \<Rightarrow> forget_key pressed_id keycode v)"

definition clear_shortcut_modifier_cache :: "u64 \<Rightarrow> bool \<Rightarrow> viewer \<Rightarrow> viewer" where
  "clear_shortcut_modifier_cache wid release_guest_ctrl v =
     (let v = v\<lparr>modifiers := no_modifiers\<rparr>;
          v = (if release_guest_ctrl then release_guest_key_if_pressed KEY_LEFTCTRL v else v)
      in flush_composer wid v)"

definition clear_stale_shortcut_modifiers_for_text :: "u64 \<Rightarrow> viewer \<Rightarrow> viewer" where
  "clear_stale_shortcut_modifiers_for_text wid v =
     (if \<not> shortcut_modifiers_active (modifiers v) \<or> map_of (pressed_guest_keys v) KEY_LEFTCTRL \<noteq> None then v
      else clear_shortcut_modifier_cache wid False v)"

text \<open>\<open>Cmd+T\<close> on a terminal becomes \<open>Ctrl+Shift+T\<close>, sent without tracking.\<close>

definition terminal_new_tab :: "u64 \<Rightarrow> viewer \<Rightarrow> viewer" where
  "terminal_new_tab wid v =
     (let v = flush_composer wid v;
          injected_ctrl = (map_of (pressed_guest_keys v) KEY_LEFTCTRL = None);
          v = (if injected_ctrl then send_input (Key wid KEY_LEFTCTRL KeyPressed) v else v);
          v = fold send_input [Key wid KEY_LEFTSHIFT KeyPressed, Key wid 20 KeyPressed, Key wid 20 KeyReleased,
                Key wid KEY_LEFTSHIFT KeyReleased] v
      in if injected_ctrl then send_input (Key wid KEY_LEFTCTRL KeyReleased) v else v)"

section \<open>Keyboard and input method\<close>

text \<open>The part of \<open>handle_keyboard\<close> behind the shortcuts the viewer keeps for itself.\<close>

definition handle_guest_key :: "u64 \<Rightarrow> KeyEvent \<Rightarrow> viewer \<Rightarrow> viewer" where
  "handle_guest_key wid ev v =
     (let pressed = (ke_state ev = Pressed);
          command = keyboard_command_modifiers_active (modifiers v)
      in
      if command \<and> pressed \<and> shortcut_modifiers_active (modifiers v) \<and> is_view_shortcut (ke_logical ev)
         \<and> map_of (vwindows v) wid \<noteq> None
      then v\<lparr>zooms := zooms v @ [(wid, ke_logical ev)]\<rparr>
      else
        (case (if command
               then (case shortcut_keycode (ke_physical ev) of Some k \<Rightarrow> Some k | None \<Rightarrow> named_keycode (ke_logical ev))
               else None) of
           Some keycode \<Rightarrow>
             if pressed then send_tracked_guest_key wid keycode (ke_state ev) (flush_composer wid v)
             else if map_of (pressed_guest_keys v) keycode = None then v
             else send_tracked_guest_key wid keycode (ke_state ev) v
         | None \<Rightarrow>
             (case named_keycode (ke_logical ev) of
                Some keycode \<Rightarrow>
                  if pressed then
                    (if keycode = KEY_BACKSPACE \<and> \<not> composer_is_empty wid v then compose input_backspace wid v
                     else send_tracked_guest_key wid keycode (ke_state ev) (flush_composer wid v))
                  else send_tracked_guest_key wid keycode (ke_state ev) v
              | None \<Rightarrow>
                  if \<not> pressed then
                    (case shortcut_keycode (ke_physical ev) of
                       None \<Rightarrow> v
                     | Some keycode \<Rightarrow>
                         if map_of (pressed_guest_keys v) keycode \<noteq> None
                         then send_tracked_guest_key wid keycode Released v else v)
                  else if command then v
                  else
                    (case printable_keyboard_text (ke_text ev) of
                       None \<Rightarrow> v
                     | Some t \<Rightarrow> if can_compose t then v else send_host_text wid t v))))"

definition handle_keyboard :: "u64 \<Rightarrow> KeyEvent \<Rightarrow> viewer \<Rightarrow> viewer" where
  "handle_keyboard wid ev v =
     (let first_press = (ke_state ev = Pressed \<and> \<not> ke_repeat ev);
          m = modifiers v
      in
      (case guest_modifier_keycode (ke_physical ev) (ke_logical ev) of
         Some keycode \<Rightarrow> send_tracked_guest_modifier_key wid keycode (ke_state ev) v
       | None \<Rightarrow>
           if first_press \<and> is_window_dump_shortcut m (ke_logical ev)
           then v\<lparr>window_dumps := Suc (window_dumps v)\<rparr>
           else if first_press \<and> is_fullscreen_shortcut m (ke_logical ev)
           then send_input (SetFullscreen wid
                  (case map_of (vwindows v) wid of Some w \<Rightarrow> \<not> vw_fullscreen w | None \<Rightarrow> False)) v
           else if ke_state ev = Pressed \<and> is_macos_emoji_picker_shortcut (ke_physical ev) m
           then flush_composer wid v
           else if is_emoji_picker_release_to_swallow (ke_state ev) (ke_physical ev) m then v
           else if is_terminal_new_tab_shortcut (ke_state ev) (ke_repeat ev) (ke_physical ev) m
                  (case map_of (vwindows v) wid of Some w \<Rightarrow> is_terminal_window_title (vw_title w) | None \<Rightarrow> False)
           then terminal_new_tab wid v
           else
             handle_guest_key wid ev
               (if ke_state ev = Pressed \<and> printable_keyboard_text (ke_text ev) \<noteq> None
                then clear_stale_shortcut_modifiers_for_text wid v else v)))"

datatype ImeEvent = ImeEnabled | ImePreedit ustring "(nat \<times> nat) option" | ImeCommit ustring | ImeDisabled

fun is_ime_text :: "ImeEvent \<Rightarrow> bool" where
  "is_ime_text (ImePreedit _ _) = True"
| "is_ime_text (ImeCommit _) = True"
| "is_ime_text _ = False"

fun apply_ime :: "u64 \<Rightarrow> ImeEvent \<Rightarrow> viewer \<Rightarrow> viewer" where
  "apply_ime wid ImeEnabled v =
     flush_composer wid
       (if super_key (modifiers v) \<or> control_key (modifiers v) then clear_shortcut_modifier_cache wid True v else v)"
| "apply_ime wid (ImePreedit t cursor) v =
     (if can_compose t \<or> (t = [] \<and> \<not> composer_is_empty wid v) then v
      else
        (case ime_cursor_range cursor of
           (b, e) \<Rightarrow> send_input (InputEvent.Preedit wid t b e) (flush_composer wid v)))"
| "apply_ime wid (ImeCommit t) v = (if t \<noteq> [] then send_host_text wid t v else v)"
| "apply_ime wid ImeDisabled v = send_input (InputEvent.Preedit wid [] (- 1) (- 1)) (flush_composer wid v)"

definition handle_ime :: "u64 \<Rightarrow> ImeEvent \<Rightarrow> viewer \<Rightarrow> viewer" where
  "handle_ime wid ime v =
     (let v = (if shortcut_modifiers_active (modifiers v) \<and> is_ime_text ime
               then clear_stale_shortcut_modifiers_for_text wid v else v)
      in if shortcut_modifiers_active (modifiers v) \<and> is_ime_text ime then v else apply_ime wid ime v)"

section \<open>Events of the viewer's windows\<close>

definition remove_window :: "u64 \<Rightarrow> viewer \<Rightarrow> viewer" where
  "remove_window wid v = release_window_guest_keys wid (v\<lparr>vwindows := AList.delete wid (vwindows v)\<rparr>)"

datatype viewer_event =
    WindowCreated u64 ustring
  | WindowRemoved u64
  | WindowRetired u64
  | FullscreenReported u64 bool
  | CloseRequested u64
  | Focused u64 bool
  | KeyboardInput u64 KeyEvent
  | ModifiersChanged ModifiersState
  | ImeInput u64 ImeEvent

definition on_window :: "u64 \<Rightarrow> (viewer \<Rightarrow> viewer) \<Rightarrow> viewer \<Rightarrow> viewer" where
  "on_window wid f v = (if map_of (vwindows v) wid = None then v else f v)"

fun viewer_input_step :: "viewer \<Rightarrow> viewer_event \<Rightarrow> viewer" where
  "viewer_input_step v (WindowCreated wid title) =
     (if map_of (vwindows v) wid = None
      then v\<lparr>vwindows := (wid, \<lparr>vw_title = title, vw_composer = Idle, vw_fullscreen = False\<rparr>) # vwindows v\<rparr>
      else v)"
| "viewer_input_step v (WindowRemoved wid) = remove_window wid v"
| "viewer_input_step v (WindowRetired wid) = release_window_guest_keys wid v"
| "viewer_input_step v (FullscreenReported wid b) =
     v\<lparr>vwindows := map (\<lambda>(k, w). (k, if k = wid then w\<lparr>vw_fullscreen := b\<rparr> else w)) (vwindows v)\<rparr>"
| "viewer_input_step v (CloseRequested wid) =
     on_window wid (\<lambda>v. send_input (Close wid) (release_window_guest_keys wid v)) v"
| "viewer_input_step v (Focused wid focused) =
     on_window wid (\<lambda>v. send_input (Focus wid focused) (if focused then v else release_window_guest_keys wid v)) v"
| "viewer_input_step v (KeyboardInput wid ev) = on_window wid (handle_keyboard wid ev) v"
| "viewer_input_step v (ModifiersChanged m) = v\<lparr>modifiers := m\<rparr>"
| "viewer_input_step v (ImeInput wid ime) = on_window wid (handle_ime wid ime) v"

section \<open>What the guest holds\<close>

text \<open>The guest's keyboard after the events sent: the window a key was last pressed for, if not released.\<close>

fun key_effect :: "u32 \<Rightarrow> InputEvent \<Rightarrow> u64 option \<Rightarrow> u64 option" where
  "key_effect k (Key wid k' KeyPressed) h = (if k' = k then Some wid else h)"
| "key_effect k (Key wid k' KeyReleased) h = (if k' = k then None else h)"
| "key_effect k _ h = h"

definition held :: "InputEvent list \<Rightarrow> u32 \<Rightarrow> u64 option" where
  "held evs k = fold (key_effect k) evs None"

lemma held_simps [simp]:
  "held [] k = None"
  "held (evs @ [e]) k = key_effect k e (held evs k)"
  by (simp_all add: held_def)

lemma held_other: "list_all (\<lambda>e. \<forall>h. key_effect k e h = h) es \<Longrightarrow> held (evs @ es) k = held evs k"
  by (induction es arbitrary: evs) (simp_all add: held_def)

definition is_modifier :: "u32 \<Rightarrow> bool" where
  "is_modifier k \<longleftrightarrow> k \<in> set [29, 42, 54, 56, 97, 100]"

text \<open>
  Every key the guest holds is tracked under the window it was pressed for, every tracked key
  belongs to a window, and the modifiers with a count are exactly the tracked modifiers.
\<close>

definition keys_inv :: "viewer \<Rightarrow> bool" where
  "keys_inv v \<longleftrightarrow> distinct (map fst (pressed_guest_keys v))
     \<and> (\<forall>k w. held (out_tx v) k = Some w \<longrightarrow> map_of (pressed_guest_keys v) k = Some w)
     \<and> (\<forall>k w. map_of (pressed_guest_keys v) k = Some w \<longrightarrow> map_of (vwindows v) w \<noteq> None)
     \<and> (\<forall>k. map_of (modifier_counts v) k \<noteq> Some 0)
     \<and> (\<forall>k. map_of (modifier_counts v) k \<noteq> None \<longleftrightarrow> is_modifier k \<and> map_of (pressed_guest_keys v) k \<noteq> None)"

lemma keys_invI:
  assumes "keys_inv v" and "pressed_guest_keys v' = pressed_guest_keys v" and "modifier_counts v' = modifier_counts v"
    and "\<And>k w. held (out_tx v') k = Some w \<Longrightarrow> held (out_tx v) k = Some w"
    and "\<And>w. map_of (vwindows v) w \<noteq> None \<Longrightarrow> map_of (vwindows v') w \<noteq> None"
  shows "keys_inv v'"
proof -
  note inv = assms(1) [unfolded keys_inv_def]
  show ?thesis
    unfolding keys_inv_def assms(2,3)
  proof (intro conjI allI impI)
    fix k w
    show "held (out_tx v') k = Some w \<Longrightarrow> map_of (pressed_guest_keys v) k = Some w" using inv assms(4) by blast
    show "map_of (pressed_guest_keys v) k = Some w \<Longrightarrow> map_of (vwindows v') w \<noteq> None" using inv assms(5) by blast
  qed (use inv in blast)+
qed

lemma composer_events_neutral: "list_all (\<lambda>e. \<forall>h. key_effect k e h = h) (concat (map (composer_event wid) as))"
proof (induction as)
  case (Cons a as)
  then show ?case by (cases "(wid, a)" rule: composer_event.cases) auto
qed simp

lemma compose_fields [simp]:
  "pressed_guest_keys (compose f wid v) = pressed_guest_keys v"
  "modifier_counts (compose f wid v) = modifier_counts v"
  "modifiers (compose f wid v) = modifiers v"
  "map_of (vwindows (compose f wid v)) w = None \<longleftrightarrow> map_of (vwindows v) w = None"
  "held (out_tx (compose f wid v)) k = held (out_tx v) k"
  by (auto simp: compose_def with_composer_def send_composer_actions_def update_conv' composer_events_neutral held_other
      split: option.split prod.split)

lemma flush_composer_fields [simp]:
  "pressed_guest_keys (flush_composer wid v) = pressed_guest_keys v"
  "modifier_counts (flush_composer wid v) = modifier_counts v"
  "modifiers (flush_composer wid v) = modifiers v"
  "map_of (vwindows (flush_composer wid v)) w = None \<longleftrightarrow> map_of (vwindows v) w = None"
  "held (out_tx (flush_composer wid v)) k = held (out_tx v) k"
  by (simp_all add: flush_composer_def)

lemma send_input_fields [simp]:
  "pressed_guest_keys (send_input e v) = pressed_guest_keys v"
  "modifier_counts (send_input e v) = modifier_counts v"
  "modifiers (send_input e v) = modifiers v"
  "vwindows (send_input e v) = vwindows v"
  "held (out_tx (send_input e v)) k = key_effect k e (held (out_tx v) k)"
  by (simp_all add: send_input_def)

lemma compose_inv [step_inv]: "keys_inv v \<Longrightarrow> keys_inv (compose f wid v)"
  by (rule keys_invI) simp_all

lemma flush_composer_inv [step_inv]: "keys_inv v \<Longrightarrow> keys_inv (flush_composer wid v)"
  by (rule keys_invI) simp_all

lemma send_neutral_inv [step_inv]:
  "keys_inv v \<Longrightarrow> (\<And>k h. key_effect k e h = h) \<Longrightarrow> keys_inv (send_input e v)"
  by (rule keys_invI) simp_all

lemma send_host_text_inv [step_inv]: "keys_inv v \<Longrightarrow> keys_inv (send_host_text wid t v)"
  by (simp add: send_host_text_def compose_inv flush_composer_inv send_neutral_inv)

lemma is_modifier_codes:
  "guest_modifier_keycode p l = Some k \<Longrightarrow> is_modifier k"
  "named_keycode l = Some k \<Longrightarrow> \<not> is_modifier k"
  "shortcut_keycode p = Some k \<Longrightarrow> \<not> is_modifier k"
proof -
  show "guest_modifier_keycode p l = Some k \<Longrightarrow> is_modifier k"
    by (cases "(p, l)" rule: guest_modifier_keycode.cases; cases l rule: modifier_of_logical.cases)
      (auto simp: is_modifier_def key_codes)
  show "named_keycode l = Some k \<Longrightarrow> \<not> is_modifier k"
    by (cases l rule: named_keycode.cases) (auto simp: is_modifier_def key_codes)
  have "code_table c = Some k \<Longrightarrow> \<not> is_modifier k" for c
    by (cases c rule: code_table.cases)
      (auto simp: is_modifier_def key_codes letter_codes_def digit_codes_def split: if_splits)
  then show "shortcut_keycode p = Some k \<Longrightarrow> \<not> is_modifier k"
    by (cases p) auto
qed

lemma forget_key_inv [step_inv]: "keys_inv v \<Longrightarrow> keys_inv (forget_key wid k v)"
  unfolding keys_inv_def
  by (auto simp: forget_key_def delete_conv' distinct_delete split: if_splits)

lemma press_inv [step_inv]:
  "keys_inv v \<Longrightarrow> map_of (vwindows v) wid \<noteq> None \<Longrightarrow> \<not> is_modifier k \<Longrightarrow> keys_inv (send_tracked_guest_key wid k Pressed v)"
  unfolding keys_inv_def
  by (auto simp: update_conv' distinct_update split: if_splits)

lemma release_inv [step_inv]:
  "keys_inv v \<Longrightarrow> \<not> is_modifier k \<Longrightarrow> keys_inv (send_tracked_guest_key wid k Released v)"
  unfolding keys_inv_def
  by (auto simp: delete_conv' distinct_delete simp del: map_of_eq_Some_iff Some_eq_map_of_iff split: if_splits option.split)

lemma modifier_inv [step_inv]:
  assumes "keys_inv v" and "map_of (vwindows v) wid \<noteq> None" and "is_modifier k"
  shows "keys_inv (send_tracked_guest_modifier_key wid k st v)"
proof (cases st)
  case Pressed
  with assms show ?thesis
    unfolding keys_inv_def
    by (auto simp: send_tracked_guest_modifier_key_def Let_def update_conv' distinct_update
        simp del: map_of_eq_Some_iff Some_eq_map_of_iff split: if_splits option.splits)
next
  case Released
  show ?thesis
  proof (cases "map_of (modifier_counts v) k")
    case None
    then show ?thesis using assms Released by (simp add: send_tracked_guest_modifier_key_def)
  next
    case (Some n)
    from assms(1) have "(map_of (modifier_counts v) k \<noteq> None) = (is_modifier k \<and> map_of (pressed_guest_keys v) k \<noteq> None)"
      unfolding keys_inv_def by blast
    with Some obtain w where "map_of (pressed_guest_keys v) k = Some w" by auto
    with assms Some Released show ?thesis
      unfolding keys_inv_def
      by (auto simp: send_tracked_guest_modifier_key_def Let_def update_conv' delete_conv' distinct_delete
          simp del: map_of_eq_Some_iff Some_eq_map_of_iff split: if_splits)
  qed
qed

lemma release_if_pressed_inv [step_inv]: "keys_inv v \<Longrightarrow> keys_inv (release_guest_key_if_pressed k v)"
proof (cases "map_of (pressed_guest_keys v) k")
  case None
  assume inv: "keys_inv v"
  then have "(map_of (modifier_counts v) k \<noteq> None) = (is_modifier k \<and> map_of (pressed_guest_keys v) k \<noteq> None)"
    unfolding keys_inv_def by blast
  with None have "map_of (modifier_counts v) k = None" by simp
  then have "map_of (AList.delete k (modifier_counts v)) = map_of (modifier_counts v)"
    by (simp add: delete_conv' fun_upd_idem)
  with inv None show ?thesis by (simp add: release_guest_key_if_pressed_def keys_inv_def)
qed (simp add: release_guest_key_if_pressed_def forget_key_inv)

lemma release_window_inv [step_inv]: "keys_inv v \<Longrightarrow> keys_inv (release_window_guest_keys wid v)"
proof -
  have "keys_inv v \<Longrightarrow> keys_inv (fold (forget_key wid) ks v)" for ks
    by (induction ks arbitrary: v) (simp_all add: forget_key_inv)
  then show "keys_inv v \<Longrightarrow> keys_inv (release_window_guest_keys wid v)"
    by (simp add: release_window_guest_keys_def Let_def)
qed

lemma modifiers_inv [step_inv]: "keys_inv (v\<lparr>modifiers := m\<rparr>) = keys_inv v"
  "keys_inv (v\<lparr>zooms := z\<rparr>) = keys_inv v" "keys_inv (v\<lparr>window_dumps := d\<rparr>) = keys_inv v"
  by (simp_all add: keys_inv_def)

lemma clear_cache_inv [step_inv]: "keys_inv v \<Longrightarrow> keys_inv (clear_shortcut_modifier_cache wid b v)"
  by (simp add: clear_shortcut_modifier_cache_def Let_def flush_composer_inv release_if_pressed_inv modifiers_inv)

lemma clear_stale_inv [step_inv]: "keys_inv v \<Longrightarrow> keys_inv (clear_stale_shortcut_modifiers_for_text wid v)"
  by (simp add: clear_stale_shortcut_modifiers_for_text_def clear_cache_inv)

lemma terminal_inv [step_inv]: "keys_inv v \<Longrightarrow> keys_inv (terminal_new_tab wid v)"
proof (rule keys_invI)
  fix k w
  assume inv: "keys_inv v"
  assume "held (out_tx (terminal_new_tab wid v)) k = Some w"
  then show "held (out_tx v) k = Some w"
    by (auto simp: terminal_new_tab_def Let_def split: if_splits)
qed (simp_all add: terminal_new_tab_def Let_def del: not_None_eq)

lemma release_fields:
  "vwindows (release_guest_key_if_pressed k v) = vwindows v"
  by (simp add: release_guest_key_if_pressed_def forget_key_def split: option.split)

lemma clear_stale_windows [simp]:
  "map_of (vwindows (clear_stale_shortcut_modifiers_for_text wid v)) w = None \<longleftrightarrow> map_of (vwindows v) w = None"
  by (simp add: clear_stale_shortcut_modifiers_for_text_def clear_shortcut_modifier_cache_def Let_def)

lemma tracked_inv [step_inv]:
  "keys_inv v \<Longrightarrow> map_of (vwindows v) wid \<noteq> None \<Longrightarrow> \<not> is_modifier k \<Longrightarrow> keys_inv (send_tracked_guest_key wid k st v)"
  using press_inv release_inv by (cases st) blast+

lemma guest_key_inv [step_inv]:
  assumes "keys_inv v" and "map_of (vwindows v) wid \<noteq> None"
  shows "keys_inv (handle_guest_key wid ev v)"
proof -
  have tracked: "keys_inv (send_tracked_guest_key wid k st (flush_composer wid v))" "keys_inv (send_tracked_guest_key wid k st v)"
    if "\<not> is_modifier k" for k st
    using assms that by (simp_all only: tracked_inv flush_composer_inv flush_composer_fields not_False_eq_True)
  have codes: "named_keycode (ke_logical ev) = Some k \<Longrightarrow> \<not> is_modifier k"
      "shortcut_keycode (ke_physical ev) = Some k \<Longrightarrow> \<not> is_modifier k" for k
    using is_modifier_codes by blast+
  show ?thesis
    using assms(1) unfolding handle_guest_key_def Let_def
    by (simp add: modifiers_inv compose_inv send_host_text_inv tracked codes del: send_tracked_guest_key.simps
        split: option.split)
qed

lemma keyboard_inv [step_inv]:
  assumes "keys_inv v" and "map_of (vwindows v) wid \<noteq> None"
  shows "keys_inv (handle_keyboard wid ev v)"
proof (cases "guest_modifier_keycode (ke_physical ev) (ke_logical ev)")
  case (Some k)
  then show ?thesis using assms is_modifier_codes(1) [OF Some] by (simp add: handle_keyboard_def modifier_inv)
next
  case None
  then show ?thesis
    using assms by (simp add: handle_keyboard_def Let_def modifiers_inv send_neutral_inv flush_composer_inv terminal_inv guest_key_inv clear_stale_inv)
qed

lemma ime_inv [step_inv]: "keys_inv v \<Longrightarrow> keys_inv (handle_ime wid ime v)"
proof -
  have "keys_inv v \<Longrightarrow> keys_inv (apply_ime wid ime v)" for v
    by (cases ime) (simp_all add: flush_composer_inv clear_cache_inv send_neutral_inv send_host_text_inv split: prod.split)
  then show "keys_inv v \<Longrightarrow> keys_inv (handle_ime wid ime v)"
    by (simp add: handle_ime_def Let_def clear_stale_inv)
qed

lemma forget_keys:
  "map_of (pressed_guest_keys (fold (forget_key wid) ks v)) k = (if k \<in> set ks then None else map_of (pressed_guest_keys v) k)"
  "held (out_tx (fold (forget_key wid) ks v)) k = (if k \<in> set ks then None else held (out_tx v) k)"
  "vwindows (fold (forget_key wid) ks v) = vwindows v"
  by (induction ks arbitrary: v) (auto simp: forget_key_def delete_conv')

lemma release_window_exact:
  assumes "keys_inv v"
  shows "map_of (pressed_guest_keys (release_window_guest_keys wid v)) k
      = (if map_of (pressed_guest_keys v) k = Some wid then None else map_of (pressed_guest_keys v) k)"
    and "held (out_tx (release_window_guest_keys wid v)) k \<noteq> Some wid"
    and "vwindows (release_window_guest_keys wid v) = vwindows v"
proof -
  have dist: "distinct (map fst (pressed_guest_keys v))"
      and held: "held (out_tx v) k = Some wid \<Longrightarrow> map_of (pressed_guest_keys v) k = Some wid"
    using assms unfolding keys_inv_def by blast+
  have listed: "k \<in> set (map fst (filter (\<lambda>(_, pressed_id). pressed_id = wid) (pressed_guest_keys v)))
      \<longleftrightarrow> map_of (pressed_guest_keys v) k = Some wid"
    using dist by (force simp: map_of_eq_Some_iff)
  show "map_of (pressed_guest_keys (release_window_guest_keys wid v)) k
      = (if map_of (pressed_guest_keys v) k = Some wid then None else map_of (pressed_guest_keys v) k)"
    using listed by (auto simp: release_window_guest_keys_def Let_def forget_keys simp del: map_of_eq_Some_iff)
  show "held (out_tx (release_window_guest_keys wid v)) k \<noteq> Some wid"
    using listed held by (auto simp: release_window_guest_keys_def Let_def forget_keys simp del: map_of_eq_Some_iff)
  show "vwindows (release_window_guest_keys wid v) = vwindows v"
    by (simp add: release_window_guest_keys_def Let_def forget_keys)
qed

lemma release_window_commutes:
  "release_window_guest_keys wid (v\<lparr>vwindows := ws\<rparr>) = (release_window_guest_keys wid v)\<lparr>vwindows := ws\<rparr>"
proof -
  have "forget_key wid k (v\<lparr>vwindows := ws\<rparr>) = (forget_key wid k v)\<lparr>vwindows := ws\<rparr>" for k v
    by (simp add: forget_key_def send_input_def)
  then have "fold (forget_key wid) ks (v\<lparr>vwindows := ws\<rparr>) = (fold (forget_key wid) ks v)\<lparr>vwindows := ws\<rparr>" for ks
    by (induction ks arbitrary: v) simp_all
  then show ?thesis by (simp add: release_window_guest_keys_def Let_def)
qed

lemma remove_window_inv [step_inv]:
  assumes "keys_inv v"
  shows "keys_inv (remove_window wid v)"
proof -
  have inv: "keys_inv (release_window_guest_keys wid v)" by (rule release_window_inv [OF assms])
  have gone: "map_of (pressed_guest_keys (release_window_guest_keys wid v)) k \<noteq> Some wid" for k
    using release_window_exact(1) [OF assms] by simp
  show ?thesis
    using inv gone unfolding remove_window_def release_window_commutes keys_inv_def release_window_exact(3) [OF assms]
    by (auto simp: delete_conv' simp del: map_of_eq_Some_iff Some_eq_map_of_iff)
qed

lemma viewer_input_step_inv:
  assumes "keys_inv v"
  shows "keys_inv (viewer_input_step v e)"
proof (cases e)
  case (FullscreenReported wid b)
  have "map_of (map (\<lambda>(k, w). (k, if k = wid then w\<lparr>vw_fullscreen := b\<rparr> else w)) ws) x = None \<longleftrightarrow> map_of ws x = None"
    for ws :: "(u64 \<times> viewer_window) list" and x
    by (simp add: map_of_eq_None_iff image_image case_prod_beta)
  then show ?thesis by (intro keys_invI [OF assms]) (simp_all add: FullscreenReported del: not_None_eq)
next
  case (WindowCreated wid title)
  then show ?thesis by (intro keys_invI [OF assms]) (simp_all split: if_splits)
next
  case (WindowRemoved wid)
  then show ?thesis using remove_window_inv [OF assms] by simp
next
  case (WindowRetired wid)
  then show ?thesis using release_window_inv [OF assms] by simp
next
  case (CloseRequested wid)
  then show ?thesis using assms by (simp add: on_window_def send_neutral_inv release_window_inv)
next
  case (Focused wid b)
  then show ?thesis using assms by (simp add: on_window_def send_neutral_inv release_window_inv)
next
  case (KeyboardInput wid ev)
  then show ?thesis using assms keyboard_inv [OF assms, of wid ev] by (simp add: on_window_def)
next
  case (ModifiersChanged m)
  then show ?thesis using assms by (simp add: modifiers_inv)
next
  case (ImeInput wid ime)
  then show ?thesis using assms ime_inv [OF assms] by (simp add: on_window_def)
qed

interpretation viewer_keys: invariant_machine viewer_input_step keys_inv
  by unfold_locales (rule viewer_input_step_inv)

lemma viewer_start_inv: "keys_inv viewer_start"
  by (simp add: keys_inv_def viewer_start_def)

section \<open>Text\<close>

text \<open>What the guest is given as text for a window.\<close>

fun texts_for :: "u64 \<Rightarrow> InputEvent list \<Rightarrow> ustring" where
  "texts_for wid [] = []"
| "texts_for wid (Text w t # es) = (if w = wid then t else []) @ texts_for wid es"
| "texts_for wid (_ # es) = texts_for wid es"

lemma texts_for_append [simp]: "texts_for wid (xs @ ys) = texts_for wid xs @ texts_for wid ys"
  by (induction wid xs rule: texts_for.induct) simp_all

lemma texts_for_actions: "texts_for wid (concat (map (composer_event wid) as)) = committed as"
proof (induction as)
  case (Cons a as)
  then show ?case by (cases "(wid, a)" rule: composer_event.cases) auto
qed simp

text \<open>A host text is a push to the window's composer, whether it can be composed or not.\<close>

lemma push_uncomposable:
  assumes "\<not> can_compose t" and "t \<noteq> []"
  shows "input_push_text b t = (Idle, snd (input_flush b) @ [Commit t])" and "fst (input_flush b) = Idle"
  using assms by (cases b; simp add: input_push_text_def switch_for_def detect_def can_compose_def Let_def)+

lemma send_host_text_push:
  assumes "map_of (vwindows v) wid = Some w" and "t \<noteq> []"
  shows "send_host_text wid t v =
    v\<lparr>vwindows := AList.update wid (w\<lparr>vw_composer := fst (input_push_text (vw_composer w) t)\<rparr>) (vwindows v),
       out_tx := out_tx v @ concat (map (composer_event wid) (snd (input_push_text (vw_composer w) t)))\<rparr>"
  using assms push_uncomposable [of t "vw_composer w"]
  by (auto simp: send_host_text_def compose_def with_composer_def send_composer_actions_def flush_composer_def
      send_input_def split: prod.split)

lemma commits_drive:
  assumes "list_all (\<lambda>t. t \<noteq> []) ts"
  shows "map_of (vwindows v) wid = Some w \<Longrightarrow> modifiers v = no_modifiers \<Longrightarrow>
    \<exists>w'. map_of (vwindows (fold (\<lambda>t. handle_ime wid (ImeCommit t)) ts v)) wid = Some w'
      \<and> modifiers (fold (\<lambda>t. handle_ime wid (ImeCommit t)) ts v) = no_modifiers
      \<and> vw_composer w' = fst (drive input_push_text input_flush input_backspace (vw_composer w) (map Push ts))
      \<and> texts_for wid (out_tx (fold (\<lambda>t. handle_ime wid (ImeCommit t)) ts v))
        = texts_for wid (out_tx v) @ committed (snd (drive input_push_text input_flush input_backspace (vw_composer w) (map Push ts)))"
  using assms
proof (induction ts arbitrary: v w)
  case (Cons t ts)
  have step: "handle_ime wid (ImeCommit t) v = send_host_text wid t v"
    using Cons.prems by (simp add: handle_ime_def shortcut_modifiers_active_def no_modifiers_def Let_def)
  define w1 where "w1 = w\<lparr>vw_composer := fst (input_push_text (vw_composer w) t)\<rparr>"
  have "map_of (vwindows (send_host_text wid t v)) wid = Some w1" "modifiers (send_host_text wid t v) = no_modifiers"
      "texts_for wid (out_tx (send_host_text wid t v)) = texts_for wid (out_tx v) @ committed (snd (input_push_text (vw_composer w) t))"
    using Cons.prems by (simp_all add: send_host_text_push w1_def update_conv' texts_for_actions)
  with Cons.IH [of "send_host_text wid t v" w1] Cons.prems show ?case
    by (simp add: step w1_def drive_Cons committed_append del: drive.simps(2))
qed simp

lemma typed_pushes: "typed (map Push ts) = concat ts"
  by (induction ts) simp_all

section \<open>Properties\<close>

text \<open>
  C10: No key stays down in the guest for a window without focus: in every state the viewer
  can reach, for every interleaving of key events, modifier changes, input-method events and
  windows that come and go, once the host reports that a window lost the focus the guest holds
  no key that was pressed for that window. In between, every key the guest holds is one the
  viewer tracks for a window that exists.
\<close>
theorem no_key_held_without_focus:
  "held (out_tx (viewer_input_step (run viewer_input_step viewer_start es) (Focused w False))) k \<noteq> Some w
   \<and> (case held (out_tx (run viewer_input_step viewer_start es)) k of
        None \<Rightarrow> True
      | Some w' \<Rightarrow> map_of (pressed_guest_keys (run viewer_input_step viewer_start es)) k = Some w'
          \<and> map_of (vwindows (run viewer_input_step viewer_start es)) w' \<noteq> None)"
proof -
  define v where "v = run viewer_input_step viewer_start es"
  have inv: "keys_inv v" unfolding v_def by (rule viewer_keys.run_keeps [OF viewer_start_inv])
  then have tracked: "held (out_tx v) k = Some u \<Longrightarrow> map_of (pressed_guest_keys v) k = Some u \<and> map_of (vwindows v) u \<noteq> None" for u
    unfolding keys_inv_def by blast
  have "held (out_tx (viewer_input_step v (Focused w False))) k \<noteq> Some w"
    using release_window_exact(2) [OF inv, of w k] tracked [of w] by (cases "map_of (vwindows v) w") (auto simp: on_window_def)
  with tracked show ?thesis unfolding v_def [symmetric] by (simp del: not_None_eq split: option.split)
qed


definition one_window :: viewer where
  "one_window = viewer_start\<lparr>vwindows := [(1, \<lparr>vw_title = [], vw_composer = Idle, vw_fullscreen = False\<rparr>)]\<rparr>"


text \<open>
  The emoji picker's chord can leave the space bar down. The press of \<open>Ctrl+Cmd+Space\<close> is
  kept from the guest only without \<open>Alt\<close> and \<open>Shift\<close>, but its release is dropped with any other
  modifiers too: with \<open>Alt\<close> or \<open>Shift\<close> held in addition, the guest gets the press of the space
  bar and no release, and holds the key until the window loses the focus.
\<close>
theorem picker_chord_leaves_space_down:
  assumes "map_of (vwindows v) wid \<noteq> None" and "super_key (modifiers v)" and "control_key (modifiers v)"
    and "alt_key (modifiers v) \<or> shift_key (modifiers v)"
  shows "held (out_tx (run viewer_input_step v
      [KeyboardInput wid \<lparr>ke_state = Pressed, ke_repeat = False, ke_physical = Code Space, ke_logical = Character [0x20], ke_text = None\<rparr>,
       KeyboardInput wid \<lparr>ke_state = Released, ke_repeat = False, ke_physical = Code Space, ke_logical = Character [0x20], ke_text = None\<rparr>])) 57
    = Some wid"
proof -
  define press where "press = \<lparr>ke_state = Pressed, ke_repeat = False, ke_physical = Code Space, ke_logical = Character [0x20], ke_text = None\<rparr>"
  define release where "release = \<lparr>ke_state = Released, ke_repeat = False, ke_physical = Code Space, ke_logical = Character [0x20], ke_text = None\<rparr>"
  define v1 where "v1 = send_tracked_guest_key wid 57 Pressed (flush_composer wid v)"
  have press: "handle_keyboard wid press v = v1"
    using assms by (auto simp: handle_keyboard_def press_def v1_def handle_guest_key_def is_window_dump_shortcut_def
        is_fullscreen_shortcut_def is_macos_emoji_picker_shortcut_def is_emoji_picker_release_to_swallow_def
        is_terminal_new_tab_shortcut_def printable_keyboard_text_def keyboard_command_modifiers_active_def
        shortcut_modifiers_active_def is_view_shortcut_def ascii_def Let_def)
  have "modifiers v1 = modifiers v" "map_of (vwindows v1) wid \<noteq> None" "held (out_tx v1) 57 = Some wid"
    using assms(1) by (simp_all add: v1_def del: not_None_eq)
  moreover from this have "handle_keyboard wid release v1 = v1"
    using assms by (simp add: handle_keyboard_def release_def is_emoji_picker_release_to_swallow_def Let_def)
  ultimately show ?thesis
    unfolding press_def [symmetric] release_def [symmetric]
    using assms(1) press by (simp add: on_window_def del: not_None_eq)
qed

theorem picker_chord_leaves_space_down_witness:
  "held (out_tx (run viewer_input_step
      (one_window\<lparr>modifiers := \<lparr>shift_key = True, control_key = True, alt_key = False, super_key = True\<rparr>\<rparr>)
      [KeyboardInput 1 \<lparr>ke_state = Pressed, ke_repeat = False, ke_physical = Code Space, ke_logical = Character [0x20], ke_text = None\<rparr>,
       KeyboardInput 1 \<lparr>ke_state = Released, ke_repeat = False, ke_physical = Code Space, ke_logical = Character [0x20], ke_text = None\<rparr>])) 57
    = Some 1"
  by (rule picker_chord_leaves_space_down) (simp_all add: one_window_def)

end
