(* ===== verification/Float_Model.thy ===== *)
theory Float_Model
  imports Complex_Main VBox_Prelude
begin

text \<open>
  The floating-point arithmetic the viewer's geometry uses. A finite \<open>f32\<close> or \<open>f64\<close> is the
  rational number it denotes; an arithmetic operation is the exact one followed by \<open>fl_round\<close>,
  which rounds to a significand of 24 or 53 bits, ties to even. The exponent is not bounded:
  pixel sizes, scales and positions are far from the largest and the smallest number. NaN and the
  infinities do not occur in what the host reports.

  The conversions are the language's: \<open>round\<close> rounds half away from zero, and \<open>as\<close> truncates
  and saturates at the bounds of the integer type.
\<close>

type_synonym f64 = rat
type_synonym f32 = rat

section \<open>Rounding to a significand\<close>

fun ilog2 :: "nat \<Rightarrow> nat" where
  "ilog2 n = (if n < 2 then 0 else Suc (ilog2 (n div 2)))"

declare ilog2.simps [simp del]

definition round_even :: "rat \<Rightarrow> int" where
  "round_even x = (let f = \<lfloor>x\<rfloor>; d = x - of_int f in
     if d < 1 / 2 \<or> d = 1 / 2 \<and> even f then f else f + 1)"

definition pow2 :: "int \<Rightarrow> rat" where
  "pow2 e = power_int 2 e"

definition fl_exponent :: "rat \<Rightarrow> int" where
  "fl_exponent x = (let (p, q) = quotient_of x; k = int (ilog2 (nat p)) - int (ilog2 (nat q)) in
     if pow2 k \<le> x then k else k - 1)"

definition fl_round :: "nat \<Rightarrow> rat \<Rightarrow> rat" where
  "fl_round p x = (if x = 0 then 0 else
     let u = pow2 (fl_exponent \<bar>x\<bar> + 1 - int p) in of_int (round_even (x / u)) * u)"

definition rnd64 :: "rat \<Rightarrow> f64" where "rnd64 = fl_round 53"
definition rnd32 :: "rat \<Rightarrow> f32" where "rnd32 = fl_round 24"

section \<open>Conversions\<close>

definition f_round :: "rat \<Rightarrow> int" where
  "f_round x = (if 0 \<le> x then \<lfloor>x + 1 / 2\<rfloor> else - \<lfloor>1 / 2 - x\<rfloor>)"

definition f_trunc :: "rat \<Rightarrow> int" where
  "f_trunc x = (if 0 \<le> x then \<lfloor>x\<rfloor> else \<lceil>x\<rceil>)"

definition i32_sat :: "int \<Rightarrow> int" where
  "i32_sat z = max (- (2 ^ 31)) (min (2 ^ 31 - 1) z)"

definition i32_wrap :: "int \<Rightarrow> int" where
  "i32_wrap z = (z + 2 ^ 31) mod 2 ^ 32 - 2 ^ 31"

definition u32_sat :: "int \<Rightarrow> nat" where
  "u32_sat z = nat (min (2 ^ 32 - 1) z)"

definition f_clamp :: "rat \<Rightarrow> rat \<Rightarrow> rat \<Rightarrow> rat" where
  "f_clamp x lo hi = (if x < lo then lo else if hi < x then hi else x)"

section \<open>Facts\<close>

lemma ilog2_bounds:
  assumes "0 < n"
  shows "2 ^ ilog2 n \<le> n \<and> n < 2 ^ Suc (ilog2 n)"
  using assms
proof (induction n rule: ilog2.induct)
  case (1 n)
  show ?case
  proof (cases "n < 2")
    case True
    with 1(2) have "n = 1" by simp
    then show ?thesis by (simp add: ilog2.simps)
  next
    case False
    with 1 have "2 ^ ilog2 (n div 2) \<le> n div 2 \<and> n div 2 < 2 ^ Suc (ilog2 (n div 2))" by simp
    moreover have "ilog2 n = Suc (ilog2 (n div 2))" using False by (subst ilog2.simps) simp
    ultimately show ?thesis by auto
  qed
qed

lemma pow2_pos [simp]: "0 < pow2 e"
  by (simp add: pow2_def)

lemma pow2_nz [simp]: "pow2 e \<noteq> 0"
  using pow2_pos [of e] by linarith

lemma pow2_add: "pow2 (a + b) = pow2 a * pow2 b"
  by (simp add: pow2_def power_int_add)

lemma pow2_of_nat [simp]: "pow2 (int n) = 2 ^ n"
  by (simp add: pow2_def)

lemma pow2_diff: "pow2 (a - b) = pow2 a / pow2 b"
  by (simp add: pow2_def power_int_diff)

lemma pow2_mono: "a \<le> b \<Longrightarrow> pow2 a \<le> pow2 b"
  by (simp add: pow2_def power_int_increasing)

lemma pow2_strict: "pow2 a < pow2 b \<longleftrightarrow> a < b"
proof
  assume "pow2 a < pow2 b"
  then show "a < b" using pow2_mono [of b a] by (meson leD not_le)
next
  assume "a < b"
  then have "pow2 (a + 1) \<le> pow2 b" by (intro pow2_mono) simp
  moreover have "pow2 (a + 1) = 2 * pow2 a" using pow2_of_nat [of 1] by (simp add: pow2_add)
  ultimately show "pow2 a < pow2 b" using pow2_pos [of a] by linarith
qed

lemma top_bit: "0 < p \<Longrightarrow> pow2 e = of_int (2 ^ (p - 1)) * pow2 (e + 1 - int p)"
  using pow2_add [of "int (p - 1)" "e + 1 - int p"] pow2_of_nat [of "p - 1"] by (simp add: of_nat_diff del: pow2_of_nat)

lemma fl_exponent_bounds:
  assumes "0 < x"
  shows "pow2 (fl_exponent x) \<le> x" and "x < pow2 (fl_exponent x + 1)"
proof -
  obtain p q where pq: "quotient_of x = (p, q)" by (cases "quotient_of x")
  then have q: "0 < q" and x: "x = of_int p / of_int q"
    using quotient_of_denom_pos quotient_of_div by auto
  with assms have p: "0 < p" by (simp add: zero_less_divide_iff)
  define a b k where "a = ilog2 (nat p)" and "b = ilog2 (nat q)" and "k = int a - int b"
  from p q have "2 ^ a \<le> nat p \<and> nat p < 2 ^ Suc a" "2 ^ b \<le> nat q \<and> nat q < 2 ^ Suc b"
    unfolding a_def b_def by (intro ilog2_bounds; simp)+
  with p q have "2 ^ a \<le> p \<and> p < 2 ^ Suc a" "2 ^ b \<le> q \<and> q < 2 ^ Suc b"
    by (auto simp: nat_le_iff nat_less_iff le_nat_iff zless_nat_eq_int_zless)
  then have P: "(2 ^ a :: rat) \<le> of_int p" "of_int p < (2 ^ Suc a :: rat)"
    and Q: "(2 ^ b :: rat) \<le> of_int q" "of_int q < (2 ^ Suc b :: rat)"
    by (metis of_int_le_iff of_int_less_iff of_int_power of_int_numeral)+
  have up: "x < pow2 (k + 1)"
  proof -
    have "x \<le> of_int p / 2 ^ b" unfolding x using p q Q by (intro divide_left_mono) simp_all
    also have "\<dots> < 2 ^ Suc a / 2 ^ b" using P by (intro divide_strict_right_mono) auto
    also have "\<dots> = pow2 (k + 1)"
      unfolding k_def using pow2_diff [of "int (Suc a)" "int b"] pow2_of_nat [of "Suc a"] pow2_of_nat [of b]
      by (simp add: algebra_simps del: pow2_of_nat)
    finally show ?thesis .
  qed
  have low: "pow2 (k - 1) < x"
  proof -
    have "pow2 (k - 1) = 2 ^ a / 2 ^ Suc b"
      unfolding k_def using pow2_diff [of "int a" "int (Suc b)"] pow2_of_nat [of "Suc b"] pow2_of_nat [of a]
      by (simp add: algebra_simps del: pow2_of_nat)
    also have "\<dots> < 2 ^ a / of_int q" using Q q by (intro divide_strict_left_mono) auto
    also have "\<dots> \<le> x" unfolding x using P q by (intro divide_right_mono) auto
    finally show ?thesis .
  qed
  have "fl_exponent x = (if pow2 k \<le> x then k else k - 1)"
    by (simp add: fl_exponent_def pq a_def b_def k_def)
  with up low show "pow2 (fl_exponent x) \<le> x" "x < pow2 (fl_exponent x + 1)" by auto
qed

lemma round_even_mono_int:
  "of_int n \<le> x \<Longrightarrow> n \<le> round_even x"
  "x \<le> of_int n \<Longrightarrow> round_even x \<le> n"
proof -
  assume "of_int n \<le> x"
  then have "n \<le> \<lfloor>x\<rfloor>" by (simp add: le_floor_iff)
  then show "n \<le> round_even x" by (simp add: round_even_def Let_def)
next
  assume le: "x \<le> of_int n"
  show "round_even x \<le> n"
  proof (cases "x = of_int \<lfloor>x\<rfloor>")
    case True
    then have "round_even x = \<lfloor>x\<rfloor>" by (simp add: round_even_def Let_def)
    with True le show ?thesis by (metis of_int_le_iff)
  next
    case False
    then have "of_int \<lfloor>x\<rfloor> < x" using of_int_floor_le [of x] by linarith
    with le have "\<lfloor>x\<rfloor> < n" by (metis of_int_less_iff order_less_le_trans)
    then show ?thesis by (simp add: round_even_def Let_def)
  qed
qed

text \<open>Rounding does not cross a number with few enough bits.\<close>

lemma grid_point:
  assumes "e + 1 - int p \<le> - int j"
  shows "of_int (n * 2 ^ nat (- int j - (e + 1 - int p))) * pow2 (e + 1 - int p) = of_int n / 2 ^ j"
proof -
  define d where "d = nat (- int j - (e + 1 - int p))"
  then have e: "e + 1 - int p = - int j - int d" using assms by simp
  have "pow2 (- int j - int d) = 1 / (2 ^ j * 2 ^ d)"
    using pow2_diff [of "- int j" "int d"] pow2_diff [of 0 "int j"] pow2_of_nat [of 0] by (simp add: mult.commute)
  then show ?thesis unfolding d_def [symmetric] e by simp
qed

lemma fl_round_ge:
  assumes "0 < p" and "0 \<le> n" and "n \<le> 2 ^ p" and "of_int n / 2 ^ j \<le> x"
  shows "of_int n / 2 ^ j \<le> fl_round p x"
proof (cases "x = 0")
  case False
  have "0 \<le> (of_int n / 2 ^ j :: rat)" using assms(2) by simp
  with assms(4) False have x: "0 < x" by linarith
  define e where "e = fl_exponent x"
  define u where "u = pow2 (e + 1 - int p)"
  have e: "pow2 e \<le> x" unfolding e_def by (rule fl_exponent_bounds(1) [OF x])
  have fl: "fl_round p x = of_int (round_even (x / u)) * u"
    using x by (simp add: fl_round_def u_def e_def Let_def)
  have u: "0 < u" by (simp add: u_def)
  show ?thesis
  proof (cases "e + 1 - int p \<le> - int j")
    case True
    define N where "N = n * 2 ^ nat (- int j - (e + 1 - int p))"
    have N: "of_int N * u = of_int n / 2 ^ j" unfolding N_def u_def by (rule grid_point [OF True])
    with assms(4) u have "of_int N \<le> x / u" by (simp add: le_divide_eq)
    then have "N \<le> round_even (x / u)" by (rule round_even_mono_int)
    then have "of_int N * u \<le> of_int (round_even (x / u)) * u" using u by (intro mult_right_mono) auto
    with N fl show ?thesis by simp
  next
    case False
    have "of_int n / 2 ^ j \<le> (2 ^ p / 2 ^ j :: rat)"
    proof (rule divide_right_mono)
      show "of_int n \<le> (2 ^ p :: rat)" using assms(3) by (metis of_int_le_iff of_int_numeral of_int_power)
    qed simp
    also have "\<dots> = pow2 (int p - int j)" by (simp add: pow2_diff)
    also have "\<dots> \<le> pow2 e" by (intro pow2_mono) (use False in simp)
    finally have small: "of_int n / 2 ^ j \<le> pow2 e" .
    have pow: "pow2 e = of_int (2 ^ (p - 1)) * u"
      unfolding u_def by (rule top_bit [OF assms(1)])
    from e u have "of_int (2 ^ (p - 1)) \<le> x / u" unfolding pow by (simp add: le_divide_eq)
    then have "2 ^ (p - 1) \<le> round_even (x / u)" by (rule round_even_mono_int)
    then have "(of_int (2 ^ (p - 1)) :: rat) * u \<le> of_int (round_even (x / u)) * u"
      using u by (intro mult_right_mono) (simp_all only: of_int_le_iff less_imp_le)
    with pow small fl show ?thesis by simp
  qed
qed (use assms in \<open>simp add: fl_round_def\<close>)

lemma fl_round_le:
  assumes "0 < p" and "0 \<le> n" and "n \<le> 2 ^ p" and "0 \<le> x" and "x \<le> of_int n / 2 ^ j"
  shows "fl_round p x \<le> of_int n / 2 ^ j"
proof (cases "x = 0")
  case False
  with assms(4) have x: "0 < x" by simp
  define e where "e = fl_exponent x"
  define u where "u = pow2 (e + 1 - int p)"
  have e: "pow2 e \<le> x" "x < pow2 (e + 1)" unfolding e_def by (rule fl_exponent_bounds [OF x])+
  have fl: "fl_round p x = of_int (round_even (x / u)) * u"
    using x by (simp add: fl_round_def u_def e_def Let_def)
  have u: "0 < u" by (simp add: u_def)
  have n: "of_int n / 2 ^ j \<le> pow2 (int p - int j)"
  proof -
    have "of_int n \<le> (2 ^ p :: rat)" using assms(3) by (metis of_int_le_iff of_int_numeral of_int_power)
    then show ?thesis by (simp add: pow2_diff divide_right_mono)
  qed
  have bound: "x / u \<le> of_int N \<Longrightarrow> fl_round p x \<le> of_int N * u" for N
    using round_even_mono_int(2) [of "x / u" N] u unfolding fl by (intro mult_right_mono) auto
  show ?thesis
  proof (cases "e + 1 - int p \<le> - int j")
    case True
    define N where "N = n * 2 ^ nat (- int j - (e + 1 - int p))"
    have N: "of_int N * u = of_int n / 2 ^ j" unfolding N_def u_def by (rule grid_point [OF True])
    with assms(5) u have "x / u \<le> of_int N" by (simp add: divide_le_eq)
    from bound [OF this] N show ?thesis by simp
  next
    case False
    have "e = int p - int j"
    proof -
      have "\<not> pow2 (int p - int j) < pow2 e" using n e assms(5) by linarith
      with False show ?thesis by (simp add: pow2_strict)
    qed
    then have x_eq: "x = pow2 e" "of_int n / 2 ^ j = pow2 e" using n e assms(5) by auto
    have "pow2 e = of_int (2 ^ (p - 1)) * u"
      unfolding u_def by (rule top_bit [OF assms(1)])
    with x_eq u have "x / u \<le> of_int (2 ^ (p - 1))" by (simp add: divide_le_eq)
    from bound [OF this] x_eq \<open>pow2 e = _\<close> show ?thesis by simp
  qed
qed (use assms in \<open>simp add: fl_round_def\<close>)

text \<open>Numbers with few enough bits are represented exactly.\<close>

lemma fl_round_exact:
  assumes "0 < p" and "0 \<le> n" and "n \<le> 2 ^ p"
  shows "fl_round p (of_int n / 2 ^ j) = of_int n / 2 ^ j"
  using fl_round_ge [OF assms order_refl, of j] fl_round_le [OF assms, of "of_int n / 2 ^ j" j] assms(2)
  by (intro antisym) simp_all

lemmas rnd64_ge = fl_round_ge [of 53, folded rnd64_def, simplified]
lemmas rnd64_le = fl_round_le [of 53, folded rnd64_def, simplified]

lemma rnd64_nat [simp]: "n \<le> 2 ^ 53 \<Longrightarrow> rnd64 (of_nat n) = of_nat n"
  using fl_round_exact [of 53 "int n" 0] unfolding rnd64_def by simp

lemma rnd64_0 [simp]: "rnd64 0 = 0"
  by (simp add: rnd64_def fl_round_def)

lemma f_round_bounds:
  "of_int n \<le> x \<Longrightarrow> n \<le> f_round x"
  "x \<le> of_int m \<Longrightarrow> f_round x \<le> m"
  unfolding f_round_def by (auto split: if_splits) linarith+

lemma f_round_int [simp]: "f_round (of_int n) = n" "f_round (of_nat k) = int k"
  using f_round_bounds(1) [of n "of_int n"] f_round_bounds(2) [of "of_int n" n]
    f_round_bounds(1) [of "int k" "of_nat k"] f_round_bounds(2) [of "of_nat k" "int k"] by simp_all

lemma f_trunc_bounds:
  "of_int n \<le> x \<Longrightarrow> 0 \<le> n \<Longrightarrow> n \<le> f_trunc x"
  "x < of_int n \<Longrightarrow> 0 \<le> x \<Longrightarrow> f_trunc x < n"
  by (simp_all add: f_trunc_def le_floor_iff floor_less_iff)

text \<open>Rounding is symmetric.\<close>

lemma round_even_minus: "round_even (- x) = - round_even x"
proof (cases "x = of_int \<lfloor>x\<rfloor>")
  case True
  define n where "n = \<lfloor>x\<rfloor>"
  with True have "x = of_int n" by simp
  moreover have "round_even (of_int m) = m" for m by (simp add: round_even_def Let_def)
  ultimately show ?thesis by (metis of_int_minus)
next
  case False
  define n where "n = \<lfloor>x\<rfloor>"
  have n: "of_int n < x" "x < of_int n + 1" using False of_int_floor_le [of x] unfolding n_def by linarith+
  then have "\<lfloor>- x\<rfloor> = - n - 1" by linarith
  with n show ?thesis unfolding round_even_def Let_def n_def [symmetric] by auto
qed

lemma fl_round_minus: "fl_round p (- x) = - fl_round p x"
  by (simp add: fl_round_def Let_def round_even_minus)

lemma rnd64_minus: "rnd64 (- x) = - rnd64 x"
  by (simp add: rnd64_def fl_round_minus)

lemma rnd64_int [simp]: "\<bar>n\<bar> \<le> 2 ^ 53 \<Longrightarrow> rnd64 (of_int n) = of_int n"
proof (cases "0 \<le> n")
  case True
  assume "\<bar>n\<bar> \<le> 2 ^ 53"
  with True rnd64_nat [of "nat n"] show ?thesis by (simp add: nat_le_iff)
next
  case False
  assume "\<bar>n\<bar> \<le> 2 ^ 53"
  with False rnd64_nat [of "nat (- n)"] rnd64_minus [of "- of_int n"] show ?thesis by (simp add: nat_le_iff)
qed

text \<open>In the range of screen coordinates the error is below a millionth of a pixel.\<close>

lemma rnd64_near:
  assumes "\<bar>x\<bar> < 2 ^ 33"
  shows "\<bar>rnd64 x - x\<bar> \<le> 1 / 2 ^ 20"
proof -
  have pos: "\<bar>rnd64 y - y\<bar> \<le> 1 / 2 ^ 20" if "0 \<le> y" "y < 2 ^ 33" for y
  proof -
    define n where "n = \<lfloor>y * 2 ^ 20\<rfloor>"
    have n: "of_int n \<le> y * 2 ^ 20" "y * 2 ^ 20 \<le> of_int (n + 1)" "0 \<le> n"
      unfolding n_def using that by (linarith, linarith, simp)
    moreover have "y * 2 ^ 20 < of_int (2 ^ 53)" using that by simp
    ultimately have "of_int n < (of_int (2 ^ 53) :: rat)" by linarith
    then have n53: "n + 1 \<le> 2 ^ 53" unfolding of_int_less_iff by simp
    have "of_int n / 2 ^ 20 \<le> rnd64 y" using n n53 by (intro rnd64_ge) (simp_all add: divide_le_eq)
    moreover have "rnd64 y \<le> of_int (n + 1) / 2 ^ 20" using n n53 that by (intro rnd64_le) (simp_all add: le_divide_eq)
    moreover have "of_int n / 2 ^ 20 \<le> y" "y \<le> of_int (n + 1) / 2 ^ 20" using n by (simp_all add: le_divide_eq divide_le_eq)
    moreover have "(of_int (n + 1) / 2 ^ 20 :: rat) = of_int n / 2 ^ 20 + 1 / 2 ^ 20" by (simp add: add_divide_distrib)
    ultimately show ?thesis by linarith
  qed
  show ?thesis
  proof (cases "0 \<le> x")
    case True
    with pos assms show ?thesis by simp
  next
    case False
    with pos [of "- x"] assms show ?thesis by (simp add: rnd64_minus abs_minus_commute)
  qed
qed

section \<open>Operations on doubles\<close>

definition fadd :: "f64 \<Rightarrow> f64 \<Rightarrow> f64" where "fadd a b = rnd64 (a + b)"
definition fsub :: "f64 \<Rightarrow> f64 \<Rightarrow> f64" where "fsub a b = rnd64 (a - b)"
definition fmul :: "f64 \<Rightarrow> f64 \<Rightarrow> f64" where "fmul a b = rnd64 (a * b)"
definition fdiv :: "f64 \<Rightarrow> f64 \<Rightarrow> f64" where "fdiv a b = rnd64 (a / b)"

end
