(* ===== verification/Viewer_Geometry.thy ===== *)
theory Viewer_Geometry
  imports Viewer_Input Frame_Buffer Float_Model
begin

text \<open>
  The viewer's geometry: \<open>crates/client/src/viewer/move_resize.rs\<close> (hit tests, manual move and
  resize, edge tiles), \<open>viewer/geometry.rs\<close> (sizes of host and guest, the cursor's place in the
  frame), \<open>viewer/adopt.rs\<close> (when a host window takes the guest's size), the constants and tables of
  \<open>viewer/env.rs\<close>, and the pure helpers of \<open>viewer/app.rs\<close>.

  A \<open>u32\<close> is a natural number below \<open>2^32\<close> and an \<open>i32\<close> an integer, with saturation and
  wrap-around written out; a float is the rational it denotes and every operation on two of them
  rounds (\<open>Float_Model\<close>). Instants and durations are milliseconds.
\<close>

type_synonym wsize = "nat \<times> nat"
type_synonym ipos = "int \<times> int"
type_synonym fpos = "f64 \<times> f64"

section \<open>Constants\<close>

definition MIN_VIEWER_WIDTH :: nat where "MIN_VIEWER_WIDTH = 240"
definition MIN_VIEWER_HEIGHT :: nat where "MIN_VIEWER_HEIGHT = 160"
definition RESIZE_BORDER_PX :: f64 where "RESIZE_BORDER_PX = 8"
definition CURSOR_EDGE_SNAP_DISTANCE_PX :: f64 where "CURSOR_EDGE_SNAP_DISTANCE_PX = 96"
definition LEFT_RIGHT_EDGE_SNAP_DISTANCE_PX :: f64 where "LEFT_RIGHT_EDGE_SNAP_DISTANCE_PX = 8"
definition TITLEBAR_BUTTON_HEIGHT_PX :: int where "TITLEBAR_BUTTON_HEIGHT_PX = 64"
definition TITLEBAR_DOUBLE_CLICK_HEIGHT_PX :: int where "TITLEBAR_DOUBLE_CLICK_HEIGHT_PX = 96"
definition TITLEBAR_RIGHT_CONTROL_WIDTH_PX :: int where "TITLEBAR_RIGHT_CONTROL_WIDTH_PX = 120"
definition TITLEBAR_MAXIMIZE_LEFT_OFFSET_PX :: int where "TITLEBAR_MAXIMIZE_LEFT_OFFSET_PX = 100"
definition TITLEBAR_MAXIMIZE_RIGHT_OFFSET_PX :: int where "TITLEBAR_MAXIMIZE_RIGHT_OFFSET_PX = 60"

definition INITIAL_HIDDEN_WINDOW_SIZE :: nat where "INITIAL_HIDDEN_WINDOW_SIZE = 1"
definition MIN_VIEW_SCALE :: f32 where "MIN_VIEW_SCALE = rnd32 (35 / 100)"
definition MAX_VIEW_SCALE :: f32 where "MAX_VIEW_SCALE = 3"
definition VIEW_SCALE_STEP :: f32 where "VIEW_SCALE_STEP = rnd32 (12 / 10)"
definition INITIAL_WINDOW_X :: int where "INITIAL_WINDOW_X = 80"
definition INITIAL_WINDOW_Y :: int where "INITIAL_WINDOW_Y = 80"
definition INITIAL_WINDOW_CASCADE_PX :: int where "INITIAL_WINDOW_CASCADE_PX = 28"
definition MACOS_MENUBAR_LOGICAL_PX :: f64 where "MACOS_MENUBAR_LOGICAL_PX = 38"
definition SCROLL_LINE_TO_AXIS_UNITS :: f64 where "SCROLL_LINE_TO_AXIS_UNITS = 15"
definition TITLEBAR_DOUBLE_CLICK_DISTANCE_PX :: int where "TITLEBAR_DOUBLE_CLICK_DISTANCE_PX = 24"
definition TITLEBAR_DOUBLE_CLICK_INTERVAL :: nat where "TITLEBAR_DOUBLE_CLICK_INTERVAL = 500"
definition REMOTE_MOVE_RELEASE_GRACE :: nat where "REMOTE_MOVE_RELEASE_GRACE = 350"
definition REMOTE_RESIZE_DEBOUNCE :: nat where "REMOTE_RESIZE_DEBOUNCE = 80"
definition FULLSCREEN_EXIT_RESYNC_DELAY :: nat where "FULLSCREEN_EXIT_RESYNC_DELAY = 180"
definition HOST_RESIZE_RESYNC_DELAY :: nat where "HOST_RESIZE_RESYNC_DELAY = 180"
definition WINDOW_REPLACEMENT_GRACE :: nat where "WINDOW_REPLACEMENT_GRACE = 2000"

section \<open>Settings of the environment\<close>

definition edge_snap_enabled_from :: "ustring option \<Rightarrow> bool" where
  "edge_snap_enabled_from value =
     (value \<in> Some ` set (map ascii [''1'', ''true'', ''TRUE'', ''yes'', ''on'']))"

definition host_chrome_enabled_from :: "ustring option \<Rightarrow> bool" where
  "host_chrome_enabled_from value =
     (value \<notin> Some ` set (map ascii [''0'', ''false'', ''FALSE'', ''no'', ''off'']))"

text \<open>The argument is the value the variable parses to, if it is set and does.\<close>

definition parse_menubar_inset :: "f64 option \<Rightarrow> f64" where
  "parse_menubar_inset parsed = (case parsed of
     Some v \<Rightarrow> if 0 \<le> v \<and> v < 200 then v else MACOS_MENUBAR_LOGICAL_PX
   | None \<Rightarrow> MACOS_MENUBAR_LOGICAL_PX)"

definition chrome_known :: "(ustring \<times> ustring) list" where
  "chrome_known = map (map_prod ascii ascii)
     [(''firefox'', ''Firefox''), (''chrome'', ''Chrome''), (''chromium'', ''Chromium''), (''brave'', ''Brave''),
      (''electron'', ''Electron''), (''code'', ''VS Code''), (''vscodium'', ''VSCodium''), (''ptyxis'', ''Ptyxis''),
      (''gnome.terminal'', ''GNOME Terminal''), (''gnome-terminal'', ''GNOME Terminal''),
      (''gnome.console'', ''GNOME Console''), (''gnome-console'', ''GNOME Console''),
      (''kgx'', ''GNOME Console''), (''terminal'', ''Terminal'')]
     @ [([0xD130, 0xBBF8, 0xB110], ascii ''Terminal''), (ascii ''@'', ascii ''Terminal'')]"

definition guest_app_uses_own_chrome :: "ustring \<Rightarrow> ustring \<Rightarrow> ustring option" where
  "guest_app_uses_own_chrome app_id title =
     (let needle_app = map (\<lambda>c. if c \<in> {0x2E, 0x5F} then 0x2D else c) (to_ascii_lowercase app_id);
          needle_title = to_ascii_lowercase title
      in map_option snd (find (\<lambda>(needle, _). contains needle needle_app \<or> contains needle needle_title) chrome_known))"

section \<open>Sizes\<close>

definition u32_abs_diff :: "nat \<Rightarrow> nat \<Rightarrow> nat" where
  "u32_abs_diff a b = max a b - min a b"

definition physical_size_close :: "wsize \<Rightarrow> wsize \<Rightarrow> bool" where
  "physical_size_close expected actual \<longleftrightarrow>
     u32_abs_diff (fst expected) (fst actual) \<le> 32 \<and> u32_abs_diff (snd expected) (snd actual) \<le> 32"

definition programmatic_resize_matches :: "wsize \<Rightarrow> wsize \<Rightarrow> bool" where
  "programmatic_resize_matches expected actual =
     (if physical_size_close expected actual then True
      else let width_applied = physical_size_close (fst expected, 1) (fst actual, 1);
               height_applied = physical_size_close (1, snd expected) (1, snd actual)
           in width_applied \<and> snd actual \<le> snd expected \<or> height_applied \<and> fst actual \<le> fst expected)"

definition consume_programmatic_resize_gate :: "wsize option \<Rightarrow> wsize \<Rightarrow> wsize option \<times> bool" where
  "consume_programmatic_resize_gate pending actual = (case pending of
     None \<Rightarrow> (None, False) | Some expected \<Rightarrow> (None, programmatic_resize_matches expected actual))"

definition host_resize_resync_needed :: "wsize \<Rightarrow> wsize \<Rightarrow> bool" where
  "host_resize_resync_needed current desired =
     (if physical_size_close current desired then False
      else fst current < fst desired \<or> snd current < snd desired)"

definition clamp_display_size :: "nat \<Rightarrow> nat \<Rightarrow> wsize" where
  "clamp_display_size w h = (max w 1, max h 1)"

definition compute_effective_content_rect :: "bool \<Rightarrow> nat \<Rightarrow> nat \<Rightarrow> FrameRect \<Rightarrow> FrameRect" where
  "compute_effective_content_rect uses_own_chrome frame_w frame_h content =
     (if uses_own_chrome then frame_rect_new 0 0 (max frame_w 1) (max frame_h 1) else content)"

definition u32_saturating_add :: "nat \<Rightarrow> nat \<Rightarrow> nat" where
  "u32_saturating_add a b = min (2 ^ 32 - 1) (a + b)"

definition remote_axis :: "nat \<Rightarrow> f64 \<Rightarrow> nat \<Rightarrow> nat" where
  "remote_axis len scale hidden =
     u32_saturating_add (u32_sat (max (f_round (fdiv (of_nat (max len 1)) scale)) 1)) hidden"

definition compute_remote_size :: "wsize \<Rightarrow> f32 \<Rightarrow> nat \<Rightarrow> nat \<Rightarrow> nat \<Rightarrow> nat \<Rightarrow> wsize" where
  "compute_remote_size inner view_scale content_w content_h frame_w frame_h =
     (let scale = max view_scale (rnd32 (1 / 100))
      in (remote_axis (fst inner) scale (frame_w - content_w), remote_axis (snd inner) scale (frame_h - content_h)))"

definition physical_to_logical_size :: "nat \<Rightarrow> nat \<Rightarrow> f64 \<Rightarrow> f64 \<times> f64" where
  "physical_to_logical_size physical_w physical_h scale =
     (let safe_scale = max scale 1
      in (max (of_int (f_round (fdiv (of_nat physical_w) safe_scale))) 1,
          max (of_int (f_round (fdiv (of_nat physical_h) safe_scale))) 1))"

definition scaled_len :: "nat \<Rightarrow> f32 \<Rightarrow> nat" where
  "scaled_len len scale = u32_sat (f_trunc (f_clamp
     (of_int (f_round (rnd32 (rnd32 (of_nat (max len 1)) * scale)))) 1 (rnd32 (2 ^ 32 - 1))))"

definition clamp_view_scale :: "f32 \<Rightarrow> f32" where
  "clamp_view_scale scale = f_clamp scale MIN_VIEW_SCALE MAX_VIEW_SCALE"

definition next_view_scale :: "ustring \<Rightarrow> f32 \<Rightarrow> f32 option" where
  "next_view_scale t current =
     (if t \<in> {ascii ''+'', ascii ''=''} then Some (rnd32 (current * VIEW_SCALE_STEP))
      else if t \<in> {ascii ''-'', ascii ''_''} then Some (rnd32 (current / VIEW_SCALE_STEP))
      else if t = ascii ''0'' then Some 1 else None)"

section \<open>The cursor in the frame\<close>

text \<open>\<open>f64::clamp\<close> panics when its bounds are in the wrong order.\<close>

definition clamp_f64_to_i32 :: "f64 \<Rightarrow> int \<Rightarrow> int \<Rightarrow> int option" where
  "clamp_f64_to_i32 value lo hi =
     (if hi < lo then None else Some (i32_sat (f_trunc (f_clamp value (of_int lo) (of_int hi)))))"

definition frame_axis :: "f64 \<Rightarrow> nat \<Rightarrow> nat \<Rightarrow> nat \<Rightarrow> nat \<Rightarrow> f64" where
  "frame_axis host m_off m_len c_off c_len =
     (let local = f_clamp (fsub host (of_nat m_off)) 0 (of_nat (m_len - 1))
      in fadd (of_nat c_off) (fdiv (fmul local (of_nat (max c_len 1))) (of_nat (max m_len 1))))"

definition cursor_to_frame_coords :: "f64 \<Rightarrow> f64 \<Rightarrow> wsize \<Rightarrow> FrameRect \<Rightarrow> wsize \<Rightarrow> ipos option" where
  "cursor_to_frame_coords host_x host_y inner content frame_size =
     (let mapping = aspect_fit_rect (fr_w content) (fr_h content) (fst inner) (snd inner);
          frame_x = frame_axis host_x (fr_x mapping) (fr_w mapping) (fr_x content) (fr_w content);
          frame_y = frame_axis host_y (fr_y mapping) (fr_h mapping) (fr_y content) (fr_h content);
          max_x = i32_wrap (int (fst frame_size - 1));
          max_y = i32_wrap (int (snd frame_size - 1))
      in case (clamp_f64_to_i32 frame_x 0 max_x, clamp_f64_to_i32 frame_y 0 max_y) of
           (Some x, Some y) \<Rightarrow> Some (x, y) | _ \<Rightarrow> None)"

section \<open>Manual move and resize\<close>

datatype ResizeDirection = East | North | NorthEast | NorthWest | South | SouthEast | SouthWest | West

record ResizeDrag =
  rd_direction :: ResizeDirection
  rd_start_outer :: ipos
  rd_start_size :: wsize

record MoveDrag =
  start_cursor_window :: fpos
  press_outer :: ipos

datatype MoveState = MoveIdle | MovePressed MoveDrag | MoveReleased MoveDrag nat | Dragging MoveDrag

fun is_dragging :: "MoveState \<Rightarrow> bool" where
  "is_dragging (Dragging _) = True"
| "is_dragging _ = False"

definition compute_manual_move_outer :: "ipos \<Rightarrow> fpos \<Rightarrow> fpos \<Rightarrow> ipos" where
  "compute_manual_move_outer outer start cursor =
     (let dx = fsub (fst cursor) (fst start); dy = fsub (snd cursor) (snd start)
      in (i32_wrap (fst outer + i32_sat (f_round dx)), i32_wrap (snd outer + i32_sat (f_round dy))))"

definition resize_direction_at :: "fpos \<Rightarrow> wsize \<Rightarrow> ResizeDirection option" where
  "resize_direction_at position size' =
     (let width = of_nat (max (fst size') 1); height = of_nat (max (snd size') 1);
          border = min (min RESIZE_BORDER_PX (fdiv width 2)) (fdiv height 2);
          west = fst position \<le> border; east = fsub width border \<le> fst position;
          north = snd position \<le> border; south = fsub height border \<le> snd position
      in if west \<and> north then Some NorthWest
         else if east \<and> north then Some NorthEast
         else if west \<and> south then Some SouthWest
         else if east \<and> south then Some SouthEast
         else if west then Some West
         else if east then Some East
         else if north then Some North
         else if south then Some South
         else None)"

fun uses_west_edge :: "ResizeDirection \<Rightarrow> bool" where
  "uses_west_edge d = (d \<in> {West, NorthWest, SouthWest})"

fun uses_north_edge :: "ResizeDirection \<Rightarrow> bool" where
  "uses_north_edge d = (d \<in> {North, NorthEast, NorthWest})"

text \<open>A rectangle is its left, top, right and bottom edge.\<close>

definition apply_resize_direction :: "ResizeDrag \<Rightarrow> f64 \<Rightarrow> f64 \<Rightarrow> f64 \<times> f64 \<times> f64 \<times> f64" where
  "apply_resize_direction drag cursor_x cursor_y =
     (let left = of_int (fst (rd_start_outer drag)); top = of_int (snd (rd_start_outer drag));
          right = fadd left (of_nat (fst (rd_start_size drag)));
          bottom = fadd top (of_nat (snd (rd_start_size drag)))
      in case rd_direction drag of
           East \<Rightarrow> (left, top, cursor_x, bottom)
         | North \<Rightarrow> (left, cursor_y, right, bottom)
         | NorthEast \<Rightarrow> (left, cursor_y, cursor_x, bottom)
         | NorthWest \<Rightarrow> (cursor_x, cursor_y, right, bottom)
         | South \<Rightarrow> (left, top, right, cursor_y)
         | SouthEast \<Rightarrow> (left, top, cursor_x, cursor_y)
         | SouthWest \<Rightarrow> (cursor_x, top, right, cursor_y)
         | West \<Rightarrow> (cursor_x, top, right, bottom))"

definition clamp_axis :: "bool \<Rightarrow> f64 \<Rightarrow> f64 \<Rightarrow> f64 \<Rightarrow> f64 \<times> f64" where
  "clamp_axis low_edge least lo hi =
     (if fsub hi lo < least then (if low_edge then (fsub hi least, hi) else (lo, fadd lo least)) else (lo, hi))"

definition clamp_manual_resize :: "ResizeDirection \<Rightarrow> f64 \<times> f64 \<times> f64 \<times> f64 \<Rightarrow> f64 \<times> f64 \<times> f64 \<times> f64" where
  "clamp_manual_resize direction = (\<lambda>(left, top, right, bottom).
     let (left', right') = clamp_axis (uses_west_edge direction) (of_nat MIN_VIEWER_WIDTH) left right;
         (top', bottom') = clamp_axis (uses_north_edge direction) (of_nat MIN_VIEWER_HEIGHT) top bottom
     in (left', top', right', bottom'))"

section \<open>Edge tiles\<close>

record EdgeSnapRect =
  es_position :: ipos
  es_size :: wsize

record SnappedEdges =
  west :: bool
  east :: bool
  north :: bool
  south :: bool

definition half_extent :: "nat \<Rightarrow> nat \<Rightarrow> nat" where
  "half_extent len least = max (len div 2) (min least len)"

definition tile_rect_for_edges :: "ipos \<Rightarrow> wsize \<Rightarrow> SnappedEdges \<Rightarrow> EdgeSnapRect" where
  "tile_rect_for_edges monitor_position monitor_size edges =
     (let monitor_left = fst monitor_position; monitor_top = snd monitor_position;
          monitor_width = max (fst monitor_size) 1; monitor_height = max (snd monitor_size) 1;
          half_width = half_extent monitor_width MIN_VIEWER_WIDTH;
          right_width = max (monitor_width - half_width) 1;
          half_height = half_extent monitor_height MIN_VIEWER_HEIGHT;
          bottom_height = max (monitor_height - half_height) 1;
          (x, width) = (if west edges \<and> \<not> east edges then (monitor_left, half_width)
            else if \<not> west edges \<and> east edges then (i32_sat (monitor_left + i32_wrap (int half_width)), right_width)
            else (monitor_left, monitor_width));
          (y, height) = (if north edges \<and> \<not> south edges \<and> (west edges \<or> east edges) then (monitor_top, half_height)
            else if \<not> north edges \<and> south edges then (i32_sat (monitor_top + i32_wrap (int half_height)), bottom_height)
            else (monitor_top, monitor_height))
      in \<lparr>es_position = (x, y), es_size = (width, height)\<rparr>)"

text \<open>The subtraction of two positions wraps; so does the absolute value of the least \<open>i32\<close>.\<close>

definition i32_abs :: "int \<Rightarrow> int" where
  "i32_abs z = i32_wrap \<bar>z\<bar>"

definition reject_unchanged_tile :: "EdgeSnapRect \<Rightarrow> ipos \<Rightarrow> wsize \<Rightarrow> EdgeSnapRect option" where
  "reject_unchanged_tile rect outer_position outer_size =
     (if physical_size_close (es_size rect) outer_size
         \<and> i32_abs (i32_wrap (fst (es_position rect) - fst outer_position)) \<le> 1
         \<and> i32_abs (i32_wrap (snd (es_position rect) - snd outer_position)) \<le> 1
      then None else Some rect)"

definition cursor_snap_edges :: "fpos \<Rightarrow> ipos \<Rightarrow> wsize \<Rightarrow> SnappedEdges option" where
  "cursor_snap_edges cursor_screen monitor_position monitor_size =
     (let monitor_left = of_int (fst monitor_position); monitor_top = of_int (snd monitor_position);
          monitor_right = fadd monitor_left (of_nat (max (fst monitor_size) 1));
          monitor_bottom = fadd monitor_top (of_nat (max (snd monitor_size) 1));
          snap_distance = CURSOR_EDGE_SNAP_DISTANCE_PX;
          w = (fst cursor_screen \<le> fadd monitor_left snap_distance);
          e = (fsub monitor_right snap_distance \<le> fst cursor_screen);
          n = (snd cursor_screen \<le> fadd monitor_top snap_distance);
          s = (fsub monitor_bottom snap_distance \<le> snd cursor_screen)
      in if w \<or> e \<or> n \<or> s then Some \<lparr>west = w, east = e, north = n, south = s\<rparr> else None)"

definition cursor_edge_tile_rect :: "fpos \<Rightarrow> ipos \<Rightarrow> wsize \<Rightarrow> ipos \<Rightarrow> wsize \<Rightarrow> EdgeSnapRect option" where
  "cursor_edge_tile_rect cursor_screen outer_position outer_size monitor_position monitor_size =
     (case cursor_snap_edges cursor_screen monitor_position monitor_size of
        None \<Rightarrow> None
      | Some edges \<Rightarrow> reject_unchanged_tile (tile_rect_for_edges monitor_position monitor_size edges) outer_position outer_size)"

definition cursor_left_right_tile_rect ::
    "fpos \<Rightarrow> ipos \<Rightarrow> wsize \<Rightarrow> ipos \<Rightarrow> wsize \<Rightarrow> nat \<Rightarrow> EdgeSnapRect option" where
  "cursor_left_right_tile_rect cursor_screen outer_position outer_size monitor_position monitor_size top_inset_px =
     (let monitor_left = of_int (fst monitor_position);
          monitor_right = fadd monitor_left (of_nat (max (fst monitor_size) 1));
          on_left = (fst cursor_screen \<le> fadd monitor_left LEFT_RIGHT_EDGE_SNAP_DISTANCE_PX);
          on_right = (fsub monitor_right LEFT_RIGHT_EDGE_SNAP_DISTANCE_PX \<le> fst cursor_screen)
      in if on_left = on_right then None
         else let monitor_width = max (fst monitor_size) 1;
                  visible_height = max (snd monitor_size - top_inset_px) 1;
                  visible_top = i32_sat (snd monitor_position + i32_wrap (int top_inset_px));
                  half_width = half_extent monitor_width MIN_VIEWER_WIDTH;
                  rect = (if on_left
                    then \<lparr>es_position = (fst monitor_position, visible_top), es_size = (half_width, visible_height)\<rparr>
                    else \<lparr>es_position = (i32_sat (fst monitor_position + i32_wrap (int half_width)), visible_top),
                           es_size = (max (monitor_width - half_width) 1, visible_height)\<rparr>)
              in reject_unchanged_tile rect outer_position outer_size)"

section \<open>The title bar\<close>

definition is_titlebar_maximize_button :: "int \<Rightarrow> int \<Rightarrow> nat \<Rightarrow> bool" where
  "is_titlebar_maximize_button x y frame_width =
     (let fw = i32_wrap (int (max frame_width 1))
      in 0 \<le> y \<and> y \<le> TITLEBAR_BUTTON_HEIGHT_PX
         \<and> i32_sat (fw - TITLEBAR_MAXIMIZE_LEFT_OFFSET_PX) \<le> x
         \<and> x \<le> i32_sat (fw - TITLEBAR_MAXIMIZE_RIGHT_OFFSET_PX))"

definition is_titlebar_double_click_area :: "int \<Rightarrow> int \<Rightarrow> nat \<Rightarrow> bool" where
  "is_titlebar_double_click_area x y frame_width =
     (let fw = i32_wrap (int (max frame_width 1))
      in 0 \<le> y \<and> y \<le> TITLEBAR_DOUBLE_CLICK_HEIGHT_PX \<and> 0 \<le> x
         \<and> x < i32_sat (fw - TITLEBAR_RIGHT_CONTROL_WIDTH_PX))"

record TitlebarClick =
  tc_at :: nat
  tc_x :: int
  tc_y :: int

definition is_titlebar_double_click :: "TitlebarClick option \<Rightarrow> nat \<Rightarrow> int \<Rightarrow> int \<Rightarrow> nat \<Rightarrow> int \<Rightarrow> bool" where
  "is_titlebar_double_click last_click now x y interval slop = (case last_click of
     None \<Rightarrow> False
   | Some click \<Rightarrow> now - tc_at click \<le> interval
       \<and> i32_abs (i32_wrap (x - tc_x click)) \<le> slop \<and> i32_abs (i32_wrap (y - tc_y click)) \<le> slop)"

section \<open>Adoption of the guest's size\<close>

definition should_adopt_host_window :: "bool \<Rightarrow> bool \<Rightarrow> bool" where
  "should_adopt_host_window already_adopted size_changed \<longleftrightarrow> size_changed \<and> \<not> already_adopted"

definition ADOPTION_MIN_CONTENT_W :: nat where "ADOPTION_MIN_CONTENT_W = 240"
definition ADOPTION_MIN_CONTENT_H :: nat where "ADOPTION_MIN_CONTENT_H = 160"
definition ADOPTION_MAX_ASPECT :: f64 where "ADOPTION_MAX_ASPECT = 5"

definition is_content_rect_adoptable :: "nat \<Rightarrow> nat \<Rightarrow> bool" where
  "is_content_rect_adoptable content_w content_h =
     (if content_w < ADOPTION_MIN_CONTENT_W \<or> content_h < ADOPTION_MIN_CONTENT_H then False
      else let w = of_nat content_w; h = of_nat content_h; aspect = (if h \<le> w then fdiv w h else fdiv h w)
           in aspect \<le> ADOPTION_MAX_ASPECT)"

definition initial_adopt_cap :: "f64 \<Rightarrow> f64 \<Rightarrow> f64 \<Rightarrow> f64 \<Rightarrow> f64 \<Rightarrow> f64 \<Rightarrow> (f64 \<times> f64) option" where
  "initial_adopt_cap frame_w frame_h monitor_w monitor_h min_w min_h =
     (if fmul monitor_w (rnd64 (85 / 100)) < frame_w \<or> fmul monitor_h (rnd64 (85 / 100)) < frame_h
      then Some (max (fmul monitor_w (rnd64 (7 / 10))) min_w, max (fmul monitor_h (rnd64 (7 / 10))) min_h)
      else None)"

section \<open>Windows\<close>

definition window_title :: "ustring \<Rightarrow> ustring" where
  "window_title title = (if title = [] then ascii ''vbox'' else title)"

definition guest_chrome_dedup_key :: "ustring \<Rightarrow> ustring \<Rightarrow> ustring" where
  "guest_chrome_dedup_key app_id title = (if app_id = [] then title else app_id)"

datatype Theme = Light | Dark

definition LIGHT_MATTE_PIXEL :: u32 where "LIGHT_MATTE_PIXEL = 0xffffff"
definition DARK_MATTE_PIXEL :: u32 where "DARK_MATTE_PIXEL = 0x181818"

fun matte_for_theme :: "Theme option \<Rightarrow> u32" where
  "matte_for_theme (Some Light) = LIGHT_MATTE_PIXEL"
| "matte_for_theme (Some Dark) = DARK_MATTE_PIXEL"
| "matte_for_theme None = DARK_MATTE_PIXEL"

definition initial_window_position :: "u64 \<Rightarrow> ipos" where
  "initial_window_position wid =
     (let offset = int (min (unat (saturating_sub wid 1)) 8) * INITIAL_WINDOW_CASCADE_PX
      in (INITIAL_WINDOW_X + offset, INITIAL_WINDOW_Y + offset))"

record PendingRemoteResize =
  pr_width :: nat
  pr_height :: nat
  pr_due :: nat

definition build_pending_remote_resize :: "nat \<Rightarrow> nat \<Rightarrow> nat \<Rightarrow> nat \<Rightarrow> PendingRemoteResize" where
  "build_pending_remote_resize width height debounce now =
     \<lparr>pr_width = max width 1, pr_height = max height 1, pr_due = now + debounce\<rparr>"

fun partition_pending_resizes ::
    "(u64 \<times> PendingRemoteResize) list \<Rightarrow> nat
      \<Rightarrow> (u64 \<times> nat \<times> nat) list \<times> (u64 \<times> PendingRemoteResize) list \<times> nat option
      \<Rightarrow> (u64 \<times> nat \<times> nat) list \<times> (u64 \<times> PendingRemoteResize) list \<times> nat option" where
  "partition_pending_resizes [] now acc = acc"
| "partition_pending_resizes ((wid, resize) # ps) now (ready, waiting, next_due) =
     partition_pending_resizes ps now
       (if pr_due resize \<le> now then (ready @ [(wid, pr_width resize, pr_height resize)], waiting, next_due)
        else (ready, waiting @ [(wid, resize)],
              Some (case next_due of None \<Rightarrow> pr_due resize | Some due \<Rightarrow> min due (pr_due resize))))"

section \<open>Facts on the cursor\<close>

text \<open>Adding an offset to a quotient, both rounded, does not reach the next whole number.\<close>

lemma offset_quotient:
  assumes "of_nat k \<le> q" and "q \<le> of_nat (Suc k) - 1 / 2 ^ 26" and "off + Suc k \<le> 2 ^ 26"
  shows "of_nat (off + k) \<le> fadd (of_nat off) (rnd64 q)" and "fadd (of_nat off) (rnd64 q) < of_nat (off + Suc k)"
proof -
  have bound: "(of_int (int n * 2 ^ 26 - 1) / 2 ^ 26 :: rat) = of_nat n - 1 / 2 ^ 26" for n
    by (simp add: diff_divide_distrib)
  have small: "int (off + Suc k) * 2 ^ 26 - 1 \<le> 2 ^ 53" "int (Suc k) * 2 ^ 26 - 1 \<le> 2 ^ 53"
    using assms(3) by simp_all
  have q: "of_nat k \<le> rnd64 q"
    using rnd64_ge [of "int k" 0 q] assms(1,3) by simp
  have q': "rnd64 q \<le> of_nat (Suc k) - 1 / 2 ^ 26"
    using rnd64_le [of "int (Suc k) * 2 ^ 26 - 1" q 26] assms small unfolding bound by simp
  have sum: "of_nat (off + k) \<le> of_nat off + rnd64 q" "of_nat off + rnd64 q \<le> of_nat (off + Suc k) - 1 / 2 ^ 26"
    using q q' by simp_all
  then have pos: "0 \<le> of_nat off + rnd64 q" by (meson of_nat_0_le_iff order_trans)
  show "of_nat (off + k) \<le> fadd (of_nat off) (rnd64 q)"
    using rnd64_ge [of "int (off + k)" 0 "of_nat off + rnd64 q"] sum(1) assms(3) unfolding fadd_def by simp
  have "fadd (of_nat off) (rnd64 q) \<le> of_nat (off + Suc k) - 1 / 2 ^ 26"
    using rnd64_le [of "int (off + Suc k) * 2 ^ 26 - 1" "of_nat off + rnd64 q" 26] sum(2) small pos
    unfolding fadd_def bound by simp
  then show "fadd (of_nat off) (rnd64 q) < of_nat (off + Suc k)"
    by (rule order_le_less_trans) simp
qed

lemma quotient_gap:
  assumes "0 < m" and "m \<le> 2 ^ 26"
  shows "of_nat (p div m) \<le> (of_nat p / of_nat m :: rat)"
    and "(of_nat p / of_nat m :: rat) \<le> of_nat (Suc (p div m)) - 1 / 2 ^ 26"
proof -
  have m: "0 < (of_nat m :: rat)" using assms by simp
  have "p div m * m \<le> p" by simp
  then have "(of_nat (p div m) * of_nat m :: rat) \<le> of_nat p" by (metis of_nat_le_iff of_nat_mult)
  with m show "of_nat (p div m) \<le> (of_nat p / of_nat m :: rat)" by (simp add: le_divide_eq)
  have "p < Suc (p div m) * m" using assms(1) by (metis div_mult_mod_eq mod_less_divisor mult_Suc add.commute add_less_cancel_right)
  then have "p + 1 \<le> Suc (p div m) * m" by simp
  then have "(of_nat p + 1 :: rat) \<le> of_nat (Suc (p div m)) * of_nat m" by (metis of_nat_1 of_nat_add of_nat_le_iff of_nat_mult)
  then have "(of_nat p / of_nat m + 1 / of_nat m :: rat) \<le> of_nat (Suc (p div m))"
    using m by (simp add: add_divide_distrib [symmetric] divide_le_eq)
  moreover have "(1 / 2 ^ 26 :: rat) \<le> 1 / of_nat m"
  proof -
    have "(of_nat m :: rat) \<le> of_nat (2 ^ 26)" using assms(2) by (simp only: of_nat_le_iff)
    then show ?thesis using m by (intro divide_left_mono) simp_all
  qed
  ultimately show "(of_nat p / of_nat m :: rat) \<le> of_nat (Suc (p div m)) - 1 / 2 ^ 26" by linarith
qed

text \<open>A whole host pixel of the letterbox.\<close>

lemma frame_axis_pixel:
  assumes "l < m" and "m_off + m \<le> 2 ^ 26" and "0 < c" and "c_off + c \<le> 2 ^ 26"
  shows "of_nat (c_off + l * c div m) \<le> frame_axis (of_nat (m_off + l)) m_off m c_off c"
    and "frame_axis (of_nat (m_off + l)) m_off m c_off c < of_nat (c_off + Suc (l * c div m))"
proof -
  have lc: "l * c \<le> 2 ^ 26 * 2 ^ 26" using assms by (intro mult_mono) auto
  have loc: "f_clamp (fsub (of_nat (m_off + l)) (of_nat m_off)) 0 (of_nat (m - 1)) = of_nat l"
    using assms by (simp add: fsub_def f_clamp_def)
  have mul: "fmul (of_nat l) (of_nat (max c 1)) = of_nat (l * c)"
    using rnd64_nat [of "l * c"] lc assms(3) by (simp add: fmul_def max_absorb1)
  have axis: "frame_axis (of_nat (m_off + l)) m_off m c_off c = fadd (of_nat c_off) (rnd64 (of_nat (l * c) / of_nat m))"
    using assms(1) unfolding frame_axis_def Let_def loc mul fdiv_def by (simp add: max_absorb1)
  have "l * c < c * m" using assms(1,3) by (simp add: mult.commute)
  then have "l * c div m < c" by (rule less_mult_imp_div_less)
  then have "c_off + Suc (l * c div m) \<le> 2 ^ 26" using assms(4) by linarith
  moreover have "0 < m" "m \<le> 2 ^ 26" using assms by simp_all
  ultimately show "of_nat (c_off + l * c div m) \<le> frame_axis (of_nat (m_off + l)) m_off m c_off c"
      "frame_axis (of_nat (m_off + l)) m_off m c_off c < of_nat (c_off + Suc (l * c div m))"
    unfolding axis using offset_quotient [OF quotient_gap] by blast+
qed

text \<open>Any place of the host, inside the letterbox or not.\<close>

lemma frame_axis_inside:
  assumes "0 < m" and "m \<le> 2 ^ 26" and "0 < c" and "c_off + c \<le> 2 ^ 26"
  shows "of_nat c_off \<le> frame_axis host m_off m c_off c" and "frame_axis host m_off m c_off c < of_nat (c_off + c)"
proof -
  define l where "l = f_clamp (fsub host (of_nat m_off)) 0 (of_nat (m - 1))"
  have l: "0 \<le> l" "l \<le> of_nat (m - 1)" by (auto simp: l_def f_clamp_def)
  have mc: "(m - 1) * c \<le> 2 ^ 26 * 2 ^ 26" using assms by (intro mult_mono) auto
  define p where "p = rnd64 (l * of_nat c)"
  have lc: "0 \<le> l * of_nat c" "l * of_nat c \<le> of_nat ((m - 1) * c)"
    using l by (simp_all add: mult_right_mono)
  have "0 \<le> p" using rnd64_ge [of 0 0 "l * of_nat c"] lc by (simp add: p_def)
  have "p \<le> of_nat ((m - 1) * c)"
    using rnd64_le [of "int ((m - 1) * c)" "l * of_nat c" 0] lc mc by (simp add: p_def del: of_nat_mult)
  then have "p / of_nat m \<le> of_nat ((m - 1) * c) / of_nat m" by (intro divide_right_mono) simp_all
  also have "\<dots> \<le> of_nat (Suc (((m - 1) * c) div m)) - 1 / 2 ^ 26" using quotient_gap [OF assms(1,2)] by blast
  also have "\<dots> \<le> of_nat c - 1 / 2 ^ 26"
  proof -
    have "(m - 1) * c < c * m" using assms(1,3) by (simp add: mult.commute)
    then have "((m - 1) * c) div m < c" by (rule less_mult_imp_div_less)
    then show ?thesis by (simp add: Suc_le_eq [symmetric])
  qed
  finally have q: "p / of_nat m \<le> of_nat (Suc (c - 1)) - 1 / 2 ^ 26" using assms(3) by simp
  have axis: "frame_axis host m_off m c_off c = fadd (of_nat c_off) (rnd64 (p / of_nat m))"
    using assms unfolding frame_axis_def Let_def l_def [symmetric] fdiv_def fmul_def by (simp add: max_absorb1 p_def)
  have bot: "of_nat c_off \<le> fadd (of_nat c_off) (rnd64 (p / of_nat m))"
  proof -
    have "0 \<le> p / of_nat m" using \<open>0 \<le> p\<close> by simp
    then have "0 \<le> rnd64 (p / of_nat m)" using rnd64_ge [of 0 0] by simp
    then show ?thesis using rnd64_ge [of "int c_off" 0 "of_nat c_off + rnd64 (p / of_nat m)"] assms(4)
      unfolding fadd_def by simp
  qed
  show "of_nat c_off \<le> frame_axis host m_off m c_off c" unfolding axis by (rule bot)
  have "fadd (of_nat c_off) (rnd64 (p / of_nat m)) < of_nat (c_off + c)"
  proof -
    have bound: "(of_int (int n * 2 ^ 26 - 1) / 2 ^ 26 :: rat) = of_nat n - 1 / 2 ^ 26" for n
      by (simp add: diff_divide_distrib)
    have "rnd64 (p / of_nat m) \<le> of_nat c - 1 / 2 ^ 26"
      using rnd64_le [of "int c * 2 ^ 26 - 1" "p / of_nat m" 26] q assms \<open>0 \<le> p\<close> unfolding bound by simp
    then have "of_nat c_off + rnd64 (p / of_nat m) \<le> of_nat (c_off + c) - 1 / 2 ^ 26" by simp
    then have "fadd (of_nat c_off) (rnd64 (p / of_nat m)) \<le> of_nat (c_off + c) - 1 / 2 ^ 26"
      using rnd64_le [of "int (c_off + c) * 2 ^ 26 - 1" "of_nat c_off + rnd64 (p / of_nat m)" 26] assms
        rnd64_ge [of 0 0 "p / of_nat m"] \<open>0 \<le> p\<close> unfolding bound fadd_def by simp
    then show ?thesis by (rule order_le_less_trans) simp
  qed
  then show "frame_axis host m_off m c_off c < of_nat (c_off + c)" unfolding axis .
qed

definition content_in :: "nat \<Rightarrow> nat \<Rightarrow> nat \<Rightarrow> bool" where
  "content_in off len total_len \<longleftrightarrow> 0 < len \<and> off + len \<le> total_len \<and> total_len \<le> 2 ^ 26"

lemma i32_wrap_id: "- (2 ^ 31) \<le> z \<Longrightarrow> z < 2 ^ 31 \<Longrightarrow> i32_wrap z = z"
  by (simp add: i32_wrap_def)

lemma i32_sat_id: "- (2 ^ 31) \<le> z \<Longrightarrow> z < 2 ^ 31 \<Longrightarrow> i32_sat z = z"
  by (simp add: i32_sat_def)

lemma clamp_pixel:
  assumes "of_nat k \<le> v" and "v < of_nat (Suc k)" and "k < n" and "n \<le> 2 ^ 26"
  shows "clamp_f64_to_i32 v 0 (i32_wrap (int (n - 1))) = Some (int k)"
proof -
  have hi: "i32_wrap (int (n - 1)) = int (n - 1)" 
  proof (rule i32_wrap_id)
    have "n - 1 < 2 ^ 31" using assms(3,4) by simp
    then show "int (n - 1) < 2 ^ 31" by (metis of_nat_less_iff of_nat_numeral of_nat_power)
  qed simp
  define w where "w = f_clamp v 0 (of_nat (n - 1))"
  have kn: "(of_nat k :: rat) \<le> of_nat (n - 1)" using assms(3) unfolding of_nat_le_iff by simp
  have w: "of_nat k \<le> w" "w < of_nat (Suc k)" "0 \<le> w"
    using assms(1,2) kn of_nat_0_le_iff [of k, where ?'a = rat] unfolding w_def f_clamp_def by (auto simp del: of_nat_0_le_iff)
  have "f_trunc w = int k"
    using f_trunc_bounds(1) [of "int k" w] f_trunc_bounds(2) [of w "int (Suc k)"] w by simp
  moreover have "i32_sat (int k) = int k" using assms(3,4) by (intro i32_sat_id) simp_all
  ultimately show ?thesis unfolding clamp_f64_to_i32_def hi w_def by simp
qed

lemma cursor_coords_of_axes:
  assumes "content_in (fr_x content) (fr_w content) (fst fs)" and "content_in (fr_y content) (fr_h content) (snd fs)"
    and "of_nat kx \<le> frame_axis hx (fr_x mp) (fr_w mp) (fr_x content) (fr_w content)"
    and "frame_axis hx (fr_x mp) (fr_w mp) (fr_x content) (fr_w content) < of_nat (Suc kx)" and "kx < fst fs"
    and "of_nat ky \<le> frame_axis hy (fr_y mp) (fr_h mp) (fr_y content) (fr_h content)"
    and "frame_axis hy (fr_y mp) (fr_h mp) (fr_y content) (fr_h content) < of_nat (Suc ky)" and "ky < snd fs"
    and "mp = aspect_fit_rect (fr_w content) (fr_h content) (fst inner) (snd inner)"
  shows "cursor_to_frame_coords hx hy inner content fs = Some (int kx, int ky)"
  using clamp_pixel [OF assms(3-5)] clamp_pixel [OF assms(6-8)] assms(1,2)
  unfolding assms(9) cursor_to_frame_coords_def Let_def content_in_def by simp

lemma frame_axis_floor:
  assumes "0 < m" and "m \<le> 2 ^ 26" and "content_in c_off c n"
  shows "\<exists>k. of_nat k \<le> frame_axis h m_off m c_off c \<and> frame_axis h m_off m c_off c < of_nat (Suc k)
    \<and> c_off \<le> k \<and> k < c_off + c"
proof -
  define v where "v = frame_axis h m_off m c_off c"
  have v: "of_nat c_off \<le> v" "v < of_nat (c_off + c)"
    unfolding v_def using frame_axis_inside [of m c c_off h m_off] assms by (simp_all add: content_in_def)
  then have "0 \<le> v" by (meson of_nat_0_le_iff order_trans)
  define k where "k = nat \<lfloor>v\<rfloor>"
  have k: "of_nat k = (of_int \<lfloor>v\<rfloor> :: rat)" using \<open>0 \<le> v\<close> by (simp add: k_def)
  have fl: "of_nat k \<le> v" "v < of_nat (Suc k)" unfolding of_nat_Suc k by linarith+
  have "of_nat c_off < (of_nat (Suc k) :: rat)" "of_nat k < (of_nat (c_off + c) :: rat)" using v fl by linarith+
  then have "c_off \<le> k" "k < c_off + c" unfolding of_nat_less_iff by simp_all
  with fl show ?thesis unfolding v_def by blast
qed

section \<open>Facts on resizing\<close>

text \<open>A manual resize never makes the window narrower than the least size, in whole pixels.\<close>

lemma clamp_axis_least:
  assumes "\<bar>lo\<bar> \<le> 2 ^ 32" and "\<bar>hi\<bar> \<le> 2 ^ 32" and "0 < least" and "least \<le> 2 ^ 16"
    and "clamp_axis low_edge (of_int least) lo hi = (lo', hi')"
  shows "least \<le> f_round (fsub hi' lo')"
proof (cases "fsub hi lo < of_int least")
  case False
  with assms(5) have "lo' = lo" "hi' = hi" by (auto simp: clamp_axis_def)
  with False show ?thesis by (simp add: f_round_bounds)
next
  case True
  have l: "(0 :: rat) \<le> of_int least" "of_int least \<le> (2 ^ 16 :: rat)"
    using assms(3,4) by (simp, metis of_int_le_iff of_int_numeral of_int_power)
  have ends: "lo' = (if low_edge then fsub hi (of_int least) else lo)"
      "hi' = (if low_edge then hi else fadd lo (of_int least))"
    using True assms(5) by (auto simp: clamp_axis_def split: if_splits)
  have "\<bar>(hi' - lo') - of_int least\<bar> \<le> 1 / 2 ^ 20"
  proof (cases low_edge)
    case True
    have "\<bar>fsub hi (of_int least) - (hi - of_int least)\<bar> \<le> 1 / 2 ^ 20"
      unfolding fsub_def using l assms(2) by (intro rnd64_near) (simp add: abs_less_iff abs_le_iff)
    then show ?thesis unfolding ends using True by (simp only: if_True; linarith)
  next
    case False
    have "\<bar>fadd lo (of_int least) - (lo + of_int least)\<bar> \<le> 1 / 2 ^ 20"
      unfolding fadd_def using l assms(1) by (intro rnd64_near) (simp add: abs_less_iff abs_le_iff)
    then show ?thesis unfolding ends using False by (simp only: if_False; linarith)
  qed
  then have near: "\<bar>hi' - lo' - of_int least\<bar> \<le> 1 / 2 ^ 20" .
  have "(2 ^ 16 + 1 :: rat) < 2 ^ 33" and eps: "(1 / 2 ^ 20 :: rat) \<le> 1 / 4" by simp_all
  with near l have "hi' - lo' < 2 ^ 33" "lo' - hi' < 2 ^ 33" by linarith+
  then have "\<bar>rnd64 (hi' - lo') - (hi' - lo')\<bar> \<le> 1 / 2 ^ 20" by (intro rnd64_near) (simp add: abs_less_iff)
  with near eps have "of_int least - 1 / 2 \<le> fsub hi' lo'"
    unfolding fsub_def by linarith
  moreover have "(1 :: rat) \<le> of_int least" using assms(3) by simp
  ultimately show ?thesis unfolding f_round_def by (simp add: le_floor_iff; linarith)
qed

section \<open>Facts on adoption\<close>

lemma quotient_within_five:
  assumes "0 < h" and "w < 2 ^ 32" and "h < 2 ^ 32"
  shows "fdiv (of_nat w) (of_nat h) \<le> 5 \<longleftrightarrow> w \<le> 5 * h"
proof
  have h: "0 < (of_nat h :: rat)" using assms(1) by simp
  assume "w \<le> 5 * h"
  then have "(of_nat w :: rat) \<le> of_nat (5 * h)" by (simp only: of_nat_le_iff)
  with h have "of_nat w / of_nat h \<le> (5 :: rat)" by (simp add: divide_le_eq)
  then show "fdiv (of_nat w) (of_nat h) \<le> 5" using rnd64_le [of 5 "of_nat w / of_nat h" 0] by (simp add: fdiv_def)
next
  have h: "0 < (of_nat h :: rat)" using assms(1) by simp
  assume le: "fdiv (of_nat w) (of_nat h) \<le> 5"
  show "w \<le> 5 * h"
  proof (rule ccontr)
    assume "\<not> w \<le> 5 * h"
    then have "5 * h + 1 \<le> w" by simp
    then have "(of_nat (5 * h + 1) :: rat) \<le> of_nat w" by (simp only: of_nat_le_iff)
    then have "(of_nat (5 * h + 1) / of_nat h :: rat) \<le> of_nat w / of_nat h" by (intro divide_right_mono) simp_all
    then have "5 + 1 / of_nat h \<le> (of_nat w / of_nat h :: rat)" using h by (simp add: add_divide_distrib)
    moreover have "(1 / 2 ^ 32 :: rat) \<le> 1 / of_nat h"
    proof -
      have "(of_nat h :: rat) \<le> of_nat (2 ^ 32)" using assms(3) by (simp only: of_nat_le_iff)
      then show ?thesis using h by (intro divide_left_mono) simp_all
    qed
    ultimately have "5 + 1 / 2 ^ 32 \<le> (of_nat w / of_nat h :: rat)" by linarith
    then have "5 + 1 / 2 ^ 32 \<le> fdiv (of_nat w) (of_nat h)"
      using rnd64_ge [of "5 * 2 ^ 32 + 1" 32 "of_nat w / of_nat h"] unfolding fdiv_def by simp
    with le show False by simp
  qed
qed

section \<open>Facts on tiles\<close>

definition monitor_ok :: "ipos \<Rightarrow> wsize \<Rightarrow> bool" where
  "monitor_ok p s \<longleftrightarrow> - (2 ^ 31) \<le> fst p \<and> - (2 ^ 31) \<le> snd p \<and> fst p + int (fst s) < 2 ^ 31 \<and> snd p + int (snd s) < 2 ^ 31
     \<and> MIN_VIEWER_WIDTH < fst s \<and> MIN_VIEWER_HEIGHT < snd s \<and> fst s < 2 ^ 31 \<and> snd s < 2 ^ 31"

definition in_tile :: "ipos \<Rightarrow> EdgeSnapRect \<Rightarrow> bool" where
  "in_tile q r \<longleftrightarrow> fst (es_position r) \<le> fst q \<and> fst q < fst (es_position r) + int (fst (es_size r))
     \<and> snd (es_position r) \<le> snd q \<and> snd q < snd (es_position r) + int (snd (es_size r))"

definition corner :: "bool \<Rightarrow> bool \<Rightarrow> SnappedEdges" where
  "corner w n = \<lparr>west = w, east = \<not> w, north = n, south = \<not> n\<rparr>"

lemma half_extent_bounds: "least < len \<Longrightarrow> 0 < least \<Longrightarrow> 0 < half_extent len least \<and> half_extent len least < len"
  by (auto simp: half_extent_def)

lemma axis_split:
  assumes "- (2 ^ 31) \<le> off" and "off + int len < 2 ^ 31" and "len < 2 ^ 31" and "half < len"
  shows "i32_sat (off + i32_wrap (int half)) = off + int half"
proof -
  have "i32_wrap (int half) = int half" using assms by (intro i32_wrap_id) simp_all
  then show ?thesis using assms by (simp add: i32_sat_id)
qed

lemma tile_corner:
  assumes "monitor_ok p s"
  defines "hw \<equiv> half_extent (fst s) MIN_VIEWER_WIDTH" and "hh \<equiv> half_extent (snd s) MIN_VIEWER_HEIGHT"
  shows "tile_rect_for_edges p s (corner w n) =
    \<lparr>es_position = (fst p + (if w then 0 else int hw), snd p + (if n then 0 else int hh)),
     es_size = (if w then hw else fst s - hw, if n then hh else snd s - hh)\<rparr>"
proof -
  have s: "max (fst s) 1 = fst s" "max (snd s) 1 = snd s" using assms(1) by (auto simp: monitor_ok_def)
  have hw: "0 < hw \<and> hw < fst s" unfolding hw_def
    using assms(1) by (intro half_extent_bounds) (auto simp: monitor_ok_def MIN_VIEWER_WIDTH_def)
  have hh: "0 < hh \<and> hh < snd s" unfolding hh_def
    using assms(1) by (intro half_extent_bounds) (auto simp: monitor_ok_def MIN_VIEWER_HEIGHT_def)
  have x: "i32_sat (fst p + i32_wrap (int hw)) = fst p + int hw"
    using assms(1) hw by (intro axis_split [of _ "fst s"]) (auto simp: monitor_ok_def)
  have y: "i32_sat (snd p + i32_wrap (int hh)) = snd p + int hh"
    using assms(1) hh by (intro axis_split [of _ "snd s"]) (auto simp: monitor_ok_def)
  have m: "max (fst s - hw) 1 = fst s - hw" "max (snd s - hh) 1 = snd s - hh" using hw hh by linarith+
  show ?thesis
    unfolding tile_rect_for_edges_def Let_def s hw_def [symmetric] hh_def [symmetric] x y m
    by (cases w; cases n) (simp_all add: corner_def)
qed

section \<open>Properties\<close>

text \<open>
  C13: A click hits what the user sees. For every whole host pixel of the letterboxed picture,
  the guest coordinates the viewer sends for it, computed in double precision, are those of exactly
  the frame pixel the renderer put at that host pixel with integer arithmetic; it lies in the
  content rectangle. Frames and host windows may be up to \<open>2^26\<close> pixels wide and high.
\<close>
theorem click_hits_displayed_pixel:
  assumes "content_in (fr_x content) (fr_w content) fw" and "content_in (fr_y content) (fr_h content) fh"
    and "0 < iw" and "0 < ih" and "iw \<le> 2 ^ 26" and "ih \<le> 2 ^ 26" and "length dst = iw * ih"
    and "px < fr_w (aspect_fit_rect (fr_w content) (fr_h content) iw ih)"
    and "py < fr_h (aspect_fit_rect (fr_w content) (fr_h content) iw ih)"
  shows "let r = aspect_fit_rect (fr_w content) (fr_h content) iw ih;
      out = copy_frame_region_preserve_aspect src fw content matte dst iw ih
    in \<exists>x y. cursor_to_frame_coords (of_nat (fr_x r + px)) (of_nat (fr_y r + py)) (iw, ih) content (fw, fh) = Some (int x, int y)
      \<and> out ! ((fr_y r + py) * iw + (fr_x r + px)) = pixel_for_softbuffer (src ! (y * fw + x)) matte
      \<and> fr_x content \<le> x \<and> x < fr_x content + fr_w content \<and> fr_y content \<le> y \<and> y < fr_y content + fr_h content"
proof -
  define r where "r = aspect_fit_rect (fr_w content) (fr_h content) iw ih"
  define x where "x = fr_x content + px * fr_w content div fr_w r"
  define y where "y = fr_y content + py * fr_h content div fr_h r"
  have c: "0 < fr_w content" "0 < fr_h content" "fr_x content + fr_w content \<le> fw" "fw \<le> 2 ^ 26"
      "fr_y content + fr_h content \<le> fh" "fh \<le> 2 ^ 26"
    using assms(1,2) by (simp_all add: content_in_def)
  have p: "px < fr_w r" "py < fr_h r" using assms(8,9) by (simp_all add: r_def)
  have fit: "0 < fr_w r" "0 < fr_h r" "fr_x r + fr_w r \<le> iw" "fr_y r + fr_h r \<le> ih"
    using aspect_fit [OF c(1,2) assms(3,4)] by (simp_all add: r_def)
  have xr: "px * fr_w content div fr_w r < fr_w content" using scaled_source_inside p(1) c(1) by blast
  have "py * fr_h content < fr_h content * fr_h r" using p c by (simp add: mult.commute)
  then have yr: "py * fr_h content div fr_h r < fr_h content" by (rule less_mult_imp_div_less)
  have "cursor_to_frame_coords (of_nat (fr_x r + px)) (of_nat (fr_y r + py)) (iw, ih) content (fw, fh) = Some (int x, int y)"
  proof (rule cursor_coords_of_axes)
    show "of_nat x \<le> frame_axis (of_nat (fr_x r + px)) (fr_x r) (fr_w r) (fr_x content) (fr_w content)"
        "frame_axis (of_nat (fr_x r + px)) (fr_x r) (fr_w r) (fr_x content) (fr_w content) < of_nat (Suc x)"
      using frame_axis_pixel [of px "fr_w r" "fr_x r" "fr_w content" "fr_x content"] p fit c assms(5) by (simp_all add: x_def)
    show "of_nat y \<le> frame_axis (of_nat (fr_y r + py)) (fr_y r) (fr_h r) (fr_y content) (fr_h content)"
        "frame_axis (of_nat (fr_y r + py)) (fr_y r) (fr_h r) (fr_y content) (fr_h content) < of_nat (Suc y)"
      using frame_axis_pixel [of py "fr_h r" "fr_y r" "fr_h content" "fr_y content"] p fit c assms(6) by (simp_all add: y_def)
  qed (use assms(1,2) c xr yr in \<open>simp_all add: x_def y_def r_def\<close>)
  moreover have "copy_frame_region_preserve_aspect src fw content matte dst iw ih ! ((fr_y r + py) * iw + (fr_x r + px))
      = pixel_for_softbuffer (src ! (y * fw + x)) matte"
    using copy_into_rect [of r iw ih "replicate (length dst) (opaque_softbuffer_pixel matte)" "fr_x r + px" "fr_y r + py"
        src fw content matte] fit p assms(7)
    by (simp add: copy_frame_region_preserve_aspect_def r_def [symmetric] scaled_pixel_def x_def y_def)
  ultimately show ?thesis unfolding r_def [symmetric] Let_def using xr yr
    by (intro exI [of _ x] exI [of _ y]) (simp add: x_def y_def)
qed

definition demo_content :: FrameRect where
  "demo_content = \<lparr>fr_x = 3, fr_y = 5, fr_w = 20, fr_h = 20\<rparr>"

theorem click_hits_displayed_pixel_witness:
  "let r = aspect_fit_rect (fr_w demo_content) (fr_h demo_content) 40 30;
      out = copy_frame_region_preserve_aspect (replicate 900 7) 30 demo_content 0 (replicate 1200 0) 40 30
    in \<exists>x y. cursor_to_frame_coords (of_nat (fr_x r + 25)) (of_nat (fr_y r + 11)) (40, 30) demo_content (30, 30) = Some (int x, int y)
      \<and> out ! ((fr_y r + 11) * 40 + (fr_x r + 25)) = pixel_for_softbuffer (replicate 900 7 ! (y * 30 + x)) 0
      \<and> fr_x demo_content \<le> x \<and> x < fr_x demo_content + fr_w demo_content
      \<and> fr_y demo_content \<le> y \<and> y < fr_y demo_content + fr_h demo_content"
  by (rule click_hits_displayed_pixel) (simp_all add: demo_content_def content_in_def aspect_fit_rect_def Let_def)

text \<open>
  The pointer never leaves the guest's content: wherever the host reports the cursor, even
  in the letterbox or outside the window, the frame coordinates sent are of a pixel of the content
  rectangle, and the mapping does not panic.
\<close>
theorem pointer_stays_in_content:
  assumes "content_in (fr_x content) (fr_w content) fw" and "content_in (fr_y content) (fr_h content) fh"
    and "0 < iw" and "0 < ih" and "iw \<le> 2 ^ 26" and "ih \<le> 2 ^ 26"
  shows "\<exists>x y. cursor_to_frame_coords hx hy (iw, ih) content (fw, fh) = Some (int x, int y)
    \<and> fr_x content \<le> x \<and> x < fr_x content + fr_w content \<and> fr_y content \<le> y \<and> y < fr_y content + fr_h content"
proof -
  define r where "r = aspect_fit_rect (fr_w content) (fr_h content) iw ih"
  have "0 < fr_w content" "0 < fr_h content" using assms(1,2) by (simp_all add: content_in_def)
  then have "0 < fr_w r" "0 < fr_h r" "fr_w r \<le> 2 ^ 26" "fr_h r \<le> 2 ^ 26"
    using aspect_fit [of "fr_w content" "fr_h content" iw ih] assms(3-6) by (auto simp: r_def)
  then obtain x y where "of_nat x \<le> frame_axis hx (fr_x r) (fr_w r) (fr_x content) (fr_w content)"
      "frame_axis hx (fr_x r) (fr_w r) (fr_x content) (fr_w content) < of_nat (Suc x)" "fr_x content \<le> x" "x < fr_x content + fr_w content"
      "of_nat y \<le> frame_axis hy (fr_y r) (fr_h r) (fr_y content) (fr_h content)"
      "frame_axis hy (fr_y r) (fr_h r) (fr_y content) (fr_h content) < of_nat (Suc y)" "fr_y content \<le> y" "y < fr_y content + fr_h content"
    using frame_axis_floor [OF _ _ assms(1)] frame_axis_floor [OF _ _ assms(2)] by meson
  moreover from this have "cursor_to_frame_coords hx hy (iw, ih) content (fw, fh) = Some (int x, int y)"
    using assms(1,2) by (intro cursor_coords_of_axes) (simp_all add: r_def content_in_def)
  ultimately show ?thesis by blast
qed

theorem pointer_stays_in_content_witness:
  "\<exists>x y. cursor_to_frame_coords (- 7 / 2) 100000 (40, 30) demo_content (30, 30) = Some (int x, int y)
    \<and> fr_x demo_content \<le> x \<and> x < fr_x demo_content + fr_w demo_content
    \<and> fr_y demo_content \<le> y \<and> y < fr_y demo_content + fr_h demo_content"
  by (rule pointer_stays_in_content) (simp_all add: demo_content_def content_in_def)

text \<open>
  The four corner tiles partition the monitor: on every monitor larger than the least
  viewer size, wherever it lies on the desktop, each pixel of it belongs to exactly one of the tiles
  a window is given when it is dropped at a corner, and no tile reaches outside.
\<close>
theorem corner_tiles_partition_monitor:
  assumes "monitor_ok p s"
  shows "(fst p \<le> fst q \<and> fst q < fst p + int (fst s) \<and> snd p \<le> snd q \<and> snd q < snd p + int (snd s))
    \<longleftrightarrow> (\<exists>!c. in_tile q (tile_rect_for_edges p s (corner (fst c) (snd c))))"
proof -
  define hw where "hw = half_extent (fst s) MIN_VIEWER_WIDTH"
  define hh where "hh = half_extent (snd s) MIN_VIEWER_HEIGHT"
  have hw: "0 < hw \<and> hw < fst s" unfolding hw_def
    using assms(1) by (intro half_extent_bounds) (auto simp: monitor_ok_def MIN_VIEWER_WIDTH_def)
  have hh: "0 < hh \<and> hh < snd s" unfolding hh_def
    using assms(1) by (intro half_extent_bounds) (auto simp: monitor_ok_def MIN_VIEWER_HEIGHT_def)
  define w where "w \<longleftrightarrow> fst q < fst p + int hw"
  define n where "n \<longleftrightarrow> snd q < snd p + int hh"
  define inside where "inside \<longleftrightarrow> fst p \<le> fst q \<and> fst q < fst p + int (fst s) \<and> snd p \<le> snd q \<and> snd q < snd p + int (snd s)"
  have tile: "in_tile q (tile_rect_for_edges p s (corner (fst c) (snd c))) \<longleftrightarrow> inside \<and> c = (w, n)" for c
    unfolding tile_corner [OF assms] hw_def [symmetric] hh_def [symmetric] in_tile_def inside_def w_def n_def
    using hw hh by (cases c) (auto simp: of_nat_diff)
  show ?thesis unfolding tile inside_def [symmetric] by auto
qed

theorem corner_tiles_partition_monitor_witness:
  "\<exists>!c. in_tile (1500, 700) (tile_rect_for_edges (1440, 0) (1440, 900) (corner (fst c) (snd c)))"
  using corner_tiles_partition_monitor [of "(1440, 0)" "(1440, 900)" "(1500, 700)"]
  by (simp add: monitor_ok_def MIN_VIEWER_WIDTH_def MIN_VIEWER_HEIGHT_def)

text \<open>
  A manual resize keeps the least window size and the edges that are not dragged: for any
  cursor on the desktop, the size asked for is at least 240 by 160 whole pixels after both roundings,
  the edge opposite to a dragged one stays exactly where the drag found it, and so does the left or
  top edge of an axis that is not dragged.
\<close>
theorem manual_resize_least_size:
  assumes "\<bar>cx\<bar> \<le> 2 ^ 32" and "\<bar>cy\<bar> \<le> 2 ^ 32"
    and "\<bar>fst (rd_start_outer d)\<bar> \<le> 2 ^ 31" and "\<bar>snd (rd_start_outer d)\<bar> \<le> 2 ^ 31"
    and "fst (rd_start_size d) \<le> 2 ^ 31" and "snd (rd_start_size d) \<le> 2 ^ 31"
  shows "case clamp_manual_resize (rd_direction d) (apply_resize_direction d cx cy) of (lf, tp, rt, bt) \<Rightarrow>
    240 \<le> f_round (fsub rt lf) \<and> 160 \<le> f_round (fsub bt tp)
    \<and> (if uses_west_edge (rd_direction d) then rt = of_int (fst (rd_start_outer d) + int (fst (rd_start_size d)))
       else lf = of_int (fst (rd_start_outer d)))
    \<and> (if uses_north_edge (rd_direction d) then bt = of_int (snd (rd_start_outer d) + int (snd (rd_start_size d)))
       else tp = of_int (snd (rd_start_outer d)))"
proof -
  define l0 t0 :: rat where "l0 = of_int (fst (rd_start_outer d))" and "t0 = of_int (snd (rd_start_outer d))"
  define r0 b0 :: rat where "r0 = of_int (fst (rd_start_outer d) + int (fst (rd_start_size d)))"
    and "b0 = of_int (snd (rd_start_outer d) + int (snd (rd_start_size d)))"
  have ends: "fadd l0 (of_nat (fst (rd_start_size d))) = r0" "fadd t0 (of_nat (snd (rd_start_size d))) = b0"
    using assms rnd64_int [of "fst (rd_start_outer d) + int (fst (rd_start_size d))"]
      rnd64_int [of "snd (rd_start_outer d) + int (snd (rd_start_size d))"]
    by (simp_all add: fadd_def l0_def t0_def r0_def b0_def)
  have of_int_bound: "\<bar>z\<bar> \<le> 2 ^ 32 \<Longrightarrow> \<bar>of_int z :: rat\<bar> \<le> 2 ^ 32" for z :: int
    by (metis of_int_abs of_int_le_iff of_int_numeral of_int_power)
  have small: "\<bar>l0\<bar> \<le> 2 ^ 32" "\<bar>t0\<bar> \<le> 2 ^ 32" "\<bar>r0\<bar> \<le> 2 ^ 32" "\<bar>b0\<bar> \<le> 2 ^ 32"
    unfolding l0_def t0_def r0_def b0_def using assms by (intro of_int_bound; simp)+
  obtain l t r b where ltrb: "apply_resize_direction d cx cy = (l, t, r, b)" by (cases "apply_resize_direction d cx cy") auto
  have rect: "\<bar>l\<bar> \<le> 2 ^ 32" "\<bar>t\<bar> \<le> 2 ^ 32" "\<bar>r\<bar> \<le> 2 ^ 32" "\<bar>b\<bar> \<le> 2 ^ 32"
      "if uses_west_edge (rd_direction d) then r = r0 else l = l0" "if uses_north_edge (rd_direction d) then b = b0 else t = t0"
    using ltrb small assms(1,2) unfolding apply_resize_direction_def Let_def l0_def [symmetric] t0_def [symmetric] ends
    by (auto split: ResizeDirection.splits)
  obtain l' r' where lr: "clamp_axis (uses_west_edge (rd_direction d)) (of_int 240) l r = (l', r')" by fastforce
  obtain t' b' where tb: "clamp_axis (uses_north_edge (rd_direction d)) (of_int 160) t b = (t', b')" by fastforce
  have "240 \<le> f_round (fsub r' l')" "160 \<le> f_round (fsub b' t')"
    using clamp_axis_least [OF rect(1,3) _ _ lr] clamp_axis_least [OF rect(2,4) _ _ tb] by simp_all
  moreover have "if uses_west_edge (rd_direction d) then r' = r0 else l' = l0" "if uses_north_edge (rd_direction d) then b' = b0 else t' = t0"
    using lr tb rect(5,6) by (auto simp: clamp_axis_def simp del: uses_west_edge.simps uses_north_edge.simps split: if_splits)
  ultimately show ?thesis
    using lr tb unfolding ltrb clamp_manual_resize_def MIN_VIEWER_WIDTH_def MIN_VIEWER_HEIGHT_def l0_def t0_def r0_def b0_def
    by (simp del: uses_west_edge.simps uses_north_edge.simps)
qed

theorem manual_resize_least_size_witness:
  "case clamp_manual_resize NorthWest (apply_resize_direction
      \<lparr>rd_direction = NorthWest, rd_start_outer = (10, 20), rd_start_size = (800, 600)\<rparr> 900 (- 5 / 2)) of (lf, tp, rt, bt) \<Rightarrow>
    240 \<le> f_round (fsub rt lf) \<and> 160 \<le> f_round (fsub bt tp) \<and> rt = 810 \<and> bt = 620"
  using manual_resize_least_size [of 900 "- 5 / 2" "\<lparr>rd_direction = NorthWest, rd_start_outer = (10, 20), rd_start_size = (800, 600)\<rparr>"]
  by (auto split: prod.splits)

text \<open>
  The test for a partial first paint, a quotient in double precision, is exact: a content
  rectangle is adopted if and only if it is at least 240 by 160 and its longer side is at most
  five times the shorter one.
\<close>
theorem adoptable_exact:
  assumes "w < 2 ^ 32" and "h < 2 ^ 32"
  shows "is_content_rect_adoptable w h \<longleftrightarrow> 240 \<le> w \<and> 160 \<le> h \<and> w \<le> 5 * h \<and> h \<le> 5 * w"
proof (cases "240 \<le> w \<and> 160 \<le> h")
  case True
  then have "fdiv (of_nat w) (of_nat h) \<le> 5 \<longleftrightarrow> w \<le> 5 * h" "fdiv (of_nat h) (of_nat w) \<le> 5 \<longleftrightarrow> h \<le> 5 * w"
    using quotient_within_five [of h w] quotient_within_five [of w h] assms by auto
  with True show ?thesis
    by (auto simp: is_content_rect_adoptable_def ADOPTION_MIN_CONTENT_W_def ADOPTION_MIN_CONTENT_H_def ADOPTION_MAX_ASPECT_def Let_def)
qed (auto simp: is_content_rect_adoptable_def ADOPTION_MIN_CONTENT_W_def ADOPTION_MIN_CONTENT_H_def)

theorem adoptable_exact_witness: "is_content_rect_adoptable 1200 240 \<and> \<not> is_content_rect_adoptable 1201 240"
  using adoptable_exact [of 1200 240] adoptable_exact [of 1201 240] by simp

end
