(* ===== verification/Viewer_Windows.thy ===== *)
theory Viewer_Windows
  imports Viewer_Geometry
begin

text \<open>
  The viewer's windows, \<open>crates/client/src/viewer/app.rs\<close>: one host window per guest toplevel,
  the handlers of guest messages and host events, the debounced resizes and the event loop's timer.

  Every method of \<open>ViewerWindow\<close> is a function of the record of the same name and every handler of
  \<open>ViewerApp\<close> one of the record \<open>ViewerApp\<close>. The window system is a parameter: \<open>answer\<close> gives what a
  window reports after the calls made on it so far (its size, position, scale, monitor and fullscreen
  state), and the calls are logged in \<open>w_calls\<close>. The conversions of the \<open>dpi\<close> crate, the clock and
  the outcome of creating a window or presenting a surface are parts of the same record. Each window
  the system creates has an id of its own. Keys and input methods are those of \<open>Viewer_Input\<close>,
  whose table holds the title and composer of each window; debug output and its counters are left out.
\<close>

section \<open>The host's window system\<close>

record host_window =
  hw_inner :: wsize
  hw_outer_position :: "ipos option"
  hw_outer_size :: wsize
  hw_scale :: f64
  hw_monitor :: "(ipos \<times> wsize) option"
  hw_fullscreen :: bool
  hw_maximized :: bool

datatype host_call =
    RequestLogicalSize f64 f64
  | RequestPhysicalSize nat nat
  | SetOuterPosition ipos
  | SetVisible bool
  | FocusHost
  | SetTitle ustring
  | SetIcon ustring
  | SetMinimized
  | SetMaximized bool
  | ApplyFullscreen bool
  | CursorMove
  | CursorDefault
  | CursorResize ResizeDirection
  | RequestRedraw
  | ImeAllowed
  | ImeCursorArea f64 f64
  | Present nat nat "u32 list"

record env =
  now :: nat
  answer :: "nat \<Rightarrow> host_call list \<Rightarrow> host_window"
  to_physical :: "f64 \<times> f64 \<Rightarrow> f64 \<Rightarrow> wsize"
  to_logical :: "wsize \<Rightarrow> f64 \<Rightarrow> wsize"
  create_ok :: bool
  present_ok :: bool
  has_icon :: "ustring \<Rightarrow> bool"
  system_theme :: "Theme option"
  edge_snap :: bool
  menubar_inset :: f64
  macos :: bool

section \<open>A window\<close>

record ViewerWindow =
  w_host :: nat
  w_calls :: "host_call list"
  w_app_id :: ustring
  w_frame :: FrameBuffer
  w_last_cursor :: ipos
  w_last_window_cursor :: "fpos option"
  w_last_screen_cursor :: "fpos option"
  w_redraw_pending :: bool
  w_visible :: bool
  w_view_scale :: f32
  w_theme_matte :: u32
  w_tile_screen :: wsize
  w_hover :: "ResizeDirection option"
  w_active_resize :: "ResizeDrag option"
  w_move :: MoveState
  w_pending_programmatic :: "wsize option"
  w_pending_tile :: "wsize option"
  w_in_flight :: "wsize option"
  w_titlebar_click :: "TitlebarClick option"
  w_suppress_release :: bool
  w_adopted :: bool
  w_adopted_tile :: bool
  w_own_chrome :: bool
  w_host_fullscreen :: bool

definition host_of :: "env \<Rightarrow> ViewerWindow \<Rightarrow> host_window" where
  "host_of e w = answer e (w_host w) (w_calls w)"

definition call :: "host_call \<Rightarrow> ViewerWindow \<Rightarrow> ViewerWindow" where
  "call c w = w\<lparr>w_calls := w_calls w @ [c]\<rparr>"

definition new_view :: "nat \<Rightarrow> ustring \<Rightarrow> u32 \<Rightarrow> wsize \<Rightarrow> bool \<Rightarrow> ViewerWindow" where
  "new_view hid app_id matte tile_screen own_chrome =
     \<lparr>w_host = hid, w_calls = [], w_app_id = app_id,
      w_frame = frame_buffer_new INITIAL_HIDDEN_WINDOW_SIZE INITIAL_HIDDEN_WINDOW_SIZE,
      w_last_cursor = (0, 0), w_last_window_cursor = None, w_last_screen_cursor = None,
      w_redraw_pending = False, w_visible = False, w_view_scale = 1, w_theme_matte = matte,
      w_tile_screen = tile_screen, w_hover = None, w_active_resize = None, w_move = MoveIdle,
      w_pending_programmatic = None, w_pending_tile = None, w_in_flight = None,
      w_titlebar_click = None, w_suppress_release = False, w_adopted = False, w_adopted_tile = False,
      w_own_chrome = own_chrome, w_host_fullscreen = False\<rparr>"

definition effective_content_rect :: "ViewerWindow \<Rightarrow> FrameRect" where
  "effective_content_rect w =
     compute_effective_content_rect (w_own_chrome w) (fb_width (w_frame w)) (fb_height (w_frame w)) (fb_content (w_frame w))"

definition effective_display_size :: "ViewerWindow \<Rightarrow> wsize" where
  "effective_display_size w = (let rect = effective_content_rect w in clamp_display_size (fr_w rect) (fr_h rect))"

definition request_redraw :: "ViewerWindow \<Rightarrow> ViewerWindow" where
  "request_redraw w = call RequestRedraw (w\<lparr>w_redraw_pending := True\<rparr>)"

definition show_after_first_present :: "ViewerWindow \<Rightarrow> ViewerWindow" where
  "show_after_first_present w =
     (if w_visible w then w else (call FocusHost (call (SetVisible True) w))\<lparr>w_visible := True\<rparr>)"

definition hide :: "ViewerWindow \<Rightarrow> ViewerWindow" where
  "hide w = (call (SetVisible False) w)\<lparr>w_visible := False\<rparr>"

definition render_size :: "env \<Rightarrow> ViewerWindow \<Rightarrow> wsize" where
  "render_size e w =
     (if \<not> w_visible w then effective_display_size w
      else (max (fst (hw_inner (host_of e w))) 1, max (snd (hw_inner (host_of e w))) 1))"

definition render :: "env \<Rightarrow> ViewerWindow \<Rightarrow> ViewerWindow" where
  "render e w =
     (case render_size e w of (target_width, target_height) \<Rightarrow>
        if target_width = 0 \<or> target_height = 0 \<or> \<not> present_ok e then w
        else
          let letterbox = (if fb_matte (w_frame w) = DEFAULT_MATTE_PIXEL then w_theme_matte w else fb_matte (w_frame w));
              buffer = copy_frame_region_preserve_aspect (fb_pixels (w_frame w)) (fb_width (w_frame w)) (effective_content_rect w)
                letterbox (replicate (target_width * target_height) 0) target_width target_height
          in show_after_first_present ((call (Present target_width target_height buffer) w)\<lparr>w_redraw_pending := False\<rparr>))"

definition render_pending_redraw :: "env \<Rightarrow> ViewerWindow \<Rightarrow> ViewerWindow" where
  "render_pending_redraw e w = (if w_redraw_pending w then render e w else w)"

subsection \<open>Sizes\<close>

definition scaled_inner_sizes :: "env \<Rightarrow> ViewerWindow \<Rightarrow> (f64 \<times> f64) \<times> wsize" where
  "scaled_inner_sizes e w =
     (case effective_display_size w of (display_width, display_height) \<Rightarrow>
        let logical = (of_nat (scaled_len display_width (w_view_scale w)), of_nat (scaled_len display_height (w_view_scale w)))
        in (logical, to_physical e logical (hw_scale (host_of e w))))"

definition request_scaled_inner_size :: "env \<Rightarrow> ViewerWindow \<Rightarrow> ViewerWindow" where
  "request_scaled_inner_size e w =
     (case scaled_inner_sizes e w of (logical, physical) \<Rightarrow>
        call (RequestLogicalSize (fst logical) (snd logical)) (w\<lparr>w_pending_programmatic := Some physical\<rparr>))"

definition needs_host_resize_resync_after_remote :: "env \<Rightarrow> ViewerWindow \<Rightarrow> bool" where
  "needs_host_resize_resync_after_remote e w =
     (if hw_fullscreen (host_of e w) then False
      else host_resize_resync_needed (hw_inner (host_of e w)) (snd (scaled_inner_sizes e w)))"

definition request_scaled_inner_size_if_needed :: "env \<Rightarrow> ViewerWindow \<Rightarrow> ViewerWindow" where
  "request_scaled_inner_size_if_needed e w =
     (if hw_fullscreen (host_of e w) then w
      else case scaled_inner_sizes e w of (logical, physical) \<Rightarrow>
        if \<not> host_resize_resync_needed (hw_inner (host_of e w)) physical then w
        else request_redraw (call (RequestLogicalSize (fst logical) (snd logical)) (w\<lparr>w_pending_programmatic := Some physical\<rparr>)))"

definition set_view_scale :: "env \<Rightarrow> f32 \<Rightarrow> ViewerWindow \<Rightarrow> ViewerWindow" where
  "set_view_scale e scale w = request_redraw (request_scaled_inner_size e (w\<lparr>w_view_scale := clamp_view_scale scale\<rparr>))"

definition set_theme :: "Theme \<Rightarrow> ViewerWindow \<Rightarrow> ViewerWindow" where
  "set_theme theme w =
     (let matte = matte_for_theme (Some theme)
      in if w_theme_matte w = matte then w else request_redraw (w\<lparr>w_theme_matte := matte\<rparr>))"

definition resize_to_remote_size :: "env \<Rightarrow> nat \<Rightarrow> nat \<Rightarrow> ViewerWindow \<Rightarrow> ViewerWindow" where
  "resize_to_remote_size e w0 h0 w =
     (let width = max w0 1; height = max h0 1;
          size_changed = (fb_width (w_frame w) \<noteq> width \<or> fb_height (w_frame w) \<noteq> height);
          w1 = w\<lparr>w_frame := resize_for_remote_size width height (w_frame w)\<rparr>
      in if \<not> size_changed then w1
         else if \<not> should_adopt_host_window (w_adopted w1) True then w1
         else
           let w2 = w1\<lparr>w_adopted := True\<rparr>;
               scale = max (hw_scale (host_of e w2)) 1;
               cap = (case hw_monitor (host_of e w2) of
                   None \<Rightarrow> None
                 | Some (_, mw, mh) \<Rightarrow> initial_adopt_cap (of_nat width) (of_nat height)
                     (fdiv (of_nat (max mw 1)) scale) (fdiv (of_nat (max mh 1)) scale)
                     (of_nat MIN_VIEWER_WIDTH) (of_nat MIN_VIEWER_HEIGHT))
           in case cap of
                Some (target_w, target_h) \<Rightarrow>
                  call (RequestLogicalSize target_w target_h)
                    (w2\<lparr>w_pending_programmatic := Some (to_physical e (target_w, target_h) scale)\<rparr>)
              | None \<Rightarrow> request_scaled_inner_size e w2)"

definition consume_programmatic_resize :: "wsize \<Rightarrow> ViewerWindow \<Rightarrow> bool \<times> ViewerWindow" where
  "consume_programmatic_resize sz w =
     (case consume_programmatic_resize_gate (w_pending_programmatic w) sz of
        (pending, matched) \<Rightarrow> (matched, w\<lparr>w_pending_programmatic := pending\<rparr>))"

definition remote_size_for_inner_size :: "wsize \<Rightarrow> ViewerWindow \<Rightarrow> wsize" where
  "remote_size_for_inner_size sz w =
     (let content = effective_content_rect w
      in compute_remote_size sz (w_view_scale w) (fr_w content) (fr_h content) (fb_width (w_frame w)) (fb_height (w_frame w)))"

definition resize_request_for_current_inner_size :: "env \<Rightarrow> ViewerWindow \<Rightarrow> wsize option" where
  "resize_request_for_current_inner_size e w =
     (let scale = max (hw_scale (host_of e w)) 1;
          logical = to_logical e (hw_inner (host_of e w)) scale;
          (rw, rh) = remote_size_for_inner_size (max (fst logical) 1, max (snd logical) 1) w
      in if rw \<noteq> fb_width (w_frame w) \<or> rh \<noteq> fb_height (w_frame w) then Some (rw, rh) else None)"

subsection \<open>The cursor\<close>

text \<open>\<open>None\<close> is the panic of a clamp with crossed bounds.\<close>

definition map_cursor_to_frame :: "env \<Rightarrow> fpos \<Rightarrow> ViewerWindow \<Rightarrow> ipos option" where
  "map_cursor_to_frame e p w =
     cursor_to_frame_coords (fst p) (snd p)
       (max (fst (hw_inner (host_of e w))) 1, max (snd (hw_inner (host_of e w))) 1)
       (effective_content_rect w) (fb_width (w_frame w), fb_height (w_frame w))"

definition ime_axis :: "int \<Rightarrow> nat \<Rightarrow> nat \<Rightarrow> nat \<Rightarrow> nat \<Rightarrow> f64" where
  "ime_axis x c_off c_len m_off m_len =
     fadd (of_nat m_off) (of_int (f_round (fdiv (fmul (of_int (max (i32_wrap (x - i32_wrap (int c_off))) 0)) (of_nat (max m_len 1)))
       (of_nat (max c_len 1)))))"

definition update_ime_cursor_area :: "env \<Rightarrow> ipos \<Rightarrow> ViewerWindow \<Rightarrow> ViewerWindow" where
  "update_ime_cursor_area e p w =
     (let content = effective_content_rect w;
          mapping = aspect_fit_rect (fr_w content) (fr_h content) (max (fst (hw_inner (host_of e w))) 1) (max (snd (hw_inner (host_of e w))) 1)
      in call (ImeCursorArea (ime_axis (fst p) (fr_x content) (fr_w content) (fr_x mapping) (fr_w mapping))
                 (ime_axis (snd p) (fr_y content) (fr_h content) (fr_y mapping) (fr_h mapping))) w)"

definition enable_ime_at_last_cursor :: "env \<Rightarrow> ViewerWindow \<Rightarrow> ViewerWindow" where
  "enable_ime_at_last_cursor e w = update_ime_cursor_area e (w_last_cursor w) (call ImeAllowed w)"

definition sync_cursor_from_window_position :: "env \<Rightarrow> ViewerWindow \<Rightarrow> ViewerWindow option" where
  "sync_cursor_from_window_position e w =
     (case w_last_window_cursor w of
        None \<Rightarrow> Some w
      | Some p \<Rightarrow> map_option (\<lambda>q. update_ime_cursor_area e q (w\<lparr>w_last_cursor := q\<rparr>)) (map_cursor_to_frame e p w))"

definition cache_frame_cursor :: "env \<Rightarrow> fpos \<Rightarrow> ViewerWindow \<Rightarrow> ViewerWindow option" where
  "cache_frame_cursor e p w = map_option (\<lambda>q. w\<lparr>w_last_cursor := q\<rparr>) (map_cursor_to_frame e p w)"

definition cache_cursor_at :: "env \<Rightarrow> fpos \<Rightarrow> ViewerWindow \<Rightarrow> ViewerWindow option" where
  "cache_cursor_at e p w = cache_frame_cursor e p (w\<lparr>w_last_window_cursor := Some p\<rparr>)"

definition update_resize_cursor :: "env \<Rightarrow> fpos \<Rightarrow> ViewerWindow \<Rightarrow> ViewerWindow" where
  "update_resize_cursor e p w =
     (if is_dragging (w_move w) then call CursorMove w
      else let direction = resize_direction_at p (hw_inner (host_of e w))
           in if w_hover w = direction then w
              else call (case direction of None \<Rightarrow> CursorDefault | Some d \<Rightarrow> CursorResize d) (w\<lparr>w_hover := direction\<rparr>))"

definition clear_resize_cursor :: "ViewerWindow \<Rightarrow> ViewerWindow" where
  "clear_resize_cursor w =
     (if w_active_resize w \<noteq> None \<or> is_dragging (w_move w) then w
      else call CursorDefault (w\<lparr>w_hover := None\<rparr>))"

subsection \<open>Manual move\<close>

definition move_drag_from_current_cursor :: "env \<Rightarrow> ViewerWindow \<Rightarrow> MoveDrag option" where
  "move_drag_from_current_cursor e w =
     (case (w_last_window_cursor w, hw_outer_position (host_of e w)) of
        (Some p, Some outer) \<Rightarrow> Some \<lparr>start_cursor_window = p, press_outer = outer\<rparr>
      | _ \<Rightarrow> None)"

definition remember_left_press :: "env \<Rightarrow> ViewerWindow \<Rightarrow> ViewerWindow" where
  "remember_left_press e w =
     (if is_dragging (w_move w) then w
      else case move_drag_from_current_cursor e w of None \<Rightarrow> w | Some drag \<Rightarrow> w\<lparr>w_move := MovePressed drag\<rparr>)"

definition clear_pending_move :: "ViewerWindow \<Rightarrow> ViewerWindow" where
  "clear_pending_move w = (if is_dragging (w_move w) then w else w\<lparr>w_move := MoveIdle\<rparr>)"

definition begin_manual_move :: "env \<Rightarrow> ViewerWindow \<Rightarrow> bool \<times> ViewerWindow" where
  "begin_manual_move e w =
     (case move_drag_from_current_cursor e w of
        None \<Rightarrow> (False, w) | Some drag \<Rightarrow> (True, call CursorMove (w\<lparr>w_move := Dragging drag\<rparr>)))"

definition update_manual_move :: "fpos \<Rightarrow> ViewerWindow \<Rightarrow> bool \<times> ViewerWindow" where
  "update_manual_move p w =
     (case w_move w of
        Dragging drag \<Rightarrow>
          (let new_outer = compute_manual_move_outer (press_outer drag) (start_cursor_window drag) p
           in (True, (call (SetOuterPosition new_outer) (w\<lparr>w_titlebar_click := None\<rparr>))\<lparr>w_move := Dragging drag,
                 w_last_screen_cursor := Some (fadd (of_int (fst new_outer)) (fst p), fadd (of_int (snd new_outer)) (snd p))\<rparr>))
      | _ \<Rightarrow> (False, w))"

definition apply_edge_snap_rect :: "env \<Rightarrow> EdgeSnapRect \<Rightarrow> ViewerWindow \<Rightarrow> ViewerWindow" where
  "apply_edge_snap_rect e rect w =
     (let scale = max (hw_scale (host_of e w)) 1;
          logical = physical_to_logical_size (fst (es_size rect)) (snd (es_size rect)) scale;
          physical = to_physical e logical scale;
          logical_as_physical = (u32_sat (f_trunc (fst logical)), u32_sat (f_trunc (snd logical)))
      in request_redraw (call (SetOuterPosition (es_position rect)) (call (RequestLogicalSize (fst logical) (snd logical))
           (w\<lparr>w_pending_tile := Some (remote_size_for_inner_size logical_as_physical w), w_pending_programmatic := Some physical\<rparr>))))"

definition snap_to_cursor_tile :: "env \<Rightarrow> ViewerWindow \<Rightarrow> bool \<times> ViewerWindow" where
  "snap_to_cursor_tile e w =
     (case (w_last_screen_cursor w, hw_outer_position (host_of e w), hw_monitor (host_of e w)) of
        (Some cursor_screen, Some outer_position, Some (monitor_position, _)) \<Rightarrow>
          (case cursor_edge_tile_rect cursor_screen outer_position (hw_outer_size (host_of e w)) monitor_position (w_tile_screen w) of
             None \<Rightarrow> (False, w) | Some rect \<Rightarrow> (True, apply_edge_snap_rect e rect w))
      | _ \<Rightarrow> (False, w))"

definition snap_to_cursor_left_right_edge :: "env \<Rightarrow> ViewerWindow \<Rightarrow> bool \<times> ViewerWindow" where
  "snap_to_cursor_left_right_edge e w =
     (case (w_last_screen_cursor w, hw_outer_position (host_of e w), hw_monitor (host_of e w)) of
        (Some cursor_screen, Some outer_position, Some (monitor_position, monitor_size)) \<Rightarrow>
          (let scale = max (hw_scale (host_of e w)) 1;
               top_inset_px = u32_sat (max (f_round (fmul (menubar_inset e) scale)) 0)
           in case cursor_left_right_tile_rect cursor_screen outer_position (hw_outer_size (host_of e w)) monitor_position monitor_size top_inset_px of
                None \<Rightarrow> (False, w) | Some rect \<Rightarrow> (True, apply_edge_snap_rect e rect w))
      | _ \<Rightarrow> (False, w))"

definition snap_after_move :: "env \<Rightarrow> ViewerWindow \<Rightarrow> ViewerWindow" where
  "snap_after_move e w =
     (case snap_to_cursor_left_right_edge e w of
        (snapped, w') \<Rightarrow> if \<not> snapped \<and> edge_snap e then snd (snap_to_cursor_tile e w') else w')"

definition begin_requested_move :: "env \<Rightarrow> ViewerWindow \<Rightarrow> ViewerWindow" where
  "begin_requested_move e w =
     (let adopt = (\<lambda>drag released.
          let w1 = call CursorMove (w\<lparr>w_move := Dragging drag\<rparr>);
              w2 = (case w_last_window_cursor w1 of Some p \<Rightarrow> snd (update_manual_move p w1) | None \<Rightarrow> w1)
          in if released then snap_after_move e (clear_resize_cursor (w2\<lparr>w_move := MoveIdle\<rparr>)) else w2)
      in case w_move w of
           Dragging _ \<Rightarrow> w
         | MovePressed drag \<Rightarrow> adopt drag False
         | MoveReleased drag t \<Rightarrow>
             if now e - t \<le> REMOTE_MOVE_RELEASE_GRACE then adopt drag True else w\<lparr>w_move := MoveIdle\<rparr>
         | MoveIdle \<Rightarrow> w\<lparr>w_move := MoveIdle\<rparr>)"

definition settle_cursor :: "env \<Rightarrow> ViewerWindow \<Rightarrow> ViewerWindow" where
  "settle_cursor e w =
     (case w_last_window_cursor w of
        Some p \<Rightarrow> update_resize_cursor e p (w\<lparr>w_hover := None\<rparr>) | None \<Rightarrow> clear_resize_cursor w)"

definition finish_manual_move :: "env \<Rightarrow> ViewerWindow \<Rightarrow> bool \<times> ViewerWindow" where
  "finish_manual_move e w =
     (case w_move w of
        Dragging _ \<Rightarrow> (True, snap_after_move e (settle_cursor e (w\<lparr>w_move := MoveIdle\<rparr>)))
      | MovePressed drag \<Rightarrow> (False, w\<lparr>w_move := (if macos e then MoveIdle else MoveReleased drag (now e))\<rparr>)
      | _ \<Rightarrow> (False, w))"

subsection \<open>Manual resize\<close>

definition begin_manual_resize :: "env \<Rightarrow> ViewerWindow \<Rightarrow> bool \<times> ViewerWindow" where
  "begin_manual_resize e w =
     (case (w_hover w, w_last_window_cursor w, hw_outer_position (host_of e w)) of
        (Some direction, Some _, Some start_outer) \<Rightarrow>
          (True, call (CursorResize direction) (w\<lparr>w_active_resize :=
             Some \<lparr>rd_direction = direction, rd_start_outer = start_outer, rd_start_size = hw_inner (host_of e w)\<rparr>\<rparr>))
      | _ \<Rightarrow> (False, w))"

definition update_manual_resize :: "env \<Rightarrow> fpos \<Rightarrow> ViewerWindow \<Rightarrow> bool \<times> ViewerWindow" where
  "update_manual_resize e p w =
     (case w_active_resize w of
        None \<Rightarrow> (False, w)
      | Some drag \<Rightarrow>
          (let outer = (case hw_outer_position (host_of e w) of Some q \<Rightarrow> q | None \<Rightarrow> rd_start_outer drag);
               cursor_x = fadd (of_int (fst outer)) (fst p); cursor_y = fadd (of_int (snd outer)) (snd p)
           in case clamp_manual_resize (rd_direction drag) (apply_resize_direction drag cursor_x cursor_y) of
                (lf, tp, rt, bt) \<Rightarrow>
                  let w1 = (if uses_west_edge (rd_direction drag) \<or> uses_north_edge (rd_direction drag)
                            then call (SetOuterPosition (i32_sat (f_round lf), i32_sat (f_round tp))) w else w)
                  in (True, request_redraw (call (RequestPhysicalSize (u32_sat (f_round (fsub rt lf))) (u32_sat (f_round (fsub bt tp)))) w1))))"

definition finish_manual_resize :: "env \<Rightarrow> ViewerWindow \<Rightarrow> bool \<times> ViewerWindow" where
  "finish_manual_resize e w =
     (if w_active_resize w = None then (False, w)
      else (True, settle_cursor e (clear_pending_move (w\<lparr>w_active_resize := None\<rparr>))))"

subsection \<open>The title bar\<close>

definition take_titlebar_toggle_on_left_press :: "env \<Rightarrow> ViewerWindow \<Rightarrow> (bool \<times> ViewerWindow) option" where
  "take_titlebar_toggle_on_left_press e w0 =
     map_option (\<lambda>w.
       let (x, y) = w_last_cursor w; fw = fb_width (w_frame w)
       in if is_titlebar_maximize_button x y fw
          then (True, w\<lparr>w_suppress_release := True, w_titlebar_click := None\<rparr>)
          else if \<not> is_titlebar_double_click_area x y fw then (False, w\<lparr>w_titlebar_click := None\<rparr>)
          else if is_titlebar_double_click (w_titlebar_click w) (now e) x y TITLEBAR_DOUBLE_CLICK_INTERVAL TITLEBAR_DOUBLE_CLICK_DISTANCE_PX
          then (True, w\<lparr>w_suppress_release := True, w_titlebar_click := None\<rparr>)
          else (False, w\<lparr>w_titlebar_click := Some \<lparr>tc_at = now e, tc_x = x, tc_y = y\<rparr>\<rparr>))
       (sync_cursor_from_window_position e w0)"

definition consume_suppressed_left_release :: "ViewerWindow \<Rightarrow> bool \<times> ViewerWindow" where
  "consume_suppressed_left_release w = (w_suppress_release w, w\<lparr>w_suppress_release := False\<rparr>)"

section \<open>The application\<close>

datatype control_flow = Wait | WaitUntil nat

record ViewerApp =
  va_keepalive :: bool
  va_input :: viewer
  va_windows :: "(u64 \<times> ViewerWindow) list"
  va_window_ids :: "(nat \<times> u64) list"
  va_next_host :: nat
  va_resizes :: "(u64 \<times> PendingRemoteResize) list"
  va_fullscreen_exits :: "(u64 \<times> nat) list"
  va_host_resyncs :: "(u64 \<times> nat) list"
  va_clip_bridge :: bool
  va_clip_in :: "Clipboard list"
  va_retired :: "u64 list"
  va_warned :: "ustring list"
  va_warnings :: "ustring list"
  va_host_chrome :: bool
  va_tile_screen :: wsize
  va_empty_since :: "nat option"
  va_control_flow :: control_flow
  va_exited :: bool
  va_panicked :: bool

definition viewer_app_new :: "bool \<Rightarrow> bool \<Rightarrow> wsize \<Rightarrow> ViewerApp" where
  "viewer_app_new clip_bridge host_chrome tile_screen =
     \<lparr>va_keepalive = False, va_input = viewer_start, va_windows = [], va_window_ids = [], va_next_host = 0,
      va_resizes = [], va_fullscreen_exits = [], va_host_resyncs = [], va_clip_bridge = clip_bridge, va_clip_in = [],
      va_retired = [], va_warned = [], va_warnings = [], va_host_chrome = host_chrome, va_tile_screen = tile_screen,
      va_empty_since = None, va_control_flow = Wait, va_exited = False, va_panicked = False\<rparr>"

definition view :: "u64 \<Rightarrow> ViewerApp \<Rightarrow> ViewerWindow option" where
  "view wid a = map_of (va_windows a) wid"

definition with_view :: "u64 \<Rightarrow> (ViewerWindow \<Rightarrow> ViewerWindow) \<Rightarrow> ViewerApp \<Rightarrow> ViewerApp" where
  "with_view wid f a = (case view wid a of
     None \<Rightarrow> a | Some w \<Rightarrow> a\<lparr>va_windows := AList.update wid (f w) (va_windows a)\<rparr>)"

definition send :: "InputEvent \<Rightarrow> ViewerApp \<Rightarrow> ViewerApp" where
  "send event a = a\<lparr>va_input := send_input event (va_input a)\<rparr>"

definition input_step :: "viewer_event \<Rightarrow> ViewerApp \<Rightarrow> ViewerApp" where
  "input_step ev a = a\<lparr>va_input := viewer_input_step (va_input a) ev\<rparr>"

definition exit_loop :: "ViewerApp \<Rightarrow> ViewerApp" where
  "exit_loop a = a\<lparr>va_exited := True\<rparr>"

definition panic :: "ViewerApp \<Rightarrow> ViewerApp" where
  "panic a = a\<lparr>va_panicked := True\<rparr>"

definition ensure_keepalive_window :: "env \<Rightarrow> ViewerApp \<Rightarrow> ViewerApp" where
  "ensure_keepalive_window e a =
     (if va_keepalive a then a else if create_ok e then a\<lparr>va_keepalive := True\<rparr> else exit_loop a)"

definition set_title_of :: "u64 \<Rightarrow> ustring \<Rightarrow> viewer \<Rightarrow> viewer" where
  "set_title_of wid title v =
     v\<lparr>vwindows := map (\<lambda>(k, x). (k, if k = wid then x\<lparr>vw_title := title\<rparr> else x)) (vwindows v)\<rparr>"

definition set_window_title :: "u64 \<Rightarrow> ustring \<Rightarrow> ViewerApp \<Rightarrow> ViewerApp" where
  "set_window_title wid title a =
     (with_view wid (call (SetTitle title)) a)\<lparr>va_input := set_title_of wid title (va_input a)\<rparr>"

definition maybe_warn_about_guest_chrome :: "ustring \<Rightarrow> ustring \<Rightarrow> ViewerApp \<Rightarrow> ViewerApp" where
  "maybe_warn_about_guest_chrome app_id title a =
     (case guest_app_uses_own_chrome app_id title of
        None \<Rightarrow> a
      | Some label \<Rightarrow>
          let key = guest_chrome_dedup_key app_id title
          in if key \<in> set (va_warned a) then a
             else a\<lparr>va_warned := key # va_warned a, va_warnings := va_warnings a @ [label]\<rparr>)"

subsection \<open>The table of windows\<close>

definition create_window :: "env \<Rightarrow> u64 \<Rightarrow> nat \<Rightarrow> nat \<Rightarrow> ustring \<Rightarrow> ustring \<Rightarrow> ViewerApp \<Rightarrow> ViewerApp" where
  "create_window e wid width height title0 app_id a =
     (let title = window_title title0; icon = has_icon e app_id
      in if view wid a \<noteq> None
         then
           let a1 = set_window_title wid title (with_view wid (call (SetVisible True)) (a\<lparr>va_retired := removeAll wid (va_retired a)\<rparr>))
           in with_view wid (\<lambda>w.
                resize_to_remote_size e (max width 1) (max height 1)
                  ((if icon then call (SetIcon app_id) else id)
                    (w\<lparr>w_app_id := app_id, w_own_chrome := w_own_chrome w \<or> guest_app_uses_own_chrome app_id title \<noteq> None\<rparr>))) a1
         else
           let a1 = maybe_warn_about_guest_chrome app_id title a;
               own_chrome = (guest_app_uses_own_chrome app_id title \<noteq> None)
           in if \<not> create_ok e then exit_loop a1
              else
                let hid = va_next_host a1;
                    w = call (ImeCursorArea 12 24) (call ImeAllowed (call (SetOuterPosition (initial_window_position wid))
                          (new_view hid app_id (matte_for_theme (system_theme e)) (va_tile_screen a1) own_chrome)));
                    a2 = input_step (WindowCreated wid title)
                      (a1\<lparr>va_next_host := Suc hid, va_window_ids := AList.update hid wid (va_window_ids a1),
                          va_windows := AList.update wid w (va_windows a1)\<rparr>)
                in with_view wid (resize_to_remote_size e (max width 1) (max height 1)) a2)"

definition active_window_count :: "ViewerApp \<Rightarrow> nat" where
  "active_window_count a = length (filter (\<lambda>wid. wid \<notin> set (va_retired a)) (map fst (va_windows a)))"

definition drop_timers :: "u64 \<Rightarrow> ViewerApp \<Rightarrow> ViewerApp" where
  "drop_timers wid a = a\<lparr>va_resizes := AList.delete wid (va_resizes a),
     va_fullscreen_exits := AList.delete wid (va_fullscreen_exits a), va_host_resyncs := AList.delete wid (va_host_resyncs a)\<rparr>"

definition drop_window :: "u64 \<Rightarrow> ViewerApp \<Rightarrow> ViewerApp" where
  "drop_window wid a =
     (let a1 = drop_timers wid (a\<lparr>va_retired := removeAll wid (va_retired a)\<rparr>)
      in a1\<lparr>va_windows := AList.delete wid (va_windows a1),
           va_window_ids := (case view wid a1 of None \<Rightarrow> va_window_ids a1 | Some w \<Rightarrow> AList.delete (w_host w) (va_window_ids a1)),
           va_input := remove_window wid (va_input a1)\<rparr>)"

definition retire_last_window :: "u64 \<Rightarrow> ViewerApp \<Rightarrow> ViewerApp" where
  "retire_last_window wid a =
     (let a1 = input_step (WindowRetired wid) (drop_timers wid (with_view wid hide a))
      in a1\<lparr>va_retired := List.insert wid (va_retired a1)\<rparr>)"

definition remove_retired_windows :: "ViewerApp \<Rightarrow> ViewerApp" where
  "remove_retired_windows a = fold drop_window (va_retired a) (a\<lparr>va_retired := []\<rparr>)"

subsection \<open>Debounced resizes\<close>

definition queue_remote_resize :: "env \<Rightarrow> u64 \<Rightarrow> wsize \<Rightarrow> ViewerApp \<Rightarrow> ViewerApp" where
  "queue_remote_resize e wid sz a =
     a\<lparr>va_resizes := AList.update wid (build_pending_remote_resize (fst sz) (snd sz) REMOTE_RESIZE_DEBOUNCE (now e)) (va_resizes a)\<rparr>"

definition queue_fullscreen_exit_resync :: "env \<Rightarrow> u64 \<Rightarrow> ViewerApp \<Rightarrow> ViewerApp" where
  "queue_fullscreen_exit_resync e wid a =
     a\<lparr>va_resizes := AList.delete wid (va_resizes a), va_host_resyncs := AList.delete wid (va_host_resyncs a),
       va_fullscreen_exits := AList.update wid (now e + FULLSCREEN_EXIT_RESYNC_DELAY) (va_fullscreen_exits a)\<rparr>"

definition queue_host_resize_resync :: "env \<Rightarrow> u64 \<Rightarrow> ViewerApp \<Rightarrow> ViewerApp" where
  "queue_host_resize_resync e wid a =
     a\<lparr>va_host_resyncs := AList.update wid (now e + HOST_RESIZE_RESYNC_DELAY) (va_host_resyncs a)\<rparr>"

definition send_remote_resize_now :: "u64 \<Rightarrow> wsize \<Rightarrow> ViewerApp \<Rightarrow> ViewerApp" where
  "send_remote_resize_now wid sz a =
     send (Resize wid (of_nat (fst sz)) (of_nat (snd sz))) (send (Focus wid True) (with_view wid (\<lambda>w. w\<lparr>w_in_flight := Some sz\<rparr>) a))"

definition min_due :: "nat option \<Rightarrow> nat \<Rightarrow> nat option" where
  "min_due next_due due = Some (case next_due of None \<Rightarrow> due | Some known \<Rightarrow> min known due)"

definition resync_after_fullscreen :: "env \<Rightarrow> u64 \<Rightarrow> ViewerApp \<Rightarrow> ViewerApp" where
  "resync_after_fullscreen e wid a =
     (case Option.bind (view wid a) (resize_request_for_current_inner_size e) of
        None \<Rightarrow> a | Some sz \<Rightarrow> send_remote_resize_now wid sz a)"

text \<open>The entries that stay, the earliest of their deadlines, and what is done for those that are due.\<close>

definition retain_waiting :: "env \<Rightarrow> ViewerApp \<Rightarrow> ViewerApp" where
  "retain_waiting e a = a\<lparr>va_fullscreen_exits := filter (\<lambda>p. \<not> snd p \<le> now e) (va_fullscreen_exits a),
     va_resizes := filter (\<lambda>p. \<not> pr_due (snd p) \<le> now e) (va_resizes a),
     va_host_resyncs := filter (\<lambda>p. \<not> snd p \<le> now e) (va_host_resyncs a)\<rparr>"

definition waiting_dues :: "ViewerApp \<Rightarrow> nat list" where
  "waiting_dues a = map snd (va_fullscreen_exits a) @ map (\<lambda>p. pr_due (snd p)) (va_resizes a) @ map snd (va_host_resyncs a)"

definition flush_ready :: "env \<Rightarrow> ViewerApp \<Rightarrow> ViewerApp" where
  "flush_ready e a =
     fold (\<lambda>p. with_view (fst p) (request_scaled_inner_size_if_needed e)) (filter (\<lambda>p. snd p \<le> now e) (va_host_resyncs a))
       (fold (\<lambda>p. send_remote_resize_now (fst p) (pr_width (snd p), pr_height (snd p))) (filter (\<lambda>p. pr_due (snd p) \<le> now e) (va_resizes a))
         (fold (\<lambda>p. resync_after_fullscreen e (fst p)) (filter (\<lambda>p. snd p \<le> now e) (va_fullscreen_exits a))
           (retain_waiting e a)))"

definition wait_for :: "nat option \<Rightarrow> control_flow" where
  "wait_for next_due = (case next_due of Some due \<Rightarrow> WaitUntil due | None \<Rightarrow> Wait)"

definition flush_due_remote_resizes :: "env \<Rightarrow> ViewerApp \<Rightarrow> ViewerApp" where
  "flush_due_remote_resizes e a =
     (let next_due = foldl min_due None (waiting_dues (retain_waiting e a));
          a1 = flush_ready e a
      in case va_empty_since a1 of
           Some started_at \<Rightarrow>
             (let exit_at = started_at + WINDOW_REPLACEMENT_GRACE
              in if exit_at \<le> now e then exit_loop (remove_retired_windows a1)
                 else a1\<lparr>va_control_flow := wait_for (min_due next_due exit_at)\<rparr>)
         | None \<Rightarrow> a1\<lparr>va_control_flow := wait_for next_due\<rparr>)"

section \<open>Messages of the guest\<close>

definition take_pending_tile :: "env \<Rightarrow> u64 \<Rightarrow> ViewerApp \<Rightarrow> ViewerApp" where
  "take_pending_tile e wid a =
     (case Option.bind (view wid a) w_pending_tile of
        None \<Rightarrow> a
      | Some sz \<Rightarrow> queue_remote_resize e wid sz (with_view wid (\<lambda>w. w\<lparr>w_pending_tile := None\<rparr>) a))"

definition apply_window_fullscreen :: "env \<Rightarrow> bool \<Rightarrow> ViewerWindow \<Rightarrow> ViewerWindow" where
  "apply_window_fullscreen e fullscreen w =
     (if hw_fullscreen (host_of e w) = fullscreen then w else call (ApplyFullscreen fullscreen) w)"

definition title_changed_view :: "env \<Rightarrow> ustring \<Rightarrow> ViewerWindow \<Rightarrow> ViewerWindow" where
  "title_changed_view e title w =
     (if guest_app_uses_own_chrome (w_app_id w) title \<noteq> None \<and> \<not> w_own_chrome w
      then request_redraw (request_scaled_inner_size e (w\<lparr>w_own_chrome := True\<rparr>)) else w)"

fun handle_remote_window_event :: "env \<Rightarrow> WindowEvent \<Rightarrow> ViewerApp \<Rightarrow> ViewerApp" where
  "handle_remote_window_event e (Created wid geom title app_id) a =
     create_window e wid (max (unat (geom_w geom)) 1) (max (unat (geom_h geom)) 1) title app_id (a\<lparr>va_empty_since := None\<rparr>)"
| "handle_remote_window_event e (Configured wid geom) a =
     with_view wid (\<lambda>w. request_redraw (resize_to_remote_size e (max (unat (geom_w geom)) 1) (max (unat (geom_h geom)) 1) w)) a"
| "handle_remote_window_event e (TitleChanged wid title0) a =
     (case view wid a of
        None \<Rightarrow> a
      | Some w \<Rightarrow>
          let title = window_title title0;
              newly = (guest_app_uses_own_chrome (w_app_id w) title \<noteq> None \<and> \<not> w_own_chrome w);
              a1 = set_window_title wid title (with_view wid (title_changed_view e title) a)
          in if newly then maybe_warn_about_guest_chrome (w_app_id w) title a1 else a1)"
| "handle_remote_window_event e (Minimized wid) a = with_view wid (call SetMinimized) a"
| "handle_remote_window_event e (MoveRequested wid) a =
     (if macos e then a else take_pending_tile e wid (with_view wid (begin_requested_move e) a))"
| "handle_remote_window_event e (FullscreenChanged wid fullscreen) a =
     (let a1 = with_view wid (\<lambda>w. (apply_window_fullscreen e fullscreen (w\<lparr>w_pending_programmatic := None\<rparr>))
                 \<lparr>w_host_fullscreen := fullscreen\<rparr>) a
      in if fullscreen then drop_timers wid a1
         else if view wid a \<noteq> None then queue_fullscreen_exit_resync e wid a1 else a1)"
| "handle_remote_window_event e (Destroyed wid) a =
     (if active_window_count a \<le> 1 \<and> view wid a \<noteq> None
      then (retire_last_window wid a)\<lparr>va_empty_since := Some (now e), va_control_flow := WaitUntil (now e + WINDOW_REPLACEMENT_GRACE)\<rparr>
      else drop_window wid a)"

definition adopt_from_tile :: "env \<Rightarrow> bool \<Rightarrow> ViewerWindow \<Rightarrow> ViewerWindow" where
  "adopt_from_tile e display_size_changed w =
     (if should_adopt_host_window (w_adopted_tile w) display_size_changed
         \<and> is_content_rect_adoptable (fst (display_size (w_frame w))) (snd (display_size (w_frame w)))
      then request_scaled_inner_size e (w\<lparr>w_adopted_tile := True, w_adopted := True\<rparr>) else w)"

definition handle_frame_tile :: "env \<Rightarrow> FrameTile \<Rightarrow> ViewerApp \<Rightarrow> ViewerApp" where
  "handle_frame_tile e tile a =
     (case view (tile_id tile) a of
        None \<Rightarrow> a
      | Some w \<Rightarrow>
          (case apply_tile tile (w_frame w) of
             Inl _ \<Rightarrow> a
           | Inr (display_size_changed, frame) \<Rightarrow>
               let w1 = w\<lparr>w_frame := frame, w_in_flight := None\<rparr>;
                   resync = (w_in_flight w \<noteq> None \<and> needs_host_resize_resync_after_remote e w1);
                   a1 = with_view (tile_id tile) (\<lambda>_. render e (request_redraw (adopt_from_tile e display_size_changed w1))) a
               in if resync then queue_host_resize_resync e (tile_id tile) a1 else a1))"

fun handle_message :: "env \<Rightarrow> Message \<Rightarrow> ViewerApp \<Rightarrow> ViewerApp" where
  "handle_message e (Message.WindowEvent event) a = handle_remote_window_event e event a"
| "handle_message e (Message.FrameTile tile) a = handle_frame_tile e tile a"
| "handle_message e (Goodbye _) a = exit_loop a"
| "handle_message e (Error _) a = exit_loop a"
| "handle_message e (Message.Clipboard payload) a =
     (if va_clip_bridge a then a\<lparr>va_clip_in := va_clip_in a @ [payload]\<rparr> else a)"
| "handle_message e _ a = a"

section \<open>Events of the host\<close>

datatype scroll_delta = LineDelta f32 f32 | PixelDelta f64 f64

datatype WinitEvent =
    WCloseRequested
  | WFocused bool
  | WCursorMoved fpos
  | WCursorLeft
  | WMouseWheel scroll_delta
  | WMouseInput ElementState MouseButton
  | WKeyboardInput KeyEvent
  | WModifiersChanged ModifiersState
  | WIme ImeEvent
  | WThemeChanged Theme
  | WResized wsize
  | WRedrawRequested
  | WOther

definition motion :: "u64 \<Rightarrow> ViewerApp \<Rightarrow> ViewerApp" where
  "motion wid a = (case view wid a of
     None \<Rightarrow> a | Some w \<Rightarrow> send (PointerMotion wid (i32_of (fst (w_last_cursor w))) (i32_of (snd (w_last_cursor w)))) a)"

definition cursor_moved :: "env \<Rightarrow> u64 \<Rightarrow> fpos \<Rightarrow> ViewerApp \<Rightarrow> ViewerApp" where
  "cursor_moved e wid p a =
     (case view wid a of
        None \<Rightarrow> a
      | Some w0 \<Rightarrow>
          let w = w0\<lparr>w_last_window_cursor := Some p\<rparr>; put = (\<lambda>w. with_view wid (\<lambda>_. w) a)
          in case update_manual_move p w of
               (True, w') \<Rightarrow> put w'
             | (False, w') \<Rightarrow>
                 (case update_manual_resize e p w' of
                    (True, w'') \<Rightarrow> put w''
                  | (False, w'') \<Rightarrow>
                      let w3 = update_resize_cursor e p w''
                      in if w_hover w3 \<noteq> None then put w3
                         else (case cache_frame_cursor e p w3 of
                             None \<Rightarrow> panic a
                           | Some w4 \<Rightarrow> motion wid (put (update_ime_cursor_area e (w_last_cursor w4) w4)))))"

definition wheel_deltas :: "env \<Rightarrow> u64 \<Rightarrow> scroll_delta \<Rightarrow> ViewerApp \<Rightarrow> f64 \<times> f64" where
  "wheel_deltas e wid delta a = (case delta of
     LineDelta dx dy \<Rightarrow> (fmul dx SCROLL_LINE_TO_AXIS_UNITS, fmul dy SCROLL_LINE_TO_AXIS_UNITS)
   | PixelDelta x y \<Rightarrow>
       let scale = (case view wid a of None \<Rightarrow> 1 | Some w \<Rightarrow> max (hw_scale (host_of e w)) 1)
       in (fdiv x scale, fdiv y scale))"

definition mouse_wheel :: "env \<Rightarrow> u64 \<Rightarrow> scroll_delta \<Rightarrow> ViewerApp \<Rightarrow> ViewerApp" where
  "mouse_wheel e wid delta a =
     (case wheel_deltas e wid delta a of (delta_x, delta_y) \<Rightarrow>
        if delta_x = 0 \<and> delta_y = 0 then a
        else
          let scroll = send (PointerScroll wid (i32_of (i32_sat (f_round (fmul (- delta_x) 1000))))
                (i32_of (i32_sat (f_round (fmul (- delta_y) 1000)))))
          in case view wid a of
               None \<Rightarrow> scroll a
             | Some w \<Rightarrow>
                 (let p = (case w_last_window_cursor w of Some p \<Rightarrow> p | None \<Rightarrow>
                        (fdiv (of_nat (fst (hw_inner (host_of e w)))) 2, fdiv (of_nat (snd (hw_inner (host_of e w)))) 2))
                  in case cache_cursor_at e p w of
                       None \<Rightarrow> panic a
                     | Some w' \<Rightarrow> scroll (motion wid (with_view wid (\<lambda>_. w') a))))"

definition press_focus :: "env \<Rightarrow> u64 \<Rightarrow> ViewerApp \<Rightarrow> ViewerApp" where
  "press_focus e wid a = send (Focus wid True) (with_view wid (enable_ime_at_last_cursor e) a)"

definition forward_button :: "env \<Rightarrow> u64 \<Rightarrow> ElementState \<Rightarrow> MouseButton \<Rightarrow> ipos \<Rightarrow> ViewerApp \<Rightarrow> ViewerApp" where
  "forward_button e wid state button cursor a =
     (case mouse_button_code button of
        None \<Rightarrow> a
      | Some code \<Rightarrow>
          send (PointerButton wid code (case state of Pressed \<Rightarrow> BtnPressed | Released \<Rightarrow> BtnReleased))
            (send (PointerMotion wid (i32_of (fst cursor)) (i32_of (snd cursor)))
              (if state = Pressed then press_focus e wid a else a)))"

definition toggle_maximize :: "env \<Rightarrow> u64 \<Rightarrow> ViewerApp \<Rightarrow> ViewerApp" where
  "toggle_maximize e wid a =
     with_view wid (\<lambda>w. call (SetMaximized (\<not> hw_maximized (host_of e w))) w)
       (send (ToggleMaximize wid) (press_focus e wid a))"

definition left_pressed :: "env \<Rightarrow> u64 \<Rightarrow> ipos \<Rightarrow> ViewerWindow \<Rightarrow> ViewerApp \<Rightarrow> ViewerApp" where
  "left_pressed e wid cursor w a =
     (case (if va_host_chrome a then Some (False, w) else take_titlebar_toggle_on_left_press e w) of
        None \<Rightarrow> panic a
      | Some (True, w1) \<Rightarrow> toggle_maximize e wid (with_view wid (\<lambda>_. w1) a)
      | Some (False, w1) \<Rightarrow>
          (let w2 = remember_left_press e w1;
               (handled_move, w3) = (if host_move_modifier_active (modifiers (va_input a)) then begin_manual_move e w2 else (False, w2))
           in if handled_move then with_view wid (\<lambda>_. w3) a
              else case begin_manual_resize e w3 of
                     (True, w4) \<Rightarrow> press_focus e wid (with_view wid (\<lambda>_. w4) a)
                   | (False, w4) \<Rightarrow> forward_button e wid Pressed LeftButton cursor (with_view wid (\<lambda>_. w4) a)))"

definition left_released :: "env \<Rightarrow> u64 \<Rightarrow> ipos \<Rightarrow> ViewerWindow \<Rightarrow> ViewerApp \<Rightarrow> ViewerApp" where
  "left_released e wid cursor w a =
     (case consume_suppressed_left_release w of
        (True, w1) \<Rightarrow> with_view wid (\<lambda>_. w1) a
      | (False, w1) \<Rightarrow>
          (let (handled_move, w2) = finish_manual_move e w1;
               move_resize = w_pending_tile w2;
               w3 = w2\<lparr>w_pending_tile := None\<rparr>
           in if handled_move
              then (case move_resize of
                      None \<Rightarrow> with_view wid (\<lambda>_. w3) a
                    | Some sz \<Rightarrow> queue_remote_resize e wid sz (with_view wid (\<lambda>_. w3) a))
              else case finish_manual_resize e w3 of
                     (True, w4) \<Rightarrow> press_focus e wid (with_view wid (\<lambda>_. w4) a)
                   | (False, w4) \<Rightarrow> forward_button e wid Released LeftButton cursor (with_view wid (\<lambda>_. w4) a)))"

definition mouse_input :: "env \<Rightarrow> u64 \<Rightarrow> ElementState \<Rightarrow> MouseButton \<Rightarrow> ViewerApp \<Rightarrow> ViewerApp" where
  "mouse_input e wid state button a =
     (case view wid a of
        None \<Rightarrow> forward_button e wid state button (0, 0) a
      | Some w0 \<Rightarrow>
          (case sync_cursor_from_window_position e w0 of
             None \<Rightarrow> panic a
           | Some w \<Rightarrow>
               if button = LeftButton
               then (if state = Pressed then left_pressed else left_released) e wid (w_last_cursor w) w a
               else forward_button e wid state button (w_last_cursor w) (with_view wid (\<lambda>_. w) a)))"

definition keyboard_input :: "env \<Rightarrow> u64 \<Rightarrow> KeyEvent \<Rightarrow> ViewerApp \<Rightarrow> ViewerApp" where
  "keyboard_input e wid ev a =
     (case view wid a of
        None \<Rightarrow> a
      | Some w \<Rightarrow>
          let a1 = input_step (KeyboardInput wid ev) (input_step (FullscreenReported wid (hw_fullscreen (host_of e w))) a);
              zoom = (\<lambda>(wid', key). case key of
                  Character t \<Rightarrow> with_view wid' (\<lambda>w. case next_view_scale t (w_view_scale w) of
                      None \<Rightarrow> w | Some scale \<Rightarrow> set_view_scale e scale w)
                | _ \<Rightarrow> (\<lambda>a. a))
          in fold zoom (drop (length (zooms (va_input a))) (zooms (va_input a1))) a1)"

text \<open>A resize the host reports, of a window that exists.\<close>

definition resized_view :: "env \<Rightarrow> wsize \<Rightarrow> ViewerWindow \<Rightarrow> ViewerWindow \<times> wsize option \<times> bool option" where
  "resized_view e sz w =
     (let in_fullscreen = hw_fullscreen (host_of e w);
          toggled = (in_fullscreen \<noteq> w_host_fullscreen w);
          w1 = (if toggled then w\<lparr>w_host_fullscreen := in_fullscreen, w_pending_programmatic := None\<rparr> else w);
          (matched, w2) = (if \<not> (toggled \<and> \<not> in_fullscreen) \<and> \<not> in_fullscreen \<and> w_visible w1
             then consume_programmatic_resize sz w1 else (True, w1));
          resize = (if matched then None else resize_request_for_current_inner_size e w2);
          w3 = (if resize = None then w2 else enable_ime_at_last_cursor e w2)
      in (request_redraw w3, resize, if toggled then Some in_fullscreen else None))"

definition resized :: "env \<Rightarrow> u64 \<Rightarrow> wsize \<Rightarrow> ViewerApp \<Rightarrow> ViewerApp" where
  "resized e wid sz a0 =
     (let a = a0\<lparr>va_host_resyncs := AList.delete wid (va_host_resyncs a0)\<rparr>
      in case view wid a of
           None \<Rightarrow> a
         | Some w \<Rightarrow>
             (case resized_view e sz w of (w', resize, fullscreen) \<Rightarrow>
                let a1 = with_view wid (\<lambda>_. w') a;
                    a2 = (case fullscreen of None \<Rightarrow> a1 | Some fs \<Rightarrow> send (SetFullscreen wid fs) a1);
                    a3 = (if fullscreen = Some True then drop_timers wid a2 else a2);
                    a4 = (if fullscreen = Some False then queue_fullscreen_exit_resync e wid a3 else a3)
                in case resize of None \<Rightarrow> a4 | Some rsz \<Rightarrow> queue_remote_resize e wid rsz a4))"

fun window_event :: "env \<Rightarrow> u64 \<Rightarrow> WinitEvent \<Rightarrow> ViewerApp \<Rightarrow> ViewerApp" where
  "window_event e wid WCloseRequested a = input_step (CloseRequested wid) a"
| "window_event e wid (WFocused focused) a =
     input_step (Focused wid focused) (if focused then with_view wid (enable_ime_at_last_cursor e) a else a)"
| "window_event e wid (WCursorMoved p) a = cursor_moved e wid p a"
| "window_event e wid WCursorLeft a = with_view wid clear_resize_cursor a"
| "window_event e wid (WMouseWheel delta) a = mouse_wheel e wid delta a"
| "window_event e wid (WMouseInput state button) a = mouse_input e wid state button a"
| "window_event e wid (WKeyboardInput ev) a = keyboard_input e wid ev a"
| "window_event e wid (WModifiersChanged m) a = input_step (ModifiersChanged m) a"
| "window_event e wid (WIme ime) a = input_step (ImeInput wid ime) a"
| "window_event e wid (WThemeChanged theme) a = with_view wid (set_theme theme) a"
| "window_event e wid (WResized sz) a = resized e wid sz a"
| "window_event e wid WRedrawRequested a = with_view wid (render_pending_redraw e) a"
| "window_event e wid WOther a = a"

datatype viewer_event = Resumed | HostEvent nat WinitEvent | Incoming Message | Disconnected | DumpWindows | AboutToWait

fun viewer_app_step :: "ViewerApp \<Rightarrow> env \<times> viewer_event \<Rightarrow> ViewerApp" where
  "viewer_app_step a (e, Resumed) = ensure_keepalive_window e a"
| "viewer_app_step a (e, HostEvent hid ev) =
     (case map_of (va_window_ids a) hid of None \<Rightarrow> a | Some wid \<Rightarrow> window_event e wid ev a)"
| "viewer_app_step a (e, Incoming msg) = handle_message e msg a"
| "viewer_app_step a (e, Disconnected) = exit_loop a"
| "viewer_app_step a (e, DumpWindows) = a"
| "viewer_app_step a (e, AboutToWait) = flush_due_remote_resizes e a"

section \<open>Methods keep the host window\<close>

lemma call_fields [simp]:
  "w_host (call c w) = w_host w" "w_adopted (call c w) = w_adopted w" "w_frame (call c w) = w_frame w"
  "w_host_fullscreen (call c w) = w_host_fullscreen w" "w_calls (call c w) = w_calls w @ [c]"
  "w_last_cursor (call c w) = w_last_cursor w" "w_move (call c w) = w_move w" "w_app_id (call c w) = w_app_id w"
  "w_own_chrome (call c w) = w_own_chrome w" "w_pending_programmatic (call c w) = w_pending_programmatic w"
  "w_last_window_cursor (call c w) = w_last_window_cursor w"
  by (simp_all add: call_def)

lemma request_redraw_host [simp]: "w_host (request_redraw w) = w_host w"
  by (simp add: request_redraw_def)

lemma render_host [simp]: "w_host (render e w) = w_host w"
  by (simp add: render_def show_after_first_present_def Let_def split: prod.split)

lemma hide_host [simp]: "w_host (hide w) = w_host w"
  by (simp add: hide_def)

lemma size_host [simp]:
  "w_host (request_scaled_inner_size e w) = w_host w"
  "w_host (request_scaled_inner_size_if_needed e w) = w_host w"
  "w_host (set_view_scale e s w) = w_host w"
  "w_host (set_theme t w) = w_host w"
  "w_host (render_pending_redraw e w) = w_host w"
  "w_host (apply_edge_snap_rect e r w) = w_host w"
  by (simp_all add: request_scaled_inner_size_def request_scaled_inner_size_if_needed_def set_view_scale_def
      set_theme_def render_pending_redraw_def apply_edge_snap_rect_def Let_def split: prod.split)

lemma resize_to_remote_host [simp]: "w_host (resize_to_remote_size e x y w) = w_host w"
  by (simp add: resize_to_remote_size_def Let_def split: option.split prod.split)

lemma cursor_host [simp]:
  "w_host (update_ime_cursor_area e p w) = w_host w"
  "w_host (enable_ime_at_last_cursor e w) = w_host w"
  "w_host (update_resize_cursor e c w) = w_host w"
  "w_host (clear_resize_cursor w) = w_host w"
  "w_host (settle_cursor e w) = w_host w"
  by (simp_all add: update_ime_cursor_area_def enable_ime_at_last_cursor_def update_resize_cursor_def clear_resize_cursor_def
      settle_cursor_def Let_def split: option.split)

lemma cursor_host_option:
  "sync_cursor_from_window_position e w = Some w' \<Longrightarrow> w_host w' = w_host w"
  "cache_frame_cursor e p w = Some w' \<Longrightarrow> w_host w' = w_host w"
  "cache_cursor_at e p w = Some w' \<Longrightarrow> w_host w' = w_host w"
  by (auto simp: sync_cursor_from_window_position_def cache_frame_cursor_def cache_cursor_at_def split: option.splits)

lemma move_host [simp]:
  "w_host (remember_left_press e w) = w_host w"
  "w_host (clear_pending_move w) = w_host w"
  "w_host (snd (begin_manual_move e w)) = w_host w"
  "w_host (snd (update_manual_move p w)) = w_host w"
  "w_host (snd (snap_to_cursor_tile e w)) = w_host w"
  "w_host (snd (snap_to_cursor_left_right_edge e w)) = w_host w"
  by (simp_all add: remember_left_press_def clear_pending_move_def begin_manual_move_def update_manual_move_def
      snap_to_cursor_tile_def snap_to_cursor_left_right_edge_def Let_def split: option.split MoveState.split prod.split)

lemma snap_host [simp]: "w_host (snap_after_move e w) = w_host w"
  by (simp add: snap_after_move_def case_prod_beta)

lemma requested_move_host [simp]: "w_host (begin_requested_move e w) = w_host w"
  by (cases "w_move w"; cases "w_last_window_cursor w") (simp_all add: begin_requested_move_def Let_def)

lemma resize_host [simp]:
  "w_host (snd (finish_manual_move e w)) = w_host w"
  "w_host (snd (begin_manual_resize e w)) = w_host w"
  "w_host (snd (update_manual_resize e p w)) = w_host w"
  "w_host (snd (finish_manual_resize e w)) = w_host w"
  "w_host (snd (consume_suppressed_left_release w)) = w_host w"
  "w_host (snd (consume_programmatic_resize sz w)) = w_host w"
  by (simp_all add: finish_manual_move_def begin_manual_resize_def update_manual_resize_def finish_manual_resize_def
      consume_suppressed_left_release_def consume_programmatic_resize_def Let_def
      split: option.split MoveState.split prod.split)

lemma resized_host [simp]: "w_host (fst (resized_view e sz w)) = w_host w"
  by (simp add: resized_view_def Let_def case_prod_beta)

lemma titlebar_host: "take_titlebar_toggle_on_left_press e w = Some (b, w') \<Longrightarrow> w_host w' = w_host w"
proof -
  assume "take_titlebar_toggle_on_left_press e w = Some (b, w')"
  then obtain w0 where w0: "sync_cursor_from_window_position e w = Some w0"
    by (auto simp: take_titlebar_toggle_on_left_press_def)
  with \<open>take_titlebar_toggle_on_left_press e w = _\<close> have "w_host w' = w_host w0"
    by (simp add: take_titlebar_toggle_on_left_press_def Let_def case_prod_beta split: if_splits) auto
  with w0 show ?thesis by (simp add: cursor_host_option(1))
qed

section \<open>Invariant\<close>

text \<open>
  The window table, the table of host ids, the table of titles and composers, and the timers
  agree: a host id leads to the window it was created for and to no other, and no timer and no
  retirement outlives its window.
\<close>

definition hosts :: "ViewerApp \<Rightarrow> (u64 \<times> nat) list" where
  "hosts a = map (\<lambda>p. (fst p, w_host (snd p))) (va_windows a)"

definition timed :: "ViewerApp \<Rightarrow> u64 set" where
  "timed a = fst ` set (va_resizes a) \<union> fst ` set (va_fullscreen_exits a) \<union> fst ` set (va_host_resyncs a) \<union> set (va_retired a)"

definition titled :: "viewer \<Rightarrow> u64 set" where
  "titled v = {wid. map_of (vwindows v) wid \<noteq> None}"

definition viewer_app_inv :: "ViewerApp \<Rightarrow> bool" where
  "viewer_app_inv a \<longleftrightarrow> distinct (map fst (hosts a))
     \<and> (\<forall>hid wid. map_of (va_window_ids a) hid = Some wid \<longleftrightarrow> map_of (hosts a) wid = Some hid)
     \<and> (\<forall>hid. va_next_host a \<le> hid \<longrightarrow> map_of (va_window_ids a) hid = None)
     \<and> titled (va_input a) = set (map fst (hosts a))
     \<and> timed a \<subseteq> set (map fst (hosts a))
     \<and> distinct (map fst (va_resizes a))
     \<and> keys_inv (va_input a)"

lemma map_of_hosts: "map_of (hosts a) wid = map_option w_host (view wid a)"
proof -
  have "map_of (map (\<lambda>p. (fst p, w_host (snd p))) ws) wid = map_option w_host (map_of ws wid)" for ws
    by (induction ws) auto
  then show ?thesis by (simp add: hosts_def view_def)
qed

lemma view_iff: "view wid a \<noteq> None \<longleftrightarrow> wid \<in> set (map fst (hosts a))"
  by (simp add: view_def hosts_def map_of_eq_None_iff image_image)

lemma hosts_fst: "map fst (hosts a) = map fst (va_windows a)"
  by (simp add: hosts_def)

lemma viewer_app_invI:
  assumes "viewer_app_inv a" and "hosts a' = hosts a" and "va_window_ids a' = va_window_ids a" and "va_next_host a' = va_next_host a"
    and "titled (va_input a') = titled (va_input a)" and "keys_inv (va_input a')"
    and "timed a' \<subseteq> timed a \<union> {wid. view wid a \<noteq> None}" and "distinct (map fst (va_resizes a'))"
  shows "viewer_app_inv a'"
proof -
  have "{wid. view wid a \<noteq> None} = set (map fst (hosts a))" using view_iff by blast
  with assms show ?thesis unfolding viewer_app_inv_def by auto
qed

lemma hosts_update:
  "map_of ws wid = Some w \<Longrightarrow> w_host w' = w_host w \<Longrightarrow>
     map (\<lambda>p. (fst p, w_host (snd p))) (AList.update wid w' ws) = map (\<lambda>p. (fst p, w_host (snd p))) ws"
  by (induction ws) auto

lemma hosts_with_view [simp]:
  "(\<And>w. view wid a = Some w \<Longrightarrow> w_host (f w) = w_host w) \<Longrightarrow> hosts (with_view wid f a) = hosts a"
  by (simp add: with_view_def hosts_def view_def hosts_update split: option.split)

lemma with_view_fields [simp]:
  "va_window_ids (with_view wid f a) = va_window_ids a" "va_next_host (with_view wid f a) = va_next_host a"
  "va_input (with_view wid f a) = va_input a" "va_resizes (with_view wid f a) = va_resizes a"
  "va_fullscreen_exits (with_view wid f a) = va_fullscreen_exits a" "va_host_resyncs (with_view wid f a) = va_host_resyncs a"
  "va_retired (with_view wid f a) = va_retired a" "va_empty_since (with_view wid f a) = va_empty_since a"
  "va_exited (with_view wid f a) = va_exited a" "va_host_chrome (with_view wid f a) = va_host_chrome a"
  "va_control_flow (with_view wid f a) = va_control_flow a"
  by (simp_all add: with_view_def split: option.split)

lemma view_with_view: "view k (with_view wid f a) = (if k = wid then map_option f (view wid a) else view k a)"
  by (auto simp: with_view_def view_def update_conv' split: option.split)

lemma timed_with_view [simp]: "timed (with_view wid f a) = timed a"
  by (simp add: timed_def)

lemma with_view_inv [step_inv]:
  "viewer_app_inv a \<Longrightarrow> (\<And>w. view wid a = Some w \<Longrightarrow> w_host (f w) = w_host w) \<Longrightarrow> viewer_app_inv (with_view wid f a)"
  by (rule viewer_app_invI [of a]) (auto simp: viewer_app_inv_def)

lemma keys_inv_input: "viewer_app_inv a \<Longrightarrow> keys_inv (va_input a)"
  by (simp add: viewer_app_inv_def)

lemma resizes_distinct: "viewer_app_inv a \<Longrightarrow> distinct (map fst (va_resizes a))"
  by (simp add: viewer_app_inv_def)

lemma send_inv [step_inv]: "viewer_app_inv a \<Longrightarrow> (\<And>k h. key_effect k ev h = h) \<Longrightarrow> viewer_app_inv (send ev a)"
  by (rule viewer_app_invI [of a]) (auto simp: viewer_app_inv_def send_def hosts_def titled_def timed_def send_neutral_inv send_input_def view_def
      intro: send_neutral_inv [unfolded send_input_def])

subsection \<open>The table of titles\<close>

lemma titled_basic [simp]:
  "titled (send_input ev v) = titled v" "titled (compose f wid v) = titled v" "titled (flush_composer wid v) = titled v"
  "titled (send_host_text wid t v) = titled v" "titled (v\<lparr>modifiers := m\<rparr>) = titled v" "titled (v\<lparr>zooms := z\<rparr>) = titled v"
  "titled (v\<lparr>window_dumps := d\<rparr>) = titled v" "titled (v\<lparr>modifier_counts := c\<rparr>) = titled v"
  "titled (v\<lparr>pressed_guest_keys := p\<rparr>) = titled v"
  by (simp_all add: titled_def send_host_text_def del: not_None_eq)

lemma titled_keys [simp]:
  "titled (send_tracked_guest_key wid k st v) = titled v"
  "titled (forget_key wid k v) = titled v"
  "titled (release_guest_key_if_pressed k v) = titled v"
  by (cases st; simp add: forget_key_def release_guest_key_if_pressed_def split: option.split)+

lemma titled_modifier [simp]: "titled (send_tracked_guest_modifier_key wid k st v) = titled v"
  by (simp add: send_tracked_guest_modifier_key_def Let_def case_prod_beta)

lemma titled_release [simp]: "titled (release_window_guest_keys wid v) = titled v"
proof -
  have "titled (fold (forget_key wid) ks v) = titled v" for ks by (induction ks arbitrary: v) simp_all
  then show ?thesis by (simp add: release_window_guest_keys_def Let_def)
qed

lemma titled_clear [simp]:
  "titled (clear_shortcut_modifier_cache wid b v) = titled v"
  "titled (clear_stale_shortcut_modifiers_for_text wid v) = titled v"
  "titled (terminal_new_tab wid v) = titled v"
  by (simp_all add: clear_shortcut_modifier_cache_def clear_stale_shortcut_modifiers_for_text_def terminal_new_tab_def Let_def)

lemma titled_handlers [simp]:
  "titled (handle_guest_key wid ev v) = titled v" "titled (handle_keyboard wid ev v) = titled v" "titled (handle_ime wid ime v) = titled v"
proof -
  show key: "titled (handle_guest_key wid ev v) = titled v" for v
    by (simp add: handle_guest_key_def Let_def del: send_tracked_guest_key.simps split: option.split)
  show "titled (handle_keyboard wid ev v) = titled v"
    by (simp add: handle_keyboard_def Let_def key split: option.split)
  have "titled (apply_ime wid ime v) = titled v" for v
    by (cases ime) (simp_all add: case_prod_beta)
  then show "titled (handle_ime wid ime v) = titled v" by (simp add: handle_ime_def Let_def)
qed

lemma titled_map: "titled (v\<lparr>vwindows := map (\<lambda>(k, x). (k, g k x)) (vwindows v)\<rparr>) = titled v"
  by (simp add: titled_def map_of_eq_None_iff image_image case_prod_beta del: not_None_eq)

lemma titled_step:
  "(\<And>wid t. ev \<noteq> WindowCreated wid t) \<Longrightarrow> (\<And>wid. ev \<noteq> WindowRemoved wid) \<Longrightarrow> titled (viewer_input_step v ev) = titled v"
  by (cases ev; (blast | simp add: on_window_def titled_map))

lemma titled_created:
  "titled (viewer_input_step v (WindowCreated wid t)) = insert wid (titled v)"
  by (auto simp: titled_def)

lemma titled_removed: "titled (remove_window wid v) = titled v - {wid}"
  unfolding remove_window_def titled_release by (auto simp: titled_def delete_conv' split: if_splits)

lemma input_step_inv [step_inv]:
  "viewer_app_inv a \<Longrightarrow> (\<And>wid t. ev \<noteq> WindowCreated wid t) \<Longrightarrow> (\<And>wid. ev \<noteq> WindowRemoved wid) \<Longrightarrow> viewer_app_inv (input_step ev a)"
  by (rule viewer_app_invI [of a])
    (auto simp: viewer_app_inv_def input_step_def hosts_def titled_step timed_def view_def viewer_input_step_inv simp del: viewer_input_step.simps)

lemma set_title_inv: "keys_inv v \<Longrightarrow> keys_inv (set_title_of wid t v)" "titled (set_title_of wid t v) = titled v"
proof -
  have same: "map_of (vwindows (set_title_of wid t v)) x = None \<longleftrightarrow> map_of (vwindows v) x = None" for x
    by (simp add: set_title_of_def map_of_eq_None_iff image_image case_prod_beta)
  show "titled (set_title_of wid t v) = titled v" using same by (simp add: titled_def del: not_None_eq)
  assume "keys_inv v"
  then show "keys_inv (set_title_of wid t v)"
    by (rule keys_invI) (simp_all add: same del: not_None_eq, simp_all add: set_title_of_def)
qed

subsection \<open>The handlers keep the invariant\<close>

lemma plain_inv [step_inv]:
  "viewer_app_inv a \<Longrightarrow> viewer_app_inv (exit_loop a)" "viewer_app_inv a \<Longrightarrow> viewer_app_inv (panic a)"
  "viewer_app_inv a \<Longrightarrow> viewer_app_inv (ensure_keepalive_window e a)"
  "viewer_app_inv a \<Longrightarrow> viewer_app_inv (maybe_warn_about_guest_chrome i t a)"
  "viewer_app_inv a \<Longrightarrow> viewer_app_inv (a\<lparr>va_empty_since := x\<rparr>)" "viewer_app_inv a \<Longrightarrow> viewer_app_inv (a\<lparr>va_control_flow := c\<rparr>)"
  "viewer_app_inv a \<Longrightarrow> viewer_app_inv (a\<lparr>va_clip_in := l\<rparr>)"
  by (simp_all add: viewer_app_inv_def exit_loop_def panic_def ensure_keepalive_window_def maybe_warn_about_guest_chrome_def
      hosts_def timed_def Let_def split: option.split)

lemma plain_hosts [simp]:
  "hosts (maybe_warn_about_guest_chrome i t a) = hosts a"
  "view wid (maybe_warn_about_guest_chrome i t a) = view wid a"
  by (simp_all add: maybe_warn_about_guest_chrome_def hosts_def view_def Let_def split: option.split)

lemma title_inv [step_inv]: "viewer_app_inv a \<Longrightarrow> viewer_app_inv (set_window_title wid t a)"
proof -
  assume "viewer_app_inv a"
  then have inv: "viewer_app_inv (with_view wid (call (SetTitle t)) a)" by (rule with_view_inv) simp
  then show ?thesis
    unfolding set_window_title_def
    by (rule viewer_app_invI) (use \<open>viewer_app_inv a\<close> in \<open>auto simp: hosts_def set_title_inv timed_def keys_inv_input resizes_distinct\<close>)
qed

lemma dom_delete_keys: "fst ` set (AList.delete k p) = fst ` set p - {k}"
  by (auto simp: AList.delete_eq)

lemma timers_changed:
  assumes "viewer_app_inv a" and "hosts a' = hosts a" and "va_window_ids a' = va_window_ids a" and "va_next_host a' = va_next_host a"
    and "va_input a' = va_input a" and "distinct (map fst (va_resizes a'))" and "timed a' \<subseteq> insert wid (timed a)"
    and "wid \<in> timed a' \<Longrightarrow> wid \<in> timed a \<or> view wid a \<noteq> None"
  shows "viewer_app_inv a'"
proof (rule viewer_app_invI [OF assms(1-4)])
  show "timed a' \<subseteq> timed a \<union> {wid. view wid a \<noteq> None}" using assms(7,8) by auto
qed (use assms(1,5,6) in \<open>simp_all add: keys_inv_input\<close>)

lemmas timer_defs = drop_timers_def queue_remote_resize_def queue_fullscreen_exit_resync_def queue_host_resize_resync_def

lemma timer_fields [simp]:
  "hosts (drop_timers wid a) = hosts a" "hosts (queue_remote_resize e wid sz a) = hosts a"
  "hosts (queue_fullscreen_exit_resync e wid a) = hosts a" "hosts (queue_host_resize_resync e wid a) = hosts a"
  "va_input (drop_timers wid a) = va_input a" "va_input (queue_remote_resize e wid sz a) = va_input a"
  "va_input (queue_fullscreen_exit_resync e wid a) = va_input a" "va_input (queue_host_resize_resync e wid a) = va_input a"
  "view k (drop_timers wid a) = view k a" "view k (queue_remote_resize e wid sz a) = view k a"
  "view k (queue_fullscreen_exit_resync e wid a) = view k a" "view k (queue_host_resize_resync e wid a) = view k a"
  by (simp_all add: timer_defs hosts_def view_def)

lemma timed_timers:
  "timed (drop_timers wid a) \<subseteq> timed a"
  "timed (queue_remote_resize e wid sz a) = insert wid (timed a)"
  "timed (queue_fullscreen_exit_resync e wid a) \<subseteq> insert wid (timed a)"
  "timed (queue_host_resize_resync e wid a) = insert wid (timed a)"
  by (auto simp: timer_defs timed_def AList.dom_update dom_delete_keys)

lemma timers_inv [step_inv]:
  assumes "viewer_app_inv a"
  shows "viewer_app_inv (drop_timers wid a)"
    and "view wid a \<noteq> None \<Longrightarrow> viewer_app_inv (queue_remote_resize e wid sz a)"
    and "view wid a \<noteq> None \<Longrightarrow> viewer_app_inv (queue_fullscreen_exit_resync e wid a)"
    and "view wid a \<noteq> None \<Longrightarrow> viewer_app_inv (queue_host_resize_resync e wid a)"
    and "viewer_app_inv (a\<lparr>va_host_resyncs := AList.delete wid (va_host_resyncs a)\<rparr>)"
    and "viewer_app_inv (a\<lparr>va_retired := removeAll wid (va_retired a)\<rparr>)"
proof -
  note rule = timers_changed [OF assms, where wid = wid]
  note simps = timer_defs hosts_def timed_def dom_delete_keys AList.dom_update distinct_delete distinct_update resizes_distinct [OF assms]
  show "viewer_app_inv (drop_timers wid a)" "view wid a \<noteq> None \<Longrightarrow> viewer_app_inv (queue_remote_resize e wid sz a)"
      "view wid a \<noteq> None \<Longrightarrow> viewer_app_inv (queue_fullscreen_exit_resync e wid a)"
      "view wid a \<noteq> None \<Longrightarrow> viewer_app_inv (queue_host_resize_resync e wid a)"
      "viewer_app_inv (a\<lparr>va_host_resyncs := AList.delete wid (va_host_resyncs a)\<rparr>)"
      "viewer_app_inv (a\<lparr>va_retired := removeAll wid (va_retired a)\<rparr>)"
    by (rule rule; auto simp: simps)+
qed

text \<open>Creating, retiring and removing a window.\<close>

lemma drop_window_fields:
  "va_windows (drop_window wid a) = AList.delete wid (va_windows a)"
  "va_input (drop_window wid a) = remove_window wid (va_input a)"
  "va_next_host (drop_window wid a) = va_next_host a"
  "va_retired (drop_window wid a) = removeAll wid (va_retired a)"
  "va_resizes (drop_window wid a) = AList.delete wid (va_resizes a)"
  "va_fullscreen_exits (drop_window wid a) = AList.delete wid (va_fullscreen_exits a)"
  "va_host_resyncs (drop_window wid a) = AList.delete wid (va_host_resyncs a)"
  "va_window_ids (drop_window wid a) = (case view wid a of None \<Rightarrow> va_window_ids a | Some w \<Rightarrow> AList.delete (w_host w) (va_window_ids a))"
  "va_empty_since (drop_window wid a) = va_empty_since a"
  by (simp_all add: drop_window_def Let_def drop_timers_def view_def split: option.split)

lemma hosts_drop: "hosts (drop_window wid a) = AList.delete wid (hosts a)"
proof -
  have "map (\<lambda>p. (fst p, w_host (snd p))) (AList.delete wid ws) = AList.delete wid (map (\<lambda>p. (fst p, w_host (snd p))) ws)" for ws
    by (induction ws) auto
  then show ?thesis by (simp add: hosts_def drop_window_fields)
qed

lemma drop_window_inv [step_inv]:
  assumes "viewer_app_inv a"
  shows "viewer_app_inv (drop_window wid a)"
proof -
  note inv = assms [unfolded viewer_app_inv_def]
  have iff: "map_of (va_window_ids a) h = Some j \<longleftrightarrow> map_of (hosts a) j = Some h" for h j using inv by blast
  have ids: "map_of (va_window_ids (drop_window wid a)) hid = Some k \<longleftrightarrow> map_of (AList.delete wid (hosts a)) k = Some hid" for hid k
  proof (cases "view wid a")
    case None
    then have "map_of (hosts a) wid = None" by (simp add: map_of_hosts)
    then show ?thesis using None iff [of hid k]
      by (cases "k = wid") (simp_all add: drop_window_fields delete_conv' del: map_of_eq_Some_iff Some_eq_map_of_iff)
  next
    case (Some w)
    then have w: "map_of (hosts a) wid = Some (w_host w)" by (simp add: map_of_hosts)
    have rev_id: "map_of (va_window_ids a) (w_host w) = Some wid" using w iff [of "w_host w" wid] by (simp only: simp_thms)
    have "map_of (va_window_ids (drop_window wid a)) hid = (if hid = w_host w then None else map_of (va_window_ids a) hid)"
        "map_of (AList.delete wid (hosts a)) k = (if k = wid then None else map_of (hosts a) k)"
      by (simp_all add: drop_window_fields Some delete_conv')
    then show ?thesis using w rev_id iff [of hid k] by (metis option.distinct(1) option.inject)
  qed
  have facts: "distinct (map fst (hosts a))" "titled (va_input a) = set (map fst (hosts a))" "timed a \<subseteq> set (map fst (hosts a))"
      "distinct (map fst (va_resizes a))" "keys_inv (va_input a)"
    and fresh: "va_next_host a \<le> h \<Longrightarrow> map_of (va_window_ids a) h = None" for h
    using inv by blast+
  show ?thesis
    unfolding viewer_app_inv_def hosts_drop
  proof (intro conjI allI impI)
    show "distinct (map fst (AList.delete wid (hosts a)))" using facts(1) by (rule distinct_delete)
    show "map_of (va_window_ids (drop_window wid a)) hid = None" if "va_next_host (drop_window wid a) \<le> hid" for hid
      using that fresh [of hid] by (simp add: drop_window_fields delete_conv' split: option.split)
    show "titled (va_input (drop_window wid a)) = set (map fst (AList.delete wid (hosts a)))"
      using facts(2) by (simp add: drop_window_fields titled_removed dom_delete_keys)
    show "timed (drop_window wid a) \<subseteq> set (map fst (AList.delete wid (hosts a)))"
      using facts(3) by (auto simp: drop_window_fields timed_def dom_delete_keys)
    show "distinct (map fst (va_resizes (drop_window wid a)))" using facts(4) by (simp add: drop_window_fields distinct_delete)
    show "keys_inv (va_input (drop_window wid a))" using facts(5) by (simp add: drop_window_fields remove_window_inv)
  qed (rule ids)
qed

lemma retire_inv [step_inv]:
  assumes "viewer_app_inv a" and "view wid a \<noteq> None"
  shows "viewer_app_inv (retire_last_window wid a)"
proof -
  define a1 where "a1 = input_step (WindowRetired wid) (drop_timers wid (with_view wid hide a))"
  have inv: "viewer_app_inv a1" unfolding a1_def using assms(1) by (intro input_step_inv timers_inv with_view_inv) simp_all
  have "hosts a1 = hosts a" by (simp add: a1_def input_step_def hosts_def [of "_\<lparr>va_input := _\<rparr>"] hosts_def [symmetric])
  with assms(2) have "view wid a1 \<noteq> None" unfolding view_iff by simp
  then show ?thesis
    unfolding retire_last_window_def a1_def [symmetric] Let_def
    by (intro timers_changed [OF inv, where wid = wid]) (auto simp: hosts_def timed_def resizes_distinct [OF inv] del: not_None_eq)
qed

lemma created_inv:
  assumes "viewer_app_inv a" and "view wid a = None" and "w_host w = va_next_host a"
  shows "viewer_app_inv (input_step (WindowCreated wid t) (a\<lparr>va_next_host := Suc (va_next_host a),
    va_window_ids := AList.update (va_next_host a) wid (va_window_ids a), va_windows := AList.update wid w (va_windows a)\<rparr>))"
    (is "viewer_app_inv ?a'")
proof -
  note inv = assms(1) [unfolded viewer_app_inv_def]
  define n where "n = va_next_host a"
  have iff: "map_of (va_window_ids a) h = Some j \<longleftrightarrow> map_of (hosts a) j = Some h" for h j using inv by blast
  have facts: "distinct (map fst (hosts a))" "titled (va_input a) = set (map fst (hosts a))" "timed a \<subseteq> set (map fst (hosts a))"
      "distinct (map fst (va_resizes a))" "keys_inv (va_input a)"
    and fresh: "n \<le> h \<Longrightarrow> map_of (va_window_ids a) h = None" for h
    unfolding n_def using inv by blast+
  have new: "wid \<notin> fst ` set (va_windows a)" using assms(2) by (simp add: view_def map_of_eq_None_iff)
  have hosts: "hosts ?a' = hosts a @ [(wid, n)]"
    using new assms(3) by (simp add: hosts_def input_step_def update_fresh n_def)
  have wid: "map_of (hosts a) wid = None" using assms(2) by (simp add: map_of_hosts)
  have ids: "map_of (va_window_ids ?a') h = (if h = n then Some wid else map_of (va_window_ids a) h)"
      "map_of (hosts a @ [(wid, n)]) j = (if j = wid then Some n else map_of (hosts a) j)" for h j
    using wid by (simp_all add: input_step_def update_conv' n_def map_add_def split: option.split)
  show ?thesis
    unfolding viewer_app_inv_def hosts
  proof (intro conjI allI impI)
    show "distinct (map fst (hosts a @ [(wid, n)]))" using facts(1) new by (simp add: hosts_fst image_iff)
    show "map_of (va_window_ids ?a') h = Some j \<longleftrightarrow> map_of (hosts a @ [(wid, n)]) j = Some h" for h j
      unfolding ids using iff [of h j] fresh [of n] iff [of n j] wid by (metis option.distinct(1) option.inject order_refl)
    show "map_of (va_window_ids ?a') h = None" if "va_next_host ?a' \<le> h" for h
      using that fresh [of h] unfolding ids by (simp add: input_step_def n_def)
    show "titled (va_input ?a') = set (map fst (hosts a @ [(wid, n)]))"
      using facts(2) by (simp add: input_step_def titled_created del: viewer_input_step.simps)
    show "timed ?a' \<subseteq> set (map fst (hosts a @ [(wid, n)]))" using facts(3) by (auto simp: timed_def input_step_def)
    show "distinct (map fst (va_resizes ?a'))" using facts(4) by (simp add: input_step_def)
    show "keys_inv (va_input ?a')" using facts(5) by (simp add: input_step_def viewer_input_step_inv del: viewer_input_step.simps)
  qed
qed

lemma create_window_inv [step_inv]:
  assumes "viewer_app_inv a"
  shows "viewer_app_inv (create_window e wid x y t i a)"
proof (cases "view wid a")
  case None
  define a1 where "a1 = maybe_warn_about_guest_chrome i (window_title t) a"
  have "viewer_app_inv a1" "view wid a1 = None" using assms None by (simp_all add: a1_def plain_inv)
  then show ?thesis
    using None unfolding create_window_def Let_def a1_def [symmetric]
    by (auto intro!: with_view_inv created_inv plain_inv simp: new_view_def)
next
  case (Some w)
  then show ?thesis
    using assms unfolding create_window_def Let_def
    by (simp add: with_view_inv title_inv timers_inv)
qed

lemma pair_host:
  "begin_manual_move e w = (b, w') \<Longrightarrow> w_host w' = w_host w" "update_manual_move p w = (b, w') \<Longrightarrow> w_host w' = w_host w"
  "finish_manual_move e w = (b, w') \<Longrightarrow> w_host w' = w_host w" "begin_manual_resize e w = (b, w') \<Longrightarrow> w_host w' = w_host w"
  "update_manual_resize e p w = (b, w') \<Longrightarrow> w_host w' = w_host w" "finish_manual_resize e w = (b, w') \<Longrightarrow> w_host w' = w_host w"
  "consume_suppressed_left_release w = (b, w') \<Longrightarrow> w_host w' = w_host w"
  using move_host(3) [of e w] move_host(4) [of p w] resize_host(1,2,4) [of e w] resize_host(3) [of e p w] resize_host(5) [of w]
  by simp_all

lemma press_focus_inv [step_inv]: "viewer_app_inv a \<Longrightarrow> viewer_app_inv (press_focus e wid a)"
  by (simp add: press_focus_def send_inv with_view_inv)

lemma send_view [simp]: "view wid (send ev a) = view wid a" "hosts (send ev a) = hosts a"
  by (simp_all add: send_def view_def hosts_def)

lemma forward_button_inv [step_inv]: "viewer_app_inv a \<Longrightarrow> viewer_app_inv (forward_button e wid st b c a)"
  by (simp add: forward_button_def send_inv press_focus_inv split: option.split)

lemma motion_inv [step_inv]: "viewer_app_inv a \<Longrightarrow> viewer_app_inv (motion wid a)"
  by (simp add: motion_def send_inv split: option.split)

lemma put_inv: "viewer_app_inv a \<Longrightarrow> view wid a = Some w0 \<Longrightarrow> w_host w = w_host w0 \<Longrightarrow> viewer_app_inv (with_view wid (\<lambda>_. w) a)"
  by (rule with_view_inv) auto

lemma cursor_moved_inv [step_inv]:
  assumes "viewer_app_inv a"
  shows "viewer_app_inv (cursor_moved e wid p a)"
proof (cases "view wid a")
  case (Some w0)
  define w where "w = w0\<lparr>w_last_window_cursor := Some p\<rparr>"
  obtain b w' where m: "update_manual_move p w = (b, w')" by fastforce
  obtain c w'' where r: "update_manual_resize e p w' = (c, w'')" by fastforce
  define w3 where "w3 = update_resize_cursor e p w''"
  have h: "w_host w' = w_host w0" "w_host w'' = w_host w0" "w_host w3 = w_host w0"
    using pair_host(2) [OF m] pair_host(5) [OF r] by (simp_all add: w_def w3_def)
  have *: "cursor_moved e wid p a = (if b then with_view wid (\<lambda>_. w') a else if c then with_view wid (\<lambda>_. w'') a
      else if w_hover w3 \<noteq> None then with_view wid (\<lambda>_. w3) a
      else case cache_frame_cursor e p w3 of None \<Rightarrow> panic a
        | Some w4 \<Rightarrow> motion wid (with_view wid (\<lambda>_. update_ime_cursor_area e (w_last_cursor w4) w4) a))"
    using Some m r by (simp add: cursor_moved_def Let_def w_def [symmetric] w3_def [symmetric] split: bool.split)
  show ?thesis
  proof (cases "cache_frame_cursor e p w3")
    case None
    with assms Some h show ?thesis unfolding * by (simp add: put_inv plain_inv)
  next
    case (Some w4)
    then have "w_host w4 = w_host w0" using cursor_host_option(2) h by metis
    with assms \<open>view wid a = Some w0\<close> h Some show ?thesis unfolding * by (simp add: put_inv motion_inv)
  qed
qed (use assms in \<open>simp add: cursor_moved_def\<close>)

lemma mouse_wheel_inv [step_inv]:
  assumes "viewer_app_inv a"
  shows "viewer_app_inv (mouse_wheel e wid d a)"
proof (cases "view wid a")
  case (Some w)
  have "viewer_app_inv (with_view wid (\<lambda>_. w') a)" if "cache_cursor_at e p w = Some w'" for w' p
    using assms Some cursor_host_option(3) [OF that] by (rule put_inv)
  with assms Some show ?thesis
    by (auto simp: mouse_wheel_def case_prod_beta Let_def send_inv motion_inv plain_inv split: option.split)
qed (use assms in \<open>simp add: mouse_wheel_def case_prod_beta Let_def send_inv\<close>)

lemma left_pressed_inv:
  assumes "viewer_app_inv a" and "view wid a = Some w0" and "w_host w = w_host w0"
  shows "viewer_app_inv (left_pressed e wid c w a)"
proof (cases "if va_host_chrome a then Some (False, w) else take_titlebar_toggle_on_left_press e w")
  case None
  with assms show ?thesis by (simp add: left_pressed_def plain_inv)
next
  case (Some r)
  obtain b w1 where r: "r = (b, w1)" by (cases r)
  then have w1: "w_host w1 = w_host w0" using Some assms(3) titlebar_host by (auto split: if_splits)
  define w2 where "w2 = remember_left_press e w1"
  obtain hm w3 where w3: "(if host_move_modifier_active (modifiers (va_input a)) then begin_manual_move e w2 else (False, w2)) = (hm, w3)"
    by fastforce
  then have h3: "w_host w3 = w_host w0" using pair_host(1) w1 by (auto simp: w2_def split: if_splits)
  obtain hr w4 where w4: "begin_manual_resize e w3 = (hr, w4)" by fastforce
  then have h4: "w_host w4 = w_host w0" using pair_host(4) h3 by metis
  have "left_pressed e wid c w a = (if b then toggle_maximize e wid (with_view wid (\<lambda>_. w1) a)
      else if hm then with_view wid (\<lambda>_. w3) a
      else if hr then press_focus e wid (with_view wid (\<lambda>_. w4) a) else forward_button e wid Pressed LeftButton c (with_view wid (\<lambda>_. w4) a))"
    unfolding left_pressed_def Some r using w3 w4 by (simp add: Let_def w2_def [symmetric] split: bool.split)
  then show ?thesis
    using assms(1,2) w1 h3 h4
    by (simp add: toggle_maximize_def put_inv press_focus_inv forward_button_inv with_view_inv send_inv)
qed

lemma left_released_inv:
  assumes "viewer_app_inv a" and "view wid a = Some w0" and "w_host w = w_host w0"
  shows "viewer_app_inv (left_released e wid c w a)"
proof -
  obtain b w1 where w1: "consume_suppressed_left_release w = (b, w1)" by fastforce
  obtain hm w2 where w2: "finish_manual_move e w1 = (hm, w2)" by fastforce
  define w3 where "w3 = w2\<lparr>w_pending_tile := None\<rparr>"
  obtain hr w4 where w4: "finish_manual_resize e w3 = (hr, w4)" by fastforce
  have h: "w_host w1 = w_host w0" "w_host w3 = w_host w0" "w_host w4 = w_host w0"
    using pair_host(7) [OF w1] pair_host(3) [OF w2] pair_host(6) [OF w4] assms(3) by (simp_all add: w3_def)
  have live: "view wid (with_view wid (\<lambda>_. w3) a) \<noteq> None" using assms(2) by (simp add: view_with_view)
  have "left_released e wid c w a = (if b then with_view wid (\<lambda>_. w1) a
      else if hm then (case w_pending_tile w2 of None \<Rightarrow> with_view wid (\<lambda>_. w3) a
        | Some sz \<Rightarrow> queue_remote_resize e wid sz (with_view wid (\<lambda>_. w3) a))
      else if hr then press_focus e wid (with_view wid (\<lambda>_. w4) a) else forward_button e wid Released LeftButton c (with_view wid (\<lambda>_. w4) a))"
    unfolding left_released_def w1 using w2 w4 by (simp add: Let_def w3_def [symmetric] split: bool.split option.split)
  then show ?thesis
    using assms(1,2) h live
    by (simp add: put_inv press_focus_inv forward_button_inv timers_inv split: option.split)
qed

lemma mouse_input_inv [step_inv]:
  assumes "viewer_app_inv a"
  shows "viewer_app_inv (mouse_input e wid st b a)"
proof (cases "view wid a")
  case (Some w0)
  show ?thesis
  proof (cases "sync_cursor_from_window_position e w0")
    case None
    with assms Some show ?thesis by (simp add: mouse_input_def plain_inv)
  next
    case sync: (Some w)
    then have "w_host w = w_host w0" by (rule cursor_host_option)
    with assms Some sync show ?thesis
      by (simp add: mouse_input_def left_pressed_inv left_released_inv forward_button_inv put_inv)
  qed
qed (use assms in \<open>simp add: mouse_input_def forward_button_inv\<close>)

lemma fold_inv: "(\<And>x b. x \<in> set xs \<Longrightarrow> I b \<Longrightarrow> I (f x b)) \<Longrightarrow> I a \<Longrightarrow> I (fold f xs a)"
  by (induction xs arbitrary: a) simp_all

lemma keyboard_input_inv [step_inv]:
  assumes "viewer_app_inv a"
  shows "viewer_app_inv (keyboard_input e wid ev a)"
proof (cases "view wid a")
  case (Some w)
  have "viewer_app_inv (input_step (KeyboardInput wid ev) (input_step (FullscreenReported wid (hw_fullscreen (host_of e w))) a))"
    using assms by (intro input_step_inv) simp_all
  with Some show ?thesis
    unfolding keyboard_input_def Let_def
    by (simp, intro fold_inv [where I = viewer_app_inv]) (auto intro!: with_view_inv split: LogicalKey.split option.split)
qed (use assms in \<open>simp add: keyboard_input_def\<close>)

lemma resized_inv [step_inv]:
  assumes "viewer_app_inv a"
  shows "viewer_app_inv (resized e wid sz a)"
proof -
  define a0 where "a0 = a\<lparr>va_host_resyncs := AList.delete wid (va_host_resyncs a)\<rparr>"
  have inv: "viewer_app_inv a0" unfolding a0_def using assms by (rule timers_inv)
  show ?thesis
  proof (cases "view wid a0")
    case None
    with inv show ?thesis by (simp add: resized_def a0_def [symmetric])
  next
    case (Some w)
    obtain w' rs fs where r: "resized_view e sz w = (w', rs, fs)" by (cases "resized_view e sz w")
    define a1 where "a1 = with_view wid (\<lambda>_. w') a0"
    have a1: "viewer_app_inv a1" "view wid a1 \<noteq> None"
      unfolding a1_def using inv Some resized_host [of e sz w] r by (auto intro!: put_inv simp: view_with_view)
    have "viewer_app_inv (if fs = Some True then drop_timers wid (case fs of None \<Rightarrow> a1 | Some b \<Rightarrow> send (SetFullscreen wid b) a1)
        else case fs of None \<Rightarrow> a1 | Some b \<Rightarrow> send (SetFullscreen wid b) a1)"
      using a1 by (simp add: timers_inv send_inv split: option.split)
    with a1 show ?thesis
      unfolding resized_def a0_def [symmetric] Let_def Some r option.case prod.case a1_def [symmetric]
      by (auto simp: timers_inv send_inv split: option.split)
  qed
qed

lemma window_event_inv [step_inv]: "viewer_app_inv a \<Longrightarrow> viewer_app_inv (window_event e wid ev a)"
  by (cases ev) (simp_all add: input_step_inv with_view_inv cursor_moved_inv mouse_wheel_inv mouse_input_inv keyboard_input_inv resized_inv)

lemma remote_event_inv [step_inv]:
  assumes "viewer_app_inv a"
  shows "viewer_app_inv (handle_remote_window_event e ev a)"
proof (cases ev)
  case (MoveRequested wid)
  define a1 where "a1 = with_view wid (begin_requested_move e) a"
  have "viewer_app_inv a1" unfolding a1_def using assms by (simp add: with_view_inv)
  then show ?thesis using assms
    by (auto simp: MoveRequested a1_def [symmetric] take_pending_tile_def timers_inv with_view_inv view_with_view split: option.split bind_splits)
next
  case (FullscreenChanged wid fs)
  have "viewer_app_inv (with_view wid (\<lambda>w. (apply_window_fullscreen e fs (w\<lparr>w_pending_programmatic := None\<rparr>))\<lparr>w_host_fullscreen := fs\<rparr>) a)"
    using assms by (intro with_view_inv) (simp_all add: apply_window_fullscreen_def)
  then show ?thesis by (auto simp: FullscreenChanged Let_def timers_inv view_with_view)
next
  case (Destroyed wid)
  then show ?thesis using assms by (simp add: drop_window_inv) (auto intro!: plain_inv(5,6) retire_inv)
next
  case (TitleChanged wid t)
  have "viewer_app_inv (with_view wid (title_changed_view e (window_title t)) a)"
    using assms by (intro with_view_inv) (simp_all add: title_changed_view_def)
  then show ?thesis using assms by (auto simp: TitleChanged Let_def title_inv plain_inv split: option.split)
next
  case (Created wid geom t i)
  then show ?thesis using assms by (simp add: create_window_inv plain_inv)
next
  case (Configured wid geom)
  then show ?thesis using assms by (simp add: with_view_inv)
next
  case (Minimized wid)
  then show ?thesis using assms by (simp add: with_view_inv)
qed

lemma frame_tile_inv [step_inv]:
  assumes "viewer_app_inv a"
  shows "viewer_app_inv (handle_frame_tile e t a)"
proof (cases "view (tile_id t) a")
  case (Some w)
  have *: "viewer_app_inv (with_view (tile_id t) (\<lambda>_. render e (request_redraw (adopt_from_tile e b (w\<lparr>w_frame := fr, w_in_flight := None\<rparr>)))) a)"
    for b fr by (rule put_inv [OF assms Some]) (simp add: adopt_from_tile_def)
  show ?thesis
  proof (cases "apply_tile t (w_frame w)")
    case (Inr r)
    with Some * assms show ?thesis
      by (cases r) (simp add: handle_frame_tile_def Let_def timers_inv view_with_view)
  qed (use assms Some in \<open>simp add: handle_frame_tile_def\<close>)
qed (use assms in \<open>simp add: handle_frame_tile_def\<close>)

lemma message_inv [step_inv]: "viewer_app_inv a \<Longrightarrow> viewer_app_inv (handle_message e msg a)"
  by (cases msg) (simp_all add: remote_event_inv frame_tile_inv plain_inv)

lemma resize_now_inv [step_inv]: "viewer_app_inv a \<Longrightarrow> viewer_app_inv (send_remote_resize_now wid sz a)"
  by (simp add: send_remote_resize_now_def send_inv with_view_inv)

lemma retired_removed_inv [step_inv]: "viewer_app_inv a \<Longrightarrow> viewer_app_inv (remove_retired_windows a)"
proof -
  assume "viewer_app_inv a"
  then have "viewer_app_inv (a\<lparr>va_retired := []\<rparr>)"
    by (rule viewer_app_invI) (use \<open>viewer_app_inv a\<close> in \<open>auto simp: hosts_def timed_def keys_inv_input resizes_distinct\<close>)
  then show ?thesis unfolding remove_retired_windows_def by (intro fold_inv [where I = viewer_app_inv] drop_window_inv)
qed

lemma flush_ready_inv [step_inv]:
  assumes "viewer_app_inv a"
  shows "viewer_app_inv (flush_ready e a)"
proof -
  have "viewer_app_inv (retain_waiting e a)"
    using assms by (rule viewer_app_invI)
      (use assms in \<open>auto simp: retain_waiting_def hosts_def timed_def keys_inv_input resizes_distinct distinct_map_filter\<close>)
  then show ?thesis
    unfolding flush_ready_def
    by (intro fold_inv [where I = viewer_app_inv])
      (auto simp: resync_after_fullscreen_def with_view_inv resize_now_inv split: option.split)
qed

lemma flush_due_inv [step_inv]: "viewer_app_inv a \<Longrightarrow> viewer_app_inv (flush_due_remote_resizes e a)"
  by (simp add: flush_due_remote_resizes_def Let_def plain_inv retired_removed_inv flush_ready_inv split: option.split)

lemma viewer_app_step_inv: "viewer_app_inv a \<Longrightarrow> viewer_app_inv (viewer_app_step a x)"
proof -
  assume "viewer_app_inv a"
  then show ?thesis
    by (cases "(a, x)" rule: viewer_app_step.cases)
      (auto simp: plain_inv window_event_inv message_inv flush_due_inv split: option.split)
qed

interpretation viewer_windows: invariant_machine viewer_app_step viewer_app_inv
  by unfold_locales (rule viewer_app_step_inv)

lemma viewer_app_new_inv: "viewer_app_inv (viewer_app_new b c s)"
  using viewer_start_inv by (simp add: viewer_app_inv_def viewer_app_new_def hosts_def timed_def titled_def viewer_start_def)

section \<open>Facts on the timers\<close>

lemma min_due_some: "foldl min_due (Some d) ds = Some (Min (insert d (set ds)))"
proof (induction ds arbitrary: d)
  case (Cons x ds)
  have "Min (insert (min d x) (set ds)) = Min (insert d (insert x (set ds)))"
    by (cases "ds = []") (simp_all add: min.assoc)
  with Cons show ?case by (simp add: min_due_def)
qed simp

lemma min_due_none: "foldl min_due None ds = (if ds = [] then None else Some (Min (set ds)))"
proof (cases ds)
  case (Cons x xs)
  then show ?thesis using min_due_some [of x xs] by (simp add: min_due_def)
qed simp

text \<open>What the timers send.\<close>

definition due_sends :: "env \<Rightarrow> ViewerApp \<Rightarrow> (u64 \<times> wsize) list" where
  "due_sends e a = map (\<lambda>p. (fst p, pr_width (snd p), pr_height (snd p))) (filter (\<lambda>p. pr_due (snd p) \<le> now e) (va_resizes a))"

definition resync_sends :: "env \<Rightarrow> ViewerApp \<Rightarrow> (u64 \<times> wsize) list" where
  "resync_sends e a = concat (map (\<lambda>p. case Option.bind (view (fst p) a) (resize_request_for_current_inner_size e) of
     None \<Rightarrow> [] | Some sz \<Rightarrow> [(fst p, sz)]) (filter (\<lambda>p. snd p \<le> now e) (va_fullscreen_exits a)))"

definition resize_events :: "u64 \<times> wsize \<Rightarrow> InputEvent list" where
  "resize_events r = [Focus (fst r) True, Resize (fst r) (of_nat (fst (snd r))) (of_nat (snd (snd r)))]"

lemma send_now_out:
  "out_tx (va_input (send_remote_resize_now wid sz a)) = out_tx (va_input a) @ resize_events (wid, sz)"
  by (simp add: send_remote_resize_now_def send_def send_input_def resize_events_def)

lemma send_now_fields [simp]:
  "va_resizes (send_remote_resize_now wid sz a) = va_resizes a"
  "va_fullscreen_exits (send_remote_resize_now wid sz a) = va_fullscreen_exits a"
  "va_host_resyncs (send_remote_resize_now wid sz a) = va_host_resyncs a"
  "va_empty_since (send_remote_resize_now wid sz a) = va_empty_since a"
  "va_exited (send_remote_resize_now wid sz a) = va_exited a"
  "va_retired (send_remote_resize_now wid sz a) = va_retired a"
  "hosts (send_remote_resize_now wid sz a) = hosts a"
  by (simp_all add: send_remote_resize_now_def) (simp_all add: send_def)

lemma request_unaffected:
  "Option.bind (view k (send_remote_resize_now wid sz a)) (resize_request_for_current_inner_size e)
     = Option.bind (view k a) (resize_request_for_current_inner_size e)"
proof -
  have "resize_request_for_current_inner_size e (w\<lparr>w_in_flight := x\<rparr>) = resize_request_for_current_inner_size e w" for w x
    by (simp add: resize_request_for_current_inner_size_def remote_size_for_inner_size_def effective_content_rect_def host_of_def)
  then show ?thesis
    by (cases "k = wid"; cases "view k a") (simp_all add: send_remote_resize_now_def view_with_view)
qed

lemma resync_out:
  "out_tx (va_input (fold (\<lambda>p. resync_after_fullscreen e (fst p)) ps a)) = out_tx (va_input a) @ concat (map resize_events
     (concat (map (\<lambda>p. case Option.bind (view (fst p) a) (resize_request_for_current_inner_size e) of
        None \<Rightarrow> [] | Some sz \<Rightarrow> [(fst p, sz)]) ps)))"
proof (induction ps arbitrary: a)
  case (Cons p ps)
  show ?case
  proof (cases "Option.bind (view (fst p) a) (resize_request_for_current_inner_size e)")
    case None
    then have "resync_after_fullscreen e (fst p) a = a" by (simp add: resync_after_fullscreen_def)
    with None show ?thesis by (simp add: Cons)
  next
    case (Some sz)
    then have "resync_after_fullscreen e (fst p) a = send_remote_resize_now (fst p) sz a" by (simp add: resync_after_fullscreen_def)
    with Some show ?thesis by (simp add: Cons request_unaffected send_now_out)
  qed
qed simp

lemma resync_fields [simp]:
  "va_resizes (fold (\<lambda>p. resync_after_fullscreen e (fst p)) ps a) = va_resizes a"
  "va_fullscreen_exits (fold (\<lambda>p. resync_after_fullscreen e (fst p)) ps a) = va_fullscreen_exits a"
  "va_host_resyncs (fold (\<lambda>p. resync_after_fullscreen e (fst p)) ps a) = va_host_resyncs a"
  "va_empty_since (fold (\<lambda>p. resync_after_fullscreen e (fst p)) ps a) = va_empty_since a"
  "va_exited (fold (\<lambda>p. resync_after_fullscreen e (fst p)) ps a) = va_exited a"
  "va_retired (fold (\<lambda>p. resync_after_fullscreen e (fst p)) ps a) = va_retired a"
  "hosts (fold (\<lambda>p. resync_after_fullscreen e (fst p)) ps a) = hosts a"
  by (induction ps arbitrary: a; simp add: resync_after_fullscreen_def split: option.split)+

lemma debounced_fields [simp]:
  "va_resizes (fold (\<lambda>p. send_remote_resize_now (fst p) (f p)) ps a) = va_resizes a"
  "va_fullscreen_exits (fold (\<lambda>p. send_remote_resize_now (fst p) (f p)) ps a) = va_fullscreen_exits a"
  "va_host_resyncs (fold (\<lambda>p. send_remote_resize_now (fst p) (f p)) ps a) = va_host_resyncs a"
  "va_empty_since (fold (\<lambda>p. send_remote_resize_now (fst p) (f p)) ps a) = va_empty_since a"
  "va_exited (fold (\<lambda>p. send_remote_resize_now (fst p) (f p)) ps a) = va_exited a"
  "va_retired (fold (\<lambda>p. send_remote_resize_now (fst p) (f p)) ps a) = va_retired a"
  "hosts (fold (\<lambda>p. send_remote_resize_now (fst p) (f p)) ps a) = hosts a"
  "out_tx (va_input (fold (\<lambda>p. send_remote_resize_now (fst p) (f p)) ps a))
     = out_tx (va_input a) @ concat (map (\<lambda>p. resize_events (fst p, f p)) ps)"
  by (induction ps arbitrary: a; simp add: send_now_out)+

lemma host_resync_fields [simp]:
  "va_resizes (fold (\<lambda>p. with_view (fst p) f) ps a) = va_resizes a"
  "va_fullscreen_exits (fold (\<lambda>p. with_view (fst p) f) ps a) = va_fullscreen_exits a"
  "va_host_resyncs (fold (\<lambda>p. with_view (fst p) f) ps a) = va_host_resyncs a"
  "va_empty_since (fold (\<lambda>p. with_view (fst p) f) ps a) = va_empty_since a"
  "va_exited (fold (\<lambda>p. with_view (fst p) f) ps a) = va_exited a"
  "va_retired (fold (\<lambda>p. with_view (fst p) f) ps a) = va_retired a"
  "va_input (fold (\<lambda>p. with_view (fst p) f) ps a) = va_input a"
  by (induction ps arbitrary: a; simp)+

lemma host_resync_hosts: "hosts (fold (\<lambda>p. with_view (fst p) (request_scaled_inner_size_if_needed e)) ps a) = hosts a"
  by (induction ps arbitrary: a) simp_all

lemma flush_ready_fields:
  "va_fullscreen_exits (flush_ready e a) = filter (\<lambda>p. now e < snd p) (va_fullscreen_exits a)"
  "va_resizes (flush_ready e a) = filter (\<lambda>p. now e < pr_due (snd p)) (va_resizes a)"
  "va_host_resyncs (flush_ready e a) = filter (\<lambda>p. now e < snd p) (va_host_resyncs a)"
  "va_empty_since (flush_ready e a) = va_empty_since a" "va_exited (flush_ready e a) = va_exited a"
  "va_retired (flush_ready e a) = va_retired a" "hosts (flush_ready e a) = hosts a"
  "out_tx (va_input (flush_ready e a)) = out_tx (va_input a) @ concat (map resize_events (resync_sends e a @ due_sends e a))"
proof -
  have view: "view k (retain_waiting e a) = view k a" for k by (simp add: retain_waiting_def view_def)
  show "out_tx (va_input (flush_ready e a)) = out_tx (va_input a) @ concat (map resize_events (resync_sends e a @ due_sends e a))"
    by (simp add: flush_ready_def resync_out view resync_sends_def due_sends_def comp_def) (simp add: retain_waiting_def)
  show "hosts (flush_ready e a) = hosts a" by (simp add: flush_ready_def host_resync_hosts) (simp add: retain_waiting_def hosts_def)
qed (simp_all add: flush_ready_def retain_waiting_def not_le)

lemma waiting_after: "waiting_dues (retain_waiting e a) = waiting_dues (flush_ready e a)"
  by (simp add: waiting_dues_def flush_ready_fields) (simp add: retain_waiting_def not_le)

lemma waiting_later: "d \<in> set (waiting_dues (flush_ready e a)) \<Longrightarrow> now e < d"
  by (auto simp: waiting_dues_def flush_ready_fields)

section \<open>Facts on fullscreen and adoption\<close>

lemma send_fields [simp]:
  "out_tx (va_input (send ev a)) = out_tx (va_input a) @ [ev]" "va_resizes (send ev a) = va_resizes a"
  "va_fullscreen_exits (send ev a) = va_fullscreen_exits a" "va_host_resyncs (send ev a) = va_host_resyncs a"
  by (simp_all add: send_def send_input_def)

lemma redraw_fullscreen [simp]: "w_host_fullscreen (request_redraw w) = w_host_fullscreen w"
  by (simp add: request_redraw_def)

lemma ime_fullscreen [simp]: "w_host_fullscreen (enable_ime_at_last_cursor e w) = w_host_fullscreen w"
  by (simp add: enable_ime_at_last_cursor_def update_ime_cursor_area_def Let_def)

lemma consume_fullscreen [simp]: "w_host_fullscreen (snd (consume_programmatic_resize sz w)) = w_host_fullscreen w"
  by (simp add: consume_programmatic_resize_def case_prod_beta)

lemma resized_view_fullscreen:
  assumes "resized_view e sz w = (w', rs, fs)"
  shows "w_host_fullscreen w' = hw_fullscreen (host_of e w)"
    and "fs = (if hw_fullscreen (host_of e w) = w_host_fullscreen w then None else Some (hw_fullscreen (host_of e w)))"
proof -
  define b where "b = hw_fullscreen (host_of e w)"
  define w1 where "w1 = (if b \<noteq> w_host_fullscreen w then w\<lparr>w_host_fullscreen := b, w_pending_programmatic := None\<rparr> else w)"
  define m where "m = (if \<not> (b \<noteq> w_host_fullscreen w \<and> \<not> b) \<and> \<not> b \<and> w_visible w1 then consume_programmatic_resize sz w1 else (True, w1))"
  have w1: "w_host_fullscreen w1 = b" by (simp add: w1_def)
  then have m: "w_host_fullscreen (snd m) = b" by (simp add: m_def)
  have "resized_view e sz w = (request_redraw (if (if fst m then None else resize_request_for_current_inner_size e (snd m)) = None
      then snd m else enable_ime_at_last_cursor e (snd m)),
      if fst m then None else resize_request_for_current_inner_size e (snd m), if b \<noteq> w_host_fullscreen w then Some b else None)"
    unfolding resized_view_def Let_def b_def [symmetric] w1_def [symmetric] m_def [symmetric] by (simp only: case_prod_beta)
  moreover have "w_host_fullscreen (if c then snd m else enable_ime_at_last_cursor e (snd m)) = b" for c using m by simp
  ultimately show "w_host_fullscreen w' = hw_fullscreen (host_of e w)"
      "fs = (if hw_fullscreen (host_of e w) = w_host_fullscreen w then None else Some (hw_fullscreen (host_of e w)))"
    using assms unfolding b_def [symmetric] by auto
qed

lemma resized_reports:
  assumes "view wid a = Some w"
  shows "out_tx (va_input (resized e wid sz a)) = out_tx (va_input a)
      @ (if hw_fullscreen (host_of e w) = w_host_fullscreen w then [] else [SetFullscreen wid (hw_fullscreen (host_of e w))])"
    and "\<exists>w'. view wid (resized e wid sz a) = Some w' \<and> w_host_fullscreen w' = hw_fullscreen (host_of e w)"
proof -
  obtain w' rs fs where r: "resized_view e sz w = (w', rs, fs)" by (cases "resized_view e sz w")
  have v: "view wid (a\<lparr>va_host_resyncs := AList.delete wid (va_host_resyncs a)\<rparr>) = Some w" using assms by (simp add: view_def)
  note facts = resized_view_fullscreen [OF r]
  show "out_tx (va_input (resized e wid sz a)) = out_tx (va_input a)
      @ (if hw_fullscreen (host_of e w) = w_host_fullscreen w then [] else [SetFullscreen wid (hw_fullscreen (host_of e w))])"
    unfolding resized_def Let_def v option.case r prod.case facts(2) by (auto split: option.split)
  show "\<exists>w'. view wid (resized e wid sz a) = Some w' \<and> w_host_fullscreen w' = hw_fullscreen (host_of e w)"
    unfolding resized_def Let_def v option.case r prod.case using facts(1) v
    by (auto simp: view_with_view split: option.split)
qed

fun flips :: "bool \<Rightarrow> bool list \<Rightarrow> bool list" where
  "flips current [] = []"
| "flips current (b # bs) = (if b = current then [] else [b]) @ flips b bs"

definition reports :: "env \<times> wsize \<times> bool \<Rightarrow> bool" where
  "reports x \<longleftrightarrow> (\<forall>hid calls. hw_fullscreen (answer (fst x) hid calls) = snd (snd x))"

lemma resizes_report_flips:
  assumes "list_all reports xs" and "view wid a = Some w"
  shows "out_tx (va_input (fold (\<lambda>x. window_event (fst x) wid (WResized (fst (snd x)))) xs a))
    = out_tx (va_input a) @ map (SetFullscreen wid) (flips (w_host_fullscreen w) (map (\<lambda>x. snd (snd x)) xs))"
  using assms
proof (induction xs arbitrary: a w)
  case (Cons x xs)
  have b: "hw_fullscreen (host_of (fst x) w) = snd (snd x)" using Cons.prems by (simp add: reports_def host_of_def)
  obtain w' where w': "view wid (resized (fst x) wid (fst (snd x)) a) = Some w'" "w_host_fullscreen w' = snd (snd x)"
    using resized_reports(2) [OF Cons.prems(2), of "fst x" "fst (snd x)"] b by auto
  show ?case
    using Cons.IH [OF _ w'(1)] Cons.prems w'(2) resized_reports(1) [OF Cons.prems(2), of "fst x" "fst (snd x)"] b by simp
qed simp

fun is_size_request :: "host_call \<Rightarrow> bool" where
  "is_size_request (RequestLogicalSize _ _) = True"
| "is_size_request (RequestPhysicalSize _ _) = True"
| "is_size_request _ = False"

lemma resize_to_remote_requests:
  "w_calls (resize_to_remote_size e x y w) = w_calls w \<or>
     (\<not> w_adopted w \<and> (\<exists>p q. w_calls (resize_to_remote_size e x y w) = w_calls w @ [RequestLogicalSize p q]))"
  "w_adopted w \<or> w_calls (resize_to_remote_size e x y w) \<noteq> w_calls w \<Longrightarrow> w_adopted (resize_to_remote_size e x y w)"
  by (auto simp: resize_to_remote_size_def request_scaled_inner_size_def should_adopt_host_window_def Let_def case_prod_beta
      split: option.splits if_splits)

lemma configured_requests:
  "w_adopted w \<Longrightarrow> w_calls (fold (\<lambda>(e, x, y). resize_to_remote_size e x y) cs w) = w_calls w"
proof (induction cs arbitrary: w)
  case (Cons c cs)
  obtain e x y where c: "c = (e, x, y)" by (cases c)
  have "w_adopted (resize_to_remote_size e x y w)" using resize_to_remote_requests(2) [of w e x y] Cons.prems by blast
  moreover have "w_calls (resize_to_remote_size e x y w) = w_calls w"
    using resize_to_remote_requests(1) [of e x y w] Cons.prems by blast
  ultimately show ?case using Cons.IH [of "resize_to_remote_size e x y w"] by (simp add: c)
qed simp

lemma remote_frame: "w_frame (resize_to_remote_size e x y w) = resize_for_remote_size (max x 1) (max y 1) (w_frame w)"
  by (simp add: resize_to_remote_size_def request_scaled_inner_size_def Let_def case_prod_beta split: option.split)

section \<open>The last window\<close>

text \<open>
  The guest destroys a window it shows: not one the viewer has already retired. The protocol
  gives every toplevel an id of its own and announces its end once.
\<close>

definition destroys_live :: "ViewerApp \<Rightarrow> env \<times> viewer_event \<Rightarrow> bool" where
  "destroys_live a x = (case snd x of
     Incoming (Message.WindowEvent (Destroyed wid)) \<Rightarrow> wid \<notin> set (va_retired a) | _ \<Rightarrow> True)"

fun trace_ok :: "ViewerApp \<Rightarrow> (env \<times> viewer_event) list \<Rightarrow> bool" where
  "trace_ok a [] = True"
| "trace_ok a (x # xs) = (destroys_live a x \<and> trace_ok (viewer_app_step a x) xs)"

definition empty_inv :: "ViewerApp \<Rightarrow> bool" where
  "empty_inv a \<longleftrightarrow> va_empty_since a \<noteq> None \<longrightarrow> set (map fst (va_windows a)) \<subseteq> set (va_retired a)"

lemma active_count_0: "active_window_count a = 0 \<longleftrightarrow> set (map fst (va_windows a)) \<subseteq> set (va_retired a)"
  by (auto simp: active_window_count_def filter_empty_conv)

definition lifecycle :: "ViewerApp \<Rightarrow> u64 list \<times> u64 list \<times> nat option" where
  "lifecycle a = (map fst (va_windows a), va_retired a, va_empty_since a)"

lemma lifecycle_inv: "lifecycle a' = lifecycle a \<Longrightarrow> empty_inv a \<Longrightarrow> empty_inv a'"
  by (simp add: lifecycle_def empty_inv_def)

lemma lifecycle_with_view [simp]: "lifecycle (with_view wid f a) = lifecycle a"
  by (auto simp: lifecycle_def with_view_def view_def keys_update_same split: option.split)

lemma lifecycle_basic [simp]:
  "lifecycle (send ev a) = lifecycle a" "lifecycle (input_step iv a) = lifecycle a" "lifecycle (panic a) = lifecycle a"
  "lifecycle (exit_loop a) = lifecycle a" "lifecycle (ensure_keepalive_window e a) = lifecycle a"
  "lifecycle (maybe_warn_about_guest_chrome t u a) = lifecycle a" "lifecycle (drop_timers wid a) = lifecycle a"
  "lifecycle (queue_remote_resize e wid sz a) = lifecycle a" "lifecycle (queue_fullscreen_exit_resync e wid a) = lifecycle a"
  "lifecycle (queue_host_resize_resync e wid a) = lifecycle a" "lifecycle (a\<lparr>va_input := v\<rparr>) = lifecycle a"
  "lifecycle (a\<lparr>va_host_resyncs := h\<rparr>) = lifecycle a" "lifecycle (a\<lparr>va_clip_in := cl\<rparr>) = lifecycle a"
  "lifecycle (a\<lparr>va_control_flow := cf\<rparr>) = lifecycle a"
  by (simp_all add: lifecycle_def send_def input_step_def panic_def exit_loop_def ensure_keepalive_window_def timer_defs
      maybe_warn_about_guest_chrome_def Let_def split: option.split)

lemma lifecycle_title [simp]: "lifecycle (set_window_title wid t a) = lifecycle a"
  by (simp add: set_window_title_def)

lemma lifecycle_input [simp]:
  "lifecycle (motion wid a) = lifecycle a" "lifecycle (press_focus e wid a) = lifecycle a"
  "lifecycle (forward_button e wid st b c a) = lifecycle a" "lifecycle (toggle_maximize e wid a) = lifecycle a"
  by (simp_all add: motion_def press_focus_def forward_button_def toggle_maximize_def split: option.split)

lemma lifecycle_mouse [simp]:
  "lifecycle (left_pressed e wid c w a) = lifecycle a" "lifecycle (left_released e wid c w a) = lifecycle a"
  "lifecycle (mouse_input e wid st b a) = lifecycle a" "lifecycle (cursor_moved e wid p a) = lifecycle a"
  "lifecycle (mouse_wheel e wid d a) = lifecycle a"
proof -
  show press: "lifecycle (left_pressed e wid c w a) = lifecycle a" for c w
    by (simp add: left_pressed_def Let_def case_prod_beta split: option.split prod.split bool.split)
  show rel: "lifecycle (left_released e wid c w a) = lifecycle a" for c w
    by (simp add: left_released_def Let_def case_prod_beta split: option.split prod.split bool.split)
  show "lifecycle (mouse_input e wid st b a) = lifecycle a" by (simp add: mouse_input_def press rel split: option.split)
  show "lifecycle (cursor_moved e wid p a) = lifecycle a"
    by (simp add: cursor_moved_def Let_def case_prod_beta split: option.split prod.split bool.split)
  show "lifecycle (mouse_wheel e wid d a) = lifecycle a"
    by (simp add: mouse_wheel_def Let_def case_prod_beta split: option.split)
qed

lemma fold_keeps: "(\<And>x b. g (f x b) = g b) \<Longrightarrow> g (fold f xs a) = g a"
  by (induction xs arbitrary: a) simp_all

lemma lifecycle_window_event [simp]: "lifecycle (window_event e wid ev a) = lifecycle a"
proof -
  have "lifecycle (keyboard_input e wid k a) = lifecycle a" for k
  proof (cases "view wid a")
    case (Some w)
    have zoom: "lifecycle (case z of (wid', key) \<Rightarrow> (case key of
        Character t \<Rightarrow> with_view wid' (\<lambda>w. case next_view_scale t (w_view_scale w) of None \<Rightarrow> w | Some scale \<Rightarrow> set_view_scale e scale w)
      | _ \<Rightarrow> (\<lambda>a. a)) b) = lifecycle b" for z b
      by (cases z; cases "snd z") simp_all
    have "lifecycle (fold (\<lambda>(wid', key). case key of
        Character t \<Rightarrow> with_view wid' (\<lambda>w. case next_view_scale t (w_view_scale w) of None \<Rightarrow> w | Some scale \<Rightarrow> set_view_scale e scale w)
      | _ \<Rightarrow> (\<lambda>a. a)) zs b) = lifecycle b" for zs b
      by (rule fold_keeps [where g = lifecycle]) (use zoom in \<open>simp add: case_prod_beta\<close>)
    with Some show ?thesis unfolding keyboard_input_def Let_def by simp
  qed (simp add: keyboard_input_def)
  moreover have "lifecycle (resized e wid sz a) = lifecycle a" for sz
    by (simp add: resized_def Let_def case_prod_beta split: option.split)
  ultimately show ?thesis by (cases ev) simp_all
qed

lemma lifecycle_tile [simp]: "lifecycle (handle_frame_tile e t a) = lifecycle a"
  by (simp add: handle_frame_tile_def Let_def case_prod_beta split: option.split sum.split)

lemma lifecycle_flush [simp]: "lifecycle (flush_ready e a) = lifecycle a"
proof -
  have "lifecycle (send_remote_resize_now wid sz b) = lifecycle b" for wid sz b by (simp add: send_remote_resize_now_def)
  then show ?thesis
    unfolding flush_ready_def
    by (simp add: fold_keeps [where g = lifecycle] resync_after_fullscreen_def split: option.split)
      (simp add: retain_waiting_def lifecycle_def)
qed

lemma created_empty: "va_empty_since (create_window e wid x y t i a) = va_empty_since a"
  by (simp add: create_window_def Let_def set_window_title_def exit_loop_def input_step_def maybe_warn_about_guest_chrome_def split: option.split)

lemma dropped_all:
  "va_windows (fold drop_window ws a) = filter (\<lambda>p. fst p \<notin> set ws) (va_windows a)"
  "va_retired (fold drop_window ws a) = filter (\<lambda>x. x \<notin> set ws) (va_retired a)"
  "va_empty_since (fold drop_window ws a) = va_empty_since a"
  by (induction ws arbitrary: a; auto simp: drop_window_fields AList.delete_eq removeAll_filter_not_eq intro!: filter_cong)+

lemma destroyed_empty_inv:
  assumes "empty_inv a" and "viewer_app_inv a" and "wid \<notin> set (va_retired a)"
  shows "empty_inv (handle_remote_window_event e (Destroyed wid) a)"
proof (cases "active_window_count a \<le> 1 \<and> view wid a \<noteq> None")
  case True
  define act where "act = filter (\<lambda>k. k \<notin> set (va_retired a)) (map fst (va_windows a))"
  have "wid \<in> set act" using True assms(3) view_iff [of wid a] by (simp add: act_def hosts_fst)
  moreover have "length act \<le> 1" using True by (simp add: active_window_count_def act_def)
  ultimately have "set act \<subseteq> {wid}" by (cases act) auto
  then have "set (map fst (va_windows a)) \<subseteq> insert wid (set (va_retired a))" by (auto simp: act_def)
  moreover have "lifecycle (input_step (WindowRetired wid) (drop_timers wid (with_view wid hide a))) = lifecycle a" by simp
  ultimately show ?thesis using True by (simp add: empty_inv_def retire_last_window_def Let_def lifecycle_def)
next
  case False
  show ?thesis
  proof (cases "va_empty_since a")
    case None
    moreover have "handle_remote_window_event e (Destroyed wid) a = drop_window wid a" using False by (simp only: handle_remote_window_event.simps if_False)
    ultimately show ?thesis by (simp only: empty_inv_def drop_window_fields simp_thms)
  next
    case (Some t)
    with assms(1) have all: "set (map fst (va_windows a)) \<subseteq> set (va_retired a)" by (simp add: empty_inv_def)
    with active_count_0 [of a] False have "view wid a = None" by simp
    then have "wid \<notin> set (map fst (va_windows a))" by (simp add: view_def map_of_eq_None_iff)
    with all have "set (map fst (AList.delete wid (va_windows a))) \<subseteq> set (removeAll wid (va_retired a))"
      by (auto simp: AList.delete_eq)
    moreover have "handle_remote_window_event e (Destroyed wid) a = drop_window wid a" using False by (simp only: handle_remote_window_event.simps if_False)
    ultimately show ?thesis by (simp only: empty_inv_def drop_window_fields simp_thms)
  qed
qed

lemma flush_empty_inv:
  assumes "empty_inv a"
  shows "empty_inv (flush_due_remote_resizes e a)"
proof (cases "case va_empty_since (flush_ready e a) of None \<Rightarrow> True | Some t \<Rightarrow> \<not> t + WINDOW_REPLACEMENT_GRACE \<le> now e")
  case True
  then have "lifecycle (flush_due_remote_resizes e a) = lifecycle a"
    by (simp add: flush_due_remote_resizes_def Let_def split: option.splits)
  then show ?thesis using assms by (rule lifecycle_inv)
next
  case False
  then obtain t where t: "va_empty_since (flush_ready e a) = Some t" "t + WINDOW_REPLACEMENT_GRACE \<le> now e"
    by (auto split: option.splits)
  have "empty_inv (flush_ready e a)" by (rule lifecycle_inv [OF lifecycle_flush assms])
  with t have "set (map fst (va_windows (flush_ready e a))) \<subseteq> set (va_retired (flush_ready e a))" by (simp add: empty_inv_def)
  then have "filter (\<lambda>p. fst p \<notin> set (va_retired (flush_ready e a))) (va_windows (flush_ready e a)) = []"
    by (auto simp: filter_empty_conv)
  with t show ?thesis
    by (simp add: flush_due_remote_resizes_def Let_def empty_inv_def exit_loop_def remove_retired_windows_def dropped_all)
qed

lemma lifecycle_remote_event:
  "(\<And>wid g t i. ev \<noteq> Created wid g t i) \<Longrightarrow> (\<And>wid. ev \<noteq> Destroyed wid) \<Longrightarrow> lifecycle (handle_remote_window_event e ev a) = lifecycle a"
  by (cases ev; (blast | simp add: Let_def take_pending_tile_def split: option.split))

lemma lifecycle_message:
  "(\<And>ev. msg \<noteq> Message.WindowEvent ev) \<Longrightarrow> lifecycle (handle_message e msg a) = lifecycle a"
  by (cases msg; (blast | simp))

lemma step_empty_inv:
  assumes "empty_inv a" and "viewer_app_inv a" and "destroys_live a x"
  shows "empty_inv (viewer_app_step a x)"
proof -
  obtain e ev where x: "x = (e, ev)" by (cases x)
  have event: "empty_inv (handle_remote_window_event e wev a)" if "ev = Incoming (Message.WindowEvent wev)" for wev
  proof (cases wev)
    case (Created wid geom t i)
    then show ?thesis by (simp add: empty_inv_def created_empty)
  next
    case (Destroyed wid)
    with that assms show ?thesis using destroyed_empty_inv [of a wid e] by (simp add: x destroys_live_def del: handle_remote_window_event.simps)
  qed (rule lifecycle_inv [OF lifecycle_remote_event assms(1)]; simp)+
  show ?thesis
  proof (cases ev)
    case (HostEvent hid wev)
    have "lifecycle (viewer_app_step a x) = lifecycle a" by (simp add: x HostEvent split: option.split)
    then show ?thesis using assms(1) by (rule lifecycle_inv)
  next
    case (Incoming msg)
    show ?thesis
    proof (cases "\<exists>wev. msg = Message.WindowEvent wev")
      case True
      with event Incoming show ?thesis by (auto simp: x)
    next
      case False
      then have "lifecycle (viewer_app_step a x) = lifecycle a" unfolding x Incoming viewer_app_step.simps by (intro lifecycle_message) auto
      then show ?thesis using assms(1) by (rule lifecycle_inv)
    qed
  next
    case AboutToWait
    then show ?thesis using flush_empty_inv [OF assms(1)] by (simp add: x)
  qed (rule lifecycle_inv [OF _ assms(1)]; simp add: x)+
qed

lemma trace_keeps:
  assumes "trace_ok a xs" and "viewer_app_inv a" and "empty_inv a"
  shows "viewer_app_inv (run viewer_app_step a xs)" and "empty_inv (run viewer_app_step a xs)"
proof -
  have "viewer_app_inv (run viewer_app_step a xs) \<and> empty_inv (run viewer_app_step a xs)"
    using assms
  proof (induction xs arbitrary: a)
    case (Cons x xs)
    then show ?case using step_empty_inv [of a x] viewer_app_step_inv [of a x] by (simp add: run_def)
  qed (simp add: run_def)
  then show "viewer_app_inv (run viewer_app_step a xs)" "empty_inv (run viewer_app_step a xs)" by auto
qed

section \<open>Properties\<close>

text \<open>A host that answers the same whatever is asked of it, for concrete runs.\<close>

definition calm_host :: "nat \<Rightarrow> bool \<Rightarrow> env" where
  "calm_host t fullscreen =
     \<lparr>now = t,
      answer = (\<lambda>_ _. \<lparr>hw_inner = (800, 600), hw_outer_position = Some (0, 0), hw_outer_size = (800, 600), hw_scale = 1,
        hw_monitor = None, hw_fullscreen = fullscreen, hw_maximized = False\<rparr>),
      to_physical = (\<lambda>_ _. (800, 600)), to_logical = (\<lambda>s _. s), create_ok = True, present_ok = True, has_icon = (\<lambda>_. False),
      system_theme = None, edge_snap = False, menubar_inset = 0, macos = False\<rparr>"

definition one_view :: ViewerApp where
  "one_view = (viewer_app_new False True (1440, 900))
     \<lparr>va_windows := [(1, new_view 0 [] 0 (1440, 900) False)], va_window_ids := [(0, 1)], va_next_host := 1,
      va_input := one_window, va_resizes := [(1, \<lparr>pr_width = 640, pr_height = 480, pr_due = 80\<rparr>)]\<rparr>"

text \<open>
  C14: The viewer's tables agree in every reachable state, whatever the guest sends, the user does
  and the window system answers: a host event is routed to the one window created for its host id,
  every window has its title and composer, every timer and every retired entry belongs to a window that
  exists, and every key the guest holds is tracked for such a window.
\<close>
theorem viewer_tables_agree:
  "let a = run viewer_app_step (viewer_app_new clip chrome tiles) es in
     (map_of (va_window_ids a) hid = Some wid \<longleftrightarrow> (\<exists>w. view wid a = Some w \<and> w_host w = hid))
     \<and> (map_of (vwindows (va_input a)) wid \<noteq> None \<longleftrightarrow> view wid a \<noteq> None)
     \<and> fst ` set (va_resizes a) \<union> fst ` set (va_fullscreen_exits a) \<union> fst ` set (va_host_resyncs a) \<union> set (va_retired a)
         \<subseteq> fst ` set (va_windows a)
     \<and> (case held (out_tx (va_input a)) k of None \<Rightarrow> True | Some w' \<Rightarrow> view w' a \<noteq> None)"
proof -
  define a where "a = run viewer_app_step (viewer_app_new clip chrome tiles) es"
  have inv: "viewer_app_inv a" unfolding a_def by (rule viewer_windows.run_keeps [OF viewer_app_new_inv])
  have ids: "map_of (va_window_ids a) hid = Some wid \<longleftrightarrow> map_of (hosts a) wid = Some hid" using inv by (simp only: viewer_app_inv_def simp_thms)
  have titles: "map_of (vwindows (va_input a)) u \<noteq> None \<longleftrightarrow> view u a \<noteq> None" for u
    using inv view_iff [of u a] unfolding viewer_app_inv_def titled_def by blast
  have timers: "timed a \<subseteq> fst ` set (va_windows a)" using inv unfolding viewer_app_inv_def hosts_fst by simp
  have "held (out_tx (va_input a)) k = Some u \<Longrightarrow> map_of (vwindows (va_input a)) u \<noteq> None" for u
    using keys_inv_input [OF inv] unfolding keys_inv_def by blast
  then have keys: "case held (out_tx (va_input a)) k of None \<Rightarrow> True | Some w' \<Rightarrow> view w' a \<noteq> None"
    using titles by (simp del: not_None_eq split: option.split)
  have "map_of (hosts a) wid = Some hid \<longleftrightarrow> (\<exists>w. view wid a = Some w \<and> w_host w = hid)"
    unfolding map_of_hosts by (cases "view wid a") auto
  with ids titles timers keys show ?thesis unfolding a_def [symmetric] Let_def timed_def by blast
qed



text \<open>
  The filter of \<open>flush_due_remote_resizes\<close> and the function \<open>partition_pending_resizes\<close> its tests
  exercise in its place are the same: the ready, the waiting and the earliest deadline of the
  latter are what the event loop sends, keeps and waits for.
\<close>
theorem partition_is_flush:
  "partition_pending_resizes (va_resizes a) (now e) ([], [], None)
     = (due_sends e a, va_resizes (flush_ready e a), foldl min_due None (map (\<lambda>p. pr_due (snd p)) (va_resizes (flush_ready e a))))"
proof -
  have "partition_pending_resizes ps t (ready, waiting, d)
      = (ready @ map (\<lambda>p. (fst p, pr_width (snd p), pr_height (snd p))) (filter (\<lambda>p. pr_due (snd p) \<le> t) ps),
         waiting @ filter (\<lambda>p. t < pr_due (snd p)) ps,
         foldl min_due d (map (\<lambda>p. pr_due (snd p)) (filter (\<lambda>p. t < pr_due (snd p)) ps)))" for ps t ready waiting d
  proof (induction ps arbitrary: ready waiting d)
    case (Cons p ps)
    then show ?case by (cases p; cases d) (simp_all add: min_due_def)
  qed simp
  then show ?thesis by (simp add: due_sends_def flush_ready_fields)
qed

text \<open>
  C39: Fullscreen does not echo. After the guest has changed the fullscreen state of a window, any
  sequence of resizes the host reports for it sends the guest exactly the changes of the host's
  fullscreen state relative to that one: nothing for the resizes the change itself causes, and one
  message for each time the user enters or leaves fullscreen.
\<close>
theorem fullscreen_flips_reported_once:
  assumes "list_all reports xs" and "view wid a \<noteq> None"
  shows "out_tx (va_input (fold (\<lambda>x. window_event (fst x) wid (WResized (fst (snd x)))) xs
      (handle_message e (Message.WindowEvent (FullscreenChanged wid b)) a)))
    = out_tx (va_input a) @ map (SetFullscreen wid) (flips b (map (\<lambda>x. snd (snd x)) xs))"
proof -
  obtain w where w: "view wid a = Some w" using assms(2) by blast
  define a1 where "a1 = handle_message e (Message.WindowEvent (FullscreenChanged wid b)) a"
  have "\<exists>w'. view wid a1 = Some w' \<and> w_host_fullscreen w' = b" "out_tx (va_input a1) = out_tx (va_input a)"
    using w by (simp_all add: a1_def Let_def view_with_view)
  then obtain w' where "view wid a1 = Some w'" "w_host_fullscreen w' = b" "out_tx (va_input a1) = out_tx (va_input a)" by blast
  with resizes_report_flips [OF assms(1), of wid a1 w'] show ?thesis unfolding a1_def [symmetric] by simp
qed

theorem fullscreen_flips_reported_once_witness:
  "out_tx (va_input (fold (\<lambda>x. window_event (fst x) 1 (WResized (fst (snd x))))
      [(calm_host 0 True, (800, 600), True), (calm_host 1 True, (800, 600), True), (calm_host 2 False, (640, 480), False)]
      (handle_message (calm_host 0 False) (Message.WindowEvent (FullscreenChanged 1 True)) one_view)))
    = [SetFullscreen 1 False]"
proof -
  have "view 1 one_view \<noteq> None" "out_tx (va_input one_view) = []"
    by (simp_all add: view_def one_view_def viewer_app_new_def one_window_def viewer_start_def)
  then show ?thesis
    using fullscreen_flips_reported_once [of "[(calm_host 0 True, (800, 600), True), (calm_host 1 True, (800, 600), True),
      (calm_host 2 False, (640, 480), False)]" 1 one_view "calm_host 0 False" True]
    by (simp add: reports_def calm_host_def del: fold_simps handle_message.simps window_event.simps)
qed

text \<open>
  A host window adopts the guest's size at most once from the guest's configures: however
  often the guest configures its toplevel, and whatever the host answers, the viewer asks for at
  most one host resize, and for none after the first, while the frame always takes the size
  configured last.
\<close>
theorem configured_adopts_once:
  "\<exists>calls. w_calls (fold (\<lambda>(e, x, y). resize_to_remote_size e x y) cs w) = w_calls w @ calls
     \<and> length calls \<le> (if w_adopted w then 0 else 1) \<and> list_all is_size_request calls
     \<and> (case cs of [] \<Rightarrow> True | _ \<Rightarrow> (case last cs of (e, x, y) \<Rightarrow>
          fb_width (w_frame (fold (\<lambda>(e, x, y). resize_to_remote_size e x y) cs w)) = max x 1
          \<and> fb_height (w_frame (fold (\<lambda>(e, x, y). resize_to_remote_size e x y) cs w)) = max y 1))"
proof -
  define f where "f = (\<lambda>cs. fold (\<lambda>(e, x, y). resize_to_remote_size e x y) cs)"
  have calls: "\<exists>calls. w_calls (f cs w) = w_calls w @ calls \<and> length calls \<le> (if w_adopted w then 0 else 1) \<and> list_all is_size_request calls"
    for cs w
  proof (induction cs arbitrary: w)
    case (Cons c cs)
    obtain e x y where c: "c = (e, x, y)" by (cases c)
    define w1 where "w1 = resize_to_remote_size e x y w"
    show ?case
    proof (cases "w_calls w1 = w_calls w")
      case True
      have "w_adopted w \<Longrightarrow> w_adopted w1" using resize_to_remote_requests(2) [of w e x y] unfolding w1_def by blast
      with Cons.IH [of w1] True show ?thesis by (auto simp: f_def c w1_def [symmetric] split: if_splits)
    next
      case False
      then have "w_adopted w1" "\<not> w_adopted w" and "\<exists>p q. w_calls w1 = w_calls w @ [RequestLogicalSize p q]"
        using resize_to_remote_requests(1) [of e x y w] resize_to_remote_requests(2) [of w e x y] unfolding w1_def by blast+
      moreover from this(1) have "w_calls (f cs w1) = w_calls w1" unfolding f_def by (rule configured_requests)
      ultimately show ?thesis by (auto simp: f_def c w1_def [symmetric])
    qed
  qed (simp add: f_def)
  have "cs \<noteq> [] \<Longrightarrow> case last cs of (e, x, y) \<Rightarrow> fb_width (w_frame (f cs w)) = max x 1 \<and> fb_height (w_frame (f cs w)) = max y 1"
  proof -
    assume "cs \<noteq> []"
    then have "f cs w = (case last cs of (e, x, y) \<Rightarrow> resize_to_remote_size e x y) (f (butlast cs) w)"
      by (metis (no_types, lifting) append_butlast_last_id f_def fold_append fold_simps comp_apply)
    then show ?thesis
      by (auto simp: remote_frame resize_for_remote_size_def replace_buffer_clearing_def replace_buffer_preserving_pixels_def Let_def
          split: prod.split)
  qed
  with calls [of cs w] show ?thesis unfolding f_def [symmetric] by (auto split: list.split)
qed

text \<open>
  The viewer leaves on its own only when nothing is shown: in every run in which the guest
  destroys only windows that are shown, when the event loop decides to exit, every window has been
  retired and the grace period has passed.
\<close>
theorem exits_only_when_empty:
  assumes "trace_ok (viewer_app_new clip chrome tiles) es"
    and "a = run viewer_app_step (viewer_app_new clip chrome tiles) es"
    and "\<not> va_exited a" and "va_exited (viewer_app_step a (e, AboutToWait))"
  shows "active_window_count a = 0
    \<and> (case va_empty_since a of None \<Rightarrow> False | Some t \<Rightarrow> t + WINDOW_REPLACEMENT_GRACE \<le> now e)"
proof -
  have "empty_inv (viewer_app_new clip chrome tiles)" by (simp add: empty_inv_def viewer_app_new_def)
  with trace_keeps [OF assms(1) viewer_app_new_inv] have inv: "empty_inv a" by (simp add: assms(2))
  have exit: "va_exited (flush_due_remote_resizes e a)" using assms(4) by simp
  then obtain t where t: "va_empty_since a = Some t" "t + WINDOW_REPLACEMENT_GRACE \<le> now e"
    using assms(3) by (auto simp: flush_due_remote_resizes_def Let_def flush_ready_fields split: option.splits if_splits)
  with inv active_count_0 show ?thesis by (simp add: empty_inv_def)
qed

definition lone_window :: "(env \<times> viewer_event) list" where
  "lone_window = [(calm_host 0 False, Incoming (Message.WindowEvent (Created 1 \<lparr>geom_x = 0, geom_y = 0, geom_w = 1, geom_h = 1\<rparr> [] []))),
     (calm_host 10 False, Incoming (Message.WindowEvent (Destroyed 1)))]"

lemma lone_window_run:
  defines "a0 \<equiv> viewer_app_new False True (1440, 900)"
  shows "trace_ok a0 lone_window" and "\<not> va_exited (run viewer_app_step a0 lone_window)"
    and "va_empty_since (run viewer_app_step a0 lone_window) = Some 10"
proof -
  define a1 where "a1 = viewer_app_step a0 (hd lone_window)"
  have a1: "map fst (va_windows a1) = [1]" "va_retired a1 = []" "\<not> va_exited a1"
    by (simp_all add: a1_def a0_def lone_window_def viewer_app_new_def create_window_def Let_def view_def calm_host_def
        maybe_warn_about_guest_chrome_def with_view_def input_step_def split: option.split)
  then have "view 1 a1 \<noteq> None" unfolding view_iff hosts_fst by simp
  with a1 have a2: "viewer_app_step a1 (lone_window ! 1) = (retire_last_window 1 a1)\<lparr>va_empty_since := Some 10, va_control_flow := WaitUntil 2010\<rparr>"
    by (simp add: lone_window_def active_window_count_def calm_host_def WINDOW_REPLACEMENT_GRACE_def)
  have run: "run viewer_app_step a0 lone_window = viewer_app_step a1 (lone_window ! 1)"
    by (simp add: run_def a1_def lone_window_def)
  show "trace_ok a0 lone_window" using a1(2) by (simp add: lone_window_def destroys_live_def a1_def del: viewer_app_step.simps)
  show "\<not> va_exited (run viewer_app_step a0 lone_window)"
    unfolding run a2 using a1(3) by (simp add: retire_last_window_def Let_def input_step_def drop_timers_def)
  show "va_empty_since (run viewer_app_step a0 lone_window) = Some 10" unfolding run a2 by simp
qed

theorem exits_only_when_empty_witness:
  "active_window_count (run viewer_app_step (viewer_app_new False True (1440, 900)) lone_window) = 0"
proof -
  define a where "a = run viewer_app_step (viewer_app_new False True (1440, 900)) lone_window"
  have "va_exited (viewer_app_step a (calm_host 5000 False, AboutToWait))"
    using lone_window_run(3)
    by (simp add: a_def flush_due_remote_resizes_def flush_ready_fields exit_loop_def WINDOW_REPLACEMENT_GRACE_def calm_host_def)
  then show ?thesis
    using exits_only_when_empty [OF lone_window_run(1) a_def, of "calm_host 5000 False"] lone_window_run(2) by (simp add: a_def)
qed

text \<open>
  A manual move follows the cursor without drift: however many cursor positions are reported
  during a drag, the host window ends where the press found it, displaced by the rounded distance
  between the last position and the one at the press; positions in between leave no trace.
\<close>
theorem manual_move_without_drift:
  assumes "w_move w = Dragging d" and "ps \<noteq> []"
  shows "let w' = fold (\<lambda>p w. snd (update_manual_move p w)) ps w in
    w_move w' = Dragging d
    \<and> last (w_calls w') = SetOuterPosition (compute_manual_move_outer (press_outer d) (start_cursor_window d) (last ps))"
proof -
  have "w_move (fold (\<lambda>p w. snd (update_manual_move p w)) ps w) = Dragging d" for ps
    using assms(1) by (induction ps arbitrary: w) (simp_all add: update_manual_move_def Let_def)
  moreover have "fold (\<lambda>p w. snd (update_manual_move p w)) ps w
      = snd (update_manual_move (last ps) (fold (\<lambda>p w. snd (update_manual_move p w)) (butlast ps) w))"
    using assms(2) by (metis (no_types, lifting) append_butlast_last_id fold_append fold_simps comp_apply)
  ultimately show ?thesis by (simp add: update_manual_move_def Let_def)
qed

theorem manual_move_without_drift_witness:
  "last (w_calls (fold (\<lambda>p w. snd (update_manual_move p w)) [(400, 10), (470, 184)]
     ((new_view 0 [] 0 (0, 0) False)\<lparr>w_move := Dragging \<lparr>start_cursor_window = (360, 96), press_outer = (442, 80)\<rparr>\<rparr>)))
    = SetOuterPosition (552, 168)"
proof -
  define w where "w = (new_view 0 [] 0 (0, 0) False)\<lparr>w_move := Dragging \<lparr>start_cursor_window = (360, 96), press_outer = (442, 80)\<rparr>\<rparr>"
  have "compute_manual_move_outer (442, 80) (360, 96) (470, 184) = (552, 168)"
    using rnd64_nat [of 110] rnd64_nat [of 88] f_round_int(2) [of 110] f_round_int(2) [of 88]
    by (simp add: compute_manual_move_outer_def fsub_def i32_wrap_def i32_sat_def)
  moreover have "w_move w = Dragging \<lparr>start_cursor_window = (360, 96), press_outer = (442, 80)\<rparr>" by (simp add: w_def)
  ultimately show ?thesis
    using manual_move_without_drift [of w _ "[(400, 10), (470, 184)]"] unfolding w_def [symmetric] by (simp add: Let_def del: fold_simps)
qed

end
