(* ===== verification/Client_Volume.thy ===== *)
theory Client_Volume
  imports Server_Session Float_Model
begin

text \<open>
  The host's volume, \<open>crates/client/src/volume.rs\<close>, and the volume command of \<open>net.rs\<close>. The wire
  carries the bit pattern of an \<open>f32\<close>; the poller compares the numbers. What the audio device
  answers is an argument.
\<close>

section \<open>Single precision patterns\<close>

text \<open>
  The bit pattern of a positive normal \<open>f32\<close>, and the number a finite pattern denotes.
\<close>

definition f32_to_bits :: "rat \<Rightarrow> u32" where
  "f32_to_bits x =
     (if x = 0 then 0
      else let e = fl_exponent x in
        word_of_int ((e + 127) * 2 ^ 23 + (\<lfloor>x / pow2 (e - 23)\<rfloor> - 2 ^ 23)))"

definition f32_is_finite :: "u32 \<Rightarrow> bool" where
  "f32_is_finite b \<longleftrightarrow> b AND 0x7fffffff < 0x7f800000"

definition f32_magnitude :: "u32 \<Rightarrow> rat" where
  "f32_magnitude b =
     (let e = unat (drop_bit 23 (b AND 0x7fffffff)); f = unat (b AND 0x7fffff) in
      if e = 0 then of_nat f * pow2 (- 149) else of_nat (2 ^ 23 + f) * pow2 (int e - 150))"

definition f32_value :: "u32 \<Rightarrow> rat" where
  "f32_value b = (if b < 0x80000000 then f32_magnitude b else - f32_magnitude b)"

definition percent_to_wire_level :: "u8 \<Rightarrow> u32" where
  "percent_to_wire_level percent = f32_to_bits (rnd32 (of_nat (unat (min percent 100)) / 100))"

definition volume_command_messages :: "u8 \<Rightarrow> bool option \<Rightarrow> Message list" where
  "volume_command_messages level_percent muted =
     [Message.VolumeChange \<lparr>vol_level = percent_to_wire_level level_percent,
        vol_muted = (case muted of None \<Rightarrow> False | Some b \<Rightarrow> b)\<rparr>]"

section \<open>The volume poller\<close>

definition LEVEL_EPSILON :: u32 where
  "LEVEL_EPSILON = f32_to_bits (rnd32 (5 / 1000))"

text \<open>
  A difference with NaN is NaN and compares as false; one with a single infinity, or with
  infinities of different signs, is infinite.
\<close>

definition worth_sending :: "VolumeChange \<Rightarrow> VolumeChange option \<Rightarrow> bool" where
  "worth_sending current last_one =
     (case last_one of
        None \<Rightarrow> True
      | Some prev \<Rightarrow>
          if vol_muted prev \<noteq> vol_muted current then True
          else
            let a = vol_level prev; b = vol_level current in
            if f32_is_nan a \<or> f32_is_nan b then False
            else if f32_is_finite a \<and> f32_is_finite b
            then \<bar>rnd32 (f32_value a - f32_value b)\<bar> \<ge> f32_value LEVEL_EPSILON
            else a \<noteq> b)"

text \<open>One turn of the loop: the sampled volume, if the device answers.\<close>

record volume_poller =
  last_sent :: "VolumeChange option"
  volume_out :: "VolumeChange list"

definition poll_volume :: "volume_poller \<Rightarrow> VolumeChange option \<Rightarrow> volume_poller" where
  "poll_volume p sample =
     (case sample of
        None \<Rightarrow> p
      | Some current \<Rightarrow>
          if worth_sending current (last_sent p)
          then p\<lparr>last_sent := Some current, volume_out := volume_out p @ [current]\<rparr> else p)"

section \<open>Lemmas\<close>

lemma fl_exponent_unique:
  assumes "pow2 e \<le> x" and "x < pow2 (e + 1)"
  shows "fl_exponent x = e"
proof -
  have "0 < x" using assms(1) pow2_pos [of e] by linarith
  from fl_exponent_bounds [OF this] assms have "pow2 (fl_exponent x) < pow2 (e + 1)" "pow2 e < pow2 (fl_exponent x + 1)"
    by linarith+
  then show ?thesis by (simp add: pow2_strict)
qed

text \<open>A number with a significand of 24 bits is read back from its pattern.\<close>

lemma f32_roundtrip:
  assumes "2 ^ 23 \<le> m" and "m < 2 ^ 24" and "- 126 \<le> e" and "e \<le> 127" and "x = of_int m * pow2 (e - 23)"
  shows "f32_value (f32_to_bits x) = x" and "uint (f32_to_bits x) = (e + 127) * 2 ^ 23 + (m - 2 ^ 23)"
proof -
  define B where "B = (e + 127) * 2 ^ 23 + (m - 2 ^ 23)"
  have p: "pow2 (e - 23) * 2 ^ 23 = pow2 e" using pow2_add [of "e - 23" 23] pow2_of_nat [of 23] by simp
  have "(2 ^ 23 :: rat) \<le> of_int m" "of_int m < (2 ^ 24 :: rat)"
    using assms(1,2) by (metis of_int_le_iff of_int_less_iff of_int_power of_int_numeral)+
  then have "2 ^ 23 * pow2 (e - 23) \<le> x" "x < 2 ^ 24 * pow2 (e - 23)"
    unfolding assms(5) by (simp_all del: of_int_le_iff)
  moreover have "pow2 (e + 1) = 2 ^ 24 * pow2 (e - 23)" using p pow2_add [of e 1] pow2_of_nat [of 1] by simp
  ultimately have ex: "fl_exponent x = e" using p by (intro fl_exponent_unique) (simp_all add: mult.commute)
  have "x \<noteq> 0" using assms(1,5) by simp
  then have bits: "f32_to_bits x = word_of_int B" using ex assms(5) by (simp add: f32_to_bits_def B_def)
  have B: "0 \<le> B" "B < 2 ^ 31" using assms(1-4) unfolding B_def by simp_all
  then have uB: "uint (f32_to_bits x) = B" unfolding bits by (simp add: uint_word_of_int)
  then show "uint (f32_to_bits x) = (e + 127) * 2 ^ 23 + (m - 2 ^ 23)" by (simp add: B_def)
  define b where "b = f32_to_bits x"
  have nb: "unat b = nat B" using uB unfolding b_def by (metis unat_eq_nat_uint)
  have "unat b < 2 ^ 31" using B unfolding nb by (simp add: nat_less_iff)
  then have "take_bit 31 (unat b) = unat b" by (simp add: take_bit_nat_eq_self)
  then have "unat (take_bit 31 b) = unat b" by (simp add: unsigned_take_bit_eq)
  then have low: "b AND 0x7fffffff = b" using take_bit_eq_mask [of 31 b] by (simp add: mask_eq_exp_minus_1 word_unat_eq_iff)
  have "unat (b AND 0x7fffff) = unat b mod 2 ^ 23"
    using take_bit_eq_mask [of 23 b] unsigned_take_bit_eq [of 23 b] by (simp add: mask_eq_exp_minus_1 take_bit_eq_mod)
  also have "\<dots> = nat (B mod 2 ^ 23)" unfolding nb using B by (simp add: nat_mod_distrib)
  also have "B mod 2 ^ 23 = m - 2 ^ 23"
    unfolding B_def using assms(1,2) by (subst add.commute, subst mod_mult_self1) (rule mod_pos_pos_trivial, simp_all)
  finally have f: "unat (b AND 0x7fffff) = nat (m - 2 ^ 23)" .
  have "unat (drop_bit 23 b) = unat b div 2 ^ 23" by (simp add: drop_bit_eq_div unat_div)
  also have "\<dots> = nat (B div 2 ^ 23)" unfolding nb using B by (simp add: nat_div_distrib)
  also have "B div 2 ^ 23 = e + 127"
    unfolding B_def using assms(1,2) by simp
  finally have g: "unat (drop_bit 23 b) = nat (e + 127)" .
  have "b < 0x80000000" using \<open>unat b < 2 ^ 31\<close> by (simp add: word_less_nat_alt)
  moreover have "f32_magnitude b = of_int m * pow2 (e - 23)"
    using assms(1,3) by (simp add: f32_magnitude_def low f g Let_def of_nat_nat nat_eq_iff)
  ultimately show "f32_value (f32_to_bits x) = x" using assms(5) unfolding b_def by (simp add: f32_value_def)
qed

lemma rnd32_normal:
  assumes "0 < x"
  shows "\<exists>m e. 2 ^ 23 \<le> m \<and> m < 2 ^ 24 \<and> fl_exponent x \<le> e \<and> e \<le> fl_exponent x + 1 \<and> rnd32 x = of_int m * pow2 (e - 23)"
proof -
  define e where "e = fl_exponent x"
  define u where "u = pow2 (e - 23)"
  define n where "n = round_even (x / u)"
  have u: "0 < u" by (simp add: u_def)
  have r: "rnd32 x = of_int n * u" using assms by (simp add: rnd32_def fl_round_def Let_def u_def e_def n_def)
  have low: "pow2 e = of_int (2 ^ 23) * u" and high: "pow2 (e + 1) = of_int (2 ^ 24) * u"
    using pow2_add [of 23 "e - 23"] pow2_add [of 24 "e - 23"] pow2_of_nat [of 23] pow2_of_nat [of 24] by (simp_all add: u_def add.commute)
  have "pow2 e \<le> x" "x < pow2 (e + 1)" unfolding e_def by (rule fl_exponent_bounds [OF assms])+
  then have "of_int (2 ^ 23) \<le> x / u" "x / u \<le> of_int (2 ^ 24)"
    unfolding low high using u by (simp_all add: le_divide_eq divide_le_eq)
  then have n: "2 ^ 23 \<le> n" "n \<le> 2 ^ 24" unfolding n_def by (simp_all only: round_even_mono_int)
  show ?thesis
  proof (cases "n = 2 ^ 24")
    case True
    then have "rnd32 x = of_int (2 ^ 23) * pow2 ((e + 1) - 23)"
      using r pow2_add [of 1 "e - 23"] pow2_of_nat [of 1] by (simp add: u_def)
    then show ?thesis unfolding e_def [symmetric] by (intro exI [of _ "2 ^ 23"] exI [of _ "e + 1"]) simp
  next
    case False
    with n r show ?thesis unfolding e_def [symmetric] u_def by (intro exI [of _ n] exI [of _ e]) simp
  qed
qed

lemma rnd32_ge: "0 \<le> n \<Longrightarrow> n \<le> 2 ^ 24 \<Longrightarrow> of_int n / 2 ^ j \<le> x \<Longrightarrow> of_int n / 2 ^ j \<le> rnd32 x"
  unfolding rnd32_def by (rule fl_round_ge) simp_all

lemma rnd32_le: "0 \<le> n \<Longrightarrow> n \<le> 2 ^ 24 \<Longrightarrow> 0 \<le> x \<Longrightarrow> x \<le> of_int n / 2 ^ j \<Longrightarrow> rnd32 x \<le> of_int n / 2 ^ j"
  unfolding rnd32_def by (rule fl_round_le) simp_all

text \<open>The level of a percentage: a number between 0 and 1, and the clamp of the server keeps it.\<close>

lemma percent_level:
  fixes k :: nat
  assumes "k \<le> 100"
  shows "f32_value (f32_to_bits (rnd32 (of_nat k / 100))) = rnd32 (of_nat k / 100)"
    and "clamp_level (f32_to_bits (rnd32 (of_nat k / 100))) = f32_to_bits (rnd32 (of_nat k / 100))"
proof -
  define x :: rat where "x = of_nat k / 100"
  have "f32_value (f32_to_bits (rnd32 x)) = rnd32 x \<and> clamp_level (f32_to_bits (rnd32 x)) = f32_to_bits (rnd32 x)"
  proof (cases "k = 0")
    case True
    then show ?thesis
      by (simp add: x_def rnd32_def fl_round_def f32_to_bits_def f32_value_def f32_magnitude_def clamp_level_def f32_is_nan_def Let_def)
  next
    case False
    with assms have x: "1 / 128 \<le> x" "x \<le> 1" by (simp_all add: x_def le_divide_eq divide_le_eq)
    then have "0 < x" by simp
    from rnd32_normal [OF this] obtain m e where me: "2 ^ 23 \<le> m" "m < 2 ^ 24" "fl_exponent x \<le> e" "rnd32 x = of_int m * pow2 (e - 23)"
      by blast
    have m: "(2 ^ 23 :: rat) \<le> of_int m" "of_int m < (2 ^ 24 :: rat)"
      using me(1,2) by (metis of_int_le_iff of_int_less_iff of_int_power of_int_numeral)+
    have "rnd32 x \<le> 1" "1 / 128 \<le> rnd32 x" using rnd32_le [of 1 x 0] rnd32_ge [of 1 7 x] x by simp_all
    moreover have "pow2 e = 2 ^ 23 * pow2 (e - 23)" using pow2_add [of 23 "e - 23"] pow2_of_nat [of 23] by simp
    moreover have "2 ^ 23 * pow2 (e - 23) \<le> rnd32 x" "rnd32 x < 2 ^ 24 * pow2 (e - 23)"
      unfolding me(4) using m by simp_all
    ultimately have "pow2 e < pow2 1" "pow2 (- 8) < pow2 e"
      using pow2_of_nat [of 1] pow2_diff [of 0 8] pow2_of_nat [of 8] pow2_of_nat [of 0] by simp_all
    then have e: "- 8 < e" "e < 1" by (simp_all only: pow2_strict)
    from f32_roundtrip [OF me(1,2) _ _ me(4)] e
    have val: "f32_value (f32_to_bits (rnd32 x)) = rnd32 x" and bits: "uint (f32_to_bits (rnd32 x)) = (e + 127) * 2 ^ 23 + (m - 2 ^ 23)" by simp_all
    have "e = 0 \<Longrightarrow> of_int m \<le> (of_int (2 ^ 23) :: rat)"
      using \<open>rnd32 x \<le> 1\<close> me(4) pow2_diff [of 0 23] pow2_of_nat [of 23] pow2_of_nat [of 0] by (simp add: divide_le_eq)
    then have "e = 0 \<Longrightarrow> m = 2 ^ 23" using me(1) unfolding of_int_le_iff by simp
    then have "uint (f32_to_bits (rnd32 x)) \<le> uint (f32_one)"
      using bits e me(1,2) unfolding f32_one_def by (cases "e = 0") auto
    then have le: "f32_to_bits (rnd32 x) \<le> f32_one" by (simp add: word_le_def)
    have "f32_to_bits (rnd32 x) AND 0x7fffffff \<le> f32_to_bits (rnd32 x)" by (rule word_and_le2)
    also have "\<dots> \<le> f32_one" by (rule le)
    also have "\<dots> \<le> 0x7f800000" by (simp add: f32_one_def)
    finally have "\<not> f32_is_nan (f32_to_bits (rnd32 x))" unfolding f32_is_nan_def by (simp only: not_less)
    moreover have "\<not> f32_to_bits (rnd32 x) > 0x80000000" using le by (simp add: f32_one_def word_le_nat_alt word_less_nat_alt)
    ultimately have "clamp_level (f32_to_bits (rnd32 x)) = f32_to_bits (rnd32 x)"
      using le by (auto simp: clamp_level_def dest: leD)
    with val show ?thesis by blast
  qed
  then show "f32_value (f32_to_bits (rnd32 (of_nat k / 100))) = rnd32 (of_nat k / 100)"
    "clamp_level (f32_to_bits (rnd32 (of_nat k / 100))) = f32_to_bits (rnd32 (of_nat k / 100))" by (simp_all add: x_def)
qed

section \<open>Properties\<close>

text \<open>
  The volume command keeps its level on the way to the guest: for every percentage the server's
  clamp leaves the pattern the client sends as it is, and the pattern denotes the single-precision
  number nearest to the percentage, between 0 and 1; percentages above 100 count as 100.
\<close>
theorem volume_command_level:
  "clamp_level (percent_to_wire_level percent) = percent_to_wire_level percent
   \<and> f32_value (percent_to_wire_level percent) = rnd32 (of_nat (min (unat percent) 100) / 100)
   \<and> 0 \<le> f32_value (percent_to_wire_level percent) \<and> f32_value (percent_to_wire_level percent) \<le> 1"
proof -
  define k where "k = min (unat percent) 100"
  have k: "k \<le> 100" and lvl: "percent_to_wire_level percent = f32_to_bits (rnd32 (of_nat k / 100))"
    by (simp_all add: k_def percent_to_wire_level_def unat_min)
  have "0 \<le> rnd32 (of_nat k / 100)" "rnd32 (of_nat k / 100) \<le> 1"
    using rnd32_ge [of 0 0 "of_nat k / 100"] rnd32_le [of 1 "of_nat k / 100" 0] k by (simp_all add: divide_le_eq)
  with percent_level [OF k] show ?thesis unfolding lvl k_def [symmetric] by simp
qed

lemma epsilon_value: "\<exists>n. 0 < n \<and> n \<le> 2 ^ 24 \<and> f32_value LEVEL_EPSILON = of_int n / 2 ^ 31"
proof -
  have ex: "fl_exponent (5 / 1000) = - 8"
    using pow2_diff [of 0 8] pow2_diff [of 0 7] pow2_of_nat [of 8] pow2_of_nat [of 7] pow2_of_nat [of 0]
    by (intro fl_exponent_unique) simp_all
  have p: "pow2 (- 31) = 1 / 2 ^ 31" using pow2_diff [of 0 31] pow2_of_nat [of 31] pow2_of_nat [of 0] by simp
  have "\<lfloor>5 / 1000 / (1 / 2 ^ 31) :: rat\<rfloor> = 10737418" by (rule floor_unique) simp_all
  then have "round_even (5 / 1000 / (1 / 2 ^ 31)) = 10737418" by (simp add: round_even_def Let_def)
  then have r: "rnd32 (5 / 1000) = of_int 10737418 * pow2 (- 8 - 23)"
    using ex by (simp add: rnd32_def fl_round_def Let_def p)
  have "f32_value LEVEL_EPSILON = rnd32 (5 / 1000)"
    unfolding LEVEL_EPSILON_def by (rule f32_roundtrip(1) [OF _ _ _ _ r]) simp_all
  with r p show ?thesis by (intro exI [of _ 10737418]) simp
qed

text \<open>A difference the poller does not report is below the threshold before rounding too.\<close>

lemma unsent_difference:
  assumes "\<not> worth_sending current (Some prev)" and "f32_is_finite (vol_level prev)" and "f32_is_finite (vol_level current)"
    and "\<not> f32_is_nan (vol_level prev)" and "\<not> f32_is_nan (vol_level current)"
  shows "vol_muted prev = vol_muted current \<and> \<bar>f32_value (vol_level prev) - f32_value (vol_level current)\<bar> < f32_value LEVEL_EPSILON"
proof -
  define d where "d = f32_value (vol_level prev) - f32_value (vol_level current)"
  have same: "vol_muted prev = vol_muted current" and small: "\<bar>rnd32 d\<bar> < f32_value LEVEL_EPSILON"
    using assms by (auto simp: worth_sending_def Let_def d_def split: if_splits)
  obtain n where n: "0 < n" "n \<le> 2 ^ 24" "f32_value LEVEL_EPSILON = of_int n / 2 ^ 31" using epsilon_value by blast
  have "f32_value LEVEL_EPSILON \<le> d \<Longrightarrow> f32_value LEVEL_EPSILON \<le> rnd32 d"
    using rnd32_ge [of n 31 d] n by simp
  moreover have "f32_value LEVEL_EPSILON \<le> - d \<Longrightarrow> f32_value LEVEL_EPSILON \<le> - rnd32 d"
    using rnd32_ge [of n 31 "- d"] n fl_round_minus [of 24 d] by (simp add: rnd32_def)
  ultimately show ?thesis using same small unfolding d_def [symmetric] by linarith
qed

text \<open>The level is a number: what the audio device reports, when it reports one.\<close>

definition numeric :: "VolumeChange option \<Rightarrow> bool" where
  "numeric sample = (case sample of None \<Rightarrow> True | Some v \<Rightarrow> f32_is_finite (vol_level v) \<and> \<not> f32_is_nan (vol_level v))"

definition close_to :: "VolumeChange \<Rightarrow> VolumeChange option \<Rightarrow> bool" where
  "close_to v sent = (case sent of None \<Rightarrow> False | Some u \<Rightarrow>
     vol_muted u = vol_muted v \<and> \<bar>f32_value (vol_level u) - f32_value (vol_level v)\<bar> < f32_value LEVEL_EPSILON)"

lemma poll_close:
  assumes "numeric (last_sent p)" and "numeric (Some v)"
  shows "close_to v (last_sent (poll_volume p (Some v)))"
proof (cases "worth_sending v (last_sent p)")
  case True
  have "0 < f32_value LEVEL_EPSILON" using epsilon_value by fastforce
  with True show ?thesis by (simp add: poll_volume_def close_to_def)
next
  case False
  then obtain u where u: "last_sent p = Some u" by (cases "last_sent p") (simp_all add: worth_sending_def)
  with False assms unsent_difference [of v u] show ?thesis by (simp add: poll_volume_def close_to_def numeric_def)
qed

lemma polls_keep:
  assumes "list_all numeric samples" and "numeric (last_sent p)"
  shows "numeric (last_sent (run poll_volume p samples))"
  using assms
proof (induction samples arbitrary: p)
  case (Cons s ss)
  have "numeric (last_sent (poll_volume p s))"
    using Cons.prems by (cases s) (simp_all add: poll_volume_def)
  with Cons show ?case by simp
qed simp

definition poller_start :: volume_poller where
  "poller_start = \<lparr>last_sent = None, volume_out = []\<rparr>"

lemma last_sent_is_last:
  "volume_out p = [] \<longleftrightarrow> last_sent p = None \<Longrightarrow> (last_sent p \<noteq> None \<Longrightarrow> last_sent p = Some (last (volume_out p))) \<Longrightarrow>
     last_sent (run poll_volume p samples) =
       (if volume_out (run poll_volume p samples) = [] then None else Some (last (volume_out (run poll_volume p samples))))"
proof (induction samples arbitrary: p)
  case (Cons s ss)
  show ?case unfolding run_Cons
    by (rule Cons.IH; use Cons.prems in \<open>cases s; auto simp: poll_volume_def split: if_splits\<close>)
qed auto

text \<open>
  The guest follows the host's volume: after any number of polls, whether or not the device
  answered in between, the frame sent last has the mute state of the last sample and a level that
  differs from it by less than the threshold, also where the difference of the two single-precision
  numbers is rounded.
\<close>
theorem host_volume_followed:
  assumes "list_all numeric samples" and "numeric (Some v)"
  shows "let p = run poll_volume poller_start (samples @ [Some v]) in
    volume_out p \<noteq> [] \<and> vol_muted (last (volume_out p)) = vol_muted v
    \<and> \<bar>f32_value (vol_level (last (volume_out p))) - f32_value (vol_level v)\<bar> < f32_value LEVEL_EPSILON"
proof -
  define q where "q = run poll_volume poller_start samples"
  have "close_to v (last_sent (poll_volume q (Some v)))"
    unfolding q_def by (intro poll_close polls_keep assms) (simp add: poller_start_def numeric_def)
  moreover have "poll_volume q (Some v) = run poll_volume poller_start (samples @ [Some v])" by (simp add: q_def run_append)
  ultimately show ?thesis
    using last_sent_is_last [of poller_start "samples @ [Some v]"]
    by (simp add: Let_def poller_start_def close_to_def split: if_splits)
qed

theorem host_volume_followed_witness:
  "let p = run poll_volume poller_start ([Some \<lparr>vol_level = 0x3f000000, vol_muted = False\<rparr>, None] @ [Some \<lparr>vol_level = 0x3f004189, vol_muted = False\<rparr>]) in
    volume_out p \<noteq> [] \<and> vol_muted (last (volume_out p)) = False
    \<and> \<bar>f32_value (vol_level (last (volume_out p))) - f32_value 0x3f004189\<bar> < f32_value LEVEL_EPSILON"
  using host_volume_followed [of "[Some \<lparr>vol_level = 0x3f000000, vol_muted = False\<rparr>, None]" "\<lparr>vol_level = 0x3f004189, vol_muted = False\<rparr>"]
  by (simp add: numeric_def f32_is_finite_def f32_is_nan_def)

end
