(* ===== verification/Client_Net.thy ===== *)
theory Client_Net
  imports Client_Volume Viewer_Input Datagram
begin

text \<open>
  The client's network, \<open>crates/client/src/net.rs\<close>, \<open>data_plane/tcp.rs\<close>, the streams of
  \<open>data_plane/quic.rs\<close>: handshakes over TCP and QUIC, the one-shot commands with the choice between both transports, the interactive loop, the two
  network threads of a view, the tee in front of the TCP fallback, and the check of a pinned
  certificate.

  A connection is what still arrives on it, the number of writes it takes before it breaks (a
  message that cannot be encoded ends it the same way) and what was written. TCP delivers the
  items of \<open>Proto\<close>, bytes and read timeouts; a QUIC stream delivers bytes, and its end. Operations
  are state transformers with an error, bound by \<open>net_bind\<close> where the source has the question mark.
  Clock, standard input and whether a connection can be made are arguments.
\<close>

section \<open>Connections\<close>

datatype net_error =
    ConnectFailed
  | NetProto proto_error
  | NetWriteFailed
  | ServerRefused ustring
  | ServerError u16 ustring
  | ExpectedWelcome Kind
  | WelcomeVersion u16
  | PongMismatch u64 u64
  | UnexpectedReply Kind
  | RequiresQuicAddr
  | RequiresQuicToken
  | RequiresCertPin
  | BadCertPin
  | ExpectedChannel Kind
  | StdinFailed

datatype wire = Prelude | Frame Message

record 's conn =
  inbound :: 's
  writes_left :: nat
  written :: "wire list"

type_synonym ('s, 'a) net = "'s conn \<Rightarrow> (net_error + 'a) \<times> 's conn"

definition net_return :: "'a \<Rightarrow> ('s, 'a) net" where
  "net_return a c = (Inr a, c)"

definition net_fail :: "net_error \<Rightarrow> ('s, 'a) net" where
  "net_fail e c = (Inl e, c)"

definition net_bind :: "('s, 'a) net \<Rightarrow> ('a \<Rightarrow> ('s, 'b) net) \<Rightarrow> ('s, 'b) net" where
  "net_bind m f c = (case m c of (Inl e, c') \<Rightarrow> (Inl e, c') | (Inr a, c') \<Rightarrow> f a c')"

text \<open>\<open>let _ = ...\<close>: the result is dropped.\<close>

definition net_ignore :: "('s, 'a) net \<Rightarrow> ('s, unit) net" where
  "net_ignore m c = (Inr (), snd (m c))"

definition put_wire :: "wire \<Rightarrow> ('s, unit) net" where
  "put_wire w c =
     (if writes_left c = 0 then (Inl NetWriteFailed, c)
      else (Inr (), c\<lparr>writes_left := writes_left c - 1, written := written c @ [w]\<rparr>))"

fun put_frames :: "Message list \<Rightarrow> ('s, unit) net" where
  "put_frames [] = net_return ()"
| "put_frames (m # ms) = net_bind (put_wire (Frame m)) (\<lambda>_. put_frames ms)"

text \<open>Reading through a function on what arrives.\<close>

definition get_with :: "('s \<Rightarrow> (proto_error + 'a) \<times> 's) \<Rightarrow> ('s, 'a) net" where
  "get_with f c =
     (case f (inbound c) of
        (Inl e, s) \<Rightarrow> (Inl (NetProto e), c\<lparr>inbound := s\<rparr>)
      | (Inr a, s) \<Rightarrow> (Inr a, c\<lparr>inbound := s\<rparr>))"

section \<open>QUIC streams\<close>

definition recv_exact :: "nat \<Rightarrow> u8 list \<Rightarrow> (proto_error + u8 list) \<times> u8 list" where
  "recv_exact n bs = (if length bs < n then (Inl (Io UnexpectedEof), []) else (Inr (take n bs), drop n bs))"

definition quic_read_prelude :: "u8 list \<Rightarrow> (proto_error + unit) \<times> u8 list" where
  "quic_read_prelude s0 =
     (case recv_exact 4 s0 of
        (Inl e, s1) \<Rightarrow> (Inl e, s1)
      | (Inr magic, s1) \<Rightarrow>
          if magic \<noteq> MAGIC then (Inl (BadMagic magic), s1)
          else
            (case recv_exact 2 s1 of
               (Inl e, s2) \<Rightarrow> (Inl e, s2)
             | (Inr ver, s2) \<Rightarrow>
                 if u16_from_be ver \<noteq> PROTOCOL_VERSION then (Inl (VersionMismatch (u16_from_be ver)), s2)
                 else (Inr (), s2)))"

definition quic_read_frame :: "(u8 list \<Rightarrow> Message option) \<Rightarrow> u8 list \<Rightarrow> (proto_error + Message) \<times> u8 list" where
  "quic_read_frame de s0 =
     (case recv_exact 4 s0 of
        (Inl e, s1) \<Rightarrow> (Inl e, s1)
      | (Inr len, s1) \<Rightarrow>
          let frame_len = u32_from_be len in
          if frame_len < 4 then (Inl (FrameTooSmall frame_len), s1)
          else if frame_len > MAX_FRAME_BYTES then (Inl (FrameTooBig (unat frame_len)), s1)
          else
            (case recv_exact 4 s1 of
               (Inl e, s2) \<Rightarrow> (Inl e, s2)
             | (Inr kind_raw, s2) \<Rightarrow>
                 (case kind_from_u32 (u32_from_be kind_raw) of
                    None \<Rightarrow> (Inl (UnknownKind (u32_from_be kind_raw)), s2)
                  | Some k \<Rightarrow>
                      (case recv_exact (unat (frame_len - 4)) s2 of
                         (Inl e, s3) \<Rightarrow> (Inl e, s3)
                       | (Inr payload, s3) \<Rightarrow> (decode_frame_payload de k payload, s3)))))"

text \<open>Certificate pins: hexadecimal digits, colons are skipped.\<close>

definition is_ascii_hexdigit :: "uchar \<Rightarrow> bool" where
  "is_ascii_hexdigit c \<longleftrightarrow> 0x30 \<le> c \<and> c \<le> 0x39 \<or> 0x41 \<le> c \<and> c \<le> 0x46 \<or> 0x61 \<le> c \<and> c \<le> 0x66"

definition hex_value :: "uchar \<Rightarrow> nat" where
  "hex_value c = (if c \<le> 0x39 then c - 0x30 else if c \<le> 0x46 then c - 0x41 + 10 else c - 0x61 + 10)"

fun hex_pairs :: "ustring \<Rightarrow> u8 list" where
  "hex_pairs (a # b # cs) = of_nat (hex_value a * 16 + hex_value b) # hex_pairs cs"
| "hex_pairs _ = []"

definition parse_sha256_hex :: "ustring \<Rightarrow> net_error + u8 list" where
  "parse_sha256_hex pin =
     (let compact = filter (\<lambda>ch. ch \<noteq> 0x3A) pin in
      if utf8_len compact \<noteq> 64 \<or> \<not> list_all is_ascii_hexdigit compact then Inl BadCertPin
      else Inr (hex_pairs compact))"

datatype verifier = PinnedServer "u8 list" | SkipVerification

definition client_config :: "bool \<Rightarrow> ustring option \<Rightarrow> net_error + verifier" where
  "client_config insecure pin =
     (case pin of
        Some p \<Rightarrow> (case parse_sha256_hex p of Inl e \<Rightarrow> Inl e | Inr d \<Rightarrow> Inr (PinnedServer d))
      | None \<Rightarrow> if insecure then Inr SkipVerification else Inl RequiresCertPin)"

fun verify_server_cert :: "verifier \<Rightarrow> u8 list \<Rightarrow> bool" where
  "verify_server_cert (PinnedServer expected) got \<longleftrightarrow> got = expected"
| "verify_server_cert SkipVerification got \<longleftrightarrow> True"

definition bind_addr_for :: "SocketAddr \<Rightarrow> SocketAddr" where
  "bind_addr_for remote = (case remote of SocketAddrV4 _ _ \<Rightarrow> SocketAddrV4 0 0 | SocketAddrV6 _ _ _ _ \<Rightarrow> SocketAddrV6 0 0 0 0)"

section \<open>Handshakes\<close>

record Session =
  sess_server_name :: ustring
  sess_session_id :: u64
  sess_next_seq :: u64

fun welcome_of :: "Message \<Rightarrow> ('s, Welcome) net" where
  "welcome_of (Message.Welcome w) = net_return w"
| "welcome_of (Message.Goodbye why) = net_fail (ServerRefused why)"
| "welcome_of (Message.Error e) = net_fail (ServerError (err_code e) (err_message e))"
| "welcome_of other = net_fail (ExpectedWelcome (kind other))"

definition client_hello :: "ustring \<Rightarrow> Message" where
  "client_hello client = Message.Hello \<lparr>hello_version = PROTOCOL_VERSION, client_name = client\<rparr>"

text \<open>The exchange of preludes, \<open>Hello\<close> and \<open>Welcome\<close>, the same steps on both transports.\<close>

definition hello_exchange ::
  "('s \<Rightarrow> (proto_error + 'v) \<times> 's) \<Rightarrow> ('s \<Rightarrow> (proto_error + Message) \<times> 's) \<Rightarrow> ustring \<Rightarrow> ('s, Welcome) net" where
  "hello_exchange get_prelude get_frame client =
     net_bind (put_wire Prelude) (\<lambda>_.
     net_bind (get_with get_prelude) (\<lambda>_.
     net_bind (put_wire (Frame (client_hello client))) (\<lambda>_.
     net_bind (get_with get_frame) (\<lambda>msg.
     net_bind (welcome_of msg) (\<lambda>welcome.
       if welcome_version welcome \<noteq> PROTOCOL_VERSION then net_fail (WelcomeVersion (welcome_version welcome))
       else net_return welcome)))))"

definition handshake :: "(u8 list \<Rightarrow> Message option) \<Rightarrow> ustring \<Rightarrow> bool \<Rightarrow> (io_stream, Session) net" where
  "handshake de client up =
     (if \<not> up then net_fail ConnectFailed
      else
        net_bind (hello_exchange read_prelude (read_frame de) client) (\<lambda>welcome.
          net_return \<lparr>sess_server_name = server_name welcome, sess_session_id = session_id welcome, sess_next_seq = 1\<rparr>))"

text \<open>\<open>cert\<close> is the digest of the certificate the server presents.\<close>

record quic_peer =
  reachable :: bool
  cert_sha256 :: "u8 list"
  insecure_skip_verify :: bool

definition quic_connect :: "quic_peer \<Rightarrow> ustring option \<Rightarrow> (u8 list, unit) net" where
  "quic_connect peer pin =
     (case client_config (insecure_skip_verify peer) pin of
        Inl e \<Rightarrow> net_fail e
      | Inr v \<Rightarrow> if reachable peer \<and> verify_server_cert v (cert_sha256 peer) then net_return () else net_fail ConnectFailed)"

definition open_authenticated_stream ::
  "(u8 list \<Rightarrow> Message option) \<Rightarrow> ustring \<Rightarrow> quic_peer \<Rightarrow> ustring option \<Rightarrow> ustring \<Rightarrow> (u8 list, unit) net" where
  "open_authenticated_stream de client peer pin token =
     net_bind (quic_connect peer pin) (\<lambda>_.
     net_bind (hello_exchange quic_read_prelude (quic_read_frame de) client) (\<lambda>_.
       put_wire (Frame (Message.DataPlaneAuth token))))"

section \<open>Ping\<close>

datatype PingReply = PingPong u64 | PingSeqMismatch u64 u64 | PingUnexpectedKind Kind

fun classify_ping_reply :: "Message \<Rightarrow> u64 \<Rightarrow> PingReply" where
  "classify_ping_reply (Message.Pong p) expected =
     (if pong_seq p = expected then PingPong (pong_seq p) else PingSeqMismatch (pong_seq p) expected)"
| "classify_ping_reply other expected = PingUnexpectedKind (kind other)"

definition ping_frame :: "u64 \<Rightarrow> u64 \<Rightarrow> wire" where
  "ping_frame seq stamp = Frame (Message.Ping \<lparr>ping_seq = seq, ping_stamp_ns = stamp\<rparr>)"

definition goodbye_frame :: "ustring \<Rightarrow> wire" where
  "goodbye_frame why = Frame (Message.Goodbye why)"

text \<open>The result is the sequence number on the line that is printed.\<close>

definition one_shot_tcp_ping :: "(u8 list \<Rightarrow> Message option) \<Rightarrow> ustring \<Rightarrow> bool \<Rightarrow> u64 \<Rightarrow> (io_stream, u64) net" where
  "one_shot_tcp_ping de client up stamp =
     net_bind (handshake de client up) (\<lambda>s.
     net_bind (put_wire (ping_frame (sess_next_seq s) stamp)) (\<lambda>_.
     net_bind (get_with (read_frame de)) (\<lambda>resp.
       case classify_ping_reply resp (sess_next_seq s) of
         PingPong pong \<Rightarrow>
           net_bind (net_ignore (put_wire (goodbye_frame (ascii ''ping complete'')))) (\<lambda>_. net_return pong)
       | PingSeqMismatch got expected \<Rightarrow> net_fail (PongMismatch got expected)
       | PingUnexpectedKind k \<Rightarrow> net_fail (UnexpectedReply k))))"

definition quic_ping ::
  "(u8 list \<Rightarrow> Message option) \<Rightarrow> ustring \<Rightarrow> quic_peer \<Rightarrow> ustring option \<Rightarrow> ustring \<Rightarrow> u64 \<Rightarrow> (u8 list, u64) net" where
  "quic_ping de client peer pin token stamp =
     net_bind (open_authenticated_stream de client peer pin token) (\<lambda>_.
     net_bind (put_wire (ping_frame 1 stamp)) (\<lambda>_.
     net_bind (get_with (quic_read_frame de)) (\<lambda>resp.
       case resp of
         Message.Pong p \<Rightarrow>
           if pong_seq p = 1
           then net_bind (put_wire (goodbye_frame (ascii ''ping complete''))) (\<lambda>_. net_return 1)
           else net_fail (PongMismatch (pong_seq p) 1)
       | other \<Rightarrow> net_fail (UnexpectedReply (kind other)))))"

section \<open>The interactive loop\<close>

text \<open>\<open>str::trim\<close> with Unicode's white space.\<close>

definition is_whitespace :: "uchar \<Rightarrow> bool" where
  "is_whitespace c \<longleftrightarrow> 0x09 \<le> c \<and> c \<le> 0x0D \<or> c \<in> {0x20, 0x85, 0xA0, 0x1680, 0x2028, 0x2029, 0x202F, 0x205F, 0x3000}
     \<or> 0x2000 \<le> c \<and> c \<le> 0x200A"

definition str_trim :: "ustring \<Rightarrow> ustring" where
  "str_trim s = rev (dropWhile is_whitespace (rev (dropWhile is_whitespace s)))"

datatype InteractiveCommand = CmdPing | CmdQuit | CmdNothing | CmdUnknown ustring

definition parse_interactive_line :: "ustring \<Rightarrow> InteractiveCommand" where
  "parse_interactive_line line =
     (let t = str_trim line in
      if t = ascii ''ping'' then CmdPing
      else if t = ascii ''quit'' \<or> t = ascii ''exit'' then CmdQuit
      else if t = [] then CmdNothing
      else CmdUnknown t)"

datatype console = SaidPong u64 | SaidGot Kind | SaidUnknown ustring

text \<open>
  The lines of standard input, \<open>None\<close> for a failed read; their end is the end of the input. The
  printed lines are returned beside the result.
\<close>

fun interactive_loop ::
  "(u8 list \<Rightarrow> Message option) \<Rightarrow> (u64 \<Rightarrow> u64) \<Rightarrow> ustring option list \<Rightarrow> u64 \<Rightarrow> io_stream conn
     \<Rightarrow> (net_error + unit) \<times> console list \<times> io_stream conn" where
  "interactive_loop de stamp [] seq c = (Inr (), [], c)"
| "interactive_loop de stamp (None # rest) seq c = (Inl StdinFailed, [], c)"
| "interactive_loop de stamp (Some line # rest) seq c =
     (case parse_interactive_line line of
        CmdPing \<Rightarrow>
          (case net_bind (put_wire (ping_frame seq (stamp seq))) (\<lambda>_. get_with (read_frame de)) c of
             (Inl e, c') \<Rightarrow> (Inl e, [], c')
           | (Inr msg, c') \<Rightarrow>
               let said = (case msg of Message.Pong p \<Rightarrow> SaidPong (pong_seq p) | other \<Rightarrow> SaidGot (kind other))
               in case interactive_loop de stamp rest (seq + 1) c' of (r, out, c'') \<Rightarrow> (r, said # out, c''))
      | CmdQuit \<Rightarrow> (Inr (), [], snd (put_wire (goodbye_frame (ascii ''user'')) c))
      | CmdNothing \<Rightarrow> interactive_loop de stamp rest seq c
      | CmdUnknown other \<Rightarrow>
          (case interactive_loop de stamp rest seq c of (r, out, c') \<Rightarrow> (r, SaidUnknown other # out, c')))"

definition interactive ::
  "(u8 list \<Rightarrow> Message option) \<Rightarrow> ustring \<Rightarrow> bool \<Rightarrow> (u64 \<Rightarrow> u64) \<Rightarrow> ustring option list \<Rightarrow> io_stream conn
     \<Rightarrow> (net_error + unit) \<times> console list \<times> io_stream conn" where
  "interactive de client up stamp input c =
     (case handshake de client up c of
        (Inl e, c') \<Rightarrow> (Inl e, [], c')
      | (Inr s, c') \<Rightarrow> interactive_loop de stamp input (sess_next_seq s) c')"

section \<open>Input commands\<close>

datatype InputCmd =
    CmdMotion i32 i32
  | CmdClick i32 i32
  | CmdDrag i32 i32 i32 i32
  | CmdText "ustring list"
  | CmdPreedit "ustring list"
  | CmdKey u32

text \<open>\<open>i32\<close> arithmetic of a release build: products and sums wrap, the quotient truncates.\<close>

definition lerp_i32 :: "i32 \<Rightarrow> i32 \<Rightarrow> i32 \<Rightarrow> i32 \<Rightarrow> i32" where
  "lerp_i32 a b step steps =
     a + word_of_int (let n = sint ((b - a) * step); d = max (sint steps) 1 in sgn n * (\<bar>n\<bar> div d))"

definition build_drag_sequence :: "u64 \<Rightarrow> i32 \<Rightarrow> i32 \<Rightarrow> i32 \<Rightarrow> i32 \<Rightarrow> InputEvent list" where
  "build_drag_sequence wid from_x from_y to_x to_y =
     [PointerMotion wid from_x from_y, PointerButton wid 0x110 BtnPressed]
     @ map (\<lambda>step. PointerMotion wid (lerp_i32 from_x to_x (of_nat step) 8) (lerp_i32 from_y to_y (of_nat step) 8)) [1..<9]
     @ [PointerButton wid 0x110 BtnReleased]"

definition join_words :: "ustring list \<Rightarrow> ustring" where
  "join_words ws = (case ws of [] \<Rightarrow> [] | v # vs \<Rightarrow> v @ concat (map (\<lambda>u. 0x20 # u) vs))"

fun build_input_command_sequence :: "u64 \<Rightarrow> InputCmd \<Rightarrow> InputEvent list" where
  "build_input_command_sequence wid (CmdMotion x y) = [PointerMotion wid x y]"
| "build_input_command_sequence wid (CmdClick x y) =
     [PointerMotion wid x y, PointerButton wid 0x110 BtnPressed, PointerButton wid 0x110 BtnReleased]"
| "build_input_command_sequence wid (CmdDrag from_x from_y to_x to_y) = build_drag_sequence wid from_x from_y to_x to_y"
| "build_input_command_sequence wid (CmdText ws) = [InputEvent.Text wid (join_words ws)]"
| "build_input_command_sequence wid (CmdPreedit ws) =
     (let t = join_words ws; cursor = usize_to_i32 (utf8_len t) in [InputEvent.Preedit wid t cursor cursor])"
| "build_input_command_sequence wid (CmdKey keycode) = [InputEvent.Key wid keycode KeyPressed, InputEvent.Key wid keycode KeyReleased]"

section \<open>The choice of the transport\<close>

record CommandTransport =
  ct_mode :: DataPlaneMode
  ct_quic_addr :: "SocketAddr option"
  ct_quic_token :: "ustring option"
  ct_quic_cert_sha256 :: "ustring option"

definition command_transport_tcp :: CommandTransport where
  "command_transport_tcp = \<lparr>ct_mode = TcpOnly, ct_quic_addr = None, ct_quic_token = None, ct_quic_cert_sha256 = None\<rparr>"

text \<open>Both connections a command may use, and the answers of their peers.\<close>

record world =
  tcp_up :: bool
  tcp_conn :: "io_stream conn"
  quic_peer_of :: quic_peer
  quic_conn :: "u8 list conn"

definition on_tcp :: "(bool \<Rightarrow> (io_stream, 'a) net) \<Rightarrow> world \<Rightarrow> (net_error + 'a) \<times> world" where
  "on_tcp m w = (case m (tcp_up w) (tcp_conn w) of (r, c) \<Rightarrow> (r, w\<lparr>tcp_conn := c\<rparr>))"

definition on_quic :: "(quic_peer \<Rightarrow> (u8 list, 'a) net) \<Rightarrow> world \<Rightarrow> (net_error + 'a) \<times> world" where
  "on_quic m w = (case m (quic_peer_of w) (quic_conn w) of (r, c) \<Rightarrow> (r, w\<lparr>quic_conn := c\<rparr>))"

definition one_shot_ping_with_transport ::
  "(u8 list \<Rightarrow> Message option) \<Rightarrow> ustring \<Rightarrow> u64 \<Rightarrow> CommandTransport \<Rightarrow> world \<Rightarrow> (net_error + u64) \<times> world" where
  "one_shot_ping_with_transport de client stamp tr w =
     (let tcp = on_tcp (\<lambda>up. one_shot_tcp_ping de client up stamp) in
      case ct_mode tr of
        TcpOnly \<Rightarrow> tcp w
      | mode \<Rightarrow>
          (case ct_quic_addr tr of
             None \<Rightarrow> if mode = Auto then tcp w else (Inl RequiresQuicAddr, w)
           | Some _ \<Rightarrow>
               (case ct_quic_token tr of
                  None \<Rightarrow> if mode = Auto then tcp w else (Inl RequiresQuicToken, w)
                | Some token \<Rightarrow>
                    (case on_quic (\<lambda>peer. quic_ping de client peer (ct_quic_cert_sha256 tr) token stamp) w of
                       (Inr r, w') \<Rightarrow> (Inr r, w')
                     | (Inl e, w') \<Rightarrow> if mode = Auto then tcp w' else (Inl e, w')))))"

definition send_tcp_command_messages ::
  "(u8 list \<Rightarrow> Message option) \<Rightarrow> ustring \<Rightarrow> Message list \<Rightarrow> ustring \<Rightarrow> bool \<Rightarrow> (io_stream, unit) net" where
  "send_tcp_command_messages de client messages why up =
     net_bind (handshake de client up) (\<lambda>_.
     net_bind (put_frames messages) (\<lambda>_. net_ignore (put_wire (goodbye_frame why))))"

definition quic_send_messages ::
  "(u8 list \<Rightarrow> Message option) \<Rightarrow> ustring \<Rightarrow> quic_peer \<Rightarrow> ustring option \<Rightarrow> ustring \<Rightarrow> Message list \<Rightarrow> ustring
     \<Rightarrow> (u8 list, unit) net" where
  "quic_send_messages de client peer pin token messages why =
     net_bind (open_authenticated_stream de client peer pin token) (\<lambda>_.
     net_bind (put_frames messages) (\<lambda>_. put_wire (goodbye_frame why)))"

definition send_command_messages ::
  "(u8 list \<Rightarrow> Message option) \<Rightarrow> ustring \<Rightarrow> CommandTransport \<Rightarrow> Message list \<Rightarrow> ustring \<Rightarrow> world
     \<Rightarrow> (net_error + unit) \<times> world" where
  "send_command_messages de client tr messages why w =
     (let tcp = on_tcp (send_tcp_command_messages de client messages why) in
      case ct_mode tr of
        TcpOnly \<Rightarrow> tcp w
      | mode \<Rightarrow>
          (case ct_quic_addr tr of
             None \<Rightarrow> if mode = Auto then tcp w else (Inl RequiresQuicAddr, w)
           | Some _ \<Rightarrow>
               (case ct_quic_token tr of
                  None \<Rightarrow> if mode = Auto then tcp w else (Inl RequiresQuicToken, w)
                | Some token \<Rightarrow>
                    (case on_quic (\<lambda>peer. quic_send_messages de client peer (ct_quic_cert_sha256 tr) token messages why) w of
                       (Inr r, w') \<Rightarrow> (Inr r, w')
                     | (Inl e, w') \<Rightarrow> if mode = Auto then tcp w' else (Inl e, w')))))"

definition send_input_command ::
  "(u8 list \<Rightarrow> Message option) \<Rightarrow> ustring \<Rightarrow> CommandTransport \<Rightarrow> u64 \<Rightarrow> InputCmd \<Rightarrow> world \<Rightarrow> (net_error + unit) \<times> world" where
  "send_input_command de client tr wid event =
     send_command_messages de client tr (map Message.InputEvent (build_input_command_sequence wid event))
       (ascii ''input command complete'')"

definition send_volume_command ::
  "(u8 list \<Rightarrow> Message option) \<Rightarrow> ustring \<Rightarrow> CommandTransport \<Rightarrow> u8 \<Rightarrow> bool option \<Rightarrow> world \<Rightarrow> (net_error + unit) \<times> world" where
  "send_volume_command de client tr level_percent muted =
     send_command_messages de client tr (volume_command_messages level_percent muted) (ascii ''volume command complete'')"

section \<open>The threads of a view\<close>

definition build_view_request :: "ustring \<Rightarrow> u32 \<Rightarrow> u32 \<Rightarrow> ViewRequest" where
  "build_view_request socket width height = \<lparr>socket_name = socket, view_width = max width 1, view_height = max height 1\<rparr>"

text \<open>
  The reader loops hand each message to the event loop until it is gone (\<open>room\<close> counts the events
  it still takes) or reading fails; the result is what was handed over and how the loop ended.
\<close>

function view_pump :: "(u8 list \<Rightarrow> Message option) \<Rightarrow> nat \<Rightarrow> io_stream \<Rightarrow> Message list \<times> net_error option" where
  "view_pump de room s =
     (case read_frame de s of
        (Inl e, _) \<Rightarrow> ([], Some (NetProto e))
      | (Inr msg, s') \<Rightarrow>
          if room = 0 then ([], None)
          else (case view_pump de (room - 1) s' of (ms, r) \<Rightarrow> (msg # ms, r)))"
  by pat_completeness auto
termination
  by (relation "measure (\<lambda>(_, _, s). length s)") (auto dest: read_frame_shorter [OF sym])

declare view_pump.simps [simp del]

datatype view_event = ViewMessage Message | ViewDisconnected net_error

definition view_network ::
  "(u8 list \<Rightarrow> Message option) \<Rightarrow> ustring \<Rightarrow> bool \<Rightarrow> ustring \<Rightarrow> u32 \<Rightarrow> u32 \<Rightarrow> nat \<Rightarrow> io_stream conn
     \<Rightarrow> Message list \<times> net_error option" where
  "view_network de client up socket width height room c =
     (case net_bind (handshake de client up) (\<lambda>_.
             put_wire (Frame (Message.ViewRequest (build_view_request socket width height)))) c of
        (Inl e, _) \<Rightarrow> ([], Some e)
      | (Inr _, c') \<Rightarrow> view_pump de room (inbound c'))"

definition input_network ::
  "(u8 list \<Rightarrow> Message option) \<Rightarrow> ustring \<Rightarrow> bool \<Rightarrow> Message list \<Rightarrow> (io_stream, unit) net" where
  "input_network de client up outbound =
     net_bind (handshake de client up) (\<lambda>_.
     net_bind (put_frames outbound) (\<lambda>_. net_ignore (put_wire (goodbye_frame (ascii ''viewer closed'')))))"

text \<open>The events the view thread of \<open>spawn_tcp_view_network\<close> posts.\<close>

definition tcp_view_events :: "Message list \<times> net_error option \<Rightarrow> view_event list" where
  "tcp_view_events r = map ViewMessage (fst r) @ (case snd r of None \<Rightarrow> [] | Some e \<Rightarrow> [ViewDisconnected e])"

datatype view_plan = SpawnTcp | SpawnQuic ustring bool

definition spawn_view_network :: "CommandTransport \<Rightarrow> net_error + view_plan" where
  "spawn_view_network tr =
     (case ct_mode tr of
        TcpOnly \<Rightarrow> Inr SpawnTcp
      | mode \<Rightarrow>
          (case ct_quic_addr tr of
             None \<Rightarrow> if mode = Auto then Inr SpawnTcp else Inl RequiresQuicAddr
           | Some _ \<Rightarrow>
               (case ct_quic_token tr of
                  None \<Rightarrow> if mode = Auto then Inr SpawnTcp else Inl RequiresQuicToken
                | Some token \<Rightarrow> Inr (SpawnQuic token (mode = Auto)))))"

text \<open>
  The tee of the automatic mode: every outbound message goes to the QUIC thread, and to the TCP
  thread too once the gate is open. The QUIC thread opens it when it fails.
\<close>

record tee =
  fallback_gate :: bool
  to_quic :: "Message list"
  to_tcp :: "Message list"

definition tee_start :: tee where
  "tee_start = \<lparr>fallback_gate = False, to_quic = [], to_tcp = []\<rparr>"

datatype tee_event = Outbound Message | QuicViewFailed

fun tee_step :: "tee \<Rightarrow> tee_event \<Rightarrow> tee" where
  "tee_step t (Outbound m) =
     t\<lparr>to_quic := to_quic t @ [m], to_tcp := (if fallback_gate t then to_tcp t @ [m] else to_tcp t)\<rparr>"
| "tee_step t QuicViewFailed = t\<lparr>fallback_gate := True\<rparr>"

section \<open>The view over QUIC\<close>

definition quic_view_setup ::
  "(u8 list \<Rightarrow> Message option) \<Rightarrow> ustring \<Rightarrow> quic_peer \<Rightarrow> ustring option \<Rightarrow> ustring \<Rightarrow> ustring \<Rightarrow> u32 \<Rightarrow> u32 \<Rightarrow> (u8 list, unit) net" where
  "quic_view_setup de client peer pin token socket width height =
     net_bind (open_authenticated_stream de client peer pin token) (\<lambda>_.
       put_wire (Frame (Message.ViewRequest (build_view_request socket width height))))"

lemma recv_exact_shorter: "recv_exact n bs = (Inr xs, bs') \<Longrightarrow> bs = xs @ bs' \<and> length xs = n"
  by (auto simp: recv_exact_def split: if_splits)

lemma quic_read_frame_shorter: "quic_read_frame de s = (Inr m, s') \<Longrightarrow> length s' < length s"
  by (auto simp: quic_read_frame_def Let_def split: prod.splits sum.splits if_splits option.splits dest!: recv_exact_shorter)

function quic_pump :: "(u8 list \<Rightarrow> Message option) \<Rightarrow> nat \<Rightarrow> u8 list \<Rightarrow> Message list \<times> net_error option" where
  "quic_pump de room s =
     (case quic_read_frame de s of
        (Inl e, _) \<Rightarrow> ([], Some (NetProto e))
      | (Inr msg, s') \<Rightarrow>
          if room = 0 then ([], None)
          else (case quic_pump de (room - 1) s' of (ms, r) \<Rightarrow> (msg # ms, r)))"
  by pat_completeness auto
termination
  by (relation "measure (\<lambda>(_, _, s). length s)") (auto dest: quic_read_frame_shorter [OF sym])

declare quic_pump.simps [simp del]

definition read_channel_stream :: "(u8 list \<Rightarrow> Message option) \<Rightarrow> nat \<Rightarrow> u8 list \<Rightarrow> Message list \<times> net_error option" where
  "read_channel_stream de room s =
     (case quic_read_prelude s of
        (Inl e, _) \<Rightarrow> ([], Some (NetProto e))
      | (Inr _, s1) \<Rightarrow>
          (case quic_read_frame de s1 of
             (Inl e, _) \<Rightarrow> ([], Some (NetProto e))
           | (Inr (Message.DataPlaneChannel channel), s2) \<Rightarrow> quic_pump de room s2
           | (Inr other, _) \<Rightarrow> ([], Some (ExpectedChannel (kind other)))))"

definition quic_view_writer :: "Message list \<Rightarrow> (u8 list, unit) net" where
  "quic_view_writer outbound =
     net_bind (put_frames outbound) (\<lambda>_. put_wire (goodbye_frame (ascii ''viewer closed'')))"

definition quic_view_network ::
  "(u8 list \<Rightarrow> Message option) \<Rightarrow> ustring \<Rightarrow> quic_peer \<Rightarrow> ustring option \<Rightarrow> ustring \<Rightarrow> ustring \<Rightarrow> u32 \<Rightarrow> u32 \<Rightarrow> nat
     \<Rightarrow> u8 list conn \<Rightarrow> Message list \<times> net_error option" where
  "quic_view_network de client peer pin token socket width height room c =
     (case quic_view_setup de client peer pin token socket width height c of
        (Inl e, _) \<Rightarrow> ([], Some e)
      | (Inr _, c') \<Rightarrow> quic_pump de room (inbound c'))"

section \<open>Lemmas\<close>

named_theorems net_run "steps of the connection operations"

lemmas [net_run] = net_return_def net_fail_def net_bind_def net_ignore_def put_wire_def get_with_def

lemma put_frames_all:
  "length ms \<le> writes_left c \<Longrightarrow>
     put_frames ms c = (Inr (), c\<lparr>writes_left := writes_left c - length ms, written := written c @ map Frame ms\<rparr>)"
  by (induction ms arbitrary: c) (simp_all add: net_run)

text \<open>What both transports promise to the handshake: written bytes arrive as they were written.\<close>

locale frame_transport =
  fixes arrive :: "u8 list \<Rightarrow> 's \<Rightarrow> 's"
    and get_prelude :: "'s \<Rightarrow> (proto_error + 'v) \<times> 's"
    and get_frame :: "(u8 list \<Rightarrow> Message option) \<Rightarrow> 's \<Rightarrow> (proto_error + Message) \<times> 's"
  assumes arrive_append: "arrive (a @ b) s = arrive a (arrive b s)"
    and arrive_Nil: "arrive [] s = s"
    and prelude_arrives: "\<exists>v. get_prelude (arrive write_prelude s) = (Inr v, s)"
    and frame_arrives: "codec_ok ser de \<Longrightarrow> encode_frame ser m = Inr bs \<Longrightarrow> get_frame de (arrive bs s) = (Inr m, s)"
begin

lemma exchange_reads:
  assumes "codec_ok ser de" and "encode_frame ser m = Inr bs" and "2 \<le> writes_left c"
    and "inbound c = arrive (write_prelude @ bs) s"
  shows "hello_exchange get_prelude (get_frame de) client c =
    net_bind (welcome_of m) (\<lambda>w. if welcome_version w \<noteq> PROTOCOL_VERSION then net_fail (WelcomeVersion (welcome_version w)) else net_return w)
      (c\<lparr>inbound := s, writes_left := writes_left c - 2, written := written c @ [Prelude, Frame (client_hello client)]\<rparr>)"
proof -
  obtain v where v: "get_prelude (arrive write_prelude (arrive bs s)) = (Inr v, arrive bs s)"
    using prelude_arrives by blast
  then show ?thesis
    using assms(3,4) frame_arrives [OF assms(1,2), of s]
    by (cases c) (simp add: hello_exchange_def net_run arrive_append numeral_2_eq_2)
qed

lemma exchange_welcomed:
  assumes "codec_ok ser de" and "encode_frame ser (Message.Welcome w) = Inr bs" and "2 \<le> writes_left c"
    and "inbound c = arrive (write_prelude @ bs) s" and "welcome_version w = PROTOCOL_VERSION"
  shows "hello_exchange get_prelude (get_frame de) client c =
    (Inr w, c\<lparr>inbound := s, writes_left := writes_left c - 2, written := written c @ [Prelude, Frame (client_hello client)]\<rparr>)"
  unfolding exchange_reads [OF assms(1-4)] using assms(5) by (simp add: net_run)

lemma exchange_refused:
  assumes "codec_ok ser de" and "encode_frame ser (Message.Goodbye why) = Inr bs" and "2 \<le> writes_left c"
    and "inbound c = arrive (write_prelude @ bs) s"
  shows "fst (hello_exchange get_prelude (get_frame de) client c) = Inl (ServerRefused why)"
  unfolding exchange_reads [OF assms(1-4)] by (simp add: net_run)

end

lemma recv_exact_append: "length xs = n \<Longrightarrow> recv_exact n (xs @ ys) = (Inr xs, ys)"
  by (simp add: recv_exact_def)

lemma quic_frame_bytes:
  assumes "length payload + 4 \<le> unat MAX_FRAME_BYTES"
  shows "quic_read_frame de (frame_bytes k payload @ s) = (decode_frame_payload de k payload, s)"
proof -
  have "recv_exact 4 (u32_to_be w @ t) = (Inr (u32_to_be w), t)" for w t
    by (rule recv_exact_append) simp
  moreover have "recv_exact (length payload) (payload @ s) = (Inr payload, s)"
    by (rule recv_exact_append) simp
  ultimately show ?thesis
    unfolding quic_read_frame_def frame_bytes_def
    by (simp only: append_assoc frame_len_word [OF assms] u32_be_roundtrip kind_from_as prod.case sum.case option.case Let_def if_False)
qed

lemma quic_read_encoded:
  assumes "codec_ok ser de" and "encode_frame ser m = Inr bs"
  shows "quic_read_frame de (bs @ s) = (Inr m, s)"
proof -
  from assms(2) obtain payload where p: "ser m = Some payload" "length payload + 4 \<le> unat MAX_FRAME_BYTES" "bs = frame_bytes (kind m) payload"
    by (auto simp: encode_frame_Inr)
  with assms(1) show ?thesis by (simp add: quic_frame_bytes decode_frame_payload_Inr codec_ok_def)
qed

lemma quic_read_own_prelude: "quic_read_prelude (write_prelude @ s) = (Inr (), s)"
proof -
  have "recv_exact 4 (MAGIC @ t) = (Inr MAGIC, t)" "recv_exact 2 (u16_to_be v @ t) = (Inr (u16_to_be v), t)" for t v
    by (intro recv_exact_append, simp_all add: MAGIC_def)+
  then show ?thesis by (simp add: quic_read_prelude_def write_prelude_def u16_be_roundtrip)
qed

interpretation tcp: frame_transport "\<lambda>bs s. map Byte bs @ s" read_prelude read_frame
  by unfold_locales (auto simp: read_prelude_write read_frame_encoded)

interpretation quic: frame_transport "(@)" quic_read_prelude quic_read_frame
  by unfold_locales (auto simp: quic_read_own_prelude quic_read_encoded)

text \<open>The bytes of what was written.\<close>

fun wires_bytes :: "(Message \<Rightarrow> u8 list option) \<Rightarrow> wire list \<Rightarrow> proto_error + u8 list" where
  "wires_bytes ser [] = Inr []"
| "wires_bytes ser (w # ws) =
     (case (case w of Prelude \<Rightarrow> Inr write_prelude | Frame m \<Rightarrow> encode_frame ser m) of
        Inl e \<Rightarrow> Inl e
      | Inr bs \<Rightarrow> (case wires_bytes ser ws of Inl e \<Rightarrow> Inl e | Inr rest \<Rightarrow> Inr (bs @ rest)))"

lemma wires_bytes_Cons:
  "wires_bytes ser (Prelude # ws) = Inr bs \<longleftrightarrow> (\<exists>rest. wires_bytes ser ws = Inr rest \<and> bs = write_prelude @ rest)"
  "wires_bytes ser (Frame m # ws) = Inr bs \<longleftrightarrow>
     (\<exists>b rest. encode_frame ser m = Inr b \<and> wires_bytes ser ws = Inr rest \<and> bs = b @ rest)"
  by (auto split: sum.splits)

lemma wires_bytes_frames [simp]: "wires_bytes ser (map Frame ms) = write_frames ser ms"
  by (induction ms) (simp_all split: sum.split)

text \<open>A handshake that is welcomed.\<close>

lemma handshake_welcomed:
  assumes "codec_ok ser de" and "wires_bytes ser [Prelude, Frame (Message.Welcome w)] = Inr down" and "2 \<le> writes_left c"
    and "inbound c = map Byte down @ s" and "welcome_version w = PROTOCOL_VERSION"
  shows "handshake de client True c =
    (Inr \<lparr>sess_server_name = server_name w, sess_session_id = session_id w, sess_next_seq = 1\<rparr>,
     c\<lparr>inbound := s, writes_left := writes_left c - 2, written := written c @ [Prelude, Frame (client_hello client)]\<rparr>)"
proof -
  obtain bs where bs: "encode_frame ser (Message.Welcome w) = Inr bs" "down = write_prelude @ bs"
    using assms(2) unfolding wires_bytes_Cons by auto
  have "inbound c = map Byte (write_prelude @ bs) @ s" using assms(4) bs(2) by simp
  from tcp.exchange_welcomed [OF assms(1) bs(1) assms(3) this assms(5)] show ?thesis
    by (simp add: handshake_def net_run)
qed

lemma opened_welcomed:
  assumes "codec_ok ser de" and "wires_bytes ser [Prelude, Frame (Message.Welcome w)] = Inr down" and "3 \<le> writes_left c"
    and "inbound c = down @ s" and "welcome_version w = PROTOCOL_VERSION"
    and "fst (quic_connect peer pin c) = Inr ()"
  shows "open_authenticated_stream de client peer pin token c =
    (Inr (), c\<lparr>inbound := s, writes_left := writes_left c - 3,
       written := written c @ [Prelude, Frame (client_hello client), Frame (Message.DataPlaneAuth token)]\<rparr>)"
proof -
  obtain bs where bs: "encode_frame ser (Message.Welcome w) = Inr bs" "down = write_prelude @ bs"
    using assms(2) unfolding wires_bytes_Cons by auto
  have c: "quic_connect peer pin c = (Inr (), c)"
    using assms(6) by (auto simp: quic_connect_def net_run split: sum.splits if_splits)
  have "inbound c = (write_prelude @ bs) @ s" "2 \<le> writes_left c" using assms(3,4) bs(2) by simp_all
  from quic.exchange_welcomed [OF assms(1) bs(1) this(2,1) assms(5)] show ?thesis
    using assms(3) c by (cases c) (simp add: open_authenticated_stream_def net_run numeral_3_eq_3)
qed

text \<open>The server's answers as they are written.\<close>

fun effect_wires :: "server_effect list \<Rightarrow> wire list" where
  "effect_wires [] = []"
| "effect_wires (SentPrelude # es) = Prelude # effect_wires es"
| "effect_wires (Sent m # es) = Frame m # effect_wires es"
| "effect_wires (_ # es) = effect_wires es"

text \<open>A codec that numbers the messages of a list, for examples.\<close>

definition list_ser :: "Message list \<Rightarrow> Message \<Rightarrow> u8 list option" where
  "list_ser ms = map_of (zip ms (map (\<lambda>i. [of_nat i]) [0..<length ms]))"

definition list_de :: "Message list \<Rightarrow> u8 list \<Rightarrow> Message option" where
  "list_de ms bs = (case bs of [b] \<Rightarrow> if unat b < length ms then Some (ms ! unat b) else None | _ \<Rightarrow> None)"

lemma list_ser_Some: "list_ser ms m = Some bs \<Longrightarrow> \<exists>i < length ms. ms ! i = m \<and> bs = [of_nat i]"
  unfolding list_ser_def by (drule map_of_SomeD) (auto simp: set_zip)

lemma list_codec:
  assumes "length ms \<le> 256"
  shows "codec_ok (list_ser ms) (list_de ms)"
  unfolding codec_ok_def
proof (intro allI impI)
  fix m bs assume "list_ser ms m = Some bs"
  from list_ser_Some [OF this] obtain i where i: "i < length ms" "ms ! i = m" "bs = [of_nat i]" by blast
  with assms have "unat (of_nat i :: u8) = i" by (simp add: unat_of_nat take_bit_nat_eq_self)
  with i show "list_de ms bs = Some m" by (simp add: list_de_def)
qed

lemma list_wires_encode:
  assumes "list_all (\<lambda>w. case w of Prelude \<Rightarrow> True | Frame m \<Rightarrow> m \<in> set ms) ws"
  shows "\<exists>bs. wires_bytes (list_ser ms) ws = Inr bs"
  using assms
proof (induction ws)
  case (Cons w ws)
  have "\<exists>bs. encode_frame (list_ser ms) m = Inr bs" if m: "m \<in> set ms" for m
  proof -
    have "map_of (zip ms (map (\<lambda>i. [of_nat i]) [0..<length ms])) m \<noteq> None"
      using m by (subst map_of_zip_is_None) auto
    then obtain bs where "list_ser ms m = Some bs" unfolding list_ser_def by blast
    with list_ser_Some [OF this] show ?thesis by (auto simp: encode_frame_Inr unat_MAX_FRAME_BYTES)
  qed
  with Cons show ?case by (cases w) (fastforce simp: wires_bytes_Cons simp del: wires_bytes.simps)+
qed simp

section \<open>Properties\<close>

text \<open>
  Client and server agree on a ping. If the server is given exactly the bytes the client
  writes for a ping, it ends without an error and answers with a prelude, its welcome and one pong;
  and if the client is given exactly the bytes of these answers, it writes these bytes, in this order,
  and reports the pong with its own sequence number.
\<close>
theorem tcp_ping_answered:
  assumes "codec_ok ser de" and "3 \<le> writes" and "4 \<le> n"
    and "c = \<lparr>inbound = map Byte down, writes_left = n, written = []\<rparr>"
    and "wires_bytes ser [Prelude, Frame (client_hello client), ping_frame 1 stamp, goodbye_frame (ascii ''ping complete'')] = Inr bytes_up"
    and "wires_bytes ser (effect_wires effects) = Inr down"
    and "effects = [SentPrelude, Sent (Message.Welcome (build_welcome_for_session version os_release counter)),
           Sent (Message.Pong \<lparr>pong_seq = 1, pong_stamp_ns = now 0\<rparr>)]"
  shows "handle de version os_release now writes counter (map Byte bytes_up) = (HandleOk, effects, counter + 1)
    \<and> one_shot_tcp_ping de client True stamp c =
      (Inr 1, \<lparr>inbound = [], writes_left = n - 4,
         written = [Prelude, Frame (client_hello client), ping_frame 1 stamp, goodbye_frame (ascii ''ping complete'')]\<rparr>)"
proof (rule conjI)
  obtain h p g where up: "encode_frame ser (client_hello client) = Inr h" "bytes_up = write_prelude @ h @ p @ g"
      "encode_frame ser (Message.Ping \<lparr>ping_seq = 1, ping_stamp_ns = stamp\<rparr>) = Inr p"
      "encode_frame ser (Message.Goodbye (ascii ''ping complete'')) = Inr g"
    using assms(5) unfolding ping_frame_def goodbye_frame_def wires_bytes_Cons by auto
  note reads = read_frame_encoded [OF assms(1)]
  have loop: "handle_loop de now (writes - 2) 0 (map Byte p @ map Byte g) = (HandleOk, [Sent (Message.Pong \<lparr>pong_seq = 1, pong_stamp_ns = now 0\<rparr>)])"
    using assms(2) reads [OF up(4), of "[]"]
    by (subst handle_loop.simps, simp add: reads [OF up(3)] handle_action_def writes_of_def)
      (subst handle_loop.simps, simp add: handle_action_def)
  show "handle de version os_release now writes counter (map Byte bytes_up) = (HandleOk, effects, counter + 1)"
    using assms(2) reads [OF up(1)] by (simp add: handle_def up(2) read_prelude_write client_hello_def loop assms(7) Let_def)
  obtain w q where w: "wires_bytes ser [Prelude, Frame (Message.Welcome (build_welcome_for_session version os_release counter))] = Inr w"
      "down = w @ q" "encode_frame ser (Message.Pong \<lparr>pong_seq = 1, pong_stamp_ns = now 0\<rparr>) = Inr q"
    using assms(6) unfolding assms(7) effect_wires.simps wires_bytes_Cons by auto
  have "handshake de client True c = (Inr \<lparr>sess_server_name = server_name_of version os_release, sess_session_id = counter, sess_next_seq = 1\<rparr>,
      c\<lparr>inbound := map Byte q, writes_left := n - 2, written := [Prelude, Frame (client_hello client)]\<rparr>)"
    using handshake_welcomed [OF assms(1) w(1), of c "map Byte q" client] assms(3,4) w(2) by (simp add: build_welcome_for_session_def)
  then show "one_shot_tcp_ping de client True stamp c = (Inr 1, \<lparr>inbound = [], writes_left = n - 4,
         written = [Prelude, Frame (client_hello client), ping_frame 1 stamp, goodbye_frame (ascii ''ping complete'')]\<rparr>)"
    using assms(3) reads [OF w(3), of "[]"] by (simp add: one_shot_tcp_ping_def net_run assms(4))
qed

definition ping_messages :: "Message list" where
  "ping_messages = [client_hello [], Message.Ping \<lparr>ping_seq = 1, ping_stamp_ns = 5\<rparr>, Message.Goodbye (ascii ''ping complete''),
     Message.Welcome (build_welcome_for_session [] None 7), Message.Pong \<lparr>pong_seq = 1, pong_stamp_ns = 9\<rparr>]"

theorem tcp_ping_answered_witness:
  "\<exists>bytes_up down. handle (list_de ping_messages) [] None (\<lambda>_. 9) 3 7 (map Byte bytes_up)
     = (HandleOk, [SentPrelude, Sent (Message.Welcome (build_welcome_for_session [] None 7)), Sent (Message.Pong \<lparr>pong_seq = 1, pong_stamp_ns = 9\<rparr>)], 8)
   \<and> fst (one_shot_tcp_ping (list_de ping_messages) [] True 5 \<lparr>inbound = map Byte down, writes_left = 4, written = []\<rparr>) = Inr 1"
proof -
  let ?effects = "[SentPrelude, Sent (Message.Welcome (build_welcome_for_session [] None 7)), Sent (Message.Pong \<lparr>pong_seq = 1, pong_stamp_ns = 9\<rparr>)]"
  obtain bytes_up where up: "wires_bytes (list_ser ping_messages)
      [Prelude, Frame (client_hello []), ping_frame 1 5, goodbye_frame (ascii ''ping complete'')] = Inr bytes_up"
    using list_wires_encode [of ping_messages "[Prelude, Frame (client_hello []), ping_frame 1 5, goodbye_frame (ascii ''ping complete'')]"]
    by (auto simp: ping_messages_def ping_frame_def goodbye_frame_def simp del: wires_bytes.simps)
  obtain down where down: "wires_bytes (list_ser ping_messages) (effect_wires ?effects) = Inr down"
    using list_wires_encode [of ping_messages "effect_wires ?effects"] by (auto simp: ping_messages_def simp del: wires_bytes.simps)
  from tcp_ping_answered [OF list_codec _ _ refl up down refl, of 3 4] show ?thesis
    by (intro exI [of _ bytes_up] exI [of _ down]) (simp add: ping_messages_def)
qed

text \<open>
  A failed QUIC command is repeated as a whole. In the automatic mode, when the connection breaks
  after the command's messages were written and only the goodbye is missing, the command
  is sent again over TCP and reported as done: both connections carry every message, and the guest
  gets each input event twice.
\<close>
theorem fallback_repeats_command:
  assumes "codec_ok ser de"
    and "wires_bytes ser [Prelude, Frame (Message.Welcome w)] = Inr down" and "welcome_version w = PROTOCOL_VERSION"
    and "wires_bytes ser [Prelude, Frame (Message.Welcome v)] = Inr down'" and "welcome_version v = PROTOCOL_VERSION"
    and "ct_mode tr = Auto" and "ct_quic_addr tr = Some a" and "ct_quic_token tr = Some token"
    and "fst (quic_connect (quic_peer_of wd) (ct_quic_cert_sha256 tr) (quic_conn wd)) = Inr ()"
    and "inbound (quic_conn wd) = down @ s" and "writes_left (quic_conn wd) = 3 + length messages"
    and "tcp_up wd" and "inbound (tcp_conn wd) = map Byte down' @ t" and "3 + length messages \<le> writes_left (tcp_conn wd)"
  shows "fst (send_command_messages de client tr messages why wd) = Inr ()
    \<and> written (quic_conn (snd (send_command_messages de client tr messages why wd)))
      = written (quic_conn wd) @ [Prelude, Frame (client_hello client), Frame (Message.DataPlaneAuth token)] @ map Frame messages
    \<and> written (tcp_conn (snd (send_command_messages de client tr messages why wd)))
      = written (tcp_conn wd) @ [Prelude, Frame (client_hello client)] @ map Frame messages @ [goodbye_frame why]"
proof -
  define q where "q = (quic_conn wd)\<lparr>inbound := s, writes_left := length messages,
     written := written (quic_conn wd) @ [Prelude, Frame (client_hello client), Frame (Message.DataPlaneAuth token)]\<rparr>"
  have "open_authenticated_stream de client (quic_peer_of wd) (ct_quic_cert_sha256 tr) token (quic_conn wd) = (Inr (), q)"
    using opened_welcomed [OF assms(1,2) _ assms(10) assms(3) assms(9), of client token] assms(11) by (simp add: q_def)
  then have quic: "quic_send_messages de client (quic_peer_of wd) (ct_quic_cert_sha256 tr) token messages why (quic_conn wd)
      = (Inl NetWriteFailed, q\<lparr>writes_left := 0, written := written q @ map Frame messages\<rparr>)"
    using put_frames_all [of messages q] by (simp add: quic_send_messages_def net_run q_def)
  define c where "c = (tcp_conn wd)\<lparr>inbound := t, writes_left := writes_left (tcp_conn wd) - 2,
     written := written (tcp_conn wd) @ [Prelude, Frame (client_hello client)]\<rparr>"
  have "handshake de client True (tcp_conn wd) = (Inr \<lparr>sess_server_name = server_name v, sess_session_id = session_id v, sess_next_seq = 1\<rparr>, c)"
    using handshake_welcomed [OF assms(1,4) _ assms(13) assms(5), of client] assms(14) by (simp add: c_def)
  then have tcp: "send_tcp_command_messages de client messages why True (tcp_conn wd)
      = (Inr (), snd (put_wire (goodbye_frame why) (c\<lparr>writes_left := writes_left c - length messages, written := written c @ map Frame messages\<rparr>)))"
    using put_frames_all [of messages c] assms(14) by (simp add: send_tcp_command_messages_def net_run c_def)
  show ?thesis
    using assms(6-8,12,14)
    by (simp add: send_command_messages_def Let_def on_quic_def quic on_tcp_def tcp) (simp add: put_wire_def c_def q_def)
qed

definition repeated_messages :: "Message list" where
  "repeated_messages = [client_hello [], Message.Welcome (build_welcome_for_session [] None 7), Message.InputEvent (InputEvent.Text 1 [97])]"

theorem fallback_repeats_command_witness:
  "\<exists>wd. let r = send_command_messages (list_de repeated_messages) []
       \<lparr>ct_mode = Auto, ct_quic_addr = Some (SocketAddrV4 0 9), ct_quic_token = Some [116], ct_quic_cert_sha256 = None\<rparr>
       [Message.InputEvent (InputEvent.Text 1 [97])] (ascii ''done'') wd
     in fst r = Inr () \<and> last (written (quic_conn (snd r))) = Frame (Message.InputEvent (InputEvent.Text 1 [97]))
       \<and> Frame (Message.InputEvent (InputEvent.Text 1 [97])) \<in> set (written (tcp_conn (snd r)))"
proof -
  let ?w = "build_welcome_for_session [] None 7"
  obtain down where down: "wires_bytes (list_ser repeated_messages) [Prelude, Frame (Message.Welcome ?w)] = Inr down"
    using list_wires_encode [of repeated_messages "[Prelude, Frame (Message.Welcome ?w)]"] by (auto simp: repeated_messages_def simp del: wires_bytes.simps)
  have v: "welcome_version ?w = PROTOCOL_VERSION" by (simp add: build_welcome_for_session_def)
  define wd where "wd = \<lparr>tcp_up = True, tcp_conn = \<lparr>inbound = map Byte down, writes_left = 9, written = []\<rparr>,
    quic_peer_of = \<lparr>reachable = True, cert_sha256 = [], insecure_skip_verify = True\<rparr>, quic_conn = \<lparr>inbound = down, writes_left = 4, written = []\<rparr>\<rparr>"
  have "codec_ok (list_ser repeated_messages) (list_de repeated_messages)" by (rule list_codec) (simp add: repeated_messages_def)
  from fallback_repeats_command [OF this down v down v, where wd = wd and messages = "[Message.InputEvent (InputEvent.Text 1 [97])]" and why = "ascii ''done''"
      and tr = "\<lparr>ct_mode = Auto, ct_quic_addr = Some (SocketAddrV4 0 9), ct_quic_token = Some [116], ct_quic_cert_sha256 = None\<rparr>"
      and a = "SocketAddrV4 0 9" and token = "[116]" and client = "[]" and s = "[]" and t = "[]"]
  show ?thesis by (intro exI [of _ wd]) (simp add: wd_def Let_def quic_connect_def client_config_def net_run)
qed

text \<open>
  The fallback hears only what is sent after the failure. Whatever is sent before QUIC fails, with
  a message per input event while the connection is being tried, never reaches the TCP
  connection; everything sent afterwards reaches it, in order and once.
\<close>
theorem fallback_hears_later_messages:
  "to_tcp (run tee_step tee_start (map Outbound before @ QuicViewFailed # map Outbound later)) = later
   \<and> to_quic (run tee_step tee_start (map Outbound before @ QuicViewFailed # map Outbound later)) = before @ later"
proof -
  have closed: "run tee_step t (map Outbound ms) = t\<lparr>to_quic := to_quic t @ ms\<rparr>" if "\<not> fallback_gate t" for t ms
    using that by (induction ms arbitrary: t) simp_all
  have opened: "run tee_step t (map Outbound ms) = t\<lparr>to_quic := to_quic t @ ms, to_tcp := to_tcp t @ ms\<rparr>" if "fallback_gate t" for t ms
    using that by (induction ms arbitrary: t) simp_all
  show ?thesis by (simp add: run_append closed opened tee_start_def)
qed

text \<open>
  The view thread posts what the server sends: after a handshake, the messages of the stream in
  order, each once, and then that the connection is gone.
\<close>
theorem view_thread_posts_stream:
  assumes "codec_ok ser de" and "welcome_version w = PROTOCOL_VERSION" and "3 \<le> writes_left c"
    and "wires_bytes ser ([Prelude, Frame (Message.Welcome w)] @ map Frame ms) = Inr down"
    and "inbound c = map Byte down" and "length ms \<le> room"
  shows "tcp_view_events (view_network de client True socket width height room c)
    = map ViewMessage ms @ [ViewDisconnected (NetProto (Io UnexpectedEof))]"
proof -
  obtain d b where d: "wires_bytes ser [Prelude, Frame (Message.Welcome w)] = Inr d" "write_frames ser ms = Inr b" "down = d @ b"
    using assms(4) by (auto split: sum.splits)
  have pump: "write_frames ser ms = Inr b \<Longrightarrow> length ms \<le> room \<Longrightarrow> view_pump de room (map Byte b) = (ms, Some (NetProto (Io UnexpectedEof)))" for b ms room
  proof (induction ms arbitrary: b room)
    case Nil
    then show ?case by (subst view_pump.simps) (simp add: read_frame_def numeral_eq_Suc)
  next
    case (Cons m ms)
    from Cons.prems obtain x y where x: "encode_frame ser m = Inr x" "write_frames ser ms = Inr y" "b = x @ y"
      by (auto split: sum.splits)
    have "length ms \<le> room - 1" using Cons.prems by simp
    with Cons.IH [OF x(2)] Cons.prems(2) x(3) read_frame_encoded [OF assms(1) x(1)] show ?case
      by (subst view_pump.simps) simp
  qed
  have "handshake de client True c = (Inr \<lparr>sess_server_name = server_name w, sess_session_id = session_id w, sess_next_seq = 1\<rparr>,
      c\<lparr>inbound := map Byte b, writes_left := writes_left c - 2, written := written c @ [Prelude, Frame (client_hello client)]\<rparr>)"
    using assms(3,5) d(3) by (intro handshake_welcomed [OF assms(1) d(1) _ _ assms(2)]) simp_all
  then show ?thesis
    using assms(3) pump [OF d(2) assms(6)] by (simp add: view_network_def net_run tcp_view_events_def)
qed

theorem view_thread_posts_stream_witness:
  "\<exists>down. tcp_view_events (view_network (list_de repeated_messages) [] True [] 0 0 5 \<lparr>inbound = map Byte down, writes_left = 3, written = []\<rparr>)
    = map ViewMessage [Message.InputEvent (InputEvent.Text 1 [97])] @ [ViewDisconnected (NetProto (Io UnexpectedEof))]"
proof -
  let ?w = "build_welcome_for_session [] None 7" and ?ms = "[Message.InputEvent (InputEvent.Text 1 [97])]"
  obtain down where down: "wires_bytes (list_ser repeated_messages) ([Prelude, Frame (Message.Welcome ?w)] @ map Frame ?ms) = Inr down"
    using list_wires_encode [of repeated_messages "[Prelude, Frame (Message.Welcome ?w)] @ map Frame ?ms"]
    by (auto simp: repeated_messages_def simp del: wires_bytes.simps)
  have v: "welcome_version ?w = PROTOCOL_VERSION" by (simp add: build_welcome_for_session_def)
  have "codec_ok (list_ser repeated_messages) (list_de repeated_messages)" by (rule list_codec) (simp add: repeated_messages_def)
  from view_thread_posts_stream [OF this v _ down, of "\<lparr>inbound = map Byte down, writes_left = 3, written = []\<rparr>" 5] show ?thesis
    by (intro exI [of _ down]) simp
qed

lemma sint_small: "- (2 ^ 31) \<le> x \<Longrightarrow> x < 2 ^ 31 \<Longrightarrow> sint (word_of_int x :: i32) = x"
  by (simp add: signed_of_int signed_take_bit_int_eq_self)

text \<open>The truncated eighths of a distance stay within it and reach its end.\<close>

definition eighth :: "int \<Rightarrow> nat \<Rightarrow> int" where
  "eighth d k = sgn (d * int k) * (\<bar>d * int k\<bar> div 8)"

lemma eighth_bounds:
  assumes "k \<le> 8"
  shows "eighth d 8 = d" and "0 \<le> d \<Longrightarrow> 0 \<le> eighth d k \<and> eighth d k \<le> d" and "d \<le> 0 \<Longrightarrow> d \<le> eighth d k \<and> eighth d k \<le> 0"
proof -
  have pos: "0 \<le> x * int k div 8 \<and> x * int k div 8 \<le> x" if "0 \<le> x" for x
  proof -
    have "x * int k \<le> x * 8" using assms that by (intro mult_left_mono) simp_all
    then have "x * int k div 8 \<le> x * 8 div 8" by (rule zdiv_mono1) simp
    with that show ?thesis by (simp add: pos_imp_zdiv_nonneg_iff)
  qed
  have "\<bar>d * 8\<bar> div 8 = \<bar>d\<bar>" unfolding abs_mult by simp
  then show "eighth d 8 = d" by (simp add: eighth_def sgn_mult abs_sgn flip: mult.commute)
  show "0 \<le> eighth d k \<and> eighth d k \<le> d" if "0 \<le> d"
    using pos [OF that] that by (simp add: eighth_def sgn_if abs_mult)
  show "d \<le> eighth d k \<and> eighth d k \<le> 0" if "d \<le> 0"
    using pos [of "- d"] that by (simp add: eighth_def sgn_if abs_mult mult_less_0_iff zero_less_mult_iff)
qed

lemma lerp_exact:
  assumes "\<bar>sint b - sint a\<bar> < 2 ^ 28" and "k \<le> 8"
  shows "sint (lerp_i32 a b (of_nat k) 8) = sint a + eighth (sint b - sint a) k"
proof -
  define d where "d = sint b - sint a"
  have "\<bar>d * int k\<bar> \<le> \<bar>d\<bar> * 8" using assms(2) by (simp add: abs_mult mult_left_mono)
  then have small: "- (2 ^ 31) \<le> d * int k" "d * int k < 2 ^ 31" using assms(1) unfolding d_def [symmetric] by (simp_all add: abs_le_iff)
  have "(b - a) * of_nat k = word_of_int (d * int k)" by (simp add: d_def)
  then have n: "sint ((b - a) * of_nat k) = d * int k" using sint_small [OF small] by simp
  have "lerp_i32 a b (of_nat k) 8 = word_of_int (sint a + eighth d k)"
    unfolding lerp_i32_def n eighth_def by (simp add: Let_def)
  moreover have "sint a \<le> sint a + eighth d k \<and> sint a + eighth d k \<le> sint b \<or> sint b \<le> sint a + eighth d k \<and> sint a + eighth d k \<le> sint a"
    using eighth_bounds(2,3) [OF assms(2), of d] unfolding d_def by linarith
  moreover have range: "- (2 ^ 31) \<le> sint x \<and> sint x < 2 ^ 31" for x :: i32 using sint_greater_eq [of x] sint_less [of x] by simp
  ultimately have "- (2 ^ 31) \<le> sint a + eighth d k" "sint a + eighth d k < 2 ^ 31" "lerp_i32 a b (of_nat k) 8 = word_of_int (sint a + eighth d k)"
    using range [of a] range [of b] by linarith+
  then show ?thesis unfolding d_def [symmetric] by (simp only: sint_small)
qed

text \<open>
  A scripted drag is a drag: the pointer goes to the start, the button is pressed there, the pointer
  moves in eight steps that stay in the rectangle between start and end and of which the last is
  exactly the end, and the button is released there. The start and the end may be up to \<open>2^28\<close>
  pixels apart, so that no product overflows.
\<close>
theorem drag_reaches_target:
  assumes "\<bar>sint to_x - sint from_x\<bar> < 2 ^ 28" and "\<bar>sint to_y - sint from_y\<bar> < 2 ^ 28"
  shows "\<exists>path. build_drag_sequence wid from_x from_y to_x to_y
      = PointerMotion wid from_x from_y # PointerButton wid 0x110 BtnPressed
        # map (\<lambda>(x, y). PointerMotion wid x y) path @ [PointerButton wid 0x110 BtnReleased]
    \<and> length path = 8 \<and> last path = (to_x, to_y)
    \<and> list_all (\<lambda>(x, y). min (sint from_x) (sint to_x) \<le> sint x \<and> sint x \<le> max (sint from_x) (sint to_x)
        \<and> min (sint from_y) (sint to_y) \<le> sint y \<and> sint y \<le> max (sint from_y) (sint to_y)) path"
proof -
  define p where "p = (\<lambda>k. (lerp_i32 from_x to_x (of_nat k) 8, lerp_i32 from_y to_y (of_nat k) 8))"
  have between: "min (sint a) (sint b) \<le> sint (lerp_i32 a b (of_nat k) 8) \<and> sint (lerp_i32 a b (of_nat k) 8) \<le> max (sint a) (sint b)"
    if "\<bar>sint b - sint a\<bar> < 2 ^ 28" "k \<le> 8" for a b :: i32 and k
    using lerp_exact [OF that] eighth_bounds(2,3) [OF that(2), of "sint b - sint a"] by linarith
  have arrive: "lerp_i32 a b 8 8 = b" if "\<bar>sint b - sint a\<bar> < 2 ^ 28" for a b :: i32
    using lerp_exact [OF that, of 8] by (simp add: eighth_bounds(1) [of 0] signed_word_eqI)
  have "last (map p [1..<9]) = (to_x, to_y)"
    using arrive [OF assms(1)] arrive [OF assms(2)] by (simp add: p_def upt_conv_Cons)
  moreover have "list_all (\<lambda>(x, y). min (sint from_x) (sint to_x) \<le> sint x \<and> sint x \<le> max (sint from_x) (sint to_x)
        \<and> min (sint from_y) (sint to_y) \<le> sint y \<and> sint y \<le> max (sint from_y) (sint to_y)) (map p [1..<9])"
    using between [OF assms(1)] between [OF assms(2)] by (simp only: list_all_iff p_def set_map set_upt ball_simps prod.case) simp
  ultimately show ?thesis
    by (intro exI [of _ "map p [1..<9]"]) (simp add: build_drag_sequence_def p_def comp_def)
qed

theorem drag_reaches_target_witness:
  "\<exists>path. build_drag_sequence 3 10 20 90 4 = PointerMotion 3 10 20 # PointerButton 3 0x110 BtnPressed
        # map (\<lambda>(x, y). PointerMotion 3 x y) path @ [PointerButton 3 0x110 BtnReleased] \<and> length path = 8 \<and> last path = (90, 4)"
  using drag_reaches_target [of 90 10 4 20 3] by auto
end
