(* ===== verification/Quic_Listener.thy ===== *)
theory Quic_Listener
  imports Client_Net
begin

text \<open>
  The QUIC data plane of the guest server, \<open>crates/server/src/data_plane/quic_listener.rs\<close>: the
  handshake with its token, the one-shot streams of commands, and the writer of a view, which sends
  tiles as datagrams, the events of each window on a stream of their own and the rest on the main
  stream, with fallbacks where one of them fails.

  Streams are what was written to them; \<open>link\<close> holds what the connection does with the writes made
  for one message: whether datagrams are supported and how many are taken, whether a stream can
  be opened, how many writes it takes, and whether the main stream takes one.
\<close>

section \<open>Reading\<close>

definition then_recv :: "nat \<Rightarrow> (u8 list \<Rightarrow> u8 list \<Rightarrow> (proto_error + 'a) \<times> u8 list) \<Rightarrow> u8 list \<Rightarrow> (proto_error + 'a) \<times> u8 list" where
  "then_recv n f s = (case recv_exact n s of (Inl e, s') \<Rightarrow> (Inl e, s') | (Inr bs, s') \<Rightarrow> f bs s')"

definition listener_read_prelude :: "u8 list \<Rightarrow> (proto_error + unit) \<times> u8 list" where
  "listener_read_prelude =
     then_recv 4 (\<lambda>magic s1.
       if magic \<noteq> MAGIC then (Inl (BadMagic magic), s1)
       else then_recv 2 (\<lambda>ver s2.
         if u16_from_be ver \<noteq> PROTOCOL_VERSION then (Inl (VersionMismatch (u16_from_be ver)), s2) else (Inr (), s2)) s1)"

definition listener_read_frame :: "(u8 list \<Rightarrow> Message option) \<Rightarrow> u8 list \<Rightarrow> (proto_error + Message) \<times> u8 list" where
  "listener_read_frame de =
     then_recv 4 (\<lambda>len s1.
       let frame_len = u32_from_be len in
       if frame_len < 4 then (Inl (FrameTooSmall frame_len), s1)
       else if frame_len > MAX_FRAME_BYTES then (Inl (FrameTooBig (unat frame_len)), s1)
       else then_recv 4 (\<lambda>kind_raw s2.
         case kind_from_u32 (u32_from_be kind_raw) of
           None \<Rightarrow> (Inl (UnknownKind (u32_from_be kind_raw)), s2)
         | Some k \<Rightarrow> then_recv (unat (frame_len - 4)) (\<lambda>payload s3. (decode_frame_payload de k payload, s3)) s2) s1)"

section \<open>One connection\<close>

datatype listener_end =
    ListenOk
  | ListenFailed proto_error
  | ListenWriteFailed
  | ListenExpectedHello Kind
  | ListenExpectedAuth Kind
  | ListenBadToken
  | ListenNotOneShot Kind
  | ListenView ViewRequest "u8 list"

definition BAD_TOKEN :: Message where
  "BAD_TOKEN = Message.Error \<lparr>err_code = 403, err_message = ascii ''invalid QUIC data-plane token''\<rparr>"

fun handle_one_shot_message :: "u64 \<Rightarrow> Message \<Rightarrow> Kind + server_effect list" where
  "handle_one_shot_message now (Message.Ping p) = Inr [Sent (Message.Pong \<lparr>pong_seq = ping_seq p, pong_stamp_ns = now\<rparr>)]"
| "handle_one_shot_message now (Message.Goodbye why) = Inr []"
| "handle_one_shot_message now (Message.InputEvent event) = Inr [ForwardedInput event]"
| "handle_one_shot_message now (Message.Clipboard payload) = Inr [ForwardedClipboard payload]"
| "handle_one_shot_message now (Message.VolumeChange change) = Inr [AppliedVolume change]"
| "handle_one_shot_message now other = Inl (kind other)"

lemma then_recv_quic: "listener_read_prelude = quic_read_prelude" "listener_read_frame de = quic_read_frame de"
  by (rule ext, simp add: listener_read_prelude_def quic_read_prelude_def listener_read_frame_def quic_read_frame_def then_recv_def Let_def
      split: prod.split sum.split option.split)+

function handle_one_shot_stream ::
  "(u8 list \<Rightarrow> Message option) \<Rightarrow> (nat \<Rightarrow> u64) \<Rightarrow> nat \<Rightarrow> nat \<Rightarrow> Message \<Rightarrow> u8 list \<Rightarrow> listener_end \<times> server_effect list" where
  "handle_one_shot_stream de now writes n msg s =
     (case handle_one_shot_message (now n) msg of
        Inl k \<Rightarrow> (ListenNotOneShot k, [])
      | Inr effects \<Rightarrow>
          if writes_of effects > writes then (ListenWriteFailed, [])
          else
            (case listener_read_frame de s of
               (Inl _, _) \<Rightarrow> (ListenOk, effects)
             | (Inr next, s') \<Rightarrow>
                 (case handle_one_shot_stream de now (writes - writes_of effects) (Suc n) next s' of
                    (end, out) \<Rightarrow> (end, effects @ out))))"
  by pat_completeness auto
termination
  by (relation "measure (\<lambda>(_, _, _, _, _, s). length s)") (auto simp: then_recv_quic dest: quic_read_frame_shorter [OF sym])

declare handle_one_shot_stream.simps [simp del]

definition next_quic_session_id :: "u64 \<Rightarrow> u64 \<times> u64" where
  "next_quic_session_id counter = (counter, counter + 1)"

definition handle_connection ::
  "(u8 list \<Rightarrow> Message option) \<Rightarrow> ustring \<Rightarrow> ustring option \<Rightarrow> (nat \<Rightarrow> u64) \<Rightarrow> ustring \<Rightarrow> nat \<Rightarrow> u64 \<Rightarrow> u8 list
     \<Rightarrow> listener_end \<times> server_effect list \<times> u64" where
  "handle_connection de version os_release now token writes counter s =
     (if writes = 0 then (ListenWriteFailed, [], counter)
      else
        (case listener_read_prelude s of
           (Inl e, _) \<Rightarrow> (ListenFailed e, [SentPrelude], counter)
         | (Inr _, s1) \<Rightarrow>
             (case listener_read_frame de s1 of
                (Inl e, _) \<Rightarrow> (ListenFailed e, [SentPrelude], counter)
              | (Inr (Message.Hello hello), s2) \<Rightarrow>
                  let (sid, counter') = next_quic_session_id counter;
                      greeted = [SentPrelude, Sent (Message.Welcome (build_welcome_for_session version os_release sid))]
                  in
                  if writes = 1 then (ListenWriteFailed, [SentPrelude], counter')
                  else
                    (case listener_read_frame de s2 of
                       (Inl e, _) \<Rightarrow> (ListenFailed e, greeted, counter')
                     | (Inr (Message.DataPlaneAuth t), s3) \<Rightarrow>
                         if t \<noteq> token then
                           (if writes = 2 then (ListenWriteFailed, greeted, counter')
                            else (ListenBadToken, greeted @ [Sent BAD_TOKEN], counter'))
                         else
                           (case listener_read_frame de s3 of
                              (Inl e, _) \<Rightarrow> (ListenFailed e, greeted, counter')
                            | (Inr (Message.ViewRequest req), s4) \<Rightarrow> (ListenView req s4, greeted, counter')
                            | (Inr first, s4) \<Rightarrow>
                                (case handle_one_shot_stream de now (writes - 2) 0 first s4 of
                                   (end, out) \<Rightarrow> (end, greeted @ out, counter')))
                     | (Inr other, _) \<Rightarrow> (ListenExpectedAuth (kind other), greeted, counter'))
              | (Inr other, _) \<Rightarrow> (ListenExpectedHello (kind other), [SentPrelude], counter))))"

text \<open>The reader of a view: what the compositor is handed until the stream or the compositor ends.\<close>

definition quic_view_reader :: "(u8 list \<Rightarrow> Message option) \<Rightarrow> nat \<Rightarrow> u8 list \<Rightarrow> Message list" where
  "quic_view_reader de room s = fst (quic_pump de room s)"

section \<open>The writer of a view\<close>

record link =
  max_datagram_size :: "nat option"
  datagrams_taken :: nat
  uni_opens :: bool
  uni_writes :: nat
  main_writes :: bool

text \<open>
  \<open>qw_streams\<close> is the table of open streams, by the index of the stream in \<open>qw_uni\<close>, which keeps
  all streams ever opened; \<open>qw_tiles\<close> lists the tiles whose datagrams were all sent.
\<close>

record quic_writer =
  qw_frame_seq :: u64
  qw_streams :: "(u64 \<times> nat) list"
  qw_uni :: "wire list list"
  qw_main :: "wire list"
  qw_datagrams :: "u8 list list"
  qw_tiles :: "FrameTile list"
  qw_disconnected :: bool

definition quic_writer_start :: quic_writer where
  "quic_writer_start = \<lparr>qw_frame_seq = 0, qw_streams = [], qw_uni = [], qw_main = [], qw_datagrams = [], qw_tiles = [],
     qw_disconnected = False\<rparr>"

fun window_event_channel_id :: "WindowEvent \<Rightarrow> u64" where
  "window_event_channel_id (Created wid _ _ _) = wid"
| "window_event_channel_id (Configured wid _) = wid"
| "window_event_channel_id (Destroyed wid) = wid"
| "window_event_channel_id (TitleChanged wid _) = wid"
| "window_event_channel_id (Minimized wid) = wid"
| "window_event_channel_id (MoveRequested wid) = wid"
| "window_event_channel_id (FullscreenChanged wid _) = wid"

definition send_frame_tile_datagrams ::
  "(DataPlaneDatagram \<Rightarrow> u8 list option) \<Rightarrow> link \<Rightarrow> FrameTile \<Rightarrow> u64 \<Rightarrow> bool \<times> u8 list list" where
  "send_frame_tile_datagrams enc l tile seq =
     (case max_datagram_size l of
        None \<Rightarrow> (False, [])
      | Some mx \<Rightarrow>
          (case frame_tile_datagrams enc tile (tile_id tile) seq mx of
             Inl _ \<Rightarrow> (False, [])
           | Inr ds \<Rightarrow> (length ds \<le> datagrams_taken l, take (datagrams_taken l) ds)))"

definition channel_header :: "u64 \<Rightarrow> wire list" where
  "channel_header cid = [Prelude, Frame (Message.DataPlaneChannel \<lparr>dpc_channel_id = cid, dpc_purpose = WindowReliable\<rparr>)]"

definition open_channel :: "link \<Rightarrow> u64 \<Rightarrow> quic_writer \<Rightarrow> bool \<times> quic_writer" where
  "open_channel l cid w =
     (if \<not> uni_opens l then (False, w)
      else if uni_writes l < 2 then (False, w\<lparr>qw_uni := qw_uni w @ [take (uni_writes l) (channel_header cid)]\<rparr>)
      else (True, w\<lparr>qw_uni := qw_uni w @ [channel_header cid], qw_streams := AList.update cid (length (qw_uni w)) (qw_streams w)\<rparr>))"

definition append_frame :: "nat \<Rightarrow> Message \<Rightarrow> wire list list \<Rightarrow> wire list list" where
  "append_frame k msg uni = uni[k := uni ! k @ [Frame msg]]"

definition write_channel_frame :: "link \<Rightarrow> u64 \<Rightarrow> Message \<Rightarrow> quic_writer \<Rightarrow> bool \<times> quic_writer" where
  "write_channel_frame l cid msg w =
     (let fresh = map_of (qw_streams w) cid = None;
          (opened, w) = (if fresh then open_channel l cid w else (True, w))
      in if \<not> opened then (False, w)
         else
           (case map_of (qw_streams w) cid of
              None \<Rightarrow> (False, w)
            | Some k \<Rightarrow>
                if uni_writes l \<le> (if fresh then 2 else 0) then (False, w\<lparr>qw_streams := AList.delete cid (qw_streams w)\<rparr>)
                else (True, w\<lparr>qw_uni := append_frame k msg (qw_uni w)\<rparr>)))"

definition close_channel_stream :: "u64 \<Rightarrow> quic_writer \<Rightarrow> quic_writer" where
  "close_channel_stream cid w = w\<lparr>qw_streams := AList.delete cid (qw_streams w)\<rparr>"

definition write_main :: "link \<Rightarrow> Message \<Rightarrow> quic_writer \<Rightarrow> quic_writer" where
  "write_main l msg w = (if main_writes l then w\<lparr>qw_main := qw_main w @ [Frame msg]\<rparr> else w\<lparr>qw_disconnected := True\<rparr>)"

definition write_reliable :: "link \<Rightarrow> u64 \<Rightarrow> Message \<Rightarrow> quic_writer \<Rightarrow> quic_writer" where
  "write_reliable l cid msg w =
     (case write_channel_frame l cid msg w of (True, w') \<Rightarrow> w' | (False, w') \<Rightarrow> write_main l msg w')"

definition write_tile :: "(DataPlaneDatagram \<Rightarrow> u8 list option) \<Rightarrow> link \<Rightarrow> FrameTile \<Rightarrow> quic_writer \<Rightarrow> quic_writer" where
  "write_tile enc l tile w =
     (let w = w\<lparr>qw_frame_seq := qw_frame_seq w + 1\<rparr>;
          (sent, ds) = send_frame_tile_datagrams enc l tile (qw_frame_seq w);
          w = w\<lparr>qw_datagrams := qw_datagrams w @ ds\<rparr>
      in if sent then w\<lparr>qw_tiles := qw_tiles w @ [tile]\<rparr> else write_reliable l (tile_id tile) (Message.FrameTile tile) w)"

definition write_window_event :: "link \<Rightarrow> WindowEvent \<Rightarrow> quic_writer \<Rightarrow> quic_writer" where
  "write_window_event l event w =
     (let cid = window_event_channel_id event;
          w = write_reliable l cid (Message.WindowEvent event) w
      in if \<not> qw_disconnected w \<and> (case event of Destroyed _ \<Rightarrow> True | _ \<Rightarrow> False) then close_channel_stream cid w else w)"

fun quic_writer_step :: "(DataPlaneDatagram \<Rightarrow> u8 list option) \<Rightarrow> quic_writer \<Rightarrow> link \<times> Message \<Rightarrow> quic_writer" where
  "quic_writer_step enc w (l, msg) =
     (if qw_disconnected w then w
      else
        (case msg of
           Message.FrameTile tile \<Rightarrow> write_tile enc l tile w
         | Message.WindowEvent event \<Rightarrow> write_window_event l event w
         | other \<Rightarrow> write_main l other w))"

section \<open>What the streams carry\<close>

fun channel_of :: "wire list \<Rightarrow> u64 option" where
  "channel_of (Prelude # Frame (Message.DataPlaneChannel c) # ws) = Some (dpc_channel_id c)"
| "channel_of _ = None"

definition frames_in :: "wire list \<Rightarrow> Message list" where
  "frames_in ws = concat (map (\<lambda>w. case w of Frame m \<Rightarrow> [m] | Prelude \<Rightarrow> []) ws)"

definition payload :: "wire list \<Rightarrow> Message list" where
  "payload s = (if channel_of s = None then [] else frames_in (drop 2 s))"

definition on_channel :: "u64 \<Rightarrow> wire list list \<Rightarrow> Message list" where
  "on_channel cid uni = concat (map payload (filter (\<lambda>s. channel_of s = Some cid) uni))"

lemma frames_in_simps [simp]:
  "frames_in [] = []" "frames_in (Frame m # ws) = m # frames_in ws" "frames_in (Prelude # ws) = frames_in ws"
  "frames_in (ws @ us) = frames_in ws @ frames_in us" "frames_in (map Frame ms) = ms"
  by (simp_all add: frames_in_def) (induction ms; simp)

lemma channel_header_simps [simp]:
  "channel_of (channel_header cid @ ws) = Some cid" "channel_of (channel_header cid) = Some cid"
  "payload (channel_header cid @ ws) = frames_in ws" "payload (channel_header cid) = []"
  by (simp_all add: channel_header_def payload_def)

lemma unfinished_header: "n < 2 \<Longrightarrow> channel_of (take n (channel_header cid)) = None"
  by (auto simp: channel_header_def numeral_2_eq_2 less_Suc_eq)

lemma payload_None [simp]: "channel_of s = None \<Longrightarrow> payload s = []"
  by (simp add: payload_def)

definition stream_ok :: "wire list \<Rightarrow> bool" where
  "stream_ok s \<longleftrightarrow> channel_of s = None \<or> (\<exists>cid ms. s = channel_header cid @ map Frame ms)"

text \<open>
  The table of open streams: each belongs to its channel and is the latest stream of that channel.
\<close>

definition writer_inv :: "quic_writer \<Rightarrow> bool" where
  "writer_inv w \<longleftrightarrow> list_all stream_ok (qw_uni w)
     \<and> (\<forall>cid k. map_of (qw_streams w) cid = Some k \<longrightarrow> k < length (qw_uni w) \<and> channel_of (qw_uni w ! k) = Some cid
         \<and> list_all (\<lambda>s. channel_of s \<noteq> Some cid) (drop (Suc k) (qw_uni w)))"

lemma append_frame_channel:
  assumes "k < length uni" and "channel_of (uni ! k) = Some cid" and "list_all (\<lambda>s. channel_of s \<noteq> Some cid) (drop (Suc k) uni)"
    and "stream_ok (uni ! k)"
  shows "channel_of (uni ! k @ [Frame m]) = Some cid" and "stream_ok (uni ! k @ [Frame m])"
    and "payload (uni ! k @ [Frame m]) = payload (uni ! k) @ [m]"
    and "on_channel c (append_frame k m uni) = on_channel c uni @ (if c = cid then [m] else [])"
    and "mset (concat (map payload (append_frame k m uni))) = add_mset m (mset (concat (map payload uni)))"
proof -
  obtain ms where s: "uni ! k = channel_header cid @ map Frame ms"
    using assms(2,4) by (auto simp: stream_ok_def)
  then show ch: "channel_of (uni ! k @ [Frame m]) = Some cid" and pl: "payload (uni ! k @ [Frame m]) = payload (uni ! k) @ [m]"
    by simp_all
  have "uni ! k @ [Frame m] = channel_header cid @ map Frame (ms @ [m])" using s by simp
  then show "stream_ok (uni ! k @ [Frame m])" unfolding stream_ok_def by blast
  have split: "uni = take k uni @ uni ! k # drop (Suc k) uni" by (rule id_take_nth_drop [OF assms(1)])
  have app: "append_frame k m uni = take k uni @ (uni ! k @ [Frame m]) # drop (Suc k) uni"
    unfolding append_frame_def by (rule upd_conv_take_nth_drop [OF assms(1)])
  have none: "filter (\<lambda>s. channel_of s = Some cid) (drop (Suc k) uni) = []"
    using assms(3) by (simp add: filter_empty_conv list_all_iff)
  show "on_channel c (append_frame k m uni) = on_channel c uni @ (if c = cid then [m] else [])"
    unfolding on_channel_def app by (subst (3) split) (auto simp: ch pl none assms(2))
  show "mset (concat (map payload (append_frame k m uni))) = add_mset m (mset (concat (map payload uni)))"
    unfolding app by (subst (3) split) (simp add: pl)
qed

lemma append_frame_inv:
  assumes "writer_inv w" and "map_of (qw_streams w) cid = Some k"
  shows "writer_inv (w\<lparr>qw_uni := append_frame k m (qw_uni w)\<rparr>)"
proof -
  have k: "k < length (qw_uni w)" "channel_of (qw_uni w ! k) = Some cid" "list_all (\<lambda>s. channel_of s \<noteq> Some cid) (drop (Suc k) (qw_uni w))"
    "stream_ok (qw_uni w ! k)"
    using assms by (auto simp: writer_inv_def list_all_length)
  note a = append_frame_channel(1,2) [OF k, of m]
  have "list_all stream_ok (append_frame k m (qw_uni w))"
    using assms(1) a(2) k(1) set_update_subset_insert [of "qw_uni w" k "qw_uni w ! k @ [Frame m]"]
    unfolding writer_inv_def append_frame_def list_all_iff by blast
  moreover have same: "channel_of (append_frame k m (qw_uni w) ! j) = channel_of (qw_uni w ! j)" if "j < length (qw_uni w)" for j
    using that a(1) k(2) by (cases "j = k") (simp_all add: append_frame_def)
  moreover have "length (append_frame k m (qw_uni w)) = length (qw_uni w)" by (simp add: append_frame_def)
  ultimately show ?thesis
    using assms(1) unfolding writer_inv_def by (auto simp: list_all_length)
qed

lemma delete_stream_inv: "writer_inv w \<Longrightarrow> writer_inv (w\<lparr>qw_streams := AList.delete cid (qw_streams w)\<rparr>)"
  by (auto simp: writer_inv_def delete_conv' restrict_map_def split: if_splits)

lemma append_stream_inv:
  assumes "writer_inv w" and "stream_ok s" and "\<And>c. map_of (qw_streams w) c \<noteq> None \<Longrightarrow> channel_of s \<noteq> Some c"
  shows "writer_inv (w\<lparr>qw_uni := qw_uni w @ [s]\<rparr>)"
proof -
  have "k < length (qw_uni w @ [s]) \<and> channel_of ((qw_uni w @ [s]) ! k) = Some c
      \<and> list_all (\<lambda>s. channel_of s \<noteq> Some c) (drop (Suc k) (qw_uni w @ [s]))" if m: "map_of (qw_streams w) c = Some k" for c k
  proof -
    have "k < length (qw_uni w)" "channel_of (qw_uni w ! k) = Some c" "list_all (\<lambda>s. channel_of s \<noteq> Some c) (drop (Suc k) (qw_uni w))"
      using assms(1) m by (auto simp: writer_inv_def)
    with assms(3) [of c] m show ?thesis by (simp add: nth_append)
  qed
  with assms(1,2) show ?thesis by (simp add: writer_inv_def)
qed

lemma update_stream_inv:
  assumes "writer_inv w" and "length (qw_uni w) = Suc k" and "channel_of (qw_uni w ! k) = Some cid"
  shows "writer_inv (w\<lparr>qw_streams := AList.update cid k (qw_streams w)\<rparr>)"
  using assms by (auto simp: writer_inv_def update_conv')

lemma open_channel_ok:
  assumes "writer_inv w" and "open_channel l cid w = (b, w')" and "map_of (qw_streams w) cid = None"
  shows "writer_inv w'" and "on_channel c (qw_uni w') = on_channel c (qw_uni w)"
    and "concat (map payload (qw_uni w')) = concat (map payload (qw_uni w))"
    and "b = (uni_opens l \<and> 2 \<le> uni_writes l)" and "b \<Longrightarrow> map_of (qw_streams w') cid = Some (length (qw_uni w))"
    and "qw_main w' = qw_main w \<and> qw_tiles w' = qw_tiles w \<and> qw_datagrams w' = qw_datagrams w \<and> qw_disconnected w' = qw_disconnected w
      \<and> qw_frame_seq w' = qw_frame_seq w"
proof -
  have un: "channel_of (take (uni_writes l) (channel_header cid)) = None" if "uni_writes l < 2" by (rule unfinished_header [OF that])
  have hd: "stream_ok (channel_header cid)" unfolding stream_ok_def by (intro disjI2 exI [of _ cid] exI [of _ "[]"]) simp
  have "writer_inv (w\<lparr>qw_uni := qw_uni w @ [channel_header cid]\<rparr>)"
    using assms(1,3) hd by (intro append_stream_inv) auto
  from update_stream_inv [OF this, of "length (qw_uni w)" cid]
  have "writer_inv (w\<lparr>qw_uni := qw_uni w @ [channel_header cid], qw_streams := AList.update cid (length (qw_uni w)) (qw_streams w)\<rparr>)"
    by simp
  moreover have "writer_inv (w\<lparr>qw_uni := qw_uni w @ [take (uni_writes l) (channel_header cid)]\<rparr>)" if "uni_writes l < 2"
    using assms(1) un [OF that] by (intro append_stream_inv) (simp_all add: stream_ok_def)
  ultimately show "writer_inv w'"
    using assms(1,2) by (auto simp: open_channel_def split: if_splits)
  show "on_channel c (qw_uni w') = on_channel c (qw_uni w)" "concat (map payload (qw_uni w')) = concat (map payload (qw_uni w))"
    using assms(2) un by (auto simp: open_channel_def on_channel_def split: if_splits)
  show "b = (uni_opens l \<and> 2 \<le> uni_writes l)" "b \<Longrightarrow> map_of (qw_streams w') cid = Some (length (qw_uni w))"
    "qw_main w' = qw_main w \<and> qw_tiles w' = qw_tiles w \<and> qw_datagrams w' = qw_datagrams w \<and> qw_disconnected w' = qw_disconnected w
      \<and> qw_frame_seq w' = qw_frame_seq w"
    using assms(2) by (auto simp: open_channel_def update_conv' split: if_splits)
qed

text \<open>Writing on a channel: on success the message is the last one of the channel, on failure no stream changes.\<close>

lemma write_channel_ok:
  assumes "writer_inv w" and "write_channel_frame l cid msg w = (b, w')"
  shows "writer_inv w'"
    and "on_channel c (qw_uni w') = on_channel c (qw_uni w) @ (if b \<and> c = cid then [msg] else [])"
    and "mset (concat (map payload (qw_uni w'))) = mset (concat (map payload (qw_uni w))) + (if b then {#msg#} else {#})"
    and "uni_opens l \<Longrightarrow> 3 \<le> uni_writes l \<Longrightarrow> b"
    and "qw_main w' = qw_main w \<and> qw_tiles w' = qw_tiles w \<and> qw_datagrams w' = qw_datagrams w \<and> qw_disconnected w' = qw_disconnected w
      \<and> qw_frame_seq w' = qw_frame_seq w"
proof -
  define fresh where "fresh \<longleftrightarrow> map_of (qw_streams w) cid = None"
  obtain ok w1 where w1: "(if fresh then open_channel l cid w else (True, w)) = (ok, w1)" by fastforce
  have o1: "writer_inv w1" "\<And>c. on_channel c (qw_uni w1) = on_channel c (qw_uni w)" "concat (map payload (qw_uni w1)) = concat (map payload (qw_uni w))"
      "ok \<longleftrightarrow> (fresh \<longrightarrow> uni_opens l \<and> 2 \<le> uni_writes l)"
      "qw_main w1 = qw_main w \<and> qw_tiles w1 = qw_tiles w \<and> qw_datagrams w1 = qw_datagrams w \<and> qw_disconnected w1 = qw_disconnected w
        \<and> qw_frame_seq w1 = qw_frame_seq w"
    using w1 open_channel_ok [OF assms(1)] assms(1) by (auto simp: fresh_def split: if_splits)
  have known: "ok \<Longrightarrow> map_of (qw_streams w1) cid \<noteq> None"
    using w1 open_channel_ok(5) [OF assms(1)] by (auto simp: fresh_def split: if_splits)
  have r: "(b, w') = (if \<not> ok then (False, w1)
      else (case map_of (qw_streams w1) cid of None \<Rightarrow> (False, w1)
            | Some k \<Rightarrow> if uni_writes l \<le> (if fresh then 2 else 0) then (False, w1\<lparr>qw_streams := AList.delete cid (qw_streams w1)\<rparr>)
                else (True, w1\<lparr>qw_uni := append_frame k msg (qw_uni w1)\<rparr>)))"
    using assms(2) unfolding write_channel_frame_def fresh_def [symmetric] w1 Let_def prod.case by simp
  consider (fail) "\<not> b" "w' = w1 \<or> w' = w1\<lparr>qw_streams := AList.delete cid (qw_streams w1)\<rparr>" "\<not> (uni_opens l \<and> 3 \<le> uni_writes l)"
    | (put) k where "b" "map_of (qw_streams w1) cid = Some k" "w' = w1\<lparr>qw_uni := append_frame k msg (qw_uni w1)\<rparr>"
    using r known o1(4) by (auto split: if_splits option.splits)
  then have all: "writer_inv w' \<and> on_channel c (qw_uni w') = on_channel c (qw_uni w) @ (if b \<and> c = cid then [msg] else [])
    \<and> mset (concat (map payload (qw_uni w'))) = mset (concat (map payload (qw_uni w))) + (if b then {#msg#} else {#})
    \<and> (uni_opens l \<longrightarrow> 3 \<le> uni_writes l \<longrightarrow> b)
    \<and> (qw_main w' = qw_main w \<and> qw_tiles w' = qw_tiles w \<and> qw_datagrams w' = qw_datagrams w \<and> qw_disconnected w' = qw_disconnected w
      \<and> qw_frame_seq w' = qw_frame_seq w)"
  proof cases
    case fail
    then show ?thesis using o1 delete_stream_inv [OF o1(1), of cid] by auto
  next
    case (put k)
    have "k < length (qw_uni w1)" "channel_of (qw_uni w1 ! k) = Some cid" "list_all (\<lambda>s. channel_of s \<noteq> Some cid) (drop (Suc k) (qw_uni w1))"
      "stream_ok (qw_uni w1 ! k)"
      using o1(1) put(2) by (auto simp: writer_inv_def list_all_length)
    note a = append_frame_channel(4,5) [OF this]
    show ?thesis using put(1,3) o1 a append_frame_inv [OF o1(1) put(2), of msg] by simp
  qed
  then show "writer_inv w'"
    "on_channel c (qw_uni w') = on_channel c (qw_uni w) @ (if b \<and> c = cid then [msg] else [])"
    "mset (concat (map payload (qw_uni w'))) = mset (concat (map payload (qw_uni w))) + (if b then {#msg#} else {#})"
    "uni_opens l \<Longrightarrow> 3 \<le> uni_writes l \<Longrightarrow> b"
    "qw_main w' = qw_main w \<and> qw_tiles w' = qw_tiles w \<and> qw_datagrams w' = qw_datagrams w \<and> qw_disconnected w' = qw_disconnected w
      \<and> qw_frame_seq w' = qw_frame_seq w" by blast+
qed

section \<open>Steps of the writer\<close>

text \<open>Everything handed to the connection, wherever it went.\<close>

definition carried :: "quic_writer \<Rightarrow> Message multiset" where
  "carried w = mset (concat (map payload (qw_uni w))) + mset (frames_in (qw_main w)) + mset (map Message.FrameTile (qw_tiles w))"

lemma writer_inv_fields:
  "qw_uni w' = qw_uni w \<Longrightarrow> qw_streams w' = qw_streams w \<Longrightarrow> writer_inv w \<Longrightarrow> writer_inv w'"
  by (simp add: writer_inv_def)

lemma write_reliable_ok:
  fixes l :: link and cid :: u64 and msg :: Message
  assumes "writer_inv w" and "\<not> qw_disconnected w"
  defines "w' \<equiv> write_reliable l cid msg w"
  shows "writer_inv w'" and "carried w' = carried w + (if qw_disconnected w' then {#} else {#msg#})"
    and "uni_opens l \<Longrightarrow> 3 \<le> uni_writes l \<Longrightarrow> \<not> qw_disconnected w'
      \<and> on_channel c (qw_uni w') = on_channel c (qw_uni w) @ (if c = cid then [msg] else []) \<and> qw_main w' = qw_main w"
    and "qw_tiles w' = qw_tiles w \<and> qw_datagrams w' = qw_datagrams w \<and> qw_frame_seq w' = qw_frame_seq w"
proof -
  obtain b w1 where w1: "write_channel_frame l cid msg w = (b, w1)" by fastforce
  note ok = write_channel_ok [OF assms(1) w1]
  have w': "w' = (if b then w1 else write_main l msg w1)" by (simp add: w'_def write_reliable_def w1)
  show "writer_inv w'" using ok(1) unfolding w' by (auto simp: write_main_def intro: writer_inv_fields)
  show "carried w' = carried w + (if qw_disconnected w' then {#} else {#msg#})"
    using ok(3,5) assms(2) unfolding w' by (simp add: carried_def write_main_def)
  show "qw_tiles w' = qw_tiles w \<and> qw_datagrams w' = qw_datagrams w \<and> qw_frame_seq w' = qw_frame_seq w"
    using ok(5) unfolding w' by (simp add: write_main_def)
  assume "uni_opens l" "3 \<le> uni_writes l"
  with ok(4) have "b" by blast
  with ok(2) [of c] ok(5) assms(2) show "\<not> qw_disconnected w'
      \<and> on_channel c (qw_uni w') = on_channel c (qw_uni w) @ (if c = cid then [msg] else []) \<and> qw_main w' = qw_main w"
    unfolding w' by simp
qed

lemma write_tile_ok:
  assumes "writer_inv w" and "\<not> qw_disconnected w"
  shows "writer_inv (write_tile enc l tile w)"
    and "carried (write_tile enc l tile w) = carried w + (if qw_disconnected (write_tile enc l tile w) then {#} else {#Message.FrameTile tile#})"
proof -
  obtain sent ds where s: "send_frame_tile_datagrams enc l tile (qw_frame_seq w + 1) = (sent, ds)" by fastforce
  define w1 where "w1 = w\<lparr>qw_frame_seq := qw_frame_seq w + 1, qw_datagrams := qw_datagrams w @ ds\<rparr>"
  have w1: "writer_inv w1" "\<not> qw_disconnected w1" "carried w1 = carried w"
    using assms by (auto simp: w1_def writer_inv_def carried_def)
  have t: "write_tile enc l tile w
      = (if sent then w1\<lparr>qw_tiles := qw_tiles w1 @ [tile]\<rparr> else write_reliable l (tile_id tile) (Message.FrameTile tile) w1)"
    by (simp add: write_tile_def Let_def s w1_def)
  have inv: "writer_inv (w1\<lparr>qw_tiles := qw_tiles w1 @ [tile]\<rparr>)" by (rule writer_inv_fields [OF _ _ w1(1)]) simp_all
  have add: "carried (w1\<lparr>qw_tiles := qw_tiles w1 @ [tile]\<rparr>) = carried w1 + {#Message.FrameTile tile#}" by (simp add: carried_def)
  show "writer_inv (write_tile enc l tile w)"
    and "carried (write_tile enc l tile w) = carried w + (if qw_disconnected (write_tile enc l tile w) then {#} else {#Message.FrameTile tile#})"
    unfolding t using write_reliable_ok(1,2) [OF w1(1,2), of l "tile_id tile" "Message.FrameTile tile"] inv add w1(2,3) by simp_all
qed

lemma write_window_event_ok:
  assumes "writer_inv w" and "\<not> qw_disconnected w"
  shows "writer_inv (write_window_event l event w)"
    and "carried (write_window_event l event w)
      = carried w + (if qw_disconnected (write_window_event l event w) then {#} else {#Message.WindowEvent event#})"
proof -
  define w1 where "w1 = write_reliable l (window_event_channel_id event) (Message.WindowEvent event) w"
  have w1: "writer_inv w1" "carried w1 = carried w + (if qw_disconnected w1 then {#} else {#Message.WindowEvent event#})"
    unfolding w1_def by (rule write_reliable_ok(1,2) [OF assms])+
  have closed: "writer_inv (close_channel_stream c w1)" "carried (close_channel_stream c w1) = carried w1"
    "qw_disconnected (close_channel_stream c w1) = qw_disconnected w1" for c
    using delete_stream_inv [OF w1(1), of c] by (simp_all add: close_channel_stream_def carried_def)
  show "writer_inv (write_window_event l event w)"
    and "carried (write_window_event l event w)
      = carried w + (if qw_disconnected (write_window_event l event w) then {#} else {#Message.WindowEvent event#})"
    unfolding write_window_event_def Let_def w1_def [symmetric] using w1 closed by simp_all
qed

lemma write_main_ok:
  assumes "writer_inv w" and "\<not> qw_disconnected w"
  shows "writer_inv (write_main l msg w)"
    and "carried (write_main l msg w) = carried w + (if qw_disconnected (write_main l msg w) then {#} else {#msg#})"
  using assms by (auto simp: write_main_def carried_def intro: writer_inv_fields)

lemma writer_step_ok:
  assumes "writer_inv w"
  shows "writer_inv (quic_writer_step enc w (l, msg))"
    and "\<not> qw_disconnected w \<Longrightarrow> carried (quic_writer_step enc w (l, msg))
      = carried w + (if qw_disconnected (quic_writer_step enc w (l, msg)) then {#} else {#msg#})"
    and "qw_disconnected w \<Longrightarrow> quic_writer_step enc w (l, msg) = w"
  using write_tile_ok [OF assms] write_window_event_ok [OF assms] write_main_ok [OF assms] assms
  by (cases "qw_disconnected w"; cases msg; simp)+

declare quic_writer_step.simps [simp del]

interpretation quic_view: invariant_machine "quic_writer_step enc" writer_inv
proof
  fix w e assume "writer_inv w"
  then show "writer_inv (quic_writer_step enc w e)" using writer_step_ok(1) by (cases e) blast
qed

lemma writer_start_inv: "writer_inv quic_writer_start"
  by (simp add: writer_inv_def quic_writer_start_def)

lemma disconnected_stays: "qw_disconnected w \<Longrightarrow> run (quic_writer_step enc) w lms = w"
  by (induction lms) (auto simp: quic_writer_step.simps)

lemma writer_carries:
  assumes "writer_inv w" and "\<not> qw_disconnected w"
  shows "carried (run (quic_writer_step enc) w lms) \<subseteq># carried w + mset (map snd lms)
    \<and> (qw_disconnected (run (quic_writer_step enc) w lms) \<or> carried (run (quic_writer_step enc) w lms) = carried w + mset (map snd lms))"
  using assms
proof (induction lms arbitrary: w)
  case (Cons lm lms)
  obtain l msg where lm: "lm = (l, msg)" by fastforce
  define w1 where "w1 = quic_writer_step enc w (l, msg)"
  have w1: "writer_inv w1" "carried w1 = carried w + (if qw_disconnected w1 then {#} else {#msg#})"
    unfolding w1_def using writer_step_ok(1,2) [OF Cons.prems(1)] Cons.prems(2) by blast+
  show ?case
  proof (cases "qw_disconnected w1")
    case True
    then show ?thesis using w1(2) unfolding lm run_Cons w1_def [symmetric] by (simp add: disconnected_stays subset_mset.add_increasing2)
  next
    case False
    with Cons.IH [OF w1(1)] w1(2) show ?thesis unfolding lm run_Cons w1_def [symmetric] by simp
  qed
qed simp

section \<open>Properties\<close>


text \<open>
  A connection on which nothing fails for a message: streams open and take the writes, and the
  datagrams of a tile are sent whatever its number.
\<close>

definition intact :: "(DataPlaneDatagram \<Rightarrow> u8 list option) \<Rightarrow> link \<times> Message \<Rightarrow> bool" where
  "intact enc lm \<longleftrightarrow> uni_opens (fst lm) \<and> 3 \<le> uni_writes (fst lm) \<and> main_writes (fst lm)
     \<and> (case snd lm of Message.FrameTile tile \<Rightarrow> (\<forall>seq. fst (send_frame_tile_datagrams enc (fst lm) tile seq)) | _ \<Rightarrow> True)"

definition tiles_of :: "Message list \<Rightarrow> FrameTile list" where
  "tiles_of ms = concat (map (\<lambda>m. case m of Message.FrameTile t \<Rightarrow> [t] | _ \<Rightarrow> []) ms)"

definition events_of :: "u64 \<Rightarrow> Message list \<Rightarrow> Message list" where
  "events_of cid ms = filter (\<lambda>m. case m of Message.WindowEvent e \<Rightarrow> window_event_channel_id e = cid | _ \<Rightarrow> False) ms"

definition others_of :: "Message list \<Rightarrow> Message list" where
  "others_of ms = filter (\<lambda>m. case m of Message.WindowEvent _ \<Rightarrow> False | Message.FrameTile _ \<Rightarrow> False | _ \<Rightarrow> True) ms"

lemma intact_step:
  assumes "writer_inv w" and "\<not> qw_disconnected w" and "intact enc (l, msg)"
  defines "w' \<equiv> quic_writer_step enc w (l, msg)"
  shows "\<not> qw_disconnected w' \<and> on_channel c (qw_uni w') = on_channel c (qw_uni w) @ events_of c [msg]
    \<and> frames_in (qw_main w') = frames_in (qw_main w) @ others_of [msg] \<and> qw_tiles w' = qw_tiles w @ tiles_of [msg]"
proof -
  have l: "uni_opens l" "3 \<le> uni_writes l" "main_writes l" using assms(3) by (simp_all add: intact_def)
  consider t where "msg = Message.FrameTile t" | e where "msg = Message.WindowEvent e"
    | "w' = write_main l msg w" "others_of [msg] = [msg]" "events_of c [msg] = []" "tiles_of [msg] = []"
    using assms(2) unfolding w'_def by (cases msg) (simp_all add: quic_writer_step.simps others_of_def events_of_def tiles_of_def)
  then show ?thesis
  proof cases
    case (1 t)
    then have "fst (send_frame_tile_datagrams enc l t (qw_frame_seq w + 1))" using assms(3) by (simp add: intact_def)
    with 1 assms(2) show ?thesis unfolding w'_def
      by (simp add: quic_writer_step.simps write_tile_def Let_def split_beta others_of_def events_of_def tiles_of_def)
  next
    case (2 e)
    define w1 where "w1 = write_reliable l (window_event_channel_id e) (Message.WindowEvent e) w"
    have w1: "\<not> qw_disconnected w1" "on_channel c (qw_uni w1) = on_channel c (qw_uni w) @ events_of c [msg]" "qw_main w1 = qw_main w" "qw_tiles w1 = qw_tiles w"
      unfolding w1_def using write_reliable_ok(3,4) [OF assms(1,2)] l(1,2) 2 by (auto simp: events_of_def)
    have "w' = (if case e of Destroyed _ \<Rightarrow> True | _ \<Rightarrow> False then close_channel_stream (window_event_channel_id e) w1 else w1)"
      using 2 assms(2) w1(1) unfolding w'_def by (simp add: quic_writer_step.simps write_window_event_def Let_def flip: w1_def)
    with w1 2 show ?thesis by (simp add: close_channel_stream_def others_of_def tiles_of_def)
  next
    case 3
    with assms(2) l(3) show ?thesis by (simp add: write_main_def)
  qed
qed

lemma intact_run:
  assumes "list_all (intact enc) lms" and "writer_inv w" and "\<not> qw_disconnected w"
  defines "w' \<equiv> run (quic_writer_step enc) w lms"
  shows "\<not> qw_disconnected w' \<and> on_channel c (qw_uni w') = on_channel c (qw_uni w) @ events_of c (map snd lms)
    \<and> frames_in (qw_main w') = frames_in (qw_main w) @ others_of (map snd lms) \<and> qw_tiles w' = qw_tiles w @ tiles_of (map snd lms)"
  using assms(1-3) unfolding w'_def
proof (induction lms arbitrary: w)
  case (Cons lm lms)
  obtain l msg where lm: "lm = (l, msg)" by fastforce
  have cons: "events_of c (m # ms) = events_of c [m] @ events_of c ms" "others_of (m # ms) = others_of [m] @ others_of ms"
    "tiles_of (m # ms) = tiles_of [m] @ tiles_of ms" for m ms
    by (simp_all add: events_of_def others_of_def tiles_of_def)
  have int: "intact enc (l, msg)" "list_all (intact enc) lms" using Cons.prems(1) lm by simp_all
  note s = intact_step [OF Cons.prems(2,3) int(1), of c]
  have inv: "writer_inv (quic_writer_step enc w (l, msg))" by (rule writer_step_ok(1) [OF Cons.prems(2)])
  from s have alive: "\<not> qw_disconnected (quic_writer_step enc w (l, msg))" by blast
  from Cons.IH [OF int(2) inv alive] s show ?case
    unfolding lm run_Cons list.map(2) snd_conv cons [of msg "map snd lms"] by simp
qed (simp add: events_of_def others_of_def tiles_of_def)

text \<open>The client reads from the bytes of a stream what was written to it.\<close>

lemma quic_pump_written:
  assumes "codec_ok ser de"
  shows "write_frames ser ms = Inr b \<Longrightarrow> length ms \<le> room \<Longrightarrow> quic_pump de room b = (ms, Some (NetProto (Io UnexpectedEof)))"
proof (induction ms arbitrary: b room)
  case Nil
  then show ?case by (subst quic_pump.simps) (simp add: quic_read_frame_def recv_exact_def)
next
  case (Cons m ms)
  from Cons.prems obtain x y where x: "encode_frame ser m = Inr x" "write_frames ser ms = Inr y" "b = x @ y"
    by (auto split: sum.splits)
  have "length ms \<le> room - 1" using Cons.prems by simp
  with Cons.IH [OF x(2)] Cons.prems(2) x(3) quic_read_encoded [OF assms x(1)] show ?case
    by (subst quic_pump.simps) simp
qed

lemma channel_stream_read:
  assumes "codec_ok ser de" and "stream_ok s" and "channel_of s = Some cid" and "wires_bytes ser s = Inr b" and "length (payload s) \<le> room"
  shows "fst (read_channel_stream de room b) = payload s"
proof -
  obtain ms where s: "s = channel_header cid @ map Frame ms" using assms(2,3) by (auto simp: stream_ok_def)
  obtain h r where h: "encode_frame ser (Message.DataPlaneChannel \<lparr>dpc_channel_id = cid, dpc_purpose = WindowReliable\<rparr>) = Inr h"
      "write_frames ser ms = Inr r" "b = write_prelude @ h @ r"
    using assms(4) unfolding s channel_header_def append_Cons append_Nil wires_bytes_Cons wires_bytes_frames by blast
  have "length ms \<le> room" using assms(5) by (simp add: s)
  with quic_pump_written [OF assms(1) h(2)] quic_read_encoded [OF assms(1) h(1)] h(3) show ?thesis
    by (simp add: read_channel_stream_def quic_read_own_prelude s)
qed


definition busy_link :: link where
  "busy_link = \<lparr>max_datagram_size = Some 1200, datagrams_taken = 9, uni_opens = True, uni_writes = 3, main_writes = True\<rparr>"

definition window_life :: "Message list" where
  "window_life = [Message.WindowEvent (TitleChanged 5 [97]), Message.Goodbye [], Message.WindowEvent (Destroyed 5)]"


text \<open>
  C17: Without the token a QUIC connection has no effect: whatever it sends, the server writes at most
  its prelude, its welcome and the refusal, forwards nothing to the guest and starts no view,
  unless the stream begins with a prelude, a \<open>Hello\<close> and the right token.
\<close>
theorem quic_needs_token:
  "case handle_connection de version os_release now token writes counter s of (result, effects, _) \<Rightarrow>
     set effects \<subseteq> {SentPrelude, Sent (Message.Welcome (build_welcome_for_session version os_release counter)), Sent BAD_TOKEN}
       \<and> (case result of ListenView _ _ \<Rightarrow> False | _ \<Rightarrow> True)
     \<or> (\<exists>hello s1 s2 s3. quic_read_prelude s = (Inr (), s1) \<and> quic_read_frame de s1 = (Inr (Message.Hello hello), s2)
         \<and> quic_read_frame de s2 = (Inr (Message.DataPlaneAuth token), s3))"
proof -
  obtain p s1 where p: "quic_read_prelude s = (p, s1)" by fastforce
  obtain f s2 where f: "quic_read_frame de s1 = (f, s2)" by fastforce
  obtain g s3 where g: "quic_read_frame de s2 = (g, s3)" by fastforce
  note open_def = handle_connection_def then_recv_quic next_quic_session_id_def Let_def
  consider (no_hello) "\<nexists>hello. p = Inr () \<and> f = Inr (Message.Hello hello)"
    | (no_auth) hello where "p = Inr ()" "f = Inr (Message.Hello hello)" "\<nexists>t. g = Inr (Message.DataPlaneAuth t)"
    | (auth) hello t where "p = Inr ()" "f = Inr (Message.Hello hello)" "g = Inr (Message.DataPlaneAuth t)"
    by blast
  then show ?thesis
  proof cases
    case no_hello
    then show ?thesis by (cases p; cases f) (auto simp: open_def p f split: Message.split)
  next
    case no_auth
    then show ?thesis by (cases g) (auto simp: open_def p f g split: Message.split)
  next
    case auth
    then show ?thesis by (cases "t = token") (auto simp: open_def p f g)
  qed
qed

text \<open>What a one-shot stream of messages that need no answer does.\<close>

definition silent :: "Message \<Rightarrow> server_effect list option" where
  "silent m = (case handle_one_shot_message 0 m of Inl _ \<Rightarrow> None | Inr es \<Rightarrow> if writes_of es = 0 then Some es else None)"

lemma silent_any_time: "silent m = Some es \<Longrightarrow> handle_one_shot_message t m = Inr es \<and> writes_of es = 0"
  by (cases m) (auto simp: silent_def writes_of_def split: if_splits)

lemma one_shot_silent:
  assumes "codec_ok ser de"
  shows "write_frames ser ms = Inr b \<Longrightarrow> map silent (m # ms) = map Some ess
    \<Longrightarrow> handle_one_shot_stream de now writes n m b = (ListenOk, concat ess)"
proof (induction ms arbitrary: m b n ess)
  case Nil
  then obtain es where "silent m = Some es" "ess = [es]" by auto
  with silent_any_time [OF this(1)] Nil show ?case
    by (subst handle_one_shot_stream.simps) (simp add: then_recv_quic quic_read_frame_def recv_exact_def)
next
  case (Cons k ms)
  from Cons.prems(2) obtain es rest where es: "silent m = Some es" "ess = es # rest" "map silent (k # ms) = map Some rest" by auto
  from Cons.prems(1) obtain x y where x: "encode_frame ser k = Inr x" "write_frames ser ms = Inr y" "b = x @ y" by (auto split: sum.splits)
  with Cons.IH [OF x(2) es(3)] silent_any_time [OF es(1)] quic_read_encoded [OF assms x(1)] es(2) show ?case
    by (subst handle_one_shot_stream.simps) (simp add: then_recv_quic)
qed

lemma connection_opened:
  assumes "codec_ok ser de" and "2 \<le> writes"
    and "wires_bytes ser ([Prelude, Frame (client_hello client), Frame (Message.DataPlaneAuth token)] @ map Frame (m # ms)) = Inr bytes_up"
    and "map silent (m # ms) = map Some ess"
  shows "handle_connection de version os_release now token writes counter bytes_up =
    (ListenOk, [SentPrelude, Sent (Message.Welcome (build_welcome_for_session version os_release counter))] @ concat ess, counter + 1)"
proof -
  have "wires_bytes ser (map Frame (m # ms)) = write_frames ser (m # ms)" by (rule wires_bytes_frames)
  with assms(3) obtain h a x y where up: "encode_frame ser (client_hello client) = Inr h" "encode_frame ser (Message.DataPlaneAuth token) = Inr a"
      "encode_frame ser m = Inr x" "write_frames ser ms = Inr y" "bytes_up = write_prelude @ h @ a @ x @ y"
    unfolding append_Cons append_Nil wires_bytes_Cons list.map(2) wires_bytes_frames by blast
  note reads = quic_read_encoded [OF assms(1)]
  have m: "silent m \<noteq> None" using assms(4) by auto
  then have "\<not> (\<exists>req. m = Message.ViewRequest req)" by (auto simp: silent_def)
  moreover have "handle_one_shot_stream de now (writes - 2) 0 m y = (ListenOk, concat ess)"
    by (rule one_shot_silent [OF assms(1) up(4) assms(4)])
  ultimately show ?thesis
    using assms(2) reads [OF up(1)] reads [OF up(2)] reads [OF up(3)]
    by (cases m) (simp_all add: handle_connection_def then_recv_quic up(5) quic_read_own_prelude client_hello_def next_quic_session_id_def Let_def)
qed

text \<open>
  C18: A scripted input command reaches the guest exactly: over QUIC the client writes its prelude,
  \<open>Hello\<close>, the token, one frame for each event of the command and a goodbye, and reports success; and a
  server that is given exactly these bytes and knows the token forwards exactly the events of the
  command to the guest, in order and once, and ends without an error.
\<close>
theorem quic_input_command_forwarded:
  assumes "codec_ok ser de" and "2 \<le> writes" and "events = build_input_command_sequence wid cmd"
    and "wires_bytes ser ([Prelude, Frame (client_hello client), Frame (Message.DataPlaneAuth token)]
           @ map Frame (map Message.InputEvent events @ [Message.Goodbye why])) = Inr bytes_up"
    and "wires_bytes ser [Prelude, Frame (Message.Welcome (build_welcome_for_session version os_release counter))] = Inr down"
    and "c = \<lparr>inbound = down, writes_left = n, written = []\<rparr>" and "4 + length events \<le> n"
    and "fst (quic_connect peer pin c) = Inr ()"
  shows "handle_connection de version os_release now token writes counter bytes_up =
      (ListenOk, [SentPrelude, Sent (Message.Welcome (build_welcome_for_session version os_release counter))] @ map ForwardedInput events, counter + 1)
    \<and> (case quic_send_messages de client peer pin token (map Message.InputEvent events) why c of (r, c') \<Rightarrow>
        r = Inr () \<and> written c' = [Prelude, Frame (client_hello client), Frame (Message.DataPlaneAuth token)]
          @ map Frame (map Message.InputEvent events @ [Message.Goodbye why]))"
proof (rule conjI)
  obtain e es where ev: "events = e # es" using assms(3) by (cases cmd) (simp_all add: build_drag_sequence_def Let_def)
  have "map silent (map Message.InputEvent events @ [Message.Goodbye why]) = map Some (map (\<lambda>e. [ForwardedInput e]) events @ [[]])"
    by (simp add: silent_def writes_of_def)
  with connection_opened [OF assms(1,2), where m = "Message.InputEvent e" and ms = "map Message.InputEvent es @ [Message.Goodbye why]"
      and ess = "map (\<lambda>e. [ForwardedInput e]) events @ [[]]" and bytes_up = bytes_up and client = client and token = token] assms(4)
  show "handle_connection de version os_release now token writes counter bytes_up =
      (ListenOk, [SentPrelude, Sent (Message.Welcome (build_welcome_for_session version os_release counter))] @ map ForwardedInput events, counter + 1)"
    by (simp add: ev comp_def concat_map_singleton [unfolded comp_def])
  have open_ok: "open_authenticated_stream de client peer pin token c = (Inr (), c\<lparr>inbound := [], writes_left := writes_left c - 3,
       written := written c @ [Prelude, Frame (client_hello client), Frame (Message.DataPlaneAuth token)]\<rparr>)"
    using assms(6,7,8) by (intro opened_welcomed [OF assms(1,5)]) (simp_all add: build_welcome_for_session_def)
  show "case quic_send_messages de client peer pin token (map Message.InputEvent events) why c of (r, c') \<Rightarrow>
        r = Inr () \<and> written c' = [Prelude, Frame (client_hello client), Frame (Message.DataPlaneAuth token)]
          @ map Frame (map Message.InputEvent events @ [Message.Goodbye why])"
    using assms(7) open_ok unfolding assms(6) by (simp add: quic_send_messages_def net_bind_def put_frames_all put_wire_def goodbye_frame_def)
qed

definition click_messages :: "Message list" where
  "click_messages = [client_hello [], Message.DataPlaneAuth [116], Message.Welcome (build_welcome_for_session [] None 7), Message.Goodbye []]
     @ map Message.InputEvent (build_input_command_sequence 3 (CmdClick 10 20))"

theorem quic_input_command_forwarded_witness:
  "\<exists>bytes_up down. handle_connection (list_de click_messages) [] None (\<lambda>_. 0) [116] 2 7 bytes_up =
      (ListenOk, [SentPrelude, Sent (Message.Welcome (build_welcome_for_session [] None 7))]
         @ map ForwardedInput (build_input_command_sequence 3 (CmdClick 10 20)), 8)
    \<and> fst (quic_send_messages (list_de click_messages) [] \<lparr>reachable = True, cert_sha256 = [], insecure_skip_verify = True\<rparr> None [116]
        (map Message.InputEvent (build_input_command_sequence 3 (CmdClick 10 20))) [] \<lparr>inbound = down, writes_left = 9, written = []\<rparr>) = Inr ()"
proof -
  let ?events = "build_input_command_sequence 3 (CmdClick 10 20)"
  let ?up = "[Prelude, Frame (client_hello []), Frame (Message.DataPlaneAuth [116])] @ map Frame (map Message.InputEvent ?events @ [Message.Goodbye []])"
  let ?down = "[Prelude, Frame (Message.Welcome (build_welcome_for_session [] None 7))]"
  have "list_all (\<lambda>w. case w of Prelude \<Rightarrow> True | Frame m \<Rightarrow> m \<in> set click_messages) ?up"
    "list_all (\<lambda>w. case w of Prelude \<Rightarrow> True | Frame m \<Rightarrow> m \<in> set click_messages) ?down" by (simp_all add: click_messages_def)
  then obtain bytes_up down where b: "wires_bytes (list_ser click_messages) ?up = Inr bytes_up" "wires_bytes (list_ser click_messages) ?down = Inr down"
    using list_wires_encode by blast
  have codec: "codec_ok (list_ser click_messages) (list_de click_messages)" by (rule list_codec) (simp add: click_messages_def)
  have conn: "fst (quic_connect \<lparr>reachable = True, cert_sha256 = [], insecure_skip_verify = True\<rparr> None
      \<lparr>inbound = down, writes_left = 9, written = []\<rparr>) = Inr ()" by (simp add: quic_connect_def client_config_def net_run)
  have len: "4 + length ?events \<le> 9" by simp
  from quic_input_command_forwarded [OF codec order_refl refl b refl len conn, of "\<lambda>_. 0"] show ?thesis
    by (intro exI [of _ bytes_up] exI [of _ down]) (auto simp: split_beta)
qed

text \<open>
  A goodbye does not end a QUIC command stream. The TCP session closes on a goodbye and handles nothing
  behind it; on a QUIC stream the server goes on, and an input event behind the goodbye is still
  forwarded to the guest.
\<close>
theorem goodbye_ends_tcp_only:
  assumes "codec_ok ser de" and "2 \<le> writes"
    and "wires_bytes ser ([Prelude, Frame (client_hello client), Frame (Message.DataPlaneAuth token)]
           @ map Frame [Message.Goodbye why, Message.InputEvent event]) = Inr quic_bytes"
    and "wires_bytes ser ([Prelude, Frame (client_hello client)] @ map Frame [Message.Goodbye why, Message.InputEvent event]) = Inr tcp_bytes"
  shows "fst (snd (handle_connection de version os_release now token writes counter quic_bytes))
      = [SentPrelude, Sent (Message.Welcome (build_welcome_for_session version os_release counter)), ForwardedInput event]
    \<and> fst (snd (handle de version os_release now writes counter (map Byte tcp_bytes)))
      = [SentPrelude, Sent (Message.Welcome (build_welcome_for_session version os_release counter))]"
proof (rule conjI)
  have "map silent [Message.Goodbye why, Message.InputEvent event] = map Some [[], [ForwardedInput event]]"
    by (simp add: silent_def writes_of_def)
  from connection_opened [OF assms(1-3) this]
  show "fst (snd (handle_connection de version os_release now token writes counter quic_bytes))
      = [SentPrelude, Sent (Message.Welcome (build_welcome_for_session version os_release counter)), ForwardedInput event]" by simp
  obtain h g e where up: "encode_frame ser (client_hello client) = Inr h" "encode_frame ser (Message.Goodbye why) = Inr g"
      "tcp_bytes = write_prelude @ h @ g @ e"
    using assms(4) unfolding list.map append_Cons append_Nil wires_bytes_Cons by auto
  have "handle_loop de now (writes - 2) 0 (map Byte g @ map Byte e) = (HandleOk, [])"
    by (subst handle_loop.simps) (simp add: read_frame_encoded [OF assms(1) up(2)] handle_action_def)
  then show "fst (snd (handle de version os_release now writes counter (map Byte tcp_bytes)))
      = [SentPrelude, Sent (Message.Welcome (build_welcome_for_session version os_release counter))]"
    using assms(2) read_frame_encoded [OF assms(1) up(1)] by (simp add: handle_def up(3) read_prelude_write client_hello_def Let_def)
qed

theorem goodbye_ends_tcp_only_witness:
  "\<exists>quic_bytes. fst (snd (handle_connection (list_de click_messages) [] None (\<lambda>_. 0) [116] 2 7 quic_bytes))
     = [SentPrelude, Sent (Message.Welcome (build_welcome_for_session [] None 7)), ForwardedInput (PointerMotion 3 10 20)]"
proof -
  let ?tail = "map Frame [Message.Goodbye [], Message.InputEvent (PointerMotion 3 10 20)]"
  let ?q = "[Prelude, Frame (client_hello []), Frame (Message.DataPlaneAuth [116])] @ ?tail" and ?t = "[Prelude, Frame (client_hello [])] @ ?tail"
  have "list_all (\<lambda>w. case w of Prelude \<Rightarrow> True | Frame m \<Rightarrow> m \<in> set click_messages) ?q"
    "list_all (\<lambda>w. case w of Prelude \<Rightarrow> True | Frame m \<Rightarrow> m \<in> set click_messages) ?t" by (simp_all add: click_messages_def)
  then obtain quic_bytes tcp_bytes where b: "wires_bytes (list_ser click_messages) ?q = Inr quic_bytes" "wires_bytes (list_ser click_messages) ?t = Inr tcp_bytes"
    using list_wires_encode by blast
  have codec: "codec_ok (list_ser click_messages) (list_de click_messages)" by (rule list_codec) (simp add: click_messages_def)
  from goodbye_ends_tcp_only [OF codec order_refl b, of "[]" None "\<lambda>_. 0" 7] show ?thesis by blast
qed

end
