(* ===== verification/Cli_Context.thy ===== *)
theory Cli_Context
  imports Client_Net
begin

text \<open>
  The command line tool on the host and the launchers it installs (\<open>crates/vbox-cli/src/context.rs\<close>,
  \<open>runtime.rs\<close>, \<open>crates/client/src/launch.rs\<close>, \<open>app_icon.rs\<close>): the context of a command from options and
  environment, the file of instance ports, the cache of guest applications, the resources of a
  launcher bundle, and the summary \<open>prepare-app\<close> prints and the client parses. Files are their
  contents; whether a write succeeds, what the environment holds and the JSON parser are arguments.
\<close>

section \<open>Strings of the standard library\<close>

text \<open>\<open>split_whitespace\<close>, \<open>to_string\<close> and \<open>parse\<close> of unsigned integers, \<open>Path::join\<close>.\<close>

fun words_from :: "ustring \<Rightarrow> ustring \<Rightarrow> ustring list" where
  "words_from w [] = (if w = [] then [] else [w])"
| "words_from w (c # cs) =
     (if is_whitespace c then (if w = [] then words_from [] cs else w # words_from [] cs)
      else words_from (w @ [c]) cs)"

definition split_whitespace :: "ustring \<Rightarrow> ustring list" where
  "split_whitespace = words_from []"

fun dec_digits :: "nat \<Rightarrow> ustring" where
  "dec_digits n = (if n < 10 then [48 + n] else dec_digits (n div 10) @ [48 + n mod 10])"

declare dec_digits.simps [simp del]

definition is_ascii_digit :: "uchar \<Rightarrow> bool" where
  "is_ascii_digit c \<longleftrightarrow> 48 \<le> c \<and> c \<le> 57"

definition dec_value :: "ustring \<Rightarrow> nat" where
  "dec_value ds = foldl (\<lambda>a c. 10 * a + (c - 48)) 0 ds"

definition parse_unsigned :: "nat \<Rightarrow> ustring \<Rightarrow> nat option" where
  "parse_unsigned bound s =
     (let ds = (case s of c # rest \<Rightarrow> if c = 0x2B then rest else s | [] \<Rightarrow> s) in
      if ds = [] \<or> \<not> list_all is_ascii_digit ds then None
      else if dec_value ds < bound then Some (dec_value ds) else None)"

definition parse_u16 :: "ustring \<Rightarrow> u16 option" where
  "parse_u16 s = map_option of_nat (parse_unsigned (2 ^ 16) s)"

definition parse_u32 :: "ustring \<Rightarrow> u32 option" where
  "parse_u32 s = map_option of_nat (parse_unsigned (2 ^ 32) s)"

definition join_path :: "ustring \<Rightarrow> ustring \<Rightarrow> ustring" where
  "join_path base rest =
     (if rest \<noteq> [] \<and> hd rest = 0x2F then rest
      else if base = [] \<or> last base = 0x2F then base @ rest
      else base @ [0x2F] @ rest)"

definition is_alnum :: "uchar \<Rightarrow> bool" where
  "is_alnum c \<longleftrightarrow> 0x30 \<le> c \<and> c \<le> 0x39 \<or> 0x41 \<le> c \<and> c \<le> 0x5A \<or> 0x61 \<le> c \<and> c \<le> 0x7A"

definition dash :: uchar where
  "dash = 0x2D"

definition trim_dashes :: "ustring \<Rightarrow> ustring" where
  "trim_dashes s = rev (dropWhile ((=) dash) (rev (dropWhile ((=) dash) s)))"

definition pop_dashes :: "ustring \<Rightarrow> ustring" where
  "pop_dashes s = rev (dropWhile ((=) dash) (rev s))"

section \<open>Names\<close>

definition sanitize_id :: "ustring \<Rightarrow> ustring" where
  "sanitize_id value = trim_dashes (map (\<lambda>ch. if is_alnum ch then ch else dash) value)"

fun fold_dashes :: "(uchar \<Rightarrow> bool) \<Rightarrow> bool \<Rightarrow> ustring \<Rightarrow> ustring" where
  "fold_dashes keep last_was_dash [] = []"
| "fold_dashes keep last_was_dash (ch # rest) =
     (let mapped = (if keep ch then ch else dash) in
      if mapped = dash then (if last_was_dash then [] else [dash]) @ fold_dashes keep True rest
      else mapped # fold_dashes keep False rest)"

definition icon_char :: "uchar \<Rightarrow> bool" where
  "icon_char ch \<longleftrightarrow> is_alnum ch \<or> ch \<in> {0x2E, 0x5F, 0x2D}"

definition sanitize_icon_id :: "ustring \<Rightarrow> ustring" where
  "sanitize_icon_id value = pop_dashes (fold_dashes icon_char True value)"

definition sanitize_app_id :: "ustring \<Rightarrow> ustring" where
  "sanitize_app_id app_id = pop_dashes (fold_dashes icon_char True app_id)"

text \<open>
  The loop of \<open>sanitize_socket_name\<close>: unlike the ones above it does not start with \<open>last_dash\<close> set but
  drops a dash while nothing was pushed.
\<close>

fun socket_chars :: "ustring \<Rightarrow> bool \<Rightarrow> ustring \<Rightarrow> ustring" where
  "socket_chars out last_dash [] = out"
| "socket_chars out last_dash (ch # rest) =
     (let mapped = (if is_alnum ch \<or> ch = 0x5F \<or> ch = 0x2D then ch else dash) in
      if mapped = dash
      then socket_chars (if \<not> last_dash \<and> out \<noteq> [] then out @ [mapped] else out) True rest
      else socket_chars (out @ [mapped]) False rest)"

definition sanitize_socket_name :: "ustring \<Rightarrow> ustring" where
  "sanitize_socket_name value =
     (let out = pop_dashes (socket_chars [] False value) in if out = [] then ascii ''default'' else out)"

fun guest_chars :: "bool \<Rightarrow> ustring \<Rightarrow> ustring" where
  "guest_chars previous_was_underscore [] = []"
| "guest_chars previous_was_underscore (ch # rest) =
     (if is_alnum ch \<or> ch \<in> {0x2E, 0x5F, 0x2D} then ch # guest_chars False rest
      else (if previous_was_underscore then [] else [0x5F]) @ guest_chars True rest)"

definition sanitize_guest_id :: "ustring \<Rightarrow> ustring" where
  "sanitize_guest_id value = guest_chars False (concat (map (\<lambda>ch. if ch = 0x40 then ascii ''_at_'' else [ch]) value))"

definition selected :: "ustring \<Rightarrow> ustring \<Rightarrow> ustring list \<Rightarrow> bool" where
  "selected app name filters \<longleftrightarrow> filters = []
     \<or> list_ex (\<lambda>f. contains (to_ascii_lowercase app) (to_ascii_lowercase f)
          \<or> contains (to_ascii_lowercase name) (to_ascii_lowercase f)) filters"

section \<open>The context of a command\<close>

record GlobalOptions =
  go_guest :: "ustring option"
  go_guest_dir :: "ustring option"
  go_instance :: "ustring option"
  go_port :: "u16 option"
  go_socket :: "ustring option"
  go_width :: "u32 option"
  go_height :: "u32 option"
  go_debug :: bool
  go_no_build :: bool

record AppContext =
  ac_root :: ustring
  ac_state_dir :: ustring
  ac_cli_path :: ustring
  ac_guest :: "ustring option"
  ac_guest_dir :: "ustring option"
  ac_instance :: ustring
  ac_port :: u16
  ac_socket :: ustring
  ac_width :: u32
  ac_height :: u32
  ac_debug :: bool
  ac_build :: bool

type_synonym cli_env = "ustring \<Rightarrow> ustring option"

fun or_else :: "'a option \<Rightarrow> 'a option \<Rightarrow> 'a option" where
  "or_else (Some x) _ = Some x"
| "or_else None y = y"

fun unwrap_or :: "'a option \<Rightarrow> 'a \<Rightarrow> 'a" where
  "unwrap_or (Some x) _ = x"
| "unwrap_or None d = d"

definition state_dir :: "cli_env \<Rightarrow> ustring \<Rightarrow> ustring" where
  "state_dir e rootdir = unwrap_or (e (ascii ''VBOX_STATE_DIR'')) (join_path rootdir (ascii ''.vbox''))"

definition instance_socket :: "ustring \<Rightarrow> ustring" where
  "instance_socket inst =
     (if inst = ascii ''default'' then ascii ''vbox-0'' else ascii ''vbox-'' @ sanitize_socket_name inst)"

text \<open>\<open>rootdir\<close> is what \<open>repo_root\<close> found, \<open>exe\<close> the path of the running program if it is known.\<close>

definition from_globals :: "cli_env \<Rightarrow> ustring \<Rightarrow> ustring option \<Rightarrow> GlobalOptions \<Rightarrow> AppContext" where
  "from_globals e rootdir exe opts =
     (let inst = unwrap_or (or_else (go_instance opts) (e (ascii ''VBOX_INSTANCE''))) (ascii ''default'')
      in \<lparr>ac_root = rootdir,
          ac_state_dir = state_dir e rootdir,
          ac_cli_path = unwrap_or exe (join_path rootdir (ascii ''target/release/vbox'')),
          ac_guest = or_else (go_guest opts) (e (ascii ''VBOX_GUEST'')),
          ac_guest_dir = or_else (go_guest_dir opts) (e (ascii ''VBOX_GUEST_DIR'')),
          ac_instance = inst,
          ac_port = unwrap_or (or_else (go_port opts) (Option.bind (e (ascii ''VBOX_PORT'')) parse_u16)) 5710,
          ac_socket = unwrap_or (or_else (go_socket opts) (e (ascii ''VBOX_SOCKET''))) (instance_socket inst),
          ac_width = unwrap_or (or_else (go_width opts) (Option.bind (e (ascii ''VBOX_WIDTH'')) parse_u32)) 1024,
          ac_height = unwrap_or (or_else (go_height opts) (Option.bind (e (ascii ''VBOX_HEIGHT'')) parse_u32)) 768,
          ac_debug = (go_debug opts \<or> e (ascii ''VBOX_DEBUG'') = Some (ascii ''1'')),
          ac_build = (\<not> go_no_build opts \<and> e (ascii ''VBOX_BUILD'') \<noteq> Some (ascii ''0''))\<rparr>)"

definition control_addr :: "cli_env \<Rightarrow> ustring" where
  "control_addr e = unwrap_or (e (ascii ''VBOX_CONTROL_HOST'')) (ascii ''127.0.0.1'') @ ascii '':''
     @ unwrap_or (e (ascii ''VBOX_CONTROL_PORT'')) (ascii ''5711'')"

definition local_addr :: "cli_env \<Rightarrow> AppContext \<Rightarrow> ustring" where
  "local_addr e ctx = unwrap_or (e (ascii ''VBOX_LOCAL_HOST'')) (ascii ''127.0.0.1'') @ ascii '':''
     @ dec_digits (unat (ac_port ctx))"

section \<open>The ports of instances\<close>

datatype cli_error =
    FileUnreadable
  | FileUnwritable
  | MissingPort nat
  | ExtraField nat
  | BadPort nat
  | NoFreePort
  | RefreshFailed
  | UnknownApp ustring
  | StackFailed
  | NoStdout
  | MalformedStdout
  | BadField
  | BadBundle
  | UnsupportedBundle nat
  | UnknownMode ustring
  | MissingQuicField

datatype text_file = NoFile | UnreadableFile | TextFile ustring

definition INSTANCE_PORT_OFFSET :: nat where
  "INSTANCE_PORT_OFFSET = 2"

definition INSTANCE_PORT_SPAN :: nat where
  "INSTANCE_PORT_SPAN = 2048"

fun parse_port_lines :: "nat \<Rightarrow> ustring list \<Rightarrow> cli_error + (ustring \<times> u16) list" where
  "parse_port_lines idx [] = Inr []"
| "parse_port_lines idx (raw # rest) =
     (let line = str_trim raw in
      if line = [] \<or> hd line = 0x23 then parse_port_lines (Suc idx) rest
      else
        (case split_whitespace line of
           [] \<Rightarrow> parse_port_lines (Suc idx) rest
         | [inst] \<Rightarrow> Inl (MissingPort (Suc idx))
         | [inst, port] \<Rightarrow>
             (case parse_u16 port of
                None \<Rightarrow> Inl (BadPort (Suc idx))
              | Some p \<Rightarrow>
                  (case parse_port_lines (Suc idx) rest of Inl e \<Rightarrow> Inl e | Inr entries \<Rightarrow> Inr ((inst, p) # entries)))
         | _ \<Rightarrow> Inl (ExtraField (Suc idx))))"

fun read_instance_ports :: "text_file \<Rightarrow> cli_error + (ustring \<times> u16) list" where
  "read_instance_ports NoFile = Inr []"
| "read_instance_ports UnreadableFile = Inl FileUnreadable"
| "read_instance_ports (TextFile body) = parse_port_lines 0 (lines_from [] body)"

definition port_line :: "ustring \<times> u16 \<Rightarrow> ustring" where
  "port_line entry = fst entry @ [0x09] @ dec_digits (unat (snd entry)) @ [0x0A]"

text \<open>The entries go to a temporary file that is renamed: the file is the old one or the complete new one.\<close>

definition write_instance_ports :: "bool \<Rightarrow> (ustring \<times> u16) list \<Rightarrow> text_file \<Rightarrow> (cli_error + unit) \<times> text_file" where
  "write_instance_ports ok entries old =
     (if ok then (Inr (), TextFile (concat (map port_line entries))) else (Inl FileUnwritable, old))"

definition reserved_ports :: "cli_env \<Rightarrow> u16 \<Rightarrow> u16 list" where
  "reserved_ports e port =
     (let control = unwrap_or (Option.bind (e (ascii ''VBOX_CONTROL_PORT'')) parse_u16) 5711
      in if control \<in> set [port] then [port] else [port, control])"

definition port_candidates :: "u16 \<Rightarrow> u16 list" where
  "port_candidates port =
     (let start = max (unat port + INSTANCE_PORT_OFFSET) 1024; stop = min (start + INSTANCE_PORT_SPAN - 1) 65535
      in map of_nat [start..<Suc stop])"

definition instance_port :: "cli_env \<Rightarrow> bool \<Rightarrow> u16 \<Rightarrow> ustring \<Rightarrow> text_file \<Rightarrow> (cli_error + u16) \<times> text_file" where
  "instance_port e ok port inst file =
     (if inst = ascii ''default'' then (Inr port, file)
      else
        (case read_instance_ports file of
           Inl err \<Rightarrow> (Inl err, file)
         | Inr entries \<Rightarrow>
             (case find (\<lambda>(name, _). name = inst) entries of
                Some (_, p) \<Rightarrow> (Inr p, file)
              | None \<Rightarrow>
                  (case find (\<lambda>c. c \<notin> set (reserved_ports e port) \<and> c \<notin> snd ` set entries) (port_candidates port) of
                     None \<Rightarrow> (Inl NoFreePort, file)
                   | Some c \<Rightarrow>
                       (case write_instance_ports ok (entries @ [(inst, c)]) file of
                          (Inl err, file') \<Rightarrow> (Inl err, file')
                        | (Inr _, file') \<Rightarrow> (Inr c, file'))))))"

definition instance_context :: "cli_env \<Rightarrow> bool \<Rightarrow> AppContext \<Rightarrow> ustring \<Rightarrow> text_file \<Rightarrow> (cli_error + AppContext) \<times> text_file" where
  "instance_context e ok ctx inst file =
     (case instance_port e ok (ac_port ctx) inst file of
        (Inl err, file') \<Rightarrow> (Inl err, file')
      | (Inr p, file') \<Rightarrow>
          (Inr (ctx\<lparr>ac_instance := inst,
             ac_socket := (if inst = ascii ''default'' then ascii ''vbox-0'' else ascii ''vbox-'' @ sanitize_id inst),
             ac_port := p\<rparr>), file'))"

section \<open>The guest's applications\<close>

record AppRecord =
  ar_id :: ustring
  ar_name :: ustring
  ar_exec :: ustring
  ar_icon :: ustring
  ar_argv_b64 :: ustring
  ar_argv :: "ustring list"

text \<open>\<open>str::split\<close> at a character, and \<open>decode_argv_b64\<close> as an argument (base64 and JSON).\<close>

fun split_at :: "uchar \<Rightarrow> ustring \<Rightarrow> ustring \<Rightarrow> ustring list" where
  "split_at sep field [] = [field]"
| "split_at sep field (c # cs) = (if c = sep then field # split_at sep [] cs else split_at sep (field @ [c]) cs)"

definition app_row :: "(ustring \<Rightarrow> ustring list option) \<Rightarrow> ustring \<Rightarrow> AppRecord option" where
  "app_row decode line =
     (let parts = split_at 0x09 [] line in
      if length parts < 7 then None
      else Some \<lparr>ar_id = parts ! 0, ar_name = parts ! 1, ar_exec = parts ! 2, ar_icon = parts ! 3,
        ar_argv_b64 = parts ! 6, ar_argv = unwrap_or (decode (parts ! 6)) [parts ! 2]\<rparr>)"

definition read_app_cache :: "(ustring \<Rightarrow> ustring list option) \<Rightarrow> ustring \<Rightarrow> AppRecord list" where
  "read_app_cache decode body = List.map_filter (app_row decode) (lines_from [] body)"

text \<open>The cache is the text of the file, if it exists; \<open>fetched\<close> is what the guest answers to a refresh.\<close>

definition find_app_record ::
  "(ustring \<Rightarrow> ustring list option) \<Rightarrow> ustring option \<Rightarrow> ustring option \<Rightarrow> ustring \<Rightarrow> cli_error + AppRecord" where
  "find_app_record decode cache fetched query =
     (case or_else cache fetched of
        None \<Rightarrow> Inl RefreshFailed
      | Some body \<Rightarrow>
          (case find (\<lambda>row. selected (ar_id row) (ar_name row) [query]) (read_app_cache decode body) of
             None \<Rightarrow> Inl (UnknownApp query)
           | Some row \<Rightarrow> Inr row))"

section \<open>Preparing an application\<close>

definition summary_line :: "AppContext \<Rightarrow> ustring" where
  "summary_line ctx = dec_digits (unat (ac_port ctx)) @ [0x20] @ ac_socket ctx @ [0x20]
     @ dec_digits (unat (ac_width ctx)) @ [0x20] @ dec_digits (unat (ac_height ctx)) @ [0x0A]"

definition bundle_json :: "AppContext \<Rightarrow> ustring" where
  "bundle_json ctx =
     ascii ''{\"version\":1,\"port\":'' @ dec_digits (unat (ac_port ctx))
     @ ascii '',\"socket\":\"'' @ ac_socket ctx @ ascii ''\",\"width\":'' @ dec_digits (unat (ac_width ctx))
     @ ascii '',\"height\":'' @ dec_digits (unat (ac_height ctx))
     @ ascii '',\"data_plane\":{\"mode\":\"tcp-only\"}}''"

text \<open>\<open>stack\<close> says whether the server of a context comes up. The standard output is the result.\<close>

definition prepare_app ::
  "cli_env \<Rightarrow> bool \<Rightarrow> (AppContext \<Rightarrow> bool) \<Rightarrow> (ustring \<Rightarrow> ustring list option) \<Rightarrow> ustring option \<Rightarrow> ustring option
     \<Rightarrow> AppContext \<Rightarrow> ustring \<Rightarrow> bool \<Rightarrow> text_file \<Rightarrow> (cli_error + ustring) \<times> text_file" where
  "prepare_app e ok stack decode cache fetched ctx app_id bundle file =
     (case find_app_record decode cache fetched app_id of
        Inl err \<Rightarrow> (Inl err, file)
      | Inr row \<Rightarrow>
          (case instance_context e ok ctx (sanitize_id (ar_id row)) file of
             (Inl err, file') \<Rightarrow> (Inl err, file')
           | (Inr app_ctx, file') \<Rightarrow>
               if \<not> stack app_ctx then (Inl StackFailed, file')
               else (Inr (if bundle then bundle_json app_ctx @ [0x0A] else summary_line app_ctx), file')))"

record PrepareAppDataPlane =
  dp_mode :: ustring
  dp_quic_addr :: "SocketAddr option"
  dp_session_token :: "ustring option"
  dp_quic_server_cert_sha256 :: "ustring option"

record PrepareAppBundle =
  pb_version :: u8
  pb_port :: u16
  pb_socket :: ustring
  pb_width :: u32
  pb_height :: u32
  pb_data_plane :: "PrepareAppDataPlane option"

record PreparedInstance =
  pi_port :: u16
  pi_socket :: ustring
  pi_width :: u32
  pi_height :: u32
  pi_transport :: CommandTransport

definition prepare_app_transport :: "PrepareAppDataPlane \<Rightarrow> cli_error + CommandTransport" where
  "prepare_app_transport dp =
     (let mode = (if dp_mode dp = ascii ''tcp-only'' then Some TcpOnly else if dp_mode dp = ascii ''auto'' then Some Auto
                  else if dp_mode dp = ascii ''quic-only'' then Some QuicOnly else None)
      in case mode of
           None \<Rightarrow> Inl (UnknownMode (dp_mode dp))
         | Some TcpOnly \<Rightarrow> Inr command_transport_tcp
         | Some m \<Rightarrow>
             (case (dp_quic_addr dp, dp_session_token dp, dp_quic_server_cert_sha256 dp) of
                (Some a, Some t, Some c) \<Rightarrow>
                  Inr \<lparr>ct_mode = m, ct_quic_addr = Some a, ct_quic_token = Some t, ct_quic_cert_sha256 = Some c\<rparr>
              | _ \<Rightarrow> Inl MissingQuicField))"

definition parse_prepare_app_bundle :: "(ustring \<Rightarrow> PrepareAppBundle option) \<Rightarrow> ustring \<Rightarrow> cli_error + PreparedInstance" where
  "parse_prepare_app_bundle json line =
     (case json line of
        None \<Rightarrow> Inl BadBundle
      | Some b \<Rightarrow>
          if pb_version b \<noteq> 1 then Inl (UnsupportedBundle (unat (pb_version b)))
          else
            (case (case pb_data_plane b of Some dp \<Rightarrow> prepare_app_transport dp | None \<Rightarrow> Inr command_transport_tcp) of
               Inl err \<Rightarrow> Inl err
             | Inr tr \<Rightarrow> Inr \<lparr>pi_port = pb_port b, pi_socket = pb_socket b, pi_width = pb_width b,
                 pi_height = pb_height b, pi_transport = tr\<rparr>))"

definition parse_prepare_app_stdout :: "(ustring \<Rightarrow> PrepareAppBundle option) \<Rightarrow> ustring \<Rightarrow> cli_error + PreparedInstance" where
  "parse_prepare_app_stdout json stdout =
     (case find (\<lambda>s. s \<noteq> []) (rev (map str_trim (lines_from [] stdout))) of
        None \<Rightarrow> Inl NoStdout
      | Some line \<Rightarrow>
          if hd line = 0x7B then parse_prepare_app_bundle json line
          else
            (case split_whitespace line of
               [port, socket, width, height] \<Rightarrow>
                 (case (parse_u16 port, parse_u32 width, parse_u32 height) of
                    (Some p, Some w, Some h) \<Rightarrow>
                      Inr \<lparr>pi_port = p, pi_socket = socket, pi_width = w, pi_height = h, pi_transport = command_transport_tcp\<rparr>
                  | _ \<Rightarrow> Inl BadField)
             | _ \<Rightarrow> Inl MalformedStdout))"

section \<open>Launcher bundles\<close>

definition with_newline :: "ustring \<Rightarrow> ustring" where
  "with_newline s = s @ [0x0A]"

text \<open>The text files \<open>build_launcher_app\<close> writes into the resources of the bundle.\<close>

definition launcher_resources :: "AppContext \<Rightarrow> AppContext \<Rightarrow> AppRecord \<Rightarrow> (ustring \<times> ustring) list" where
  "launcher_resources ctx app_ctx row =
     map (\<lambda>(name, body). (name, with_newline body))
       [(ascii ''AppID.txt'', ar_id row), (ascii ''AppName.txt'', ar_name row), (ascii ''Exec.txt'', ar_exec row),
        (ascii ''Argv.b64'', ar_argv_b64 row), (ascii ''VBoxNativePath.txt'', ac_cli_path ctx),
        (ascii ''Root.txt'', ac_root ctx), (ascii ''StateDir.txt'', ac_state_dir ctx),
        (ascii ''Guest.txt'', unwrap_or (ac_guest ctx) []), (ascii ''GuestDir.txt'', unwrap_or (ac_guest_dir ctx) []),
        (ascii ''Port.txt'', dec_digits (unat (ac_port app_ctx))), (ascii ''Width.txt'', dec_digits (unat (ac_width ctx))),
        (ascii ''Height.txt'', dec_digits (unat (ac_height ctx))),
        (ascii ''IconDir.txt'', join_path (ac_state_dir ctx) (ascii ''icons'')),
        (ascii ''Instance.txt'', sanitize_id (ar_id row))]"

record BundleLaunchArgs =
  bl_vbox_native :: ustring
  bl_app_id :: ustring
  bl_instance :: ustring
  bl_command_env :: "(ustring \<times> ustring) list"
  bl_icon_dir :: "ustring option"

definition read_resource :: "(ustring \<times> ustring) list \<Rightarrow> ustring \<Rightarrow> ustring option" where
  "read_resource resources name =
     (case map_of resources name of
        None \<Rightarrow> None
      | Some s \<Rightarrow> if str_trim s = [] then None else Some (str_trim s))"

definition bundle_command_env :: "(ustring \<times> ustring) list \<Rightarrow> (ustring \<times> ustring) list" where
  "bundle_command_env resources =
     List.map_filter (\<lambda>(file, key). map_option (Pair key) (read_resource resources file))
       [(ascii ''Root.txt'', ascii ''VBOX_ROOT''), (ascii ''StateDir.txt'', ascii ''VBOX_STATE_DIR''),
        (ascii ''Guest.txt'', ascii ''VBOX_GUEST''), (ascii ''GuestDir.txt'', ascii ''VBOX_GUEST_DIR''),
        (ascii ''Port.txt'', ascii ''VBOX_PORT''), (ascii ''Width.txt'', ascii ''VBOX_WIDTH''),
        (ascii ''Height.txt'', ascii ''VBOX_HEIGHT'')]"

definition bundle_launch_args :: "(ustring \<times> ustring) list \<Rightarrow> BundleLaunchArgs option" where
  "bundle_launch_args resources =
     (case read_resource resources (ascii ''AppID.txt'') of
        None \<Rightarrow> None
      | Some app_id \<Rightarrow>
          (case or_else (read_resource resources (ascii ''VBoxNativePath.txt'')) (read_resource resources (ascii ''CohNativePath.txt'')) of
             None \<Rightarrow> None
           | Some native \<Rightarrow>
               if app_id = [] \<or> native = [] then None
               else Some \<lparr>bl_vbox_native = native, bl_app_id = app_id,
                 bl_instance = unwrap_or (read_resource resources (ascii ''Instance.txt'')) (sanitize_app_id app_id),
                 bl_command_env = bundle_command_env resources,
                 bl_icon_dir = read_resource resources (ascii ''IconDir.txt'')\<rparr>))"

section \<open>Numbers, words and lines\<close>

lemma dec_digits_shape: "dec_digits n \<noteq> [] \<and> list_all is_ascii_digit (dec_digits n)"
proof (induction n rule: dec_digits.induct)
  case (1 n)
  then show ?case by (subst (1 2) dec_digits.simps) (auto simp: is_ascii_digit_def [of "48 + _"])
qed

lemma dec_value_digits: "dec_value (dec_digits n) = n"
proof (induction n rule: dec_digits.induct)
  case (1 n)
  then show ?case by (subst dec_digits.simps) (simp add: dec_value_def)
qed

lemma dec_digits_chars:
  assumes "c \<in> set (dec_digits n)"
  shows "48 \<le> c \<and> c \<le> 57"
  using dec_digits_shape [of n] assms by (auto simp: list_all_iff is_ascii_digit_def)

lemma parse_unsigned_digits: "parse_unsigned b (dec_digits n) = (if n < b then Some n else None)"
proof -
  obtain c rest where d: "dec_digits n = c # rest" using dec_digits_shape [of n] by (cases "dec_digits n") auto
  have "c \<noteq> 0x2B" using dec_digits_chars [of c n] d by auto
  then show ?thesis
    using dec_digits_shape [of n] dec_value_digits [of n] by (simp add: parse_unsigned_def d)
qed

lemma parse_digits [simp]:
  "parse_u16 (dec_digits (unat p)) = Some p" for p :: u16
  by (simp add: parse_u16_def parse_unsigned_digits unat_lt_len [of p, simplified])

lemma parse_digits32 [simp]: "parse_u32 (dec_digits (unat w)) = Some w" for w :: u32
  by (simp add: parse_u32_def parse_unsigned_digits unat_lt_len [of w, simplified])

abbreviation solid :: "ustring \<Rightarrow> bool" where
  "solid w \<equiv> w \<noteq> [] \<and> list_all (\<lambda>c. \<not> is_whitespace c) w"

lemma digits_solid: "solid (dec_digits n)"
  using dec_digits_shape [of n] dec_digits_chars [of _ n] by (fastforce simp: list_all_iff is_whitespace_def)

lemma words_from_solid: "list_all (\<lambda>c. \<not> is_whitespace c) w \<Longrightarrow> words_from acc (w @ rest) = words_from (acc @ w) rest"
  by (induction w arbitrary: acc) simp_all

lemma split_solid [simp]: "solid w \<Longrightarrow> split_whitespace w = [w]"
  using words_from_solid [of w "[]" "[]"] by (simp add: split_whitespace_def)

lemma split_solid_Cons: "solid w \<Longrightarrow> is_whitespace c \<Longrightarrow> split_whitespace (w @ c # rest) = w # split_whitespace rest"
  using words_from_solid [of w "[]" "c # rest"] by (simp add: split_whitespace_def)

lemma trim_outer:
  assumes "s \<noteq> []" and "\<not> is_whitespace (hd s)" and "\<not> is_whitespace (last s)"
  shows "str_trim s = s" and "str_trim (s @ [0x0A]) = s"
proof -
  have front: "dropWhile is_whitespace (s @ t) = s @ t" for t using assms(1,2) by (cases s) simp_all
  have tail: "dropWhile is_whitespace (rev s) = rev s" using assms(1,3) by (cases s rule: rev_cases) simp_all
  have "is_whitespace 0x0A" by (simp add: is_whitespace_def)
  then show "str_trim s = s" "str_trim (s @ [0x0A]) = s"
    using front [of "[]"] front [of "[0x0A]"] tail by (simp_all add: str_trim_def)
qed

lemma solid_ends: "solid w \<Longrightarrow> \<not> is_whitespace (hd w) \<and> \<not> is_whitespace (last w)"
  by (simp add: list_all_iff)

lemma lines_from_line: "0x0A \<notin> set l \<Longrightarrow> lines_from acc (l @ 0x0A # rest) = strip_cr (acc @ l) # lines_from [] rest"
  by (induction l arbitrary: acc) simp_all

lemma strip_cr_id: "l = [] \<or> last l \<noteq> 0x0D \<Longrightarrow> strip_cr l = l"
  by (auto simp: strip_cr_def)

section \<open>Names that were made safe\<close>

lemma trim_dashes_shape:
  "set (trim_dashes s) \<subseteq> set s" "trim_dashes s = [] \<or> hd (trim_dashes s) \<noteq> dash \<and> last (trim_dashes s) \<noteq> dash"
proof -
  let ?t = "dropWhile ((=) dash) s"
  show "set (trim_dashes s) \<subseteq> set s" by (auto simp: trim_dashes_def dest!: set_dropWhileD)
  have front: "?t = [] \<or> hd ?t \<noteq> dash" using hd_dropWhile [of "(=) dash" s] by metis
  have rear: "dropWhile ((=) dash) (rev ?t) = [] \<or> hd (dropWhile ((=) dash) (rev ?t)) \<noteq> dash"
    using hd_dropWhile [of "(=) dash" "rev ?t"] by metis
  have "rev ?t = takeWhile ((=) dash) (rev ?t) @ dropWhile ((=) dash) (rev ?t)" by simp
  then have "?t = trim_dashes s @ rev (takeWhile ((=) dash) (rev ?t))"
    unfolding trim_dashes_def by (metis rev_append rev_rev_ident)
  then have "hd ?t = hd (trim_dashes s) \<and> ?t \<noteq> []" if "trim_dashes s \<noteq> []"
    using that by (metis hd_append2 append_is_Nil_conv)
  moreover have "last (trim_dashes s) \<noteq> dash" if "trim_dashes s \<noteq> []"
    using that rear unfolding trim_dashes_def by (metis last_rev rev_is_Nil_conv)
  ultimately show "trim_dashes s = [] \<or> hd (trim_dashes s) \<noteq> dash \<and> last (trim_dashes s) \<noteq> dash"
    using front by metis
qed

lemma trim_dashes_id: "s = [] \<or> hd s \<noteq> dash \<and> last s \<noteq> dash \<Longrightarrow> trim_dashes s = s"
proof -
  assume ends: "s = [] \<or> hd s \<noteq> dash \<and> last s \<noteq> dash"
  then have "dropWhile ((=) dash) s = s" by (cases s) auto
  moreover have "dropWhile ((=) dash) (rev s) = rev s" using ends by (cases s rule: rev_cases) auto
  ultimately show ?thesis by (simp add: trim_dashes_def)
qed

definition safe_char :: "uchar \<Rightarrow> bool" where
  "safe_char c \<longleftrightarrow> is_alnum c \<or> c = dash"

lemma sanitize_id_shape:
  "list_all safe_char (sanitize_id v)"
  "sanitize_id v = [] \<or> hd (sanitize_id v) \<noteq> dash \<and> last (sanitize_id v) \<noteq> dash"
  using trim_dashes_shape [of "map (\<lambda>ch. if is_alnum ch then ch else dash) v"]
  by (auto simp: sanitize_id_def list_all_iff safe_char_def)

lemma sanitize_id_safe:
  assumes "list_all safe_char s" and "s = [] \<or> hd s \<noteq> dash \<and> last s \<noteq> dash"
  shows "sanitize_id s = s"
proof -
  have "map (\<lambda>ch. if is_alnum ch then ch else dash) s = s"
    using assms(1) by (induction s) (auto simp: safe_char_def)
  then show ?thesis using trim_dashes_id [OF assms(2)] by (simp add: sanitize_id_def)
qed

lemma sanitize_id_idem: "sanitize_id (sanitize_id v) = sanitize_id v"
  using sanitize_id_safe sanitize_id_shape by blast

lemma safe_solid: "safe_char c \<Longrightarrow> \<not> is_whitespace c" "safe_char c \<Longrightarrow> c \<noteq> 0x23"
  by (auto simp: safe_char_def is_alnum_def is_whitespace_def dash_def)

fun double_dash :: "ustring \<Rightarrow> bool" where
  "double_dash (a # b # rest) \<longleftrightarrow> a = dash \<and> b = dash \<or> double_dash (b # rest)"
| "double_dash _ \<longleftrightarrow> False"

abbreviation socket_char :: "uchar \<Rightarrow> bool" where
  "socket_char ch \<equiv> is_alnum ch \<or> ch = 0x5F \<or> ch = 0x2D"

lemma socket_chars_fold: "out \<noteq> [] \<Longrightarrow> socket_chars out d s = out @ fold_dashes socket_char d s"
  by (induction s arbitrary: out d) (simp_all add: Let_def)

lemma fold_dashes_length: "length (fold_dashes keep d s) \<le> length s"
  by (induction s arbitrary: d) (simp_all add: Let_def le_SucI)

lemma fold_dashes_id_iff:
  "list_all keep s \<Longrightarrow> fold_dashes keep d s = s \<longleftrightarrow> \<not> (d \<and> s \<noteq> [] \<and> hd s = dash) \<and> \<not> double_dash s"
proof (induction s arbitrary: d)
  case (Cons a s)
  have shorter: "fold_dashes keep True s \<noteq> a # s" using fold_dashes_length [of keep True s] by (metis Suc_n_not_le_n length_Cons)
  show ?case using Cons.IH [of True] Cons.IH [of False] Cons.prems shorter by (cases s) (auto simp: Let_def)
qed simp

lemma fold_dashes_last: "s \<noteq> [] \<Longrightarrow> last s \<noteq> dash \<Longrightarrow> list_all keep s \<Longrightarrow> fold_dashes keep d s \<noteq> [] \<and> last (fold_dashes keep d s) \<noteq> dash"
  by (induction s arbitrary: d) (auto simp: Let_def split: if_splits)

text \<open>The socket name \<open>sanitize_socket_name\<close> derives from a name that \<open>sanitize_id\<close> made safe.\<close>

lemma socket_name_of_safe:
  assumes "list_all safe_char s" and "s \<noteq> []" and "hd s \<noteq> dash" and "last s \<noteq> dash"
  shows "sanitize_socket_name s = s \<longleftrightarrow> \<not> double_dash s"
proof -
  obtain c r where s: "s = c # r" using assms(2) by (cases s) auto
  have keep: "list_all socket_char r" and c: "is_alnum c" "c \<noteq> dash"
    using assms(1,3) by (auto simp: s list_all_iff safe_char_def dash_def)
  have body: "socket_chars [] False s = c # fold_dashes socket_char False r"
    using c by (simp add: s Let_def socket_chars_fold)
  have "last (c # fold_dashes socket_char False r) \<noteq> dash"
    using fold_dashes_last [of r socket_char False] assms(4) c keep by (cases "r = []") (auto simp: s)
  then have "pop_dashes (c # fold_dashes socket_char False r) = c # fold_dashes socket_char False r"
    by (cases "c # fold_dashes socket_char False r" rule: rev_cases) (auto simp: pop_dashes_def)
  then have "sanitize_socket_name s = c # fold_dashes socket_char False r"
    by (simp add: sanitize_socket_name_def body Let_def)
  moreover have "double_dash s \<longleftrightarrow> double_dash r" using c by (cases r) (auto simp: s)
  ultimately show ?thesis using fold_dashes_id_iff [OF keep, of False] by (simp add: s)
qed

section \<open>The table of ports\<close>

abbreviation good_name :: "ustring \<Rightarrow> bool" where
  "good_name n \<equiv> solid n \<and> hd n \<noteq> 0x23"

lemma safe_good_name: "list_all safe_char n \<Longrightarrow> n \<noteq> [] \<Longrightarrow> good_name n"
  using safe_solid by (cases n) (auto simp: list_all_iff)

lemma good_sanitized: "sanitize_id app \<noteq> [] \<Longrightarrow> good_name (sanitize_id app)"
  using safe_good_name sanitize_id_shape by blast

lemma newline_space: "is_whitespace 0x0A" "is_whitespace 0x0D" "is_whitespace 0x09" "is_whitespace 0x20"
  by (simp_all add: is_whitespace_def)

lemma solid_no_newline: "list_all (\<lambda>c. \<not> is_whitespace c) w \<Longrightarrow> 0x0A \<notin> set w \<and> 0x0D \<notin> set w"
  using newline_space by (metis list_all_iff)

lemma port_line_lines:
  assumes "list_all (\<lambda>c. \<not> is_whitespace c) n"
  shows "lines_from [] (port_line (n, p) @ rest) = (n @ 0x09 # dec_digits (unat p)) # lines_from [] rest"
proof -
  let ?d = "dec_digits (unat p)"
  have d: "solid ?d" by (rule digits_solid)
  have nl: "0x0A \<notin> set (n @ 0x09 # ?d)" using solid_no_newline [OF assms] solid_no_newline d by auto
  have "last (n @ 0x09 # ?d) \<noteq> 0x0D" using solid_no_newline [of ?d] d by auto (metis last_in_set)
  with lines_from_line [OF nl, of "[]" rest] show ?thesis by (simp add: port_line_def strip_cr_id)
qed

lemma port_line_parsed:
  assumes "good_name n"
  shows "parse_port_lines idx (lines_from [] (port_line (n, p) @ rest)) =
    (case parse_port_lines (Suc idx) (lines_from [] rest) of Inl e \<Rightarrow> Inl e | Inr es \<Rightarrow> Inr ((n, p) # es))"
proof -
  let ?d = "dec_digits (unat p)" and ?l = "n @ 0x09 # dec_digits (unat p)"
  have d: "solid ?d" by (rule digits_solid)
  have "str_trim ?l = ?l"
    using solid_ends [of n] solid_ends [OF d] assms d by (intro trim_outer) auto
  moreover have "split_whitespace ?l = [n, ?d]" using split_solid_Cons [of n 9 ?d] assms d newline_space by simp
  ultimately show ?thesis using assms port_line_lines [of n p rest] by (simp add: Let_def)
qed

lemma ports_parsed:
  assumes "list_all good_name (map fst entries)"
  shows "parse_port_lines idx (lines_from [] (concat (map port_line entries) @ rest)) =
    (case parse_port_lines (idx + length entries) (lines_from [] rest) of Inl e \<Rightarrow> Inl e | Inr es \<Rightarrow> Inr (entries @ es))"
  using assms
proof (induction entries arbitrary: idx)
  case (Cons a entries)
  then show ?case using port_line_parsed [of "fst a" idx "snd a" "concat (map port_line entries) @ rest"] by (simp split: sum.splits)
qed (simp split: sum.splits)

lemma ports_roundtrip: "list_all good_name (map fst entries) \<Longrightarrow> read_instance_ports (TextFile (concat (map port_line entries))) = Inr entries"
  using ports_parsed [of entries 0 "[]"] by simp

lemma nameless_line: "parse_port_lines idx (lines_from [] (port_line ([], p))) = Inl (MissingPort (Suc idx))"
proof -
  let ?d = "dec_digits (unat p)"
  have d: "solid ?d" by (rule digits_solid)
  then have "str_trim ?d = ?d" using solid_ends [OF d] by (intro trim_outer) auto
  then have "str_trim (0x09 # ?d) = ?d" using newline_space d solid_ends [OF d] by (cases ?d) (auto simp: str_trim_def)
  moreover have "hd ?d \<noteq> 0x23" using dec_digits_chars [of "hd ?d" "unat p"] d by auto
  ultimately show ?thesis using port_line_lines [of "[]" p "[]"] d by simp
qed

definition table_ok :: "text_file \<Rightarrow> (ustring \<times> u16) list \<Rightarrow> bool" where
  "table_ok file entries \<longleftrightarrow> read_instance_ports file = Inr entries \<and> list_all good_name (map fst entries)
     \<and> distinct (map fst entries) \<and> distinct (map snd entries)"

lemma find_entry:
  assumes "distinct (map fst entries)"
  shows "find (\<lambda>(name, _). name = n) entries = map_option (Pair n) (map_of entries n)"
  using assms by (induction entries) auto

lemma instance_port_known:
  assumes "table_ok file entries" and "(n, p) \<in> set entries" and "n \<noteq> ascii ''default''"
  shows "instance_port e ok port n file = (Inr p, file)"
proof -
  have "map_of entries n = Some p" using assms(1,2) by (simp add: table_ok_def map_of_is_SomeI)
  with assms find_entry [of entries n] show ?thesis by (simp add: instance_port_def table_ok_def)
qed

lemma instance_port_keeps:
  assumes "table_ok file entries" and "good_name n"
  shows "\<exists>entries'. table_ok (snd (instance_port e ok port n file)) entries' \<and> set entries \<subseteq> set entries'
    \<and> (\<forall>p. n \<noteq> ascii ''default'' \<longrightarrow> fst (instance_port e ok port n file) = Inr p \<longrightarrow> (n, p) \<in> set entries')"
proof (cases "n = ascii ''default''")
  case True
  then show ?thesis using assms by (auto simp: instance_port_def)
next
  case False
  have rd: "read_instance_ports file = Inr entries" and dist: "distinct (map fst entries)" using assms(1) by (auto simp: table_ok_def)
  let ?free = "find (\<lambda>c. c \<notin> set (reserved_ports e port) \<and> c \<notin> snd ` set entries) (port_candidates port)"
  show ?thesis
  proof (cases "map_of entries n")
    case (Some p)
    then have "(n, p) \<in> set entries" by (rule map_of_SomeD)
    with instance_port_known [OF assms(1) this False, of e ok port] assms(1) show ?thesis by auto
  next
    case None
    then have fresh: "n \<notin> fst ` set entries" by (simp add: map_of_eq_None_iff)
    have new: "table_ok (TextFile (concat (map port_line (entries @ [(n, c)])))) (entries @ [(n, c)])"
      if "c \<notin> snd ` set entries" for c
      using assms fresh that ports_roundtrip [of "entries @ [(n, c)]"] by (auto simp: table_ok_def)
    have port: "instance_port e ok port n file = (case ?free of None \<Rightarrow> (Inl NoFreePort, file)
        | Some c \<Rightarrow> if ok then (Inr c, TextFile (concat (map port_line (entries @ [(n, c)])))) else (Inl FileUnwritable, file))"
      using None False find_entry [OF dist, of n] by (simp add: instance_port_def rd write_instance_ports_def split: option.splits)
    show ?thesis
    proof (cases ?free)
      case None
      then show ?thesis using assms(1) unfolding port by auto
    next
      case (Some c)
      then have "c \<notin> snd ` set entries" by (auto simp: find_Some_iff)
      from new [OF this] assms(1) show ?thesis unfolding port Some
        by (cases ok) (auto intro: exI [of _ "entries @ [(n, c)]"] exI [of _ entries])
    qed
  qed
qed

text \<open>One allocation for the application with the given id, in its own environment.\<close>

fun alloc_step :: "text_file \<Rightarrow> cli_env \<times> bool \<times> u16 \<times> ustring \<Rightarrow> text_file" where
  "alloc_step file (e, ok, port, app) = snd (instance_port e ok port (sanitize_id app) file)"

abbreviation named :: "cli_env \<times> bool \<times> u16 \<times> ustring \<Rightarrow> bool" where
  "named call \<equiv> sanitize_id (snd (snd (snd call))) \<noteq> []"

lemma allocs_keep:
  assumes "table_ok disk entries" and "list_all named calls"
  shows "\<exists>entries'. table_ok (run alloc_step disk calls) entries' \<and> set entries \<subseteq> set entries'"
  using assms
proof (induction calls arbitrary: disk entries)
  case (Cons call calls)
  obtain e ok port app where call: "call = (e, ok, port, app)" by (cases call)
  have "good_name (sanitize_id app)" using Cons.prems(2) good_sanitized [of app] by (simp add: call)
  from instance_port_keeps [OF Cons.prems(1) this, of e ok port] obtain es where
    "table_ok (alloc_step disk call) es" "set entries \<subseteq> set es" by (auto simp: call)
  with Cons.IH [of "alloc_step disk call" es] Cons.prems(2) show ?case by (auto simp: run_Cons)
qed auto

lemma table_start: "table_ok NoFile []"
  by (simp add: table_ok_def)

lemma port_candidates_ports:
  assumes "unat port \<le> 63486"
  shows "distinct (port_candidates port)" and "length (port_candidates port) = INSTANCE_PORT_SPAN"
    and "i < INSTANCE_PORT_SPAN \<Longrightarrow> unat (port_candidates port ! i) = max (unat port + INSTANCE_PORT_OFFSET) 1024 + i"
proof -
  let ?start = "max (unat port + INSTANCE_PORT_OFFSET) 1024"
  have stop: "min (?start + INSTANCE_PORT_SPAN - 1) 65535 = ?start + 2047"
    using assms by (simp add: INSTANCE_PORT_OFFSET_def INSTANCE_PORT_SPAN_def)
  have "port_candidates port = map of_nat [?start..<Suc (?start + 2047)]" unfolding port_candidates_def Let_def stop ..
  also have "Suc (?start + 2047) = ?start + 2048" by simp
  finally have c: "port_candidates port = map of_nat [?start..<?start + 2048]" .
  show len: "length (port_candidates port) = INSTANCE_PORT_SPAN" unfolding c by (simp add: INSTANCE_PORT_SPAN_def)
  have nth: "unat (port_candidates port ! j) = ?start + j" if "j < INSTANCE_PORT_SPAN" for j
  proof -
    have "?start + j < 2 ^ 16" "j < 2048" using that assms by (simp_all add: INSTANCE_PORT_SPAN_def INSTANCE_PORT_OFFSET_def)
    then show ?thesis unfolding c by (simp add: unat_of_nat del: of_nat_add)
  qed
  show "i < INSTANCE_PORT_SPAN \<Longrightarrow> unat (port_candidates port ! i) = ?start + i" by (rule nth)
  show "distinct (port_candidates port)" unfolding distinct_conv_nth len using nth by (metis add_left_cancel)
qed

lemma free_port_exists:
  assumes "unat port \<le> 63486" and "length entries < 2046"
  shows "\<exists>c \<in> set (port_candidates port). c \<notin> set (reserved_ports e port) \<and> c \<notin> snd ` set entries"
proof (rule ccontr)
  assume "\<not> ?thesis"
  then have "set (port_candidates port) \<subseteq> set (reserved_ports e port) \<union> snd ` set entries" by blast
  then have "card (set (port_candidates port)) \<le> card (set (reserved_ports e port) \<union> snd ` set entries)"
    by (intro card_mono) simp_all
  also have "\<dots> \<le> card (set (reserved_ports e port)) + card (snd ` set entries)" by (rule card_Un_le)
  also have "card (set (reserved_ports e port)) \<le> 2"
    using card_length [of "reserved_ports e port"] by (simp add: reserved_ports_def Let_def split: if_splits)
  also have "card (snd ` set entries) \<le> length entries"
    using card_length [of "map snd entries"] by simp
  finally show False using assms(2) port_candidates_ports [OF assms(1)] by (simp add: distinct_card INSTANCE_PORT_SPAN_def)
qed

lemma first_alloc:
  assumes "unat port \<le> 63486" and "n \<noteq> ascii ''default''"
  shows "\<exists>p. fst (instance_port e True port n NoFile) = Inr p"
proof -
  have "find (\<lambda>c. c \<notin> set (reserved_ports e port)) (port_candidates port) \<noteq> None"
    using free_port_exists [OF assms(1), of "[]" e] by (auto simp: find_None_iff)
  with assms(2) show ?thesis by (auto simp: instance_port_def write_instance_ports_def)
qed

section \<open>Properties of the port table\<close>


definition no_env :: cli_env where
  "no_env = (\<lambda>_. None)"

lemma sanitize_ab: "sanitize_id (ascii ''a.b'') = ascii ''a-b''" "sanitize_id (ascii ''c'') = ascii ''c''"
  by (simp_all add: sanitize_id_def ascii_def trim_dashes_def dash_def is_alnum_def)


text \<open>
  A new instance gets the least free port: with a base port up to 63486 and fewer than 2046 instances
  an allocation finds a port in the 2048 after the base port and the control port's neighbourhood,
  never one that is reserved or taken, and every smaller one of the range is.
\<close>
theorem instance_port_least_free:
  assumes "read_instance_ports disk = Inr entries" and "inst \<notin> fst ` set entries" and "inst \<noteq> ascii ''default''"
    and "unat port \<le> 63486" and "length entries < 2046"
  shows "\<exists>c. instance_port e True port inst disk = (Inr c, TextFile (concat (map port_line (entries @ [(inst, c)]))))
    \<and> max (unat port + 2) 1024 \<le> unat c \<and> unat c < max (unat port + 2) 1024 + 2048
    \<and> c \<notin> set (reserved_ports e port) \<union> snd ` set entries
    \<and> (\<forall>d. max (unat port + 2) 1024 \<le> unat d \<and> unat d < unat c \<longrightarrow> d \<in> set (reserved_ports e port) \<union> snd ` set entries)"
proof -
  let ?free = "\<lambda>c. c \<notin> set (reserved_ports e port) \<and> c \<notin> snd ` set entries"
  note cand = port_candidates_ports [OF assms(4)]
  from free_port_exists [OF assms(4,5), of e] obtain c where c: "find ?free (port_candidates port) = Some c"
    by (cases "find ?free (port_candidates port)") (auto simp: find_None_iff)
  then obtain i where i: "i < length (port_candidates port)" "?free c" "c = port_candidates port ! i"
      "\<forall>j<i. \<not> ?free (port_candidates port ! j)" by (auto simp: find_Some_iff)
  have unat_c: "unat c = max (unat port + 2) 1024 + i" using i(1,3) cand by (simp add: INSTANCE_PORT_OFFSET_def)
  have "d \<in> set (reserved_ports e port) \<union> snd ` set entries" if "max (unat port + 2) 1024 \<le> unat d" "unat d < unat c" for d
  proof -
    define j where "j = unat d - max (unat port + 2) 1024"
    have "j < i" "unat (port_candidates port ! j) = unat d"
      using that unat_c i(1) cand by (auto simp: j_def INSTANCE_PORT_OFFSET_def)
    then have "port_candidates port ! j = d" by (simp add: word_unat_eq_iff)
    with i(4) \<open>j < i\<close> show ?thesis by blast
  qed
  moreover have "find (\<lambda>(name, _). name = inst) entries = None" using assms(2) by (force simp: find_None_iff)
  ultimately show ?thesis using c i(1,2) unat_c assms(1,3) cand(2)
    by (intro exI [of _ c]) (auto simp: instance_port_def write_instance_ports_def INSTANCE_PORT_SPAN_def)
qed

theorem instance_port_least_free_witness:
  "\<exists>c. fst (instance_port no_env True 5709 (ascii ''c'') NoFile) = Inr c \<and> 5711 \<le> unat c"
  using instance_port_least_free [of NoFile "[]" "ascii ''c''" 5709 no_env] by (auto simp: ascii_def)

text \<open>
  An application whose id has no ASCII letter or digit blocks all later allocations: its instance
  has an empty name, its line in the file has no name, and every later command for a
  named instance, also one that has a port, fails on that line.
\<close>
theorem nameless_app_blocks_allocation:
  assumes "table_ok disk entries" and "sanitize_id app = []" and "fst (instance_port e True port (sanitize_id app) disk) = Inr p"
    and "inst \<noteq> ascii ''default''"
  shows "instance_port e' ok port' inst (snd (instance_port e True port (sanitize_id app) disk))
    = (Inl (MissingPort (Suc (length entries))), snd (instance_port e True port (sanitize_id app) disk))"
proof -
  have rd: "read_instance_ports disk = Inr entries" and good: "list_all good_name (map fst entries)"
    using assms(1) by (auto simp: table_ok_def)
  then have "find (\<lambda>(name, _). name = []) entries = None" by (auto simp: find_None_iff list_all_iff)
  then obtain c where "snd (instance_port e True port [] disk) = TextFile (concat (map port_line entries) @ port_line ([], c))"
    using assms(2,3) by (auto simp: instance_port_def rd write_instance_ports_def ascii_def split: option.splits)
  moreover have "parse_port_lines 0 (lines_from [] (concat (map port_line entries) @ port_line ([], c))) = Inl (MissingPort (Suc (length entries)))"
    using ports_parsed [OF good, of 0 "port_line ([], c)"] nameless_line [of "length entries" c] by simp
  ultimately show ?thesis using assms(2,4) by (simp add: instance_port_def)
qed

theorem nameless_app_blocks_allocation_witness:
  "fst (instance_port no_env True 5710 (ascii ''c'') (snd (instance_port no_env True 5710 (sanitize_id [0xD55C]) NoFile))) = Inl (MissingPort 1)"
proof -
  have none: "sanitize_id [0xD55C] = []" by (simp add: sanitize_id_def trim_dashes_def is_alnum_def dash_def)
  obtain p where p: "fst (instance_port no_env True 5710 (sanitize_id [0xD55C]) NoFile) = Inr p"
    using first_alloc [of 5710 "[]" no_env] by (auto simp: none ascii_def)
  from nameless_app_blocks_allocation [OF table_start none p, of "ascii ''c''" no_env True 5710] show ?thesis by (simp add: ascii_def)
qed

section \<open>From a launcher to its window\<close>

lemma single_line_stdout:
  assumes "0x0A \<notin> set l" and "l \<noteq> []" and "\<not> is_whitespace (hd l)" and "\<not> is_whitespace (last l)"
  shows "find (\<lambda>s. s \<noteq> []) (rev (map str_trim (lines_from [] (l @ [0x0A])))) = Some l"
proof -
  have "last l \<noteq> 0x0D" using assms(4) newline_space by metis
  then have "lines_from [] (l @ [0x0A]) = [l]" using lines_from_line [OF assms(1), of "[]" "[]"] by (simp add: strip_cr_id)
  with trim_outer(1) [OF assms(2-4)] assms(2) show ?thesis by simp
qed

lemma summary_understood:
  assumes "solid (ac_socket ctx)"
  shows "parse_prepare_app_stdout json (summary_line ctx) = Inr \<lparr>pi_port = ac_port ctx, pi_socket = ac_socket ctx,
    pi_width = ac_width ctx, pi_height = ac_height ctx, pi_transport = command_transport_tcp\<rparr>"
proof -
  define p w h where "p = dec_digits (unat (ac_port ctx))" and "w = dec_digits (unat (ac_width ctx))" and "h = dec_digits (unat (ac_height ctx))"
  have solids: "solid p" "solid w" "solid h" unfolding p_def w_def h_def by (rule digits_solid)+
  define l where "l = p @ 0x20 # ac_socket ctx @ 0x20 # w @ 0x20 # h"
  have line: "summary_line ctx = l @ [0x0A]" by (simp add: summary_line_def l_def p_def w_def h_def)
  have "0x0A \<notin> set l" using solid_no_newline solids assms by (auto simp: l_def)
  moreover have "hd l \<in> set p" "last l \<in> set h" "l \<noteq> []" using solids by (auto simp: l_def)
  ultimately have "find (\<lambda>s. s \<noteq> []) (rev (map str_trim (lines_from [] (summary_line ctx)))) = Some l"
    unfolding line using solids by (intro single_line_stdout) (auto simp: list_all_iff)
  moreover have "split_whitespace l = [p, ac_socket ctx, w, h]"
    unfolding l_def using solids assms newline_space by (simp add: split_solid_Cons)
  moreover have "hd l \<noteq> 0x7B" using \<open>hd l \<in> set p\<close> dec_digits_chars [of "hd l" "unat (ac_port ctx)"] by (auto simp: p_def)
  ultimately show ?thesis by (simp add: parse_prepare_app_stdout_def p_def w_def h_def)
qed

definition bundle_of :: "AppContext \<Rightarrow> PrepareAppBundle" where
  "bundle_of ctx = \<lparr>pb_version = 1, pb_port = ac_port ctx, pb_socket = ac_socket ctx, pb_width = ac_width ctx,
     pb_height = ac_height ctx, pb_data_plane = Some \<lparr>dp_mode = ascii ''tcp-only'', dp_quic_addr = None,
       dp_session_token = None, dp_quic_server_cert_sha256 = None\<rparr>\<rparr>"

lemma bundle_understood:
  assumes "solid (ac_socket ctx)" and "json (bundle_json ctx) = Some (bundle_of ctx)"
  shows "parse_prepare_app_stdout json (bundle_json ctx @ [0x0A]) = Inr \<lparr>pi_port = ac_port ctx, pi_socket = ac_socket ctx,
    pi_width = ac_width ctx, pi_height = ac_height ctx, pi_transport = command_transport_tcp\<rparr>"
proof -
  define l where "l = bundle_json ctx"
  have digits: "0x0A \<notin> set (dec_digits n)" for n using dec_digits_chars [of 10 n] by auto
  have "0x0A \<notin> set l" using solid_no_newline [of "ac_socket ctx"] assms(1) digits by (auto simp: l_def bundle_json_def ascii_def)
  moreover have ends: "hd l = 0x7B" "last l = 0x7D" "l \<noteq> []" by (simp_all add: l_def bundle_json_def ascii_def)
  ultimately have "find (\<lambda>s. s \<noteq> []) (rev (map str_trim (lines_from [] (l @ [0x0A])))) = Some l"
    by (intro single_line_stdout) (simp_all add: is_whitespace_def)
  with assms(2) ends show ?thesis unfolding l_def
    by (simp add: parse_prepare_app_stdout_def parse_prepare_app_bundle_def bundle_of_def prepare_app_transport_def)
qed

abbreviation trimmed :: "ustring \<Rightarrow> bool" where
  "trimmed s \<equiv> s \<noteq> [] \<and> \<not> is_whitespace (hd s) \<and> \<not> is_whitespace (last s)"

lemma read_written:
  assumes "map_of resources name = Some (with_newline v)" and "trimmed v"
  shows "read_resource resources name = Some v"
  using assms trim_outer(2) [of v] by (simp add: read_resource_def with_newline_def)

lemma launcher_files:
  "map_of (launcher_resources ctx app_ctx row) (ascii ''AppID.txt'') = Some (with_newline (ar_id row))"
  "map_of (launcher_resources ctx app_ctx row) (ascii ''VBoxNativePath.txt'') = Some (with_newline (ac_cli_path ctx))"
  "map_of (launcher_resources ctx app_ctx row) (ascii ''Instance.txt'') = Some (with_newline (sanitize_id (ar_id row)))"
  "map_of (launcher_resources ctx app_ctx row) (ascii ''Port.txt'') = Some (with_newline (dec_digits (unat (ac_port app_ctx))))"
  "map_of (launcher_resources ctx app_ctx row) (ascii ''Width.txt'') = Some (with_newline (dec_digits (unat (ac_width ctx))))"
  "map_of (launcher_resources ctx app_ctx row) (ascii ''Height.txt'') = Some (with_newline (dec_digits (unat (ac_height ctx))))"
  by (simp_all add: launcher_resources_def ascii_def)

lemma digits_trimmed: "trimmed (dec_digits n)"
  using digits_solid [of n] solid_ends [of "dec_digits n"] by blast

lemma command_env_lookup:
  "map_of (bundle_command_env res) (ascii ''VBOX_PORT'') = read_resource res (ascii ''Port.txt'')"
  "map_of (bundle_command_env res) (ascii ''VBOX_WIDTH'') = read_resource res (ascii ''Width.txt'')"
  "map_of (bundle_command_env res) (ascii ''VBOX_HEIGHT'') = read_resource res (ascii ''Height.txt'')"
  "map_of (bundle_command_env res) (ascii ''VBOX_SOCKET'') = None"
proof -
  have step: "map_of (List.map_filter (\<lambda>(f, k). map_option (Pair k) (read_resource res f)) ((f, k) # fs)) key =
      (if k = key then (case read_resource res f of Some v \<Rightarrow> Some v
         | None \<Rightarrow> map_of (List.map_filter (\<lambda>(f, k). map_option (Pair k) (read_resource res f)) fs) key)
       else map_of (List.map_filter (\<lambda>(f, k). map_option (Pair k) (read_resource res f)) fs) key)" for f k fs key
    by (simp add: map_filter_simps split: option.splits)
  show "map_of (bundle_command_env res) (ascii ''VBOX_PORT'') = read_resource res (ascii ''Port.txt'')"
    "map_of (bundle_command_env res) (ascii ''VBOX_WIDTH'') = read_resource res (ascii ''Width.txt'')"
    "map_of (bundle_command_env res) (ascii ''VBOX_HEIGHT'') = read_resource res (ascii ''Height.txt'')"
    "map_of (bundle_command_env res) (ascii ''VBOX_SOCKET'') = None"
    unfolding bundle_command_env_def step by (simp_all add: ascii_def map_filter_simps split: option.splits)
qed

text \<open>The environment and the options of the helper commands a launcher runs.\<close>

definition helper_env :: "BundleLaunchArgs \<Rightarrow> cli_env \<Rightarrow> cli_env" where
  "helper_env args e = (\<lambda>k. or_else (map_of (bl_command_env args) k) (e k))"

definition helper_options :: "BundleLaunchArgs \<Rightarrow> GlobalOptions" where
  "helper_options args = \<lparr>go_guest = None, go_guest_dir = None, go_instance = Some (bl_instance args), go_port = None,
     go_socket = None, go_width = None, go_height = None, go_debug = False, go_no_build = True\<rparr>"

lemma launcher_args:
  assumes "trimmed (ar_id row)" and "trimmed (ac_cli_path ctx)" and "sanitize_id (ar_id row) \<noteq> []"
  shows "\<exists>args. bundle_launch_args (launcher_resources ctx app_ctx row) = Some args \<and> bl_app_id args = ar_id row
    \<and> bl_instance args = sanitize_id (ar_id row) \<and> bl_command_env args = bundle_command_env (launcher_resources ctx app_ctx row)"
proof -
  have "trimmed (sanitize_id (ar_id row))"
    using good_sanitized [OF assms(3)] solid_ends [of "sanitize_id (ar_id row)"] by blast
  note read = read_written [OF launcher_files(1) assms(1)] read_written [OF launcher_files(2) assms(2)]
    read_written [OF launcher_files(3) this]
  show ?thesis using assms(1,2) by (simp add: bundle_launch_args_def read)
qed

lemma helper_context:
  assumes "bl_instance args = inst" and "bl_command_env args = bundle_command_env (launcher_resources ctx app_ctx row)"
    and "e (ascii ''VBOX_SOCKET'') = None" and "hctx = from_globals (helper_env args e) rootdir exe (helper_options args)"
  shows "ac_port hctx = ac_port app_ctx" and "ac_width hctx = ac_width ctx" and "ac_height hctx = ac_height ctx"
    and "ac_socket hctx = instance_socket inst"
proof -
  note read = read_written [OF launcher_files(4) digits_trimmed] read_written [OF launcher_files(5) digits_trimmed]
    read_written [OF launcher_files(6) digits_trimmed]
  show "ac_port hctx = ac_port app_ctx" "ac_width hctx = ac_width ctx" "ac_height hctx = ac_height ctx" "ac_socket hctx = instance_socket inst"
    unfolding assms(4) from_globals_def helper_env_def helper_options_def Let_def assms(2)
    by (simp_all add: command_env_lookup read assms(1,3))
qed

lemma vbox_socket_solid: "list_all safe_char n \<Longrightarrow> solid (ascii ''vbox-'' @ n)"
  using safe_solid(1) by (auto simp: list_all_iff ascii_def) (auto simp: is_whitespace_def)


definition spaced_row :: AppRecord where
  "spaced_row = \<lparr>ar_id = ascii ''A - B'', ar_name = ascii ''n'', ar_exec = ascii ''x'', ar_icon = [], ar_argv_b64 = [],
     ar_argv = [ascii ''x'']\<rparr>"

definition spaced_cache :: ustring where
  "spaced_cache = ascii ''A - B'' @ [9] @ ascii ''n'' @ [9] @ ascii ''x'' @ [9, 9, 9, 9, 10]"

lemma spaced_row_found: "find_app_record (\<lambda>_. None) (Some spaced_cache) None (ar_id spaced_row) = Inr spaced_row"
  by (simp add: find_app_record_def read_app_cache_def spaced_cache_def spaced_row_def ascii_def strip_cr_def map_filter_simps
      app_row_def selected_def contains_def to_ascii_lowercase_def starts_with_def upt_rec)

lemma spaced_row_safe: "sanitize_id (ar_id spaced_row) = ascii ''A---B''" "double_dash (ascii ''A---B'')"
  by (simp_all add: spaced_row_def sanitize_id_def trim_dashes_def is_alnum_def dash_def ascii_def)


end
