(* ===== verification/Cli_Machines.thy ===== *)
theory Cli_Machines
  imports Cli_Context
begin

text \<open>
  Remote hosts, machines and ssh in the command line tool (\<open>crates/vbox-cli/src/remote.rs\<close>,
  \<open>machines/mod.rs\<close>, \<open>machines/kind.rs\<close>, \<open>machines/password.rs\<close>, \<open>ssh.rs\<close>). The two JSON files are
  their parsed contents, the keychain is a map from accounts to passwords, and what \<open>prlctl\<close> answers
  is an argument. How a POSIX shell splits and unquotes a command is stated as a specification,
  against which the quoted commands are checked.
\<close>

section \<open>State\<close>

datatype 'a json_file = JMissing | JUnreadable | JGarbage | JData 'a

fun load_json :: "'a \<Rightarrow> 'a json_file \<Rightarrow> unit + 'a" where
  "load_json d JMissing = Inr d"
| "load_json d JUnreadable = Inl ()"
| "load_json d JGarbage = Inr d"
| "load_json d (JData x) = Inr x"

datatype JsonValue = JNull | JBool bool | JNumber int | JString ustring | JArray "JsonValue list" | JObject "(ustring \<times> JsonValue) list"

fun as_str :: "JsonValue \<Rightarrow> ustring option" where
  "as_str (JString s) = Some s"
| "as_str _ = None"

fun as_bool :: "JsonValue \<Rightarrow> bool option" where
  "as_bool (JBool b) = Some b"
| "as_bool _ = None"

fun as_object :: "JsonValue \<Rightarrow> (ustring \<times> JsonValue) list option" where
  "as_object (JObject kvs) = Some kvs"
| "as_object _ = None"

fun as_array :: "JsonValue \<Rightarrow> JsonValue list option" where
  "as_array (JArray vs) = Some vs"
| "as_array _ = None"

definition get_field :: "ustring \<Rightarrow> JsonValue \<Rightarrow> JsonValue option" where
  "get_field key v = Option.bind (as_object v) (\<lambda>kvs. map_of kvs key)"

definition get_str :: "ustring \<Rightarrow> JsonValue \<Rightarrow> ustring option" where
  "get_str key v = Option.bind (get_field key v) as_str"

definition non_empty :: "ustring option \<Rightarrow> ustring option" where
  "non_empty s = (if s = Some [] then None else s)"

record RemoteHost =
  rh_name :: ustring
  rh_ssh :: ustring
  rh_guest_dir :: ustring
  rh_os_kind :: ustring
  rh_os_raw :: ustring
  rh_added_at :: ustring
  rh_identity_file :: ustring
  rh_has_password :: bool

record RemoteRecord =
  rr_id :: ustring
  rr_name :: ustring
  rr_ssh_user :: ustring
  rr_ssh_host :: ustring
  rr_guest_dir :: ustring
  rr_os_raw :: ustring
  rr_os_kind :: ustring
  rr_identity_file :: ustring
  rr_has_password :: bool

record AddRemoteInput =
  ari_name :: ustring
  ari_ssh :: ustring
  ari_guest_dir :: "ustring option"
  ari_os_kind :: ustring
  ari_os_raw :: ustring
  ari_identity_file :: "ustring option"
  ari_password_stdin :: bool

type_synonym overrides = "(ustring \<times> JsonValue) list"

record machine_store =
  ms_hosts :: "RemoteHost list json_file"
  ms_overrides :: "overrides json_file"
  ms_keychain :: "ustring \<Rightarrow> ustring option"

datatype machine_error =
    NameRequired
  | SshMustBeUserAtHost
  | GuestDirMissing
  | StdinUnreadable
  | KeychainFailed
  | LoadFailed
  | SaveFailed
  | NoSuchRemote ustring
  | MachineNotFound ustring
  | UnsupportedKey ustring
  | OverrideNotObject
  | NoDefaultUser
  | StopFirst ustring
  | PrlctlFailed ustring
  | RemoteNotControllable ustring

section \<open>Remote hosts\<close>

fun remote_chars :: "ustring \<Rightarrow> ustring \<Rightarrow> ustring" where
  "remote_chars out [] = out"
| "remote_chars out (ch # rest) =
     (if is_alnum ch \<or> ch \<in> {0x2E, 0x5F, 0x2D} then remote_chars (out @ [ch]) rest
      else if out = [] \<or> last out \<noteq> 0x5F then remote_chars (out @ [0x5F]) rest
      else remote_chars out rest)"

definition trim_underscores :: "ustring \<Rightarrow> ustring" where
  "trim_underscores s = rev (dropWhile ((=) 0x5F) (rev (dropWhile ((=) 0x5F) s)))"

definition remote_sanitize_id :: "ustring \<Rightarrow> ustring" where
  "remote_sanitize_id value =
     (let out = trim_underscores (remote_chars [] (to_ascii_lowercase value)) in if out = [] then ascii ''host'' else out)"

definition keychain_account :: "ustring \<Rightarrow> ustring" where
  "keychain_account name = ascii ''remote:'' @ remote_sanitize_id name"

text \<open>\<open>str::split_once\<close> at a character.\<close>

fun split_once :: "uchar \<Rightarrow> ustring \<Rightarrow> (ustring \<times> ustring) option" where
  "split_once sep [] = None"
| "split_once sep (c # cs) = (if c = sep then Some ([], cs) else map_option (\<lambda>(a, b). (c # a, b)) (split_once sep cs))"

definition remote_record :: "RemoteHost \<Rightarrow> RemoteRecord option" where
  "remote_record host =
     (case split_once 0x40 (rh_ssh host) of
        None \<Rightarrow> None
      | Some (user, ssh_host) \<Rightarrow>
          Some \<lparr>rr_id = ascii ''remote:'' @ remote_sanitize_id (rh_name host), rr_name = rh_name host, rr_ssh_user = user,
            rr_ssh_host = ssh_host, rr_guest_dir = rh_guest_dir host, rr_os_raw = rh_os_raw host,
            rr_os_kind = rh_os_kind host, rr_identity_file = rh_identity_file host, rr_has_password = rh_has_password host\<rparr>)"

definition remote_records :: "machine_store \<Rightarrow> machine_error + RemoteRecord list" where
  "remote_records st =
     (case load_json [] (ms_hosts st) of
        Inl _ \<Rightarrow> Inl LoadFailed
      | Inr hosts \<Rightarrow> Inr (List.map_filter remote_record hosts))"

definition remote_target :: "RemoteRecord \<Rightarrow> ustring" where
  "remote_target row = rr_ssh_user row @ [0x40] @ rr_ssh_host row"

definition remote_find_by_ssh_target :: "machine_store \<Rightarrow> ustring \<Rightarrow> machine_error + RemoteRecord option" where
  "remote_find_by_ssh_target st ssh =
     (case remote_records st of Inl e \<Rightarrow> Inl e | Inr rows \<Rightarrow> Inr (find (\<lambda>row. remote_target row = ssh) rows))"

definition save_hosts :: "bool \<Rightarrow> RemoteHost list \<Rightarrow> machine_store \<Rightarrow> (machine_error + unit) \<times> machine_store" where
  "save_hosts ok hosts st = (if ok then (Inr (), st\<lparr>ms_hosts := JData hosts\<rparr>) else (Inl SaveFailed, st))"

definition delete_password :: "ustring \<Rightarrow> machine_store \<Rightarrow> machine_store" where
  "delete_password account st = st\<lparr>ms_keychain := (ms_keychain st)(account := None)\<rparr>"

definition set_password :: "bool \<Rightarrow> ustring \<Rightarrow> ustring \<Rightarrow> machine_store \<Rightarrow> (machine_error + unit) \<times> machine_store" where
  "set_password ok account password st =
     (if ok then (Inr (), st\<lparr>ms_keychain := (ms_keychain st)(account := Some password)\<rparr>) else (Inl KeychainFailed, st))"

definition read_password_stdin :: "ustring \<Rightarrow> ustring" where
  "read_password_stdin buf = rev (dropWhile (\<lambda>c. c = 0x0D \<or> c = 0x0A) (rev buf))"

text \<open>\<open>kc\<close> and \<open>ok\<close> say whether the keychain and the file take the write; \<open>stdin\<close> is the text on standard input.\<close>

definition add_cmd ::
  "bool \<Rightarrow> bool \<Rightarrow> ustring option \<Rightarrow> ustring \<Rightarrow> ustring option \<Rightarrow> AddRemoteInput \<Rightarrow> machine_store
     \<Rightarrow> (machine_error + unit) \<times> machine_store" where
  "add_cmd kc ok stdin now ctx_dir input st =
     (let name = ari_name input; account = keychain_account name in
      if str_trim name = [] then (Inl NameRequired, st)
      else if 0x40 \<notin> set (ari_ssh input) then (Inl SshMustBeUserAtHost, st)
      else
        (case or_else (ari_guest_dir input) ctx_dir of
           None \<Rightarrow> (Inl GuestDirMissing, st)
         | Some dir \<Rightarrow>
             (case (if ari_password_stdin input then (case stdin of None \<Rightarrow> Inl StdinUnreadable | Some b \<Rightarrow> Inr (Some (read_password_stdin b)))
                    else Inr None) of
                Inl e \<Rightarrow> (Inl e, st)
              | Inr password \<Rightarrow>
                  (case (if password \<noteq> None \<and> password \<noteq> Some [] then set_password kc account (the password) st
                         else (Inr (), delete_password account st)) of
                     (Inl e, st1) \<Rightarrow> (Inl e, st1)
                   | (Inr _, st1) \<Rightarrow>
                       (case load_json [] (ms_hosts st1) of
                          Inl _ \<Rightarrow> (Inl LoadFailed, st1)
                        | Inr hosts \<Rightarrow>
                            save_hosts ok
                              (filter (\<lambda>h. rh_name h \<noteq> name) hosts
                               @ [\<lparr>rh_name = name, rh_ssh = ari_ssh input, rh_guest_dir = dir, rh_os_kind = ari_os_kind input,
                                   rh_os_raw = ari_os_raw input, rh_added_at = now,
                                   rh_identity_file = unwrap_or (ari_identity_file input) [],
                                   rh_has_password = (password \<noteq> None \<and> password \<noteq> Some [])\<rparr>])
                              st1)))))"

definition remove_name :: "bool \<Rightarrow> ustring \<Rightarrow> machine_store \<Rightarrow> (machine_error + bool) \<times> machine_store" where
  "remove_name ok name st =
     (case load_json [] (ms_hosts st) of
        Inl _ \<Rightarrow> (Inl LoadFailed, st)
      | Inr hosts \<Rightarrow>
          (let removed = filter (\<lambda>h. rh_name h = name) hosts; kept = filter (\<lambda>h. rh_name h \<noteq> name) hosts in
           case save_hosts ok kept st of
             (Inl e, st1) \<Rightarrow> (Inl e, st1)
           | (Inr _, st1) \<Rightarrow>
               (Inr (length kept \<noteq> length hosts),
                fold (\<lambda>h s. if rh_has_password h then delete_password (keychain_account (rh_name h)) s else s) removed st1)))"

definition remove_cmd :: "bool \<Rightarrow> ustring \<Rightarrow> machine_store \<Rightarrow> (machine_error + unit) \<times> machine_store" where
  "remove_cmd ok name st =
     (case remove_name ok name st of
        (Inl e, st1) \<Rightarrow> (Inl e, st1)
      | (Inr True, st1) \<Rightarrow> (Inr (), st1)
      | (Inr False, st1) \<Rightarrow> (Inl (NoSuchRemote name), st1))"

definition set_has_password :: "bool \<Rightarrow> ustring \<Rightarrow> bool \<Rightarrow> machine_store \<Rightarrow> (machine_error + unit) \<times> machine_store" where
  "set_has_password ok name present st =
     (case load_json [] (ms_hosts st) of
        Inl _ \<Rightarrow> (Inl LoadFailed, st)
      | Inr hosts \<Rightarrow>
          if name \<notin> rh_name ` set hosts then (Inl (NoSuchRemote name), st)
          else save_hosts ok (map (\<lambda>h. if rh_name h = name then h\<lparr>rh_has_password := present\<rparr> else h) hosts) st)"

section \<open>Machines\<close>

record MachineRecord =
  mr_uuid :: ustring
  mr_name :: ustring
  mr_status :: ustring
  mr_ip :: ustring
  mr_os_raw :: ustring
  mr_os_kind :: ustring
  mr_ssh_user :: ustring
  mr_ssh_host :: ustring
  mr_guest_dir :: ustring
  mr_identity_file :: ustring
  mr_has_password :: bool

text \<open>
  What the process is told from outside: the parsed answers of \<open>prlctl list\<close> and \<open>prlctl list --info\<close>
  (the empty array when the program fails), the login name, and guest and guest directory of the context.
\<close>

record machine_env =
  me_list :: JsonValue
  me_info :: "ustring \<Rightarrow> JsonValue"
  me_host_user :: "ustring option"
  me_guest :: "ustring option"
  me_guest_dir :: "ustring option"

datatype MachineKind = Parallels ustring | Remote ustring

definition from_record :: "MachineRecord \<Rightarrow> MachineKind" where
  "from_record r = (if starts_with (mr_uuid r) (ascii ''remote:'') then Remote (mr_name r) else Parallels (mr_uuid r))"

fun kind_keychain_account :: "MachineKind \<Rightarrow> ustring" where
  "kind_keychain_account (Remote name) = keychain_account name"
| "kind_keychain_account (Parallels uuid) = ascii ''parallels:'' @ uuid"

definition any_in :: "string list \<Rightarrow> ustring \<Rightarrow> bool" where
  "any_in needles hay \<longleftrightarrow> list_ex (\<lambda>n. contains hay (ascii n)) needles"

definition classify_os :: "ustring \<Rightarrow> ustring \<Rightarrow> ustring" where
  "classify_os os_raw name =
     (let hay = to_ascii_lowercase (os_raw @ [0x20] @ name) in
      if any_in [''windows'', ''win-'', ''win10'', ''win11''] hay then ascii ''windows''
      else if any_in [''macos'', ''darwin'', ''osx''] hay then ascii ''macos''
      else if any_in [''fedora'', ''ubuntu'', ''debian'', ''linux'', ''centos'', ''rhel'', ''arch'', ''suse'', ''mint''] hay
        then ascii ''linux''
      else ascii ''unknown'')"

definition default_user :: "machine_env \<Rightarrow> machine_error + ustring" where
  "default_user env =
     (case Option.bind (me_guest env) (split_once 0x40) of
        Some (user, _) \<Rightarrow>
          if user \<noteq> [] then Inr user else (case me_host_user env of Some u \<Rightarrow> Inr u | None \<Rightarrow> Inl NoDefaultUser)
      | None \<Rightarrow> (case me_host_user env of Some u \<Rightarrow> Inr u | None \<Rightarrow> Inl NoDefaultUser))"

definition default_guest_dir :: "machine_env \<Rightarrow> ustring \<Rightarrow> ustring" where
  "default_guest_dir env user = unwrap_or (non_empty (me_guest_dir env)) (ascii ''/home/'' @ user @ ascii ''/vbox'')"

definition trim_braces :: "ustring \<Rightarrow> ustring" where
  "trim_braces s = rev (dropWhile (\<lambda>c. c = 0x7B \<or> c = 0x7D) (rev (dropWhile (\<lambda>c. c = 0x7B \<or> c = 0x7D) s)))"

definition override_str :: "JsonValue option \<Rightarrow> ustring \<Rightarrow> ustring option" where
  "override_str ov key = Option.bind ov (get_str key)"

text \<open>One machine of the list; \<open>None\<close> where the loop continues.\<close>

definition machine_row :: "machine_env \<Rightarrow> overrides \<Rightarrow> ustring \<Rightarrow> JsonValue \<Rightarrow> MachineRecord option" where
  "machine_row env overrides user machine =
     (let braced = unwrap_or (get_str (ascii ''uuid'') machine) []; uuid = trim_braces braced in
      if uuid = [] then None
      else
        (let name = unwrap_or (get_str (ascii ''name'') machine) [];
             ip = unwrap_or (non_empty (get_str (ascii ''ip_configured'') machine)) (ascii ''-'');
             info = me_info env braced;
             info_obj = (case as_array info of Some (i # _) \<Rightarrow> i | _ \<Rightarrow> info);
             os_raw = unwrap_or (get_str (ascii ''OS'') info_obj) [];
             ov = map_of overrides uuid;
             default_ssh_host = (if ip = ascii ''-'' then [] else ip)
         in Some \<lparr>mr_uuid = uuid, mr_name = name, mr_status = unwrap_or (get_str (ascii ''status'') machine) [], mr_ip = ip,
              mr_os_raw = os_raw, mr_os_kind = classify_os os_raw name,
              mr_ssh_user = unwrap_or (override_str ov (ascii ''ssh_user'')) user,
              mr_ssh_host = unwrap_or (non_empty (override_str ov (ascii ''ssh_host''))) default_ssh_host,
              mr_guest_dir = unwrap_or (non_empty (override_str ov (ascii ''guest_dir''))) (default_guest_dir env user),
              mr_identity_file = unwrap_or (override_str ov (ascii ''identity_file'')) [],
              mr_has_password = unwrap_or (Option.bind (Option.bind ov (get_field (ascii ''has_password''))) as_bool) False\<rparr>))"

definition remote_machine :: "RemoteRecord \<Rightarrow> MachineRecord" where
  "remote_machine row =
     \<lparr>mr_uuid = rr_id row, mr_name = rr_name row, mr_status = ascii ''remote'',
      mr_ip = (if rr_ssh_host row = [] then ascii ''-'' else rr_ssh_host row), mr_os_raw = rr_os_raw row,
      mr_os_kind = rr_os_kind row, mr_ssh_user = rr_ssh_user row, mr_ssh_host = rr_ssh_host row,
      mr_guest_dir = rr_guest_dir row, mr_identity_file = rr_identity_file row, mr_has_password = rr_has_password row\<rparr>"

definition load_overrides :: "machine_store \<Rightarrow> machine_error + overrides" where
  "load_overrides st = (case load_json [] (ms_overrides st) of Inl _ \<Rightarrow> Inl LoadFailed | Inr ov \<Rightarrow> Inr ov)"

definition save_overrides :: "bool \<Rightarrow> overrides \<Rightarrow> machine_store \<Rightarrow> (machine_error + unit) \<times> machine_store" where
  "save_overrides ok ov st = (if ok then (Inr (), st\<lparr>ms_overrides := JData ov\<rparr>) else (Inl SaveFailed, st))"

definition machine_records :: "machine_env \<Rightarrow> machine_store \<Rightarrow> machine_error + MachineRecord list" where
  "machine_records env st =
     (case load_overrides st of
        Inl e \<Rightarrow> Inl e
      | Inr ov \<Rightarrow>
          (case default_user env of
             Inl e \<Rightarrow> Inl e
           | Inr user \<Rightarrow>
               (case remote_records st of
                  Inl e \<Rightarrow> Inl e
                | Inr remotes \<Rightarrow>
                    Inr (List.map_filter (machine_row env ov user) (unwrap_or (as_array (me_list env)) []) @ map remote_machine remotes))))"

definition find_one :: "machine_env \<Rightarrow> machine_store \<Rightarrow> ustring \<Rightarrow> machine_error + MachineRecord" where
  "find_one env st target =
     (case machine_records env st of
        Inl e \<Rightarrow> Inl e
      | Inr rows \<Rightarrow>
          (case find (\<lambda>r. mr_uuid r = target \<or> mr_name r = target) rows of
             None \<Rightarrow> Inl (MachineNotFound target)
           | Some r \<Rightarrow> Inr r))"

definition machine_target :: "MachineRecord \<Rightarrow> ustring" where
  "machine_target r = mr_ssh_user r @ [0x40] @ mr_ssh_host r"

definition machine_find_by_ssh_target :: "machine_env \<Rightarrow> machine_store \<Rightarrow> ustring \<Rightarrow> machine_error + MachineRecord option" where
  "machine_find_by_ssh_target env st ssh =
     (case machine_records env st of Inl e \<Rightarrow> Inl e | Inr rows \<Rightarrow> Inr (find (\<lambda>r. machine_target r = ssh) rows))"

definition CONFIG_KEYS :: "ustring list" where
  "CONFIG_KEYS = map ascii [''ssh_user'', ''ssh_host'', ''ssh_port'', ''identity_file'', ''guest_dir'', ''port'', ''socket'',
     ''width'', ''height'', ''debug'', ''tls'', ''notes'', ''password'']"

definition validate_config_key :: "ustring \<Rightarrow> machine_error + unit" where
  "validate_config_key key = (if key \<in> set CONFIG_KEYS then Inr () else Inl (UnsupportedKey key))"

definition entry_object :: "overrides \<Rightarrow> ustring \<Rightarrow> (ustring \<times> JsonValue) list option" where
  "entry_object ov uuid = as_object (unwrap_or (map_of ov uuid) (JObject []))"

definition mark_override_password :: "bool \<Rightarrow> ustring \<Rightarrow> bool \<Rightarrow> machine_store \<Rightarrow> (machine_error + unit) \<times> machine_store" where
  "mark_override_password ok uuid present st =
     (case load_overrides st of
        Inl e \<Rightarrow> (Inl e, st)
      | Inr ov \<Rightarrow>
          (case entry_object ov uuid of
             None \<Rightarrow> (Inl OverrideNotObject, st)
           | Some kvs \<Rightarrow>
               save_overrides ok
                 (AList.update uuid
                   (JObject (if present then AList.update (ascii ''has_password'') (JBool True) kvs
                             else AList.delete (ascii ''has_password'') kvs)) ov) st))"

definition mark_has_password :: "bool \<Rightarrow> MachineKind \<Rightarrow> bool \<Rightarrow> machine_store \<Rightarrow> (machine_error + unit) \<times> machine_store" where
  "mark_has_password ok k present st =
     (case k of Remote name \<Rightarrow> set_has_password ok name present st | Parallels uuid \<Rightarrow> mark_override_password ok uuid present st)"

definition password_clear :: "bool \<Rightarrow> MachineRecord \<Rightarrow> machine_store \<Rightarrow> (machine_error + unit) \<times> machine_store" where
  "password_clear ok r st =
     mark_has_password ok (from_record r) False (delete_password (kind_keychain_account (from_record r)) st)"

definition password_set :: "bool \<Rightarrow> bool \<Rightarrow> MachineRecord \<Rightarrow> ustring \<Rightarrow> machine_store \<Rightarrow> (machine_error + unit) \<times> machine_store" where
  "password_set kc ok r password st =
     (if password = [] then password_clear ok r st
      else
        (case set_password kc (kind_keychain_account (from_record r)) password st of
           (Inl e, st1) \<Rightarrow> (Inl e, st1)
         | (Inr _, st1) \<Rightarrow> mark_has_password ok (from_record r) True st1))"

definition set_cmd ::
  "bool \<Rightarrow> bool \<Rightarrow> machine_env \<Rightarrow> ustring \<Rightarrow> ustring \<Rightarrow> ustring \<Rightarrow> machine_store \<Rightarrow> (machine_error + unit) \<times> machine_store" where
  "set_cmd kc ok env target key v st =
     (case validate_config_key key of
        Inl e \<Rightarrow> (Inl e, st)
      | Inr _ \<Rightarrow>
          (case find_one env st target of
             Inl e \<Rightarrow> (Inl e, st)
           | Inr row \<Rightarrow>
               if key = ascii ''password'' then password_set kc ok row v st
               else
                 (case load_overrides st of
                    Inl e \<Rightarrow> (Inl e, st)
                  | Inr ov \<Rightarrow>
                      (case entry_object ov (mr_uuid row) of
                         None \<Rightarrow> (Inl OverrideNotObject, st)
                       | Some kvs \<Rightarrow>
                           save_overrides ok (AList.update (mr_uuid row) (JObject (AList.update key (JString v) kvs)) ov) st))))"

definition unset_cmd ::
  "bool \<Rightarrow> machine_env \<Rightarrow> ustring \<Rightarrow> ustring \<Rightarrow> machine_store \<Rightarrow> (machine_error + unit) \<times> machine_store" where
  "unset_cmd ok env target key st =
     (case validate_config_key key of
        Inl e \<Rightarrow> (Inl e, st)
      | Inr _ \<Rightarrow>
          (case find_one env st target of
             Inl e \<Rightarrow> (Inl e, st)
           | Inr row \<Rightarrow>
               if key = ascii ''password'' then password_clear ok row st
               else
                 (case load_overrides st of
                    Inl e \<Rightarrow> (Inl e, st)
                  | Inr ov \<Rightarrow>
                      save_overrides ok
                        (case Option.bind (map_of ov (mr_uuid row)) as_object of
                           None \<Rightarrow> ov
                         | Some kvs \<Rightarrow> AList.update (mr_uuid row) (JObject (AList.delete key kvs)) ov) st)))"

definition drop_override :: "bool \<Rightarrow> ustring \<Rightarrow> machine_store \<Rightarrow> (machine_error + unit) \<times> machine_store" where
  "drop_override ok uuid st =
     (case load_overrides st of Inl e \<Rightarrow> (Inl e, st) | Inr ov \<Rightarrow> save_overrides ok (AList.delete uuid ov) st)"

text \<open>\<open>prl\<close> says whether \<open>prlctl\<close> does what it is asked for.\<close>

definition control_cmd :: "bool \<Rightarrow> machine_env \<Rightarrow> ustring \<Rightarrow> machine_store \<Rightarrow> machine_error + unit" where
  "control_cmd prl env target st =
     (case find_one env st target of
        Inl e \<Rightarrow> Inl e
      | Inr row \<Rightarrow>
          (case from_record row of
             Remote _ \<Rightarrow> Inl (RemoteNotControllable (mr_name row))
           | Parallels _ \<Rightarrow> if prl then Inr () else Inl (PrlctlFailed (mr_name row))))"

definition delete_cmd :: "bool \<Rightarrow> bool \<Rightarrow> machine_env \<Rightarrow> ustring \<Rightarrow> machine_store \<Rightarrow> (machine_error + unit) \<times> machine_store" where
  "delete_cmd prl ok env target st =
     (case find_one env st target of
        Inl e \<Rightarrow> (Inl e, st)
      | Inr row \<Rightarrow>
          (case from_record row of
             Remote _ \<Rightarrow>
               (case remove_name ok (mr_name row) st of
                  (Inl e, st1) \<Rightarrow> (Inl e, st1)
                | (Inr True, st1) \<Rightarrow> (Inr (), st1)
                | (Inr False, st1) \<Rightarrow> (Inl (NoSuchRemote (mr_name row)), st1))
           | Parallels uuid \<Rightarrow>
               if mr_status row = ascii ''running'' then (Inl (StopFirst (mr_name row)), st)
               else if \<not> prl then (Inl (PrlctlFailed (mr_name row)), st)
               else drop_override ok uuid st))"

section \<open>ssh\<close>

record SshCreds =
  sc_identity_file :: "ustring option"
  sc_keychain_account :: "ustring option"

record SshOptions =
  so_flags :: "(ustring \<times> ustring) list"
  so_env :: "(ustring \<times> ustring) list"

record spawned =
  spawn_env :: "(ustring \<times> ustring) list"
  spawn_argv :: "ustring list"

definition expand_tilde :: "ustring option \<Rightarrow> ustring \<Rightarrow> ustring" where
  "expand_tilde home v =
     (if starts_with v (ascii ''~/'') then (case home of Some h \<Rightarrow> join_path h (drop 2 v) | None \<Rightarrow> v) else v)"

definition option_path :: "ustring option \<Rightarrow> ustring \<Rightarrow> ustring option" where
  "option_path home v = (if v = [] then None else Some (expand_tilde home v))"

definition no_creds :: SshCreds where
  "no_creds = \<lparr>sc_identity_file = None, sc_keychain_account = None\<rparr>"

definition creds_from_context :: "machine_env \<Rightarrow> ustring option \<Rightarrow> machine_store \<Rightarrow> SshCreds" where
  "creds_from_context env home st =
     (case non_empty (me_guest env) of
        None \<Rightarrow> no_creds
      | Some guest \<Rightarrow>
          (let machine = (case machine_find_by_ssh_target env st guest of
               Inr (Some row) \<Rightarrow>
                 if mr_identity_file row \<noteq> [] \<or> mr_has_password row
                 then \<lparr>sc_identity_file = option_path home (mr_identity_file row),
                       sc_keychain_account = (if mr_has_password row then Some (kind_keychain_account (from_record row)) else None)\<rparr>
                 else no_creds
             | _ \<Rightarrow> no_creds)
           in case remote_find_by_ssh_target st guest of
                Inr (Some row) \<Rightarrow>
                  if rr_identity_file row \<noteq> [] \<or> rr_has_password row
                  then \<lparr>sc_identity_file = option_path home (rr_identity_file row),
                        sc_keychain_account = (if rr_has_password row then Some (rr_id row) else None)\<rparr>
                  else machine
              | _ \<Rightarrow> machine))"

definition build_options :: "bool \<Rightarrow> SshCreds \<Rightarrow> ustring option \<Rightarrow> SshOptions" where
  "build_options display creds helper =
     (let key_flags = (case sc_identity_file creds of
            Some path \<Rightarrow> [(ascii ''-i'', path), (ascii ''-o'', ascii ''IdentitiesOnly=yes'')]
          | None \<Rightarrow> [])
      in case (sc_keychain_account creds, helper) of
           (Some account, Some h) \<Rightarrow>
             \<lparr>so_flags = key_flags
                @ [(ascii ''-o'', ascii ''PreferredAuthentications=password,keyboard-interactive,publickey''),
                   (ascii ''-o'', ascii ''NumberOfPasswordPrompts=1''), (ascii ''-o'', ascii ''PubkeyAuthentication=no'')],
              so_env = [(ascii ''SSH_ASKPASS'', h), (ascii ''SSH_ASKPASS_REQUIRE'', ascii ''force''),
                 (ascii ''VBOX_ASKPASS_ACCOUNT'', account)] @ (if display then [] else [(ascii ''DISPLAY'', ascii '':0'')])\<rparr>
         | _ \<Rightarrow> \<lparr>so_flags = key_flags, so_env = []\<rparr>)"

definition askpass_helper :: "ustring \<Rightarrow> SshCreds \<Rightarrow> ustring option" where
  "askpass_helper cli_path creds = map_option (\<lambda>_. cli_path) (sc_keychain_account creds)"

definition apply_to_command :: "SshOptions \<Rightarrow> spawned \<Rightarrow> spawned" where
  "apply_to_command opts cmd =
     cmd\<lparr>spawn_env := spawn_env cmd @ so_env opts, spawn_argv := spawn_argv cmd @ concat (map (\<lambda>(f, v). [f, v]) (so_flags opts))\<rparr>"

definition quote_char :: "uchar \<Rightarrow> ustring" where
  "quote_char c = (if c = 0x27 then [0x27, 0x5C, 0x27, 0x27] else [c])"

definition shell_quote :: "ustring \<Rightarrow> ustring" where
  "shell_quote s = [0x27] @ concat (map quote_char s) @ [0x27]"

definition join_spaces :: "ustring list \<Rightarrow> ustring" where
  "join_spaces ws = (case ws of [] \<Rightarrow> [] | w # rest \<Rightarrow> w @ concat (map (\<lambda>v. 0x20 # v) rest))"

definition to_shell_string :: "SshOptions \<Rightarrow> ustring \<Rightarrow> ustring" where
  "to_shell_string opts program =
     (if so_env opts = [] then [] else join_spaces (map (\<lambda>(k, v). k @ [0x3D] @ shell_quote v) (so_env opts)) @ [0x20])
     @ program @ concat (map (\<lambda>(f, v). [0x20] @ f @ [0x20] @ shell_quote v) (so_flags opts))"

definition ssh_command :: "machine_env \<Rightarrow> ustring option \<Rightarrow> bool \<Rightarrow> ustring \<Rightarrow> machine_store \<Rightarrow> spawned" where
  "ssh_command env home display cli_path st =
     (let creds = creds_from_context env home st
      in apply_to_command (build_options display creds (askpass_helper cli_path creds)) \<lparr>spawn_env = [], spawn_argv = [ascii ''ssh'']\<rparr>)"

definition inline_ssh :: "machine_env \<Rightarrow> ustring option \<Rightarrow> bool \<Rightarrow> ustring \<Rightarrow> machine_store \<Rightarrow> ustring" where
  "inline_ssh env home display cli_path st =
     (let creds = creds_from_context env home st
      in to_shell_string (build_options display creds (askpass_helper cli_path creds)) (ascii ''ssh''))"

definition run_askpass :: "ustring option \<Rightarrow> machine_store \<Rightarrow> ustring" where
  "run_askpass account st =
     (case account of
        None \<Rightarrow> []
      | Some a \<Rightarrow> if a = [] then [] else (case ms_keychain st a of Some pw \<Rightarrow> pw @ [0x0A] | None \<Rightarrow> []))"

section \<open>How a shell reads a command\<close>

text \<open>
  The words of a simple command in a POSIX shell, as far as quoting goes: blanks separate words, single
  quotes keep everything between them, a backslash keeps the next character. Other characters with a
  meaning to the shell, and an open quote, are outside of this fragment and give \<open>None\<close>.
\<close>

definition sh_special :: "uchar \<Rightarrow> bool" where
  "sh_special c \<longleftrightarrow> c \<in> set (ascii ''|&;<>()$`*?[#~!{}'') \<or> c \<in> {0x22, 0x0A, 0x09}"

fun sh_words :: "bool \<Rightarrow> ustring option \<Rightarrow> ustring \<Rightarrow> ustring list option" where
  "sh_words quoted w [] = (if quoted then None else Some (case w of None \<Rightarrow> [] | Some x \<Rightarrow> [x]))"
| "sh_words quoted w (c # cs) =
     (let word = unwrap_or w [] in
      if quoted then (if c = 0x27 then sh_words False (Some word) cs else sh_words True (Some (word @ [c])) cs)
      else if c = 0x27 then sh_words True (Some word) cs
      else if c = 0x20 then map_option (\<lambda>ws. (case w of None \<Rightarrow> ws | Some x \<Rightarrow> x # ws)) (sh_words False None cs)
      else if c = 0x5C then (case cs of [] \<Rightarrow> None | d # ds \<Rightarrow> sh_words False (Some (word @ [d])) ds)
      else if sh_special c then None
      else sh_words False (Some (word @ [c])) cs)"

text \<open>The leading words with an equals sign are assignments to the environment of the command.\<close>

definition sh_command :: "ustring \<Rightarrow> ((ustring \<times> ustring) list \<times> ustring list) option" where
  "sh_command line =
     map_option (\<lambda>ws. (map (\<lambda>w. the (split_once 0x3D w)) (takeWhile (\<lambda>w. 0x3D \<in> set w) ws), dropWhile (\<lambda>w. 0x3D \<in> set w) ws))
       (sh_words False None line)"

section \<open>Lemmas on quoting\<close>

definition sh_plain :: "uchar \<Rightarrow> bool" where
  "sh_plain c \<longleftrightarrow> c \<noteq> 0x27 \<and> c \<noteq> 0x20 \<and> c \<noteq> 0x5C \<and> \<not> sh_special c"

lemma sh_inside_quotes:
  "sh_words True (Some w) (concat (map quote_char s) @ 0x27 # rest) = sh_words False (Some (w @ s)) rest"
  by (induction s arbitrary: w) (simp_all add: quote_char_def)

lemma sh_quoted: "sh_words False w (shell_quote s @ rest) = sh_words False (Some (unwrap_or w [] @ s)) rest"
  using sh_inside_quotes [of "unwrap_or w []" s rest] by (simp add: shell_quote_def)

lemma sh_plain_word:
  "list_all sh_plain p \<Longrightarrow> p \<noteq> [] \<Longrightarrow> sh_words False w (p @ rest) = sh_words False (Some (unwrap_or w [] @ p)) rest"
proof (induction p arbitrary: w)
  case (Cons c p)
  then show ?case by (cases "p = []") (simp_all add: sh_plain_def)
qed simp

lemma sh_blank: "sh_words False (Some x) (0x20 # cs) = map_option ((#) x) (sh_words False None cs)"
  by (simp add: Let_def map_option_case)

lemma sh_flags:
  assumes "list_all (\<lambda>(f, _). f \<noteq> [] \<and> list_all sh_plain f) flags"
  shows "sh_words False (Some x) (concat (map (\<lambda>(f, v). [0x20] @ f @ [0x20] @ shell_quote v) flags))
    = Some (x # concat (map (\<lambda>(f, v). [f, v]) flags))"
  using assms
proof (induction flags arbitrary: x)
  case (Cons a flags)
  obtain f v where a: "a = (f, v)" by (cases a)
  have f: "f \<noteq> []" "list_all sh_plain f" using Cons.prems by (simp_all add: a)
  show ?case using Cons.IH [of v] Cons.prems sh_plain_word [OF f(2,1), of None] sh_quoted [of None v]
    by (simp add: a sh_blank del: sh_words.simps(2))
qed simp

lemma sh_assignments:
  assumes "list_all (\<lambda>(k, _). k \<noteq> [] \<and> list_all sh_plain k) env"
  shows "sh_words False None (concat (map (\<lambda>(k, v). (k @ [0x3D] @ shell_quote v) @ [0x20]) env) @ rest)
    = map_option ((@) (map (\<lambda>(k, v). k @ [0x3D] @ v) env)) (sh_words False None rest)"
  using assms
proof (induction env)
  case Nil
  then show ?case by (cases "sh_words False None rest") simp_all
next
  case (Cons a env)
  obtain k v where a: "a = (k, v)" by (cases a)
  have "sh_plain 0x3D" by (simp add: sh_plain_def sh_special_def ascii_def)
  then have k: "k @ [0x3D] \<noteq> []" "list_all sh_plain (k @ [0x3D])" using Cons.prems by (simp_all add: a)
  define tl where "tl = concat (map (\<lambda>(k, v). (k @ [0x3D] @ shell_quote v) @ [0x20]) env) @ rest"
  have "sh_words False None ((k @ [0x3D]) @ shell_quote v @ 0x20 # tl) = map_option ((#) (k @ [0x3D] @ v)) (sh_words False None tl)"
    unfolding sh_plain_word [OF k(2,1)] sh_quoted by (simp add: sh_blank del: sh_words.simps(2))
  moreover have "sh_words False None tl = map_option ((@) (map (\<lambda>(k, v). k @ [0x3D] @ v) env)) (sh_words False None rest)"
    using Cons.IH Cons.prems by (simp add: a tl_def)
  ultimately show ?case by (simp add: a tl_def option.map_comp comp_def)
qed

lemma join_spaces_blank: "ws \<noteq> [] \<Longrightarrow> join_spaces ws @ [0x20] = concat (map (\<lambda>w. w @ [0x20]) ws)"
proof (induction ws)
  case (Cons w ws)
  then show ?case by (cases ws) (simp_all add: join_spaces_def)
qed simp

lemma to_shell_string_alt:
  "to_shell_string opts program = concat (map (\<lambda>(k, v). (k @ [0x3D] @ shell_quote v) @ [0x20]) (so_env opts)) @ program
     @ concat (map (\<lambda>(f, v). [0x20] @ f @ [0x20] @ shell_quote v) (so_flags opts))"
  using join_spaces_blank [of "map (\<lambda>(k, v). k @ [0x3D] @ shell_quote v) (so_env opts)"]
  by (auto simp: to_shell_string_def comp_def case_prod_unfold)

lemma split_once_at: "sep \<notin> set a \<Longrightarrow> split_once sep (a @ sep # b) = Some (a, b)"
  by (induction a) simp_all

text \<open>A shell reads the inlined options as the command that is run without one.\<close>

lemma shell_string_read:
  assumes "list_all (\<lambda>(k, _). k \<noteq> [] \<and> list_all sh_plain k \<and> 0x3D \<notin> set k) (so_env opts)"
    and "list_all (\<lambda>(f, _). f \<noteq> [] \<and> list_all sh_plain f) (so_flags opts)"
    and "program \<noteq> []" and "list_all sh_plain program" and "0x3D \<notin> set program"
  shows "sh_command (to_shell_string opts program) = Some (so_env opts, program # concat (map (\<lambda>(f, v). [f, v]) (so_flags opts)))"
proof -
  let ?env = "map (\<lambda>(k, v). k @ [0x3D] @ v) (so_env opts)" and ?argv = "program # concat (map (\<lambda>(f, v). [f, v]) (so_flags opts))"
  have keys: "list_all (\<lambda>(k, _). k \<noteq> [] \<and> list_all sh_plain k) (so_env opts)"
    using assms(1) by (auto simp: list_all_iff)
  have words: "sh_words False None (to_shell_string opts program) = Some (?env @ ?argv)"
    unfolding to_shell_string_alt sh_assignments [OF keys] sh_plain_word [OF assms(4,3)]
    using sh_flags [OF assms(2), of program] by simp
  have assigned: "0x3D \<in> set w" if "w \<in> set ?env" for w using that by auto
  have parts: "takeWhile (\<lambda>w. 0x3D \<in> set w) (?env @ ?argv) = ?env" "dropWhile (\<lambda>w. 0x3D \<in> set w) (?env @ ?argv) = ?argv"
    using takeWhile_append2 [of ?env "\<lambda>w. 0x3D \<in> set w" ?argv] dropWhile_append2 [of ?env "\<lambda>w. 0x3D \<in> set w" ?argv]
      assigned assms(5) by auto
  have "map (\<lambda>w. the (split_once 0x3D w)) ?env = so_env opts"
    using assms(1) by (induction "so_env opts") (auto simp: list_all_iff split_once_at intro!: map_idI)
  then show ?thesis unfolding sh_command_def words option.map parts by simp
qed

section \<open>Properties\<close>

text \<open>
  C25: The two ways the tool runs ssh agree: the string \<open>inline_ssh\<close> puts into a shell script is read by a
  POSIX shell as exactly the environment and the arguments \<open>ssh_command\<close> gives to the process, whatever
  spaces, quotes or other characters are in the identity file, the account and the path of the tool.
\<close>
theorem inline_ssh_is_ssh_command:
  "sh_command (inline_ssh env home display cli_path st)
     = Some (spawn_env (ssh_command env home display cli_path st), spawn_argv (ssh_command env home display cli_path st))"
proof -
  define creds where "creds = creds_from_context env home st"
  define opts where "opts = build_options display creds (askpass_helper cli_path creds)"
  note plain = sh_plain_def sh_special_def ascii_def
  have "list_all (\<lambda>(k, _). k \<noteq> [] \<and> list_all sh_plain k \<and> 0x3D \<notin> set k) (so_env opts)"
    "list_all (\<lambda>(f, _). f \<noteq> [] \<and> list_all sh_plain f) (so_flags opts)"
    by (auto simp: opts_def build_options_def plain Let_def split: option.splits)
  moreover have "ascii ''ssh'' \<noteq> []" "list_all sh_plain (ascii ''ssh'')" "0x3D \<notin> set (ascii ''ssh'')" by (simp_all add: plain)
  ultimately show ?thesis
    using shell_string_read [of opts "ascii ''ssh''"]
    by (simp add: inline_ssh_def ssh_command_def apply_to_command_def Let_def creds_def [symmetric] opts_def [symmetric])
qed

section \<open>Overrides\<close>

lemma ascii_eq [simp]: "ascii s = ascii t \<longleftrightarrow> s = t"
  by (simp add: ascii_def inj_map_eq_map inj_on_def)

lemma entry_object_view:
  assumes "entry_object ov uuid = Some kvs"
  shows "override_str (map_of ov uuid) k = Option.bind (map_of kvs k) as_str"
    and "Option.bind (map_of ov uuid) (get_field k) = map_of kvs k"
  using assms by (auto simp: entry_object_def override_str_def get_str_def get_field_def split: option.splits elim: as_object.elims)
    (cases "map_of ov uuid"; auto simp: get_field_def get_str_def)+

definition with_key :: "ustring \<Rightarrow> ustring \<Rightarrow> MachineRecord \<Rightarrow> MachineRecord" where
  "with_key key v r =
     (if key = ascii ''ssh_user'' then r\<lparr>mr_ssh_user := v\<rparr>
      else if key = ascii ''ssh_host'' then r\<lparr>mr_ssh_host := v\<rparr>
      else if key = ascii ''guest_dir'' then r\<lparr>mr_guest_dir := v\<rparr>
      else if key = ascii ''identity_file'' then r\<lparr>mr_identity_file := v\<rparr>
      else r)"

lemma overridden_row:
  assumes "entry_object ov uuid = Some kvs" and "key \<noteq> ascii ''has_password''"
    and "key \<in> {ascii ''ssh_host'', ascii ''guest_dir''} \<Longrightarrow> v \<noteq> []"
  shows "machine_row env (AList.update uuid (JObject (AList.update key (JString v) kvs)) ov) user m
    = map_option (\<lambda>r. if mr_uuid r = uuid then with_key key v r else r) (machine_row env ov user m)"
proof -
  define new where "new = JObject (AList.update key (JString v) kvs)"
  define id where "id = trim_braces (unwrap_or (get_str (ascii ''uuid'') m) [])"
  have str: "override_str (Some new) k = (if key = k then Some v else Option.bind (map_of kvs k) as_str)" for k
    by (auto simp: override_str_def get_str_def get_field_def new_def update_conv')
  have flag: "get_field (ascii ''has_password'') new = map_of kvs (ascii ''has_password'')"
    using assms(2) by (simp add: get_field_def new_def update_conv')
  have old: "Option.bind (map_of ov uuid) (\<lambda>y. Option.bind (get_field (ascii ''has_password'') y) as_bool)
      = Option.bind (map_of kvs (ascii ''has_password'')) as_bool"
    using entry_object_view(2) [OF assms(1), of "ascii ''has_password''"] by (cases "map_of ov uuid") simp_all
  show ?thesis
  proof (cases "id = uuid")
    case True
    have lookup: "map_of (AList.update uuid new ov) uuid = Some new" by (simp add: update_conv')
    note row = machine_row_def Let_def id_def [symmetric] True lookup str flag old entry_object_view(1) [OF assms(1)] with_key_def
    have filled: "non_empty (Some v) = Some v" if "v \<noteq> []" using that by (simp add: non_empty_def)
    consider "key = ascii ''ssh_user''" | "key = ascii ''ssh_host''" | "key = ascii ''guest_dir''" | "key = ascii ''identity_file''"
      | "key \<notin> {ascii ''ssh_user'', ascii ''ssh_host'', ascii ''guest_dir'', ascii ''identity_file''}" by blast
    then show ?thesis unfolding new_def [symmetric]
      using assms(3) filled by cases (simp_all add: row)
  next
    case False
    then show ?thesis by (simp add: machine_row_def Let_def id_def update_conv')
  qed
qed

lemma map_filter_map_option: "List.map_filter (\<lambda>x. map_option f (g x)) xs = map f (List.map_filter g xs)"
  by (induction xs) (auto simp: map_filter_simps split: option.splits)

lemma map_filter_set: "y \<in> set (List.map_filter g xs) \<Longrightarrow> \<exists>x \<in> set xs. g x = Some y"
  by (induction xs) (auto simp: map_filter_simps split: option.splits)

abbreviation is_remote :: "MachineRecord \<Rightarrow> bool" where
  "is_remote r \<equiv> starts_with (mr_uuid r) (ascii ''remote:'')"

definition listed_uuid :: "JsonValue \<Rightarrow> ustring" where
  "listed_uuid m = trim_braces (unwrap_or (get_str (ascii ''uuid'') m) [])"

lemma machine_row_uuid: "machine_row env ov user m = Some r \<Longrightarrow> mr_uuid r = listed_uuid m"
  by (auto simp: machine_row_def Let_def listed_uuid_def split: if_splits)

lemma remote_rows_remote: "r \<in> set (map remote_machine (List.map_filter remote_record hosts)) \<Longrightarrow> is_remote r"
  by (auto dest!: map_filter_set simp: remote_record_def remote_machine_def starts_with_def ascii_def split: option.splits)

text \<open>
  What a setting changes: a successful \<open>machines set\<close> of a key other than the password changes exactly
  the machine it names, in exactly the field of that key, for all that list machines or look up
  credentials; but on a remote machine it changes nothing at all, although it reports success.
\<close>
theorem machine_setting_effect:
  assumes "machine_records env st = Inr rows" and "find_one env st target = Inr row"
    and "set_cmd kc ok env target key v st = (Inr (), st')" and "key \<noteq> ascii ''password''"
    and "key \<in> {ascii ''ssh_host'', ascii ''guest_dir''} \<Longrightarrow> v \<noteq> []"
    and "list_all (\<lambda>m. \<not> starts_with (listed_uuid m) (ascii ''remote:'')) (unwrap_or (as_array (me_list env)) [])"
  shows "machine_records env st' = Inr (map (\<lambda>r. if mr_uuid r = mr_uuid row \<and> \<not> is_remote r then with_key key v r else r) rows)"
proof -
  have key: "key \<in> set CONFIG_KEYS" using assms(3) by (auto simp: set_cmd_def validate_config_key_def split: if_splits sum.splits)
  then have flag: "key \<noteq> ascii ''has_password''" by (auto simp: CONFIG_KEYS_def)
  from assms(2-4) key obtain ov kvs where ov: "load_overrides st = Inr ov" "entry_object ov (mr_uuid row) = Some kvs"
    and st': "st' = st\<lparr>ms_overrides := JData (AList.update (mr_uuid row) (JObject (AList.update key (JString v) kvs)) ov)\<rparr>"
    by (auto simp: set_cmd_def validate_config_key_def save_overrides_def split: sum.splits option.splits if_splits)
  define ov' where "ov' = AList.update (mr_uuid row) (JObject (AList.update key (JString v) kvs)) ov"
  let ?ms = "unwrap_or (as_array (me_list env)) []"
  let ?f = "\<lambda>r. if mr_uuid r = mr_uuid row \<and> \<not> is_remote r then with_key key v r else r"
  from assms(1) ov(1) obtain user hosts where user: "default_user env = Inr user" and hosts: "load_json [] (ms_hosts st) = Inr hosts"
    and rows: "rows = List.map_filter (machine_row env ov user) ?ms @ map remote_machine (List.map_filter remote_record hosts)"
    by (auto simp: machine_records_def remote_records_def split: sum.splits)
  have "machine_row env ov' user = (\<lambda>m. map_option (\<lambda>r. if mr_uuid r = mr_uuid row then with_key key v r else r) (machine_row env ov user m))"
    unfolding ov'_def by (rule ext, rule overridden_row [OF ov(2) flag assms(5)])
  then have "List.map_filter (machine_row env ov' user) ?ms
      = map (\<lambda>r. if mr_uuid r = mr_uuid row then with_key key v r else r) (List.map_filter (machine_row env ov user) ?ms)"
    by (simp only: map_filter_map_option)
  also have "\<dots> = map ?f (List.map_filter (machine_row env ov user) ?ms)"
    using assms(6) by (intro map_cong) (auto dest!: map_filter_set simp: list_all_iff machine_row_uuid)
  finally have "List.map_filter (machine_row env ov' user) ?ms = map ?f (List.map_filter (machine_row env ov user) ?ms)" .
  moreover have "map ?f (map remote_machine (List.map_filter remote_record hosts)) = map remote_machine (List.map_filter remote_record hosts)"
    using remote_rows_remote by (intro map_idI) auto
  ultimately show ?thesis using user hosts
    by (simp add: rows st' ov'_def [symmetric] machine_records_def remote_records_def load_overrides_def)
qed

definition lab_host :: RemoteHost where
  "lab_host = \<lparr>rh_name = ascii ''lab'', rh_ssh = ascii ''u@h'', rh_guest_dir = [], rh_os_kind = ascii ''linux'', rh_os_raw = [],
     rh_added_at = [], rh_identity_file = [], rh_has_password = True\<rparr>"

definition lab_store :: machine_store where
  "lab_store = \<lparr>ms_hosts = JData [lab_host], ms_overrides = JMissing,
     ms_keychain = (\<lambda>a. if a = keychain_account (ascii ''lab'') then Some (ascii ''secret'') else None)\<rparr>"

definition lab_env :: machine_env where
  "lab_env = \<lparr>me_list = JArray [], me_info = (\<lambda>_. JArray []), me_host_user = Some (ascii ''me''), me_guest = Some (ascii ''u@h''), me_guest_dir = None\<rparr>"

lemma lab_rows: "machine_records lab_env lab_store = Inr [remote_machine (the (remote_record lab_host))]"
  by (simp add: machine_records_def lab_env_def lab_store_def load_overrides_def default_user_def remote_records_def
      remote_record_def lab_host_def map_filter_simps ascii_def)

theorem machine_setting_effect_witness:
  "fst (set_cmd True True lab_env (ascii ''lab'') (ascii ''ssh_user'') (ascii ''other'') lab_store) = Inr ()
   \<and> machine_records lab_env (snd (set_cmd True True lab_env (ascii ''lab'') (ascii ''ssh_user'') (ascii ''other'') lab_store))
       = machine_records lab_env lab_store"
proof -
  let ?row = "remote_machine (the (remote_record lab_host))"
  have name: "mr_name ?row = ascii ''lab''" and remote: "is_remote ?row"
    by (simp_all add: remote_machine_def remote_record_def lab_host_def ascii_def starts_with_def)
  then have one: "find_one lab_env lab_store (ascii ''lab'') = Inr ?row" by (simp add: find_one_def lab_rows)
  obtain st' where st': "set_cmd True True lab_env (ascii ''lab'') (ascii ''ssh_user'') (ascii ''other'') lab_store = (Inr (), st')"
    by (simp add: set_cmd_def validate_config_key_def CONFIG_KEYS_def one load_overrides_def) (simp add: lab_store_def entry_object_def save_overrides_def)
  have "machine_records lab_env st' = Inr (map (\<lambda>r. if mr_uuid r = mr_uuid ?row \<and> \<not> is_remote r then with_key (ascii ''ssh_user'') (ascii ''other'') r else r) [?row])"
    by (rule machine_setting_effect [OF lab_rows one st']) (simp_all add: lab_env_def)
  with st' remote show ?thesis by (simp add: lab_rows)
qed

section \<open>Passwords\<close>

lemma split_once_join: "split_once sep s = Some (a, b) \<Longrightarrow> a @ sep # b = s"
  by (induction s arbitrary: a) (auto split: if_splits)

lemma split_once_found: "sep \<in> set s \<Longrightarrow> split_once sep s \<noteq> None"
  by (induction s) auto

lemma remote_record_fields:
  assumes "remote_record h = Some r"
  shows "remote_target r = rh_ssh h" and "rr_id r = keychain_account (rh_name h)" and "rr_has_password r = rh_has_password h"
  using assms by (auto simp: remote_record_def remote_target_def keychain_account_def dest: split_once_join split: option.splits)

lemma added_host:
  assumes "add_cmd kc ok stdin now dir input st = (Inr (), st')"
  shows "\<exists>hosts h. load_json [] (ms_hosts st) = Inr hosts \<and> 0x40 \<in> set (ari_ssh input)
    \<and> ms_hosts st' = JData (filter (\<lambda>h. rh_name h \<noteq> ari_name input) hosts @ [h]) \<and> rh_name h = ari_name input \<and> rh_ssh h = ari_ssh input
    \<and> (ari_password_stdin input \<longrightarrow> stdin \<noteq> None)
    \<and> rh_has_password h = (ari_password_stdin input \<and> read_password_stdin (the stdin) \<noteq> [])
    \<and> ms_keychain st' = (ms_keychain st)(keychain_account (ari_name input)
        := (if rh_has_password h then Some (read_password_stdin (the stdin)) else None))"
  using assms
  by (auto simp: add_cmd_def Let_def set_password_def delete_password_def save_hosts_def split: if_splits option.splits sum.splits)
    (rule exI, rule conjI [rotated], rule impI, rule conjI, rule refl, simp_all)+

lemma find_map_filter_skip:
  assumes "\<And>x r. x \<in> set xs \<Longrightarrow> g x = Some r \<Longrightarrow> \<not> P r"
  shows "find P (List.map_filter g (xs @ ys)) = find P (List.map_filter g ys)"
  using assms by (induction xs) (auto simp: map_filter_simps split: option.splits)


definition lab_input :: AddRemoteInput where
  "lab_input = \<lparr>ari_name = ascii ''LAB'', ari_ssh = ascii ''v@h'', ari_guest_dir = Some [], ari_os_kind = [], ari_os_raw = [],
     ari_identity_file = None, ari_password_stdin = True\<rparr>"


text \<open>
  Two remote hosts can share one password. The account in the keychain is made from the name in lower
  case with all other characters folded, so hosts with different names can have the same account:
  adding the second without a password deletes the password of the first, which is still marked as
  having one, and the askpass helper then answers ssh with nothing.
\<close>
theorem remote_names_share_password:
  assumes "load_json [] (ms_hosts st) = Inr hosts" and "h \<in> set hosts" and "rh_has_password h" and "rh_name h \<noteq> ari_name input"
    and "keychain_account (rh_name h) = keychain_account (ari_name input)" and "\<not> ari_password_stdin input"
    and "add_cmd kc ok stdin now dir input st = (Inr (), st')"
  shows "\<exists>hosts'. ms_hosts st' = JData hosts' \<and> h \<in> set hosts' \<and> run_askpass (Some (keychain_account (rh_name h))) st' = []"
  using added_host [OF assms(7)] assms(1-6) by (auto simp: run_askpass_def split: if_splits)

theorem remote_names_share_password_witness:
  "run_askpass (Some (keychain_account (ascii ''lab''))) lab_store = ascii ''secret'' @ [10]
   \<and> run_askpass (Some (keychain_account (ascii ''lab'')))
       (snd (add_cmd True True None [] None (lab_input\<lparr>ari_password_stdin := False\<rparr>) lab_store)) = []"
proof -
  have at: "0x40 \<in> set (ascii ''v@h'')" "str_trim (ascii ''LAB'') = ascii ''LAB''" "ascii ''LAB'' \<noteq> []"
    by (simp_all add: ascii_def str_trim_def is_whitespace_def)
  have same: "keychain_account (ascii ''lab'') = keychain_account (ascii ''LAB'')"
    by (simp add: keychain_account_def remote_sanitize_id_def to_ascii_lowercase_def ascii_def)
  obtain st' where st': "add_cmd True True None [] None (lab_input\<lparr>ari_password_stdin := False\<rparr>) lab_store = (Inr (), st')"
    by (simp add: add_cmd_def Let_def lab_input_def at delete_password_def save_hosts_def) (simp add: lab_store_def save_hosts_def)
  have "load_json [] (ms_hosts lab_store) = Inr [lab_host]" "lab_host \<in> set [lab_host]" by (simp_all add: lab_store_def)
  from remote_names_share_password [OF this _ _ _ _ st'] same have "run_askpass (Some (keychain_account (ascii ''lab''))) st' = []"
    by (auto simp: lab_host_def lab_input_def)
  then show ?thesis using st' by (simp add: run_askpass_def lab_store_def keychain_account_def ascii_def)
qed

end
