(* ===== verification/Ctl_Call.thy ===== *)
theory Ctl_Call
  imports Cli_Context Control_Session
begin

text \<open>
  Control commands of the client against the daemon: \<open>crates/client/src/ctl/mod.rs\<close>, \<open>call.rs\<close>, \<open>token.rs\<close>,
  and the token file and start-up decisions of \<open>crates/controld/src/main.rs\<close>. The last theorem composes
  them with \<open>handle_session\<close> of the daemon.
\<close>

section \<open>Commands\<close>

datatype CtlCmd =
    CtlStatus SocketAddr
  | CtlStartInstance SocketAddr ustring u16 bool "IpAddr option" "u16 option" "ustring option"
  | CtlStopInstance SocketAddr ustring
  | CtlLaunchApp SocketAddr ustring ustring u64 "ustring list"
  | CtlWaitSocket SocketAddr ustring u64
  | CtlPrepareDataPlane SocketAddr "ustring option" SocketAddr "SocketAddr option" ustring
  | CtlTlsBootstrap "ustring list" ustring

datatype RoutedCmd = RoutedRpc SocketAddr RpcMethod | RoutedTlsBootstrap "ustring list" ustring

datatype ctl_error =
    EmptyArgvRefused
  | CtlNet net_error
  | HandshakeRefused u16 ustring
  | HandshakeUnexpected Kind
  | DaemonError u16 ustring
  | ExpectedRpcResponse Kind
  | DaemonMessage ustring
  | TokenUnset
  | TokenFileEmpty
  | TokenFileUnreadable

fun route_ctl_cmd :: "CtlCmd \<Rightarrow> ctl_error + RoutedCmd" where
  "route_ctl_cmd (CtlStatus addr) = Inr (RoutedRpc addr Status)"
| "route_ctl_cmd (CtlStartInstance addr inst port debug bind qport qtoken) =
     Inr (RoutedRpc addr (StartInstance inst port debug bind qport qtoken))"
| "route_ctl_cmd (CtlStopInstance addr inst) = Inr (RoutedRpc addr (StopInstance inst))"
| "route_ctl_cmd (CtlLaunchApp addr inst socket ms argv) =
     (if argv = [] then Inl EmptyArgvRefused else Inr (RoutedRpc addr (LaunchApp inst socket argv ms)))"
| "route_ctl_cmd (CtlWaitSocket addr socket ms) = Inr (RoutedRpc addr (WaitSocket socket ms))"
| "route_ctl_cmd (CtlPrepareDataPlane addr inst tcp quic token) = Inr (RoutedRpc addr (PrepareDataPlane inst tcp quic token))"
| "route_ctl_cmd (CtlTlsBootstrap sans dir) = Inr (RoutedTlsBootstrap sans dir)"

section \<open>The token\<close>

definition resolve_token :: "ustring option \<Rightarrow> ustring option \<Rightarrow> (ustring \<Rightarrow> ustring option) \<Rightarrow> ctl_error + ustring" where
  "resolve_token env_value file_path read_file =
     (case env_value of
        Some v \<Rightarrow>
          if str_trim v \<noteq> [] then Inr (str_trim v)
          else
            (case file_path of
               None \<Rightarrow> Inl TokenUnset
             | Some path \<Rightarrow>
                 (case read_file path of
                    None \<Rightarrow> Inl TokenFileUnreadable
                  | Some s \<Rightarrow> if str_trim s = [] then Inl TokenFileEmpty else Inr (str_trim s)))
      | None \<Rightarrow>
          (case file_path of
             None \<Rightarrow> Inl TokenUnset
           | Some path \<Rightarrow>
               (case read_file path of
                  None \<Rightarrow> Inl TokenFileUnreadable
                | Some s \<Rightarrow> if str_trim s = [] then Inl TokenFileEmpty else Inr (str_trim s))))"

text \<open>
  The daemon's side: the file is its text, if it exists; \<open>readable\<close> and \<open>ok\<close> say whether it can be read
  and written, and \<open>fresh\<close> is what \<open>/dev/urandom\<close> yields.
\<close>

definition TOKEN_BYTES :: nat where
  "TOKEN_BYTES = 32"

definition random_hex_token :: "u8 list option \<Rightarrow> ustring option" where
  "random_hex_token fresh = map_option (\<lambda>bs. concat (map (\<lambda>b. [hex_lower (unat b div 16), hex_lower (unat b mod 16)]) bs)) fresh"

definition ensure_token :: "bool \<Rightarrow> bool \<Rightarrow> u8 list option \<Rightarrow> ustring option \<Rightarrow> ustring option \<times> ustring option" where
  "ensure_token readable ok fresh disk =
     (let generate = (case random_hex_token fresh of
          None \<Rightarrow> (None, disk)
        | Some token \<Rightarrow> if ok then (Some token, Some token) else (None, disk))
      in case disk of
           None \<Rightarrow> generate
         | Some s \<Rightarrow>
             if \<not> readable then (None, disk)
             else if str_trim s \<noteq> [] then (Some (str_trim s), disk)
             else generate)"

definition resolve_token_path :: "ustring option \<Rightarrow> ustring \<Rightarrow> ustring" where
  "resolve_token_path explicit dir = (case explicit of Some p \<Rightarrow> p | None \<Rightarrow> path_join dir (ascii ''token''))"

datatype TlsFlagsOutcome = Mtls ustring ustring ustring | PlainTcp | PartiallySet

fun classify_tls_flags :: "ustring option \<Rightarrow> ustring option \<Rightarrow> ustring option \<Rightarrow> TlsFlagsOutcome" where
  "classify_tls_flags (Some cert) (Some key) (Some ca) = Mtls cert key ca"
| "classify_tls_flags None None None = PlainTcp"
| "classify_tls_flags _ _ _ = PartiallySet"

section \<open>One call\<close>

definition build_ctl_hello :: "ustring \<Rightarrow> Message" where
  "build_ctl_hello version =
     Message.Hello \<lparr>hello_version = PROTOCOL_VERSION, client_name = ascii ''vbox-client/'' @ version @ ascii '' (ctl)''\<rparr>"

definition rpc_round_trip ::
  "(u8 list \<Rightarrow> Message option) \<Rightarrow> u64 \<Rightarrow> RpcMethod \<Rightarrow> io_stream conn \<Rightarrow> (ctl_error + RpcOk) \<times> io_stream conn" where
  "rpc_round_trip de rid rpcm c =
     (case net_bind (put_wire (Frame (Message.RpcRequest \<lparr>req_id = rid, req_method = rpcm\<rparr>))) (\<lambda>_. get_with (read_frame de)) c of
        (Inl e, c') \<Rightarrow> (Inl (CtlNet e), c')
      | (Inr (Message.RpcResponse r), c') \<Rightarrow>
          (case resp_result r of RpcOk ok \<Rightarrow> (Inr ok, c') | RpcErr msg \<Rightarrow> (Inl (DaemonMessage msg), c'))
      | (Inr (Message.Error e), c') \<Rightarrow> (Inl (DaemonError (err_code e) (err_message e)), c')
      | (Inr other, c') \<Rightarrow> (Inl (ExpectedRpcResponse (kind other)), c'))"

definition ctl_open ::
  "(u8 list \<Rightarrow> Message option) \<Rightarrow> ustring \<Rightarrow> io_stream conn \<Rightarrow> (ctl_error + unit) \<times> io_stream conn" where
  "ctl_open de version c =
     (case net_bind (put_wire Prelude) (\<lambda>_. net_bind (get_with read_prelude) (\<lambda>_.
             net_bind (put_wire (Frame (build_ctl_hello version))) (\<lambda>_. get_with (read_frame de)))) c of
        (Inl e, c') \<Rightarrow> (Inl (CtlNet e), c')
      | (Inr (Message.Welcome _), c') \<Rightarrow> (Inr (), c')
      | (Inr (Message.Error e), c') \<Rightarrow> (Inl (HandshakeRefused (err_code e) (err_message e)), c')
      | (Inr other, c') \<Rightarrow> (Inl (HandshakeUnexpected (kind other)), c'))"

text \<open>\<open>up\<close> says whether the connection (and TLS, if configured) comes up, \<open>tls_mode\<close> whether it is TLS.\<close>

definition ctl_call ::
  "(u8 list \<Rightarrow> Message option) \<Rightarrow> ustring \<Rightarrow> bool \<Rightarrow> bool \<Rightarrow> ctl_error + ustring \<Rightarrow> RpcMethod \<Rightarrow> io_stream conn
     \<Rightarrow> (ctl_error + RpcOk) \<times> io_stream conn" where
  "ctl_call de version up tls_mode token rpcm c =
     (if \<not> up then (Inl (CtlNet ConnectFailed), c)
      else
        (case ctl_open de version c of
           (Inl e, c1) \<Rightarrow> (Inl e, c1)
         | (Inr _, c1) \<Rightarrow>
             (case (if tls_mode then (Inr (), c1)
                    else
                      (case token of
                         Inl e \<Rightarrow> (Inl e, c1)
                       | Inr t \<Rightarrow>
                           (case rpc_round_trip de 1 (Authenticate t) c1 of
                              (Inl e, c2) \<Rightarrow> (Inl e, c2)
                            | (Inr _, c2) \<Rightarrow> (Inr (), c2)))) of
                (Inl e, c2) \<Rightarrow> (Inl e, c2)
              | (Inr _, c2) \<Rightarrow>
                  (case rpc_round_trip de 2 rpcm c2 of
                     (Inl e, c3) \<Rightarrow> (Inl e, c3)
                   | (Inr ok, c3) \<Rightarrow> (Inr ok, snd (put_wire (Frame (Message.Goodbye (ascii ''ctl done''))) c3))))))"

section \<open>Lemmas\<close>

lemma hex_lower_solid: "d < 16 \<Longrightarrow> \<not> is_whitespace (hex_lower d)"
  by (auto simp: hex_lower_def is_whitespace_def)

lemma random_token_trimmed:
  assumes "random_hex_token (Some bs) = Some token" and "bs \<noteq> []"
  shows "token \<noteq> []" and "str_trim token = token"
proof -
  have plain: "list_all (\<lambda>c. \<not> is_whitespace c) token"
    using assms(1) hex_lower_solid unat_lt_len [where 'a = 8]
    by (auto simp: random_hex_token_def list_all_iff less_mult_imp_div_less)
  show "token \<noteq> []" using assms by (cases bs) (auto simp: random_hex_token_def)
  with plain solid_ends [of token] show "str_trim token = token" by (intro trim_outer) blast+
qed

lemma ensured_token:
  assumes "ensure_token readable ok (Some bs) disk = (Some token, disk')" and "bs \<noteq> []"
  shows "\<exists>s. disk' = Some s \<and> str_trim s = token \<and> token \<noteq> []"
proof (cases "\<exists>s. disk = Some s \<and> str_trim s \<noteq> []")
  case True
  then show ?thesis using assms(1) by (auto simp: ensure_token_def Let_def split: if_splits)
next
  case False
  then have "random_hex_token (Some bs) = Some token" "disk' = Some token"
    using assms(1) by (auto simp: ensure_token_def Let_def split: option.splits if_splits)
  then show ?thesis using random_token_trimmed [OF _ assms(2)] by blast
qed

text \<open>What the client writes and what the daemon answers in one call without TLS.\<close>

definition ctl_wires :: "ustring \<Rightarrow> ustring \<Rightarrow> RpcMethod \<Rightarrow> bool \<Rightarrow> wire list" where
  "ctl_wires version token rpcm success =
     [Prelude, Frame (build_ctl_hello version), Frame (Message.RpcRequest \<lparr>req_id = 1, req_method = Authenticate token\<rparr>),
      Frame (Message.RpcRequest \<lparr>req_id = 2, req_method = rpcm\<rparr>)]
     @ (if success then [Frame (Message.Goodbye (ascii ''ctl done''))] else [])"

definition ctl_replies :: "u64 \<Rightarrow> RpcResult \<Rightarrow> Message list" where
  "ctl_replies sid result =
     [Message.Welcome (build_welcome sid), Message.RpcResponse \<lparr>resp_id = 1, resp_result = RpcOk Authenticated\<rparr>,
      Message.RpcResponse \<lparr>resp_id = 2, resp_result = result\<rparr>]"

lemma authenticate_same: "authenticate t t = RpcOk Authenticated"
  by (simp add: authenticate_def constant_time_eq_iff)

lemma session_reply_rpc:
  "session_reply ser env token a d (Message.RpcRequest req)
     = (case dispatch ser env token a d req of (resp, a', d') \<Rightarrow> (Some (Message.RpcResponse resp), a', d'))"
  by (simp add: session_reply_def)

lemma dispatch_authenticate:
  "dispatch ser env token False d \<lparr>req_id = 1, req_method = Authenticate token\<rparr>
     = (\<lparr>resp_id = 1, resp_result = RpcOk Authenticated\<rparr>, True, d)"
  by (simp add: dispatch_def authenticate_same)

lemma dispatch_authenticated:
  assumes "\<nexists>t. rpcm = Authenticate t"
  shows "dispatch ser env token True d \<lparr>req_id = 2, req_method = rpcm\<rparr>
     = (\<lparr>resp_id = 2, resp_result = fst (dispatch_method ser env d rpcm)\<rparr>, True, snd (dispatch_method ser env d rpcm))"
  using assms by (cases rpcm) (simp_all add: dispatch_def split_beta)

lemma session_loop_frame:
  assumes "codec_ok mser de" and "encode_frame mser msg = Inr b" and "session_reply ser (env n) token a d msg = (Some reply, a', d')"
  shows "session_loop de ser env token (Suc w) n a d (map Byte b @ s) =
    (case session_loop de ser env token w (Suc n) a' d' s of (e, out, a'', d'') \<Rightarrow> (e, reply # out, a'', d''))"
  by (subst session_loop.simps) (simp add: read_frame_encoded [OF assms(1,2)] assms(3))

lemma session_loop_over:
  "session_loop de ser env token w n a d [] = (Ended, [], a, d)"
  "codec_ok mser de \<Longrightarrow> encode_frame mser (Message.Goodbye r) = Inr b \<Longrightarrow>
     session_loop de ser env token w n a d (map Byte b) = (Ended, [], a, d)"
proof -
  show "session_loop de ser env token w n a d [] = (Ended, [], a, d)"
    by (subst session_loop.simps) (simp add: read_frame_def numeral_eq_Suc)
  assume "codec_ok mser de" and b: "encode_frame mser (Message.Goodbye r) = Inr b"
  from read_frame_encoded [OF this, of "[]"] show "session_loop de ser env token w n a d (map Byte b) = (Ended, [], a, d)"
    by (subst session_loop.simps) (simp add: session_reply_def)
qed

lemma daemon_serves_call:
  assumes "codec_ok mser de" and "3 \<le> writes" and "\<nexists>t. rpcm = Authenticate t"
    and "wires_bytes mser (ctl_wires version token rpcm success) = Inr bytes_up"
  shows "handle_session de ser env token writes sid False d (map Byte bytes_up) =
    (Ended, ctl_replies sid (fst (dispatch_method ser (env 1) d rpcm)), True, snd (dispatch_method ser (env 1) d rpcm))"
proof -
  from assms(4) obtain h a m g where up: "encode_frame mser (build_ctl_hello version) = Inr h"
      "encode_frame mser (Message.RpcRequest \<lparr>req_id = 1, req_method = Authenticate token\<rparr>) = Inr a"
      "encode_frame mser (Message.RpcRequest \<lparr>req_id = 2, req_method = rpcm\<rparr>) = Inr m"
      "wires_bytes mser (if success then [Frame (Message.Goodbye (ascii ''ctl done''))] else []) = Inr g"
      "bytes_up = write_prelude @ h @ a @ m @ g"
    unfolding ctl_wires_def append_Cons append_Nil wires_bytes_Cons by blast
  have over: "session_loop de ser env token w n x e (map Byte g) = (Ended, [], x, e)" for w n x e
  proof (cases success)
    case True
    then obtain b where "encode_frame mser (Message.Goodbye (ascii ''ctl done'')) = Inr b" "g = b"
      using up(4) wires_bytes_Cons(2) [of mser "Message.Goodbye (ascii ''ctl done'')" "[]" g] by auto
    then show ?thesis using session_loop_over(2) [OF assms(1)] by blast
  next
    case False
    then show ?thesis using up(4) session_loop_over(1) by simp
  qed
  define w where "w = writes - 3"
  have w: "writes = Suc (Suc (Suc w))" using assms(2) by (simp add: w_def)
  have loop: "session_loop de ser env token (Suc (Suc w)) 0 False d (map Byte a @ map Byte m @ map Byte g) =
      (Ended, tl (ctl_replies sid (fst (dispatch_method ser (env 1) d rpcm))), True, snd (dispatch_method ser (env 1) d rpcm))"
    by (simp add: session_loop_frame [OF assms(1) up(2)] session_loop_frame [OF assms(1) up(3)] session_reply_rpc
        dispatch_authenticate dispatch_authenticated [OF assms(3)] over ctl_replies_def)
  show ?thesis using read_frame_encoded [OF assms(1) up(1)] loop
    by (simp add: handle_session_def up(5) w read_prelude_write build_ctl_hello_def check_protocol_version_def ctl_replies_def)
qed

lemma round_trip_answered:
  assumes "codec_ok mser de" and "encode_frame mser (Message.RpcResponse \<lparr>resp_id = i, resp_result = result\<rparr>) = Inr b"
    and "inbound c = map Byte b @ s" and "writes_left c \<noteq> 0"
  shows "rpc_round_trip de rid rpcm c =
    (case result of RpcOk ok \<Rightarrow> Inr ok | RpcErr msg \<Rightarrow> Inl (DaemonMessage msg),
     c\<lparr>inbound := s, writes_left := writes_left c - 1, written := written c @ [Frame (Message.RpcRequest \<lparr>req_id = rid, req_method = rpcm\<rparr>)]\<rparr>)"
  using assms(3,4) read_frame_encoded [OF assms(1,2), of s]
  by (cases c; cases result) (simp_all add: rpc_round_trip_def net_run)

lemma open_answered:
  assumes "codec_ok mser de" and "encode_frame mser (Message.Welcome w) = Inr b"
    and "inbound c = map Byte (write_prelude @ b) @ s" and "2 \<le> writes_left c"
  shows "ctl_open de version c =
    (Inr (), c\<lparr>inbound := s, writes_left := writes_left c - 2, written := written c @ [Prelude, Frame (build_ctl_hello version)]\<rparr>)"
  using assms(3,4) read_frame_encoded [OF assms(1,2), of s]
  by (cases c) (simp add: ctl_open_def net_run read_prelude_write)

lemma client_gets_answer:
  assumes "codec_ok mser de" and "5 \<le> n" and "c = \<lparr>inbound = map Byte down, writes_left = n, written = []\<rparr>"
    and "wires_bytes mser (Prelude # map Frame (ctl_replies sid result)) = Inr down"
  shows "case ctl_call de version True False (Inr token) rpcm c of (r, c') \<Rightarrow>
    r = (case result of RpcOk ok \<Rightarrow> Inr ok | RpcErr msg \<Rightarrow> Inl (DaemonMessage msg))
    \<and> written c' = ctl_wires version token rpcm (is_ok result)"
proof -
  from assms(4) obtain b1 b2 b3 where down: "encode_frame mser (Message.Welcome (build_welcome sid)) = Inr b1"
      "encode_frame mser (Message.RpcResponse \<lparr>resp_id = 1, resp_result = RpcOk Authenticated\<rparr>) = Inr b2"
      "encode_frame mser (Message.RpcResponse \<lparr>resp_id = 2, resp_result = result\<rparr>) = Inr b3"
      "down = write_prelude @ b1 @ b2 @ b3"
    unfolding ctl_replies_def list.map wires_bytes_Cons by auto
  define c1 where "c1 = \<lparr>inbound = map Byte b2 @ map Byte b3, writes_left = n - 2, written = [Prelude, Frame (build_ctl_hello version)]\<rparr>"
  have o: "ctl_open de version c = (Inr (), c1)"
    using open_answered [OF assms(1) down(1), of c "map Byte b2 @ map Byte b3" version] assms(2) by (simp add: assms(3) down(4) c1_def)
  define c2 where "c2 = c1\<lparr>inbound := map Byte b3, writes_left := n - 3,
    written := written c1 @ [Frame (Message.RpcRequest \<lparr>req_id = 1, req_method = Authenticate token\<rparr>)]\<rparr>"
  have a: "rpc_round_trip de 1 (Authenticate token) c1 = (Inr Authenticated, c2)"
    using round_trip_answered [OF assms(1) down(2), of c1 "map Byte b3" 1 "Authenticate token"] assms(2) by (simp add: c1_def c2_def)
  define c3 where "c3 = c2\<lparr>inbound := [], writes_left := n - 4,
    written := written c2 @ [Frame (Message.RpcRequest \<lparr>req_id = 2, req_method = rpcm\<rparr>)]\<rparr>"
  have m: "rpc_round_trip de 2 rpcm c2 = (case result of RpcOk ok \<Rightarrow> Inr ok | RpcErr msg \<Rightarrow> Inl (DaemonMessage msg), c3)"
    using round_trip_answered [OF assms(1) down(3), of c2 "[]" 2 rpcm] assms(2) by (simp add: c1_def c2_def c3_def)
  have c3: "writes_left c3 \<noteq> 0" "written c3 = ctl_wires version token rpcm False"
    using assms(2) by (simp_all add: c1_def c2_def c3_def ctl_wires_def)
  then show ?thesis by (cases result) (simp_all add: ctl_call_def o a m put_wire_def ctl_wires_def)
qed

section \<open>Properties\<close>

text \<open>
  C22: A control command is served once and its answer is the daemon's. A daemon that made its token
  file and a client that was given this file agree on the token; the daemon that receives what the
  client writes authenticates it, runs the method exactly once and ends without an error, and the
  client that receives what the daemon writes reports exactly the result of the method, a failure
  with the daemon's own text.
\<close>
theorem ctl_call_served:
  assumes "codec_ok mser de" and "3 \<le> writes" and "5 \<le> n" and "\<nexists>t. rpcm = Authenticate t"
    and "ensure_token readable ok (Some fresh) disk = (Some token, disk')" and "length fresh = TOKEN_BYTES"
    and "answer = dispatch_method ser (env 1) d rpcm"
    and "wires_bytes mser (ctl_wires version token rpcm (is_ok (fst answer))) = Inr bytes_up"
    and "wires_bytes mser (Prelude # map Frame (ctl_replies sid (fst answer))) = Inr down"
    and "c = \<lparr>inbound = map Byte down, writes_left = n, written = []\<rparr>"
  shows "handle_session de ser env token writes sid False d (map Byte bytes_up)
      = (Ended, ctl_replies sid (fst answer), True, snd answer)
    \<and> (case ctl_call de version True False (resolve_token None (Some path) (\<lambda>_. disk')) rpcm c of (r, c') \<Rightarrow>
        r = (case fst answer of RpcOk result \<Rightarrow> Inr result | RpcErr msg \<Rightarrow> Inl (DaemonMessage msg))
        \<and> written c' = ctl_wires version token rpcm (is_ok (fst answer)))"
proof -
  have "fresh \<noteq> []" using assms(6) by (auto simp: TOKEN_BYTES_def)
  from ensured_token [OF assms(5) this] have token: "resolve_token None (Some path) (\<lambda>_. disk') = Inr token"
    by (auto simp: resolve_token_def)
  show ?thesis unfolding token
    using daemon_serves_call [OF assms(1,2,4,8), of ser env sid d] client_gets_answer [OF assms(1,3,10,9), of version token rpcm]
    by (simp add: assms(7))
qed

definition demo_method :: RpcMethod where
  "demo_method = PrepareDataPlane None (SocketAddrV4 0 1) None []"

definition demo_bundle :: BootstrapBundle where
  "demo_bundle = \<lparr>tcp_addr = SocketAddrV4 0 1, quic_addr = None, session_token = [], quic_server_cert_sha256 = None,
     capabilities = capabilities_tcp\<rparr>"

definition demo_token :: ustring where
  "demo_token = the (random_hex_token (Some (replicate TOKEN_BYTES 0)))"

definition ctl_messages :: "Message list" where
  "ctl_messages = [build_ctl_hello [], Message.RpcRequest \<lparr>req_id = 1, req_method = Authenticate demo_token\<rparr>,
     Message.RpcRequest \<lparr>req_id = 2, req_method = demo_method\<rparr>, Message.Goodbye (ascii ''ctl done'')]
     @ ctl_replies 7 (RpcOk (DataPlanePrepared demo_bundle))"

theorem ctl_call_served_witness:
  "\<exists>bytes_up down.
     handle_session (list_de ctl_messages) demo_snap_ser (\<lambda>_. demo_env) demo_token 3 7 False demo_state (map Byte bytes_up)
       = (Ended, ctl_replies 7 (RpcOk (DataPlanePrepared demo_bundle)), True, demo_state)
   \<and> fst (ctl_call (list_de ctl_messages) [] True False (resolve_token None (Some []) (\<lambda>_. Some demo_token)) demo_method
       \<lparr>inbound = map Byte down, writes_left = 5, written = []\<rparr>) = Inr (DataPlanePrepared demo_bundle)"
proof -
  have answer: "dispatch_method demo_snap_ser demo_env demo_state demo_method = (RpcOk (DataPlanePrepared demo_bundle), demo_state)"
    by (simp add: demo_method_def demo_bundle_def)
  have token: "ensure_token True True (Some (replicate TOKEN_BYTES 0)) None = (Some demo_token, Some demo_token)"
    by (simp add: ensure_token_def demo_token_def random_hex_token_def)
  let ?r = "RpcOk (DataPlanePrepared demo_bundle)"
  have "list_all (\<lambda>w. case w of Prelude \<Rightarrow> True | Frame m \<Rightarrow> m \<in> set ctl_messages) (ctl_wires [] demo_token demo_method True)"
    "list_all (\<lambda>w. case w of Prelude \<Rightarrow> True | Frame m \<Rightarrow> m \<in> set ctl_messages) (Prelude # map Frame (ctl_replies 7 ?r))"
    by (simp_all add: ctl_messages_def ctl_wires_def ctl_replies_def)
  then obtain bytes_up down where b: "wires_bytes (list_ser ctl_messages) (ctl_wires [] demo_token demo_method (is_ok (fst (?r, demo_state)))) = Inr bytes_up"
      "wires_bytes (list_ser ctl_messages) (Prelude # map Frame (ctl_replies 7 (fst (?r, demo_state)))) = Inr down"
    using list_wires_encode by (metis fst_conv is_ok.simps(1))
  have codec: "codec_ok (list_ser ctl_messages) (list_de ctl_messages)" by (rule list_codec) (simp add: ctl_messages_def ctl_replies_def)
  have "\<nexists>t. demo_method = Authenticate t" by (simp add: demo_method_def)
  from ctl_call_served [OF codec order_refl order_refl this token _ _ b refl, of demo_snap_ser "\<lambda>_. demo_env" demo_state "[]"] answer show ?thesis
    by (intro exI [of _ bytes_up] exI [of _ down]) (auto split: prod.splits)
qed

end
