(* ===== verification/Spec2Isabelle.thy ===== *)
theory Spec2Isabelle
  imports VBox_Prelude Proto Datagram Ime Control_Session View_Loop Server_Session Frame_Buffer Viewer_Windows Quic_Listener
    Cli_Machines Ctl_Call
begin

text \<open>
  \<^bold>\<open>A verification development for vbox\<close>

  vbox shows the windows of Linux applications that run in a guest as windows of a macOS host.
  A control daemon (\<open>crates/controld\<close>) starts and stops guest servers and applications on
  request; the guest server (\<open>crates/server\<close>) accepts clients and, for a view, runs a nested
  Wayland compositor; the client (\<open>crates/client\<close>) paints the tiles it receives, composes
  typed text and keeps the clipboards in step; both ends share the wire protocol of
  \<open>crates/proto\<close>. A command line tool on the host (\<open>crates/vbox-cli\<close>) assigns ports to instances,
  installs launchers and reaches guests and remote hosts over ssh. The theories model these parts as executable functions on explicit states,
  with the source's names.

  \<^item> \<open>VBox_Prelude\<close>: types, strings as lists of code points, the standard library's integer
    arithmetic, big-endian bytes, association lists, and the locale \<open>invariant_machine\<close> of step
    functions that keep an invariant.
  \<^item> \<open>Proto\<close> (\<open>crates/proto/src\<close>): message types, prelude, frame encoder and reader over a byte
    stream with read timeouts. Frames are read back exactly and nothing but frames is
    accepted; a timeout inside a frame loses its beginning.
  \<^item> \<open>Datagram\<close> (\<open>proto/src/data_plane.rs\<close>, \<open>client/src/data_plane/quic.rs\<close>): tiles split into
    datagrams and reassembled in any order, with bounds on what a peer can make the client hold.
  \<^item> \<open>Ime_Core\<close>, \<open>Ime_Hangul\<close>, \<open>Ime_Kana\<close>, \<open>Ime\<close> (\<open>client/src/viewer/ime\<close>): the composers for Hangul
    and kana behind one interface, a locale of lossless composers that both interpret, the
    switch between them and the emoji splitter.
  \<^item> \<open>Control_Daemon\<close>, \<open>Control_Session\<close> (\<open>crates/controld/src\<close>): the table of instances with its
    snapshots, restart and recovery, and the authenticated session over it.
  \<^item> \<open>Surface_Capture\<close>, \<open>Wayland_App\<close>, \<open>Wayland_Session\<close> (\<open>server/src/wayland_session\<close>): copying of
    shared-memory buffers into tiles, and the compositor's state machine: windows and their
    modes, focus, popups, child surfaces, pointer, keyboard, text input, commits and repaints.
    \<open>app_step\<close> is one callback or host event, \<open>app_inv\<close> the invariant of all reachable states.
  \<^item> \<open>Clipboard_Sync\<close> (\<open>client/src/clipboard.rs\<close>, \<open>host_clipboard.rs\<close>, \<open>clipboard.rs\<close>): both sides
    of the clipboard with a queue in each direction, under every interleaving.
  \<^item> \<open>Server_Session\<close> (\<open>server/src/main.rs\<close>, \<open>io.rs\<close>, \<open>input_registration.rs\<close>, \<open>volume.rs\<close>): accept
    loop, session loop, view reader, sender slots, volume clamp.
  \<^item> \<open>View_Loop\<close> (\<open>wayland_session::run\<close>): the loop that joins compositor, clipboard and viewer.
  \<^item> \<open>Frame_Buffer\<close> (\<open>client/src/viewer/frame.rs\<close>): the viewer's frame buffer as a refinement of
    an abstract screen, through the locale \<open>tile_display\<close>; content rectangle and scaled copy.
  \<^item> \<open>Viewer_Input\<close> (\<open>client/src/viewer/input.rs\<close>, \<open>app.rs\<close>): key tables, shortcuts, the table of
    keys the guest holds, keyboard and input-method handling on top of the composers.
  \<^item> \<open>Float_Model\<close>: rounding to 24 and 53 bits of precision as exact rational arithmetic, the
    conversions between floats and integers that saturate, and when a quotient is rounded away
    from an integer.
  \<^item> \<open>Viewer_Geometry\<close>, \<open>Viewer_Windows\<close> (\<open>client/src/viewer\<close>): mapping of host pixels to guest pixels,
    manual moves and resizes, snapping; the window table of the viewer with its messages, host
    events, debounced resizes and wake-up times as one state machine \<open>viewer_app_step\<close>.
  \<^item> \<open>Client_Volume\<close> (\<open>client/src/volume\<close>), \<open>Client_Net\<close> (\<open>client/src/net.rs\<close>, \<open>data_plane\<close>): the volume
    poller; handshakes, pings, commands with their fallback, view threads and certificate pins,
    over TCP and QUIC through the locale \<open>frame_transport\<close> that both interpret.
  \<^item> \<open>Quic_Listener\<close> (\<open>server/src/data_plane\<close>): the server's side of a QUIC connection, its
    token, one-shot streams, and the writer of a view with datagrams, channel streams and fallbacks.
  \<^item> \<open>Cli_Context\<close> (\<open>vbox-cli/src/context.rs\<close>, \<open>runtime.rs\<close>, \<open>client/src/launch.rs\<close>), \<open>Cli_Machines\<close>
    (\<open>vbox-cli/src/remote.rs\<close>, \<open>machines\<close>, \<open>ssh.rs\<close>): the host's command line tool: instance ports,
    the cache of guest applications, launcher bundles and what they start; stored machines, remote
    hosts and passwords, and ssh commands checked against a specification of shell quoting.
  \<^item> \<open>Ctl_Call\<close> (\<open>client/src/ctl\<close>, \<open>controld/src/main.rs\<close>): control commands of the client and the
    token file, composed with the daemon's session: a call is answered as the daemon served it.
  \<^item> This theory composes capture and frame buffer: what a guest draws is what the viewer
    shows, and what a dismissed popup leaves behind; and the daemon's fingerprints with the
    client's certificate pins.

  \<^bold>\<open>Conventions.\<close> Machine integers are words, or natural numbers with the wrap-around written
  out; floats are rationals that are rounded after every operation. Errors and panics are values.
  Serialisation (postcard) is a pair of functions with the hypothesis \<open>codec_ok\<close>, that decoding
  inverts encoding; witnesses instantiate it. What the operating system, smithay, winit, the
  pasteboard and the clock answer are arguments. A connection is the bytes that arrive, the number
  of writes it takes before it breaks and what was written. Loops over a stream terminate because
  every frame read shortens it; polling loops because their budget shrinks; there is no fuel,
  except that the reader threads of a view stop when the receiver of their channel is gone,
  after a number of messages that is an argument.

  \<^bold>\<open>Not modelled.\<close> TLS and certificate generation, argument parsing, thread and event loop
  creation, icons, the audio device, the processes \<open>crates/vbox-cli\<close> runs (ssh, cargo, tunnels, prlctl) with
  its installer and printed tables, debug dumps, the Swift application, log texts. They are input and output around the modelled parts or code of
  libraries.
\<close>

section \<open>From the guest's buffer to the viewer's pixel\<close>

lemma captured_tile_ok:
  assumes "buffer_ok (data, src)" and "supported (bd_format data)"
    and "copy_shm_buffer_with_bounds (data, src) wid ox oy bounds = Inr (Some t)"
    and "4 * unat (tile_w t) * unat (tile_h t) < 2 ^ 32"
  shows "tile_ok t"
proof -
  obtain r where r: "surface_copy_rect_with_bounds (bd_width data) (bd_height data) ox oy bounds = Some r"
    using captured_tile [OF assms(1,2), of wid ox oy bounds] assms(3)
    by (cases "surface_copy_rect_with_bounds (bd_width data) (bd_height data) ox oy bounds") auto
  show ?thesis
    using captured_tile [OF assms(1,2), of wid ox oy bounds] assms(3,4) r by (auto simp: tile_ok_def)
qed

lemma captured_pixel_shown:
  assumes "buffer_ok (data, src)" and "supported (bd_format data)"
    and "copy_shm_buffer_with_bounds (data, src) wid ox oy bounds = Inr (Some t)"
    and "surface_copy_rect_with_bounds (bd_width data) (bd_height data) ox oy bounds = Some r"
    and "4 * unat (tile_w t) * unat (tile_h t) < 2 ^ 32"
    and "fb_ok fb" and "fits t (fb_width fb) (fb_height fb)"
  shows "\<exists>fb'. viewer_step t fb = Some fb' \<and> fb_ok fb'
    \<and> (\<forall>x y. sc_pixel (abs_frame fb') x y =
        (if unat (dst_x r) \<le> x \<and> x < unat (dst_x r) + unat (cr_width r)
            \<and> unat (dst_y r) \<le> y \<and> y < unat (dst_y r) + unat (cr_height r)
         then
           (case convert_shm_pixel (bd_format data) (take 4 (drop
                (src_position r (unat (bd_offset data)) (unat (bd_stride data)) (x - unat (dst_x r)) (y - unat (dst_y r))) src)) of
              Some rgba \<Rightarrow> (if rgba ! 3 < VISIBLE_ALPHA_THRESHOLD then sc_pixel (abs_frame fb) x y
                else rgba_to_pixel (ucast (rgba ! 0)) (ucast (rgba ! 1)) (ucast (rgba ! 2)) (ucast (rgba ! 3)))
            | None \<Rightarrow> sc_pixel (abs_frame fb) x y)
         else sc_pixel (abs_frame fb) x y))"
proof -
  have ok: "tile_ok t" by (rule captured_tile_ok [OF assms(1-3,5)])
  from captured_tile [OF assms(1,2), of wid ox oy bounds] assms(3,4) have t:
    "tile_x t = dst_x r" "tile_y t = dst_y r" "tile_w t = cr_width r" "tile_h t = cr_height r"
    "unat (tile_stride t) = 4 * unat (tile_w t)" "length (tile_bytes t) = unat (tile_stride t) * unat (tile_h t)"
    "\<And>x y. x < unat (tile_w t) \<Longrightarrow> y < unat (tile_h t) \<Longrightarrow> convert_shm_pixel (bd_format data)
        (take 4 (drop (src_position r (unat (bd_offset data)) (unat (bd_stride data)) x y) src))
      = Some (take 4 (drop (y * unat (tile_stride t) + x * 4) (tile_bytes t)))"
    by auto
  obtain fb' where fb': "viewer_step t fb = Some fb'" "fb_ok fb'" "abs_frame fb' = paint t (abs_frame fb)"
    using apply_tile_paints [OF assms(6) ok assms(7)] by (auto simp: viewer_step_def)
  have "sc_pixel (abs_frame fb') x y =
        (if unat (dst_x r) \<le> x \<and> x < unat (dst_x r) + unat (cr_width r)
            \<and> unat (dst_y r) \<le> y \<and> y < unat (dst_y r) + unat (cr_height r)
         then
           (case convert_shm_pixel (bd_format data) (take 4 (drop
                (src_position r (unat (bd_offset data)) (unat (bd_stride data)) (x - unat (dst_x r)) (y - unat (dst_y r))) src)) of
              Some rgba \<Rightarrow> (if rgba ! 3 < VISIBLE_ALPHA_THRESHOLD then sc_pixel (abs_frame fb) x y
                else rgba_to_pixel (ucast (rgba ! 0)) (ucast (rgba ! 1)) (ucast (rgba ! 2)) (ucast (rgba ! 3)))
            | None \<Rightarrow> sc_pixel (abs_frame fb) x y)
         else sc_pixel (abs_frame fb) x y)" for x y
  proof (cases "tile_covers t x y")
    case True
    then have xy: "x - unat (dst_x r) < unat (tile_w t)" "y - unat (dst_y r) < unat (tile_h t)"
      by (auto simp: tile_covers_def t)
    have "(y - unat (tile_y t), x - unat (tile_x t)) \<in> set (paint_order t)"
      using True by (auto simp: set_paint_order tile_covers_def)
    from source_in_range [OF ok this] have off: "tile_offset t x y + 3 < length (tile_bytes t)"
      by (simp add: pp_src_def tile_offset_def)
    have nth: "take 4 (drop (tile_offset t x y) (tile_bytes t)) ! k = tile_bytes t ! (tile_offset t x y + k)" if "k < 4" for k
      using off that by simp
    have "(y - unat (dst_y r)) * unat (tile_stride t) + (x - unat (dst_x r)) * 4 = tile_offset t x y"
      by (simp add: tile_offset_def t(1,2))
    with t(7) [OF xy] True nth [of 0] nth [of 1] nth [of 2] nth [of 3] show ?thesis
      unfolding fb'(3) by (simp add: paint_def tile_shows_def tile_pixel_def tile_covers_def t(1-4))
  next
    case False
    then show ?thesis unfolding fb'(3) by (auto simp: paint_def tile_shows_def tile_covers_def t(1-4))
  qed
  with fb' show ?thesis by blast
qed



section \<open>A dismissed popup\<close>

lemma whole_copy_rect:
  assumes "0 < sint w" and "0 < sint h"
  shows "surface_copy_rect_with_bounds w h 0 0 None
    = Some \<lparr>skip_x = 0, skip_y = 0, dst_x = 0, dst_y = 0, cr_width = w, cr_height = h\<rparr>"
  using positive_below [OF assms(1)] positive_below [OF assms(2)]
  by (auto simp: surface_copy_rect_with_bounds_def Let_def unsigned_abs_if_neg_def nonneg_part_def word_le_nat_alt
      unat_eq_0)

lemma popup_destroyed_repaints:
  assumes "map_of (popup_routes app) key = Some route" and "window_surface app (pr_window_id route) = Some rt"
    and "rt \<noteq> key" and "map_of (current_buffers app) rt = Some b" and "shm env b = Some contents"
    and "copy_shm_buffer contents (pr_window_id route) 0 0 = Inr (Some t)"
  shows "tx (popup_destroyed env key app) = tx app @ [Message.FrameTile t]"
  using assms by (auto simp: popup_destroyed_def remove_popup_route_for_surface_def clear_child_surface_tracking_def
      repaint_window_from_cached_buffer_def captured_def enqueue_message_def window_surface_def delete_conv' Let_def)

text \<open>
  C36: A dismissed popup leaves a ghost over transparent parts of its window. When a popup is
  destroyed the compositor sends the whole cached buffer of the window it belongs to, to
  overwrite the popup's pixels, but the viewer skips the pixels of a tile that are nearly
  transparent. So wherever the window's own pixel is nearly transparent, the viewer goes on
  showing what it showed before: the popup.
\<close>
theorem dismissed_popup_ghost:
  assumes "map_of (popup_routes app) key = Some route" and "window_surface app (pr_window_id route) = Some rt"
    and "rt \<noteq> key" and "map_of (current_buffers app) rt = Some b" and "shm env b = Some (data, src)"
    and "buffer_ok (data, src)" and "supported (bd_format data)"
    and "4 * unat (bd_width data) * unat (bd_height data) < 2 ^ 32"
    and "fb_ok fb" and "max (fb_width fb) (unat (bd_width data)) * max (fb_height fb) (unat (bd_height data)) < 2 ^ 32"
    and "x < unat (bd_width data)" and "y < unat (bd_height data)"
    and "convert_shm_pixel (bd_format data)
      (take 4 (drop (unat (bd_offset data) + y * unat (bd_stride data) + x * 4) src)) = Some rgba"
    and "rgba ! 3 < VISIBLE_ALPHA_THRESHOLD"
  shows "\<exists>t fb'. tx (popup_destroyed env key app) = tx app @ [Message.FrameTile t]
    \<and> viewer_step t fb = Some fb' \<and> sc_pixel (abs_frame fb') x y = sc_pixel (abs_frame fb) x y"
proof -
  have pos: "0 < sint (bd_width data)" "0 < sint (bd_height data)" using assms(6) by (auto simp: buffer_ok_def)
  note r = whole_copy_rect [OF pos]
  obtain t where t: "copy_shm_buffer_with_bounds (data, src) (pr_window_id route) 0 0 None = Inr (Some t)"
      "tile_x t = 0" "tile_y t = 0" "tile_w t = bd_width data" "tile_h t = bd_height data"
    using captured_tile [OF assms(6,7), of "pr_window_id route" 0 0 None] r by auto
  have fit: "fits t (fb_width fb) (fb_height fb)"
    using assms(10) positive_below [OF pos(1)] positive_below [OF pos(2)]
    by (simp add: fits_def t max_absorb1 [of 1] max.coboundedI2)
  obtain fb' where "viewer_step t fb = Some fb'" "sc_pixel (abs_frame fb') x y = sc_pixel (abs_frame fb) x y"
    using captured_pixel_shown [OF assms(6,7) t(1) r _ assms(9) fit] assms(8,11-) by (auto simp: t src_position_def)
  moreover have "tx (popup_destroyed env key app) = tx app @ [Message.FrameTile t]"
    using t(1) by (intro popup_destroyed_repaints [OF assms(1-5)]) (simp add: copy_shm_buffer_def)
  ultimately show ?thesis by blast
qed

definition popup_over_window :: App where
  "popup_over_window = (app_start 2 1)
     \<lparr>windows := [(1, demo_window)], current_buffers := [((1, 5), 5)],
      popup_routes := [((1, 9), \<lparr>pr_window_id = 1, pr_x = 0, pr_y = 0, pr_width = 1, pr_height = 1\<rparr>)]\<rparr>"

definition one_buffer :: guest_env where
  "one_buffer = \<lparr>tree = \<lambda>_. [], shm = \<lambda>b. if b = 5 then Some demo_buffer else None\<rparr>"

theorem dismissed_popup_ghost_witness:
  "\<exists>t fb'. tx (popup_destroyed one_buffer (1, 9) popup_over_window) = [Message.FrameTile t]
    \<and> viewer_step t (frame_buffer_new 2 1) = Some fb'
    \<and> sc_pixel (abs_frame fb') 0 0 = sc_pixel (abs_frame (frame_buffer_new 2 1)) 0 0"
proof -
  have ok: "buffer_ok demo_buffer" by (simp add: buffer_ok_def demo_buffer_def)
  define fb where "fb = frame_buffer_new 2 1"
  have fb: "fb_ok fb" "fb_width fb = 2" "fb_height fb = 1"
    by (simp_all add: fb_def frame_buffer_new_def fb_resize_def replace_buffer_preserving_pixels_def Let_def fb_ok_def
        splice_row_def)
  show ?thesis
    unfolding fb_def [symmetric]
    using dismissed_popup_ghost [where app = popup_over_window and env = one_buffer and key = "(1, 9)"
      and rt = "(1, 5)" and b = 5
      and route = "\<lparr>pr_window_id = 1, pr_x = 0, pr_y = 0, pr_width = 1, pr_height = 1\<rparr>"
      and data = "fst demo_buffer" and src = "snd demo_buffer" and fb = fb and x = 0 and y = 0
      and rgba = "[30, 20, 10, 40]"] ok fb
    by (simp add: popup_over_window_def demo_window_def one_buffer_def window_surface_def app_start_def demo_buffer_def
        supported_def VISIBLE_ALPHA_THRESHOLD_def)
qed

section \<open>From the daemon's pin to the client's check\<close>

lemma hex_lower_digit:
  assumes "d < 16"
  shows "is_ascii_hexdigit (hex_lower d)" and "hex_value (hex_lower d) = d" and "hex_lower d \<noteq> 0x3A" and "utf8_width (hex_lower d) = 1"
  using assms by (auto simp: hex_lower_def is_ascii_hexdigit_def hex_value_def utf8_width_def)

lemma sha256_hex_parts:
  "filter (\<lambda>ch. ch \<noteq> 0x3A) (sha256_hex bs) = sha256_hex bs" "list_all is_ascii_hexdigit (sha256_hex bs)"
  "utf8_len (sha256_hex bs) = 2 * length bs" "hex_pairs (sha256_hex bs) = bs"
proof -
  have nibbles: "unat b div 16 < 16" "unat b mod 16 < 16" for b :: u8
    using unat_lt_len [of b] by (simp_all add: less_mult_imp_div_less)
  show "filter (\<lambda>ch. ch \<noteq> 0x3A) (sha256_hex bs) = sha256_hex bs" "list_all is_ascii_hexdigit (sha256_hex bs)"
    "utf8_len (sha256_hex bs) = 2 * length bs" "hex_pairs (sha256_hex bs) = bs"
    by (induction bs) (simp_all add: sha256_hex_def utf8_len_def hex_lower_digit nibbles)
qed

text \<open>
  A pinned client talks to the daemon's server and to no other: the pin the daemon computes for
  a certificate parses back to exactly its digest, and a client that was given this pin connects to a
  reachable server if and only if that server presents a certificate with the same digest,
  whether or not verification may be skipped.
\<close>
theorem pin_accepts_only_own_certificate:
  assumes "length digest = 32"
  shows "parse_sha256_hex (sha256_hex digest) = Inr digest
    \<and> (fst (quic_connect \<lparr>reachable = True, cert_sha256 = presented, insecure_skip_verify = skip\<rparr> (Some (sha256_hex digest)) c) = Inr ()
       \<longleftrightarrow> presented = digest)"
proof -
  have "parse_sha256_hex (sha256_hex digest) = Inr digest"
    using assms by (simp add: parse_sha256_hex_def Let_def sha256_hex_parts)
  then show ?thesis by (simp add: quic_connect_def client_config_def net_run)
qed

theorem pin_accepts_only_own_certificate_witness:
  "parse_sha256_hex (sha256_hex (replicate 32 0xA7)) = Inr (replicate 32 0xA7)
   \<and> fst (quic_connect \<lparr>reachable = True, cert_sha256 = replicate 32 0xA8, insecure_skip_verify = True\<rparr> (Some (sha256_hex (replicate 32 0xA7)))
      \<lparr>inbound = [], writes_left = 1, written = []\<rparr>) \<noteq> Inr ()"
  using pin_accepts_only_own_certificate [of "replicate 32 0xA7" "replicate 32 0xA8" True "\<lparr>inbound = [], writes_left = 1, written = []\<rparr>"]
  by (simp add: replicate_eq_replicate)

end
